(* ===== verification/Rust_Prelude.thy ===== *)
theory Rust_Prelude
  imports Main "HOL-Library.Word"
begin

text \<open>
  Shared vocabulary of the development: Rust's fixed-width integers and their checked and
  saturating arithmetic, Rust strings as lists of Unicode scalar values with the standard
  library operations the sources call (\<open>trim\<close>, \<open>split_whitespace\<close>, \<open>join\<close>, \<open>len\<close>),
  the \<open>?\<close> operator on \<open>Result\<close>, and the generic list lemmas the components share.
\<close>

named_theorems rust_arith \<open>facts about checked and saturating machine arithmetic\<close>
named_theorems result_simps \<open>facts about the propagation of errors\<close>

section \<open>Machine integers\<close>

type_synonym u8 = "8 word"
type_synonym u16 = "16 word"
type_synonym u32 = "32 word"
type_synonym u64 = "64 word"

text \<open>\<open>uN::MAX\<close>, \<open>saturating_add\<close>, \<open>saturating_sub\<close>, \<open>saturating_mul\<close> and \<open>checked_add\<close>.\<close>

definition max_of :: "'a::len word" where
  "max_of = - 1"

definition saturating_add :: "'a::len word \<Rightarrow> 'a word \<Rightarrow> 'a word" where
  "saturating_add a b = (if unat a + unat b < 2 ^ LENGTH('a) then a + b else max_of)"

definition saturating_sub :: "'a::len word \<Rightarrow> 'a word \<Rightarrow> 'a word" where
  "saturating_sub a b = (if b \<le> a then a - b else 0)"

definition saturating_mul :: "'a::len word \<Rightarrow> 'a word \<Rightarrow> 'a word" where
  "saturating_mul a b = (if unat a * unat b < 2 ^ LENGTH('a) then a * b else max_of)"

definition checked_add :: "'a::len word \<Rightarrow> 'a word \<Rightarrow> 'a word option" where
  "checked_add a b = (if unat a + unat b < 2 ^ LENGTH('a) then Some (a + b) else None)"

lemma unat_max_of [rust_arith]: "unat (max_of :: 'a::len word) = 2 ^ LENGTH('a) - 1"
  by (simp add: max_of_def unsigned_minus_1_eq_mask mask_eq_exp_minus_1)

lemma le_max_of [simp]: "(a :: 'a::len word) \<le> max_of"
  by (simp add: max_of_def)

lemma unat_bounded [rust_arith]: "unat (a :: 'a::len word) \<le> 2 ^ LENGTH('a) - 1"
  using le_max_of [of a] by (simp only: word_le_nat_alt unat_max_of)

lemma unat_saturating_add [rust_arith]:
  "unat (saturating_add a b :: 'a::len word) = min (unat a + unat b) (2 ^ LENGTH('a) - 1)"
  by (auto simp: saturating_add_def unat_max_of unat_word_ariths)

lemma unat_saturating_sub [rust_arith]: "unat (saturating_sub a b) = unat a - unat b"
  by (auto simp: saturating_sub_def unat_sub word_le_nat_alt)

lemma unat_saturating_mul [rust_arith]:
  "unat (saturating_mul a b :: 'a::len word) = min (unat a * unat b) (2 ^ LENGTH('a) - 1)"
  by (auto simp: saturating_mul_def unat_max_of unat_word_ariths)

lemma checked_add_Some [rust_arith]:
  "checked_add a b = Some c \<longleftrightarrow> unat a + unat b < 2 ^ LENGTH('a) \<and> c = (a + b :: 'a::len word)"
  by (auto simp: checked_add_def)

lemma unat_add_no_overflow [rust_arith]:
  "unat a + unat b < 2 ^ LENGTH('a) \<Longrightarrow> unat (a + b :: 'a::len word) = unat a + unat b"
  by (simp add: unat_word_ariths)

lemma saturating_add_mono: "(a :: 'a::len word) \<le> saturating_add a b"
  by (simp add: word_le_nat_alt unat_saturating_add unat_bounded del: One_nat_def)

text \<open>Code equations that stay inside the word type.\<close>

lemma no_overflow_code: "unat a + unat b < 2 ^ LENGTH('a) \<longleftrightarrow> a \<le> max_of - (b :: 'a::len word)"
proof -
  have "unat (max_of - b) = 2 ^ LENGTH('a) - 1 - unat b"
    by (simp add: unat_sub unat_max_of)
  moreover have "unat b < 2 ^ LENGTH('a)" by (rule unsigned_less)
  ultimately show ?thesis unfolding word_le_nat_alt by linarith
qed

lemma saturating_add_code [code]: "saturating_add a b = (if a \<le> max_of - b then a + b else max_of)"
  by (simp add: saturating_add_def no_overflow_code)

lemma saturating_mul_code [code]:
  "saturating_mul a b = (if b = 0 \<or> a \<le> max_of div b then a * b else max_of)"
proof -
  have "unat a * unat b < 2 ^ LENGTH('a) \<longleftrightarrow> b = 0 \<or> a \<le> max_of div (b :: 'a word)"
  proof (cases "b = 0")
    case False
    then have pos: "0 < unat b" by (simp add: unat_gt_0)
    have "unat a * unat b < 2 ^ LENGTH('a) \<longleftrightarrow> unat a * unat b \<le> 2 ^ LENGTH('a) - 1"
      using zero_less_power [of "2 :: nat" "LENGTH('a)"] by linarith
    also have "\<dots> \<longleftrightarrow> a \<le> max_of div b"
      by (simp add: word_le_nat_alt unat_div unat_max_of less_eq_div_iff_mult_less_eq [OF pos] del: One_nat_def)
    finally show ?thesis using False by simp
  qed simp
  then show ?thesis by (simp add: saturating_mul_def)
qed

lemma checked_add_code [code]: "checked_add a b = (if a \<le> max_of - b then Some (a + b) else None)"
  by (simp add: checked_add_def no_overflow_code)

section \<open>Results and the question-mark operator\<close>

text \<open>
  \<open>Result<T, E>\<close> is the sum type \<open>'e + 'a\<close> with \<open>Inl\<close> for \<open>Err\<close> and \<open>Inr\<close> for \<open>Ok\<close>.
  \<open>and_then\<close> is \<open>?\<close> in a pure function. \<open>guard_ok r s k\<close> is \<open>r?; k\<close> in a method with a
  \<open>&mut self\<close> receiver whose fields currently are \<open>s\<close>: on an error the method returns and
  the receiver keeps exactly the value \<open>s\<close> it has at that program point.
\<close>

type_synonym ('e, 'a) result = "'e + 'a"

fun and_then :: "('e, 'a) result \<Rightarrow> ('a \<Rightarrow> ('e, 'b) result) \<Rightarrow> ('e, 'b) result" where
  "and_then (Inl e) f = Inl e"
| "and_then (Inr x) f = f x"

fun guard_ok :: "('e, unit) result \<Rightarrow> 's \<Rightarrow> 's \<times> ('e, 'a) result \<Rightarrow> 's \<times> ('e, 'a) result" where
  "guard_ok (Inl e) s k = (s, Inl e)"
| "guard_ok (Inr u) s k = k"

fun is_ok :: "('e, 'a) result \<Rightarrow> bool" where
  "is_ok (Inl e) = False"
| "is_ok (Inr x) = True"

lemma is_ok_iff [result_simps]: "is_ok r \<longleftrightarrow> (\<exists>x. r = Inr x)"
  by (cases r) auto

lemma is_ok_unit: "is_ok (snd p) \<Longrightarrow> p = (fst p, Inr ())"
  by (cases p; cases "snd p") auto

lemma and_then_Inr [result_simps]: "and_then r f = Inr y \<longleftrightarrow> (\<exists>x. r = Inr x \<and> f x = Inr y)"
  by (cases r) auto

lemma and_then_Inl [result_simps]:
  "and_then r f = Inl e \<longleftrightarrow> r = Inl e \<or> (\<exists>x. r = Inr x \<and> f x = Inl e)"
  by (cases r) auto

lemma guard_ok_Inr [result_simps]:
  "guard_ok r s k = (s', Inr y) \<longleftrightarrow> r = Inr () \<and> k = (s', Inr y)"
  by (cases r) auto

lemma guard_ok_Inl [result_simps]:
  "guard_ok r s k = (s', Inl e) \<longleftrightarrow> (r = Inl e \<and> s' = s) \<or> (r = Inr () \<and> k = (s', Inl e))"
  by (cases r) auto


section \<open>Strings\<close>

text \<open>
  A Rust \<open>char\<close> is a Unicode scalar value, a \<open>String\<close> a sequence of them; \<open>str_len\<close> is
  \<open>str::len\<close>, the number of UTF-8 bytes. \<open>lit\<close> turns an ASCII literal into a Rust string.
  \<open>is_whitespace\<close> is \<open>char::is_whitespace\<close>, the Unicode property White\_Space.
\<close>

type_synonym rchar = nat
type_synonym rstr = "rchar list"

definition lit :: "string \<Rightarrow> rstr" where
  "lit = map of_char"

definition is_whitespace :: "rchar \<Rightarrow> bool" where
  "is_whitespace c \<longleftrightarrow>
     (9 \<le> c \<and> c \<le> 13) \<or> c = 32 \<or> c = 133 \<or> c = 160 \<or> c = 5760 \<or>
     (8192 \<le> c \<and> c \<le> 8202) \<or> c = 8232 \<or> c = 8233 \<or> c = 8239 \<or> c = 8287 \<or> c = 12288"

definition len_utf8 :: "rchar \<Rightarrow> nat" where
  "len_utf8 c = (if c < 128 then 1 else if c < 2048 then 2 else if c < 65536 then 3 else 4)"

definition str_len :: "rstr \<Rightarrow> nat" where
  "str_len s = sum_list (map len_utf8 s)"

definition trim_start :: "rstr \<Rightarrow> rstr" where
  "trim_start s = dropWhile is_whitespace s"

definition trim_end :: "rstr \<Rightarrow> rstr" where
  "trim_end s = rev (dropWhile is_whitespace (rev s))"

definition trim :: "rstr \<Rightarrow> rstr" where
  "trim s = trim_end (trim_start s)"

function split_whitespace :: "rstr \<Rightarrow> rstr list" where
  "split_whitespace s =
     (if trim_start s = [] then []
      else takeWhile (\<lambda>c. \<not> is_whitespace c) (trim_start s) #
           split_whitespace (dropWhile (\<lambda>c. \<not> is_whitespace c) (trim_start s)))"
  by pat_completeness auto
termination
proof (relation "measure length", simp, simp)
  fix s assume ne: "trim_start s \<noteq> []"
  then have hd: "\<not> is_whitespace (hd (trim_start s))"
    by (simp add: trim_start_def hd_dropWhile)
  have "length (dropWhile (\<lambda>c. \<not> is_whitespace c) (trim_start s)) < length (trim_start s)"
    using ne hd by (cases "trim_start s") (auto simp: length_dropWhile_le le_imp_less_Suc)
  also have "\<dots> \<le> length s"
    by (simp add: trim_start_def length_dropWhile_le)
  finally show "length (dropWhile (\<lambda>c. \<not> is_whitespace c) (trim_start s)) < length s" .
qed

declare split_whitespace.simps [simp del]

fun join :: "rstr \<Rightarrow> rstr list \<Rightarrow> rstr" where
  "join sep [] = []"
| "join sep [w] = w"
| "join sep (w # v # ws) = w @ sep @ join sep (v # ws)"

text \<open>Decimal rendering of an unsigned integer, as \<open>Display\<close> writes it.\<close>

fun decimal :: "nat \<Rightarrow> rstr" where
  "decimal n = (if n < 10 then [48 + n] else decimal (n div 10) @ [48 + n mod 10])"

declare decimal.simps [simp del]

lemma lit_Nil [simp]: "lit [] = []"
  by (simp add: lit_def)

lemma lit_inj: "lit a = lit b \<longleftrightarrow> a = b"
proof -
  have "inj (of_char :: char \<Rightarrow> nat)"
    by (auto simp: inj_def)
  then show ?thesis
    unfolding lit_def by (rule inj_map_eq_map)
qed

lemma len_utf8_pos [simp]: "0 < len_utf8 c"
  by (simp add: len_utf8_def)

lemma str_len_simps [simp]:
  "str_len [] = 0" "str_len (c # s) = len_utf8 c + str_len s" "str_len (s @ t) = str_len s + str_len t"
  by (simp_all add: str_len_def)

lemma length_le_str_len: "length s \<le> str_len s"
proof (induction s)
  case (Cons c s)
  have "Suc 0 \<le> len_utf8 c"
    using len_utf8_pos [of c] by (rule Suc_leI)
  with Cons show ?case by simp
qed simp

lemma str_len_eq_0 [simp]: "str_len s = 0 \<longleftrightarrow> s = []"
  by (cases s) simp_all

lemma rev_dropWhile_rev_Nil: "rev (dropWhile P (rev xs)) = [] \<longleftrightarrow> (\<forall>x\<in>set xs. P x)"
  by (simp add: dropWhile_eq_Nil_conv)

lemma trim_eq_Nil: "trim s = [] \<longleftrightarrow> (\<forall>c\<in>set s. is_whitespace c)"
proof -
  have "trim s = [] \<longleftrightarrow> (\<forall>c\<in>set (dropWhile is_whitespace s). is_whitespace c)"
    by (simp add: trim_def trim_end_def trim_start_def rev_dropWhile_rev_Nil)
  also have "\<dots> \<longleftrightarrow> dropWhile is_whitespace s = []"
    by (metis hd_dropWhile hd_in_set list.set(1) empty_iff)
  finally show ?thesis
    by (simp add: dropWhile_eq_Nil_conv)
qed

lemma trim_Nil [simp]: "trim [] = []"
  by (simp add: trim_eq_Nil)

lemma set_trim: "set (trim s) \<subseteq> set s"
  by (metis set_dropWhileD set_rev subsetI trim_def trim_end_def trim_start_def)

lemma length_trim_le: "length (trim s) \<le> length s"
  unfolding trim_def trim_end_def trim_start_def
  by (metis length_dropWhile_le length_rev order_trans)

lemma trim_end_last: "trim_end s \<noteq> [] \<Longrightarrow> \<not> is_whitespace (last (trim_end s))"
  by (simp add: trim_end_def last_rev hd_dropWhile)

lemma trim_end_prefix: "\<exists>t. s = trim_end s @ t \<and> (\<forall>c\<in>set t. is_whitespace c)"
proof -
  have "s = rev (dropWhile is_whitespace (rev s)) @ rev (takeWhile is_whitespace (rev s))"
    by (metis rev_append rev_rev_ident takeWhile_dropWhile_id)
  moreover have "\<forall>c\<in>set (rev (takeWhile is_whitespace (rev s))). is_whitespace c"
    by (auto dest: set_takeWhileD)
  ultimately show ?thesis
    unfolding trim_end_def by blast
qed

lemma trim_ends:
  assumes "trim s \<noteq> []"
  shows "\<not> is_whitespace (hd (trim s)) \<and> \<not> is_whitespace (last (trim s))"
proof -
  have last: "\<not> is_whitespace (last (trim s))"
    using assms unfolding trim_def by (rule trim_end_last)
  obtain t where t: "trim_start s = trim s @ t"
    using trim_end_prefix [of "trim_start s"] by (auto simp: trim_def)
  then have "hd (trim_start s) = hd (trim s)" and "trim_start s \<noteq> []"
    using assms by auto
  then have "\<not> is_whitespace (hd (trim s))"
    by (metis trim_start_def hd_dropWhile)
  with last show ?thesis by simp
qed

lemma trim_idem [simp]: "trim (trim s) = trim s"
proof (cases "trim s = []")
  case False
  then have "trim_start (trim s) = trim s"
    using trim_ends [OF False] by (cases "trim s") (simp_all add: trim_start_def)
  moreover have "rev (trim s) \<noteq> [] \<and> \<not> is_whitespace (hd (rev (trim s)))"
    using trim_ends [OF False] False by (simp add: hd_rev)
  then have "trim_end (trim s) = trim s"
    by (cases "rev (trim s)") (auto simp: trim_end_def rev_swap)
  ultimately show ?thesis
    by (simp add: trim_def)
qed simp

lemma split_whitespace_words:
  "w \<in> set (split_whitespace s) \<Longrightarrow> w \<noteq> [] \<and> (\<forall>c\<in>set w. \<not> is_whitespace c)"
proof (induction s rule: split_whitespace.induct)
  case (1 s)
  show ?case
  proof (cases "trim_start s = []")
    case True
    with 1 show ?thesis by (simp add: split_whitespace.simps [of s])
  next
    case False
    let ?w = "takeWhile (\<lambda>c. \<not> is_whitespace c) (trim_start s)"
    have "\<not> is_whitespace (hd (trim_start s))"
      using False by (simp add: trim_start_def hd_dropWhile)
    then have "?w \<noteq> [] \<and> (\<forall>c\<in>set ?w. \<not> is_whitespace c)"
      using False by (cases "trim_start s") (auto dest: set_takeWhileD)
    moreover have "split_whitespace s =
        ?w # split_whitespace (dropWhile (\<lambda>c. \<not> is_whitespace c) (trim_start s))"
      using False by (subst split_whitespace.simps) simp
    ultimately show ?thesis
      using 1(1) [OF False] 1(2) by (metis set_ConsD)
  qed
qed

section \<open>Lists\<close>

text \<open>
  \<open>Iterator::any\<close>, \<open>all\<close>, \<open>find\<close> and \<open>position\<close> are \<open>list_ex\<close>, \<open>list_all\<close>, \<open>find\<close> and
  the function below; a loop that checks every element and stops at the first error is
  \<open>for_each\<close>.
\<close>

text \<open>\<open>slice::get\<close>.\<close>

definition get :: "'a list \<Rightarrow> nat \<Rightarrow> 'a option" where
  "get xs i = (if i < length xs then Some (xs ! i) else None)"

fun position :: "('a \<Rightarrow> bool) \<Rightarrow> 'a list \<Rightarrow> nat option" where
  "position p [] = None"
| "position p (x # xs) = (if p x then Some 0 else map_option Suc (position p xs))"

fun for_each :: "('a \<Rightarrow> ('e, unit) result) \<Rightarrow> 'a list \<Rightarrow> ('e, unit) result" where
  "for_each f [] = Inr ()"
| "for_each f (x # xs) = and_then (f x) (\<lambda>_. for_each f xs)"

lemma get_append: "get (xs @ ys) (length xs + i) = get ys i"
  by (simp add: get_def nth_append)

lemma get_Cons: "get (x # xs) 0 = Some x" "get (x # xs) (Suc i) = get xs i" "get [] i = None"
  by (simp_all add: get_def)

lemma position_None: "position p xs = None \<longleftrightarrow> (\<forall>x\<in>set xs. \<not> p x)"
  by (induction xs) auto

lemma position_Some:
  "position p xs = Some i \<longleftrightarrow> i < length xs \<and> p (xs ! i) \<and> (\<forall>j<i. \<not> p (xs ! j))"
proof (induction xs arbitrary: i)
  case (Cons x xs)
  then show ?case
    by (cases i) (auto simp: less_Suc_eq_0_disj all_conj_distrib)
qed simp

lemma for_each_ok [result_simps]: "for_each f xs = Inr () \<longleftrightarrow> (\<forall>x\<in>set xs. f x = Inr ())"
  by (induction xs) (auto simp: result_simps)

lemma for_each_err [result_simps]:
  "for_each f xs = Inl e \<longleftrightarrow>
     (\<exists>ys x zs. xs = ys @ x # zs \<and> (\<forall>y\<in>set ys. f y = Inr ()) \<and> f x = Inl e)"
proof (induction xs)
  case (Cons a xs)
  show ?case
  proof (cases "f a")
    case (Inl e')
    then have "(\<exists>ys x zs. a # xs = ys @ x # zs \<and> (\<forall>y\<in>set ys. f y = Inr ()) \<and> f x = Inl e) \<longleftrightarrow> e' = e"
      by (metis append_Nil list.inject Cons_eq_append_conv empty_iff list.set_intros(1)
          empty_set sum.distinct(1) sum.inject(1))
    with Inl show ?thesis by simp
  next
    case (Inr u)
    then show ?thesis
      using Cons by (auto simp: Cons_eq_append_conv) (metis append_Cons set_ConsD)+
  qed
qed simp

end
