(* ===== verification/Unix_Path.thy ===== *)
theory Unix_Path
  imports Rust_Prelude "HOL-Library.Sublist"
begin

text \<open>
  \<open>std::path::Path\<close> on Unix, as far as the authority and confinement checks use it: a path is
  compared by its components, so repeated separators and interior \<open>.\<close> segments do not matter.
\<close>

datatype PathComponent = RootDir | CurDir | ParentDir | Normal rstr

fun split_slash :: "rstr \<Rightarrow> rstr list" where
  "split_slash [] = [[]]"
| "split_slash (c # s) =
     (if c = 47 then [] # split_slash s
      else case split_slash s of [] \<Rightarrow> [[c]] | seg # segs \<Rightarrow> (c # seg) # segs)"

definition segment_component :: "rstr \<Rightarrow> PathComponent option" where
  "segment_component seg =
     (if seg = [] \<or> seg = lit ''.'' then None
      else if seg = lit ''..'' then Some ParentDir else Some (Normal seg))"

definition path_components :: "rstr \<Rightarrow> PathComponent list" where
  "path_components p =
     (if p \<noteq> [] \<and> hd p = 47 then RootDir # List.map_filter segment_component (split_slash (tl p))
      else case split_slash p of
             seg # segs \<Rightarrow>
               if seg = lit ''.'' then CurDir # List.map_filter segment_component segs
               else List.map_filter segment_component (seg # segs)
           | [] \<Rightarrow> [])"

text \<open>\<open>Path::starts_with\<close>, \<open>Path::parent\<close> and \<open>Path::file_name\<close> on components.\<close>

definition starts_with :: "PathComponent list \<Rightarrow> PathComponent list \<Rightarrow> bool" where
  "starts_with p base \<longleftrightarrow> take (length base) p = base"

definition path_parent :: "PathComponent list \<Rightarrow> PathComponent list option" where
  "path_parent p = (if p = [] \<or> last p = RootDir then None else Some (butlast p))"

definition file_name :: "PathComponent list \<Rightarrow> rstr option" where
  "file_name p = (if p = [] then None else case last p of Normal n \<Rightarrow> Some n | _ \<Rightarrow> None)"

lemma starts_with_prefix: "starts_with p base \<longleftrightarrow> prefix base p"
  unfolding starts_with_def by (metis append_eq_conv_conj append_take_drop_id prefix_def)

lemma starts_with_refl [simp]: "starts_with p p"
  by (simp add: starts_with_def)

lemma starts_with_trans: "starts_with p q \<Longrightarrow> starts_with q r \<Longrightarrow> starts_with p r"
  by (auto simp: starts_with_prefix intro: prefix_order.trans)

end
