(* ===== verification/Utf8_Codec.thy ===== *)
theory Utf8_Codec
  imports Rust_Prelude "HOL-Library.Sublist"
begin

text \<open>
  UTF-8 as Rust's standard library implements it: the bytes of a \<open>str\<close>, and
  \<open>core::str::from_utf8\<close> with the two facts a \<open>Utf8Error\<close> carries, \<open>valid_up_to\<close> and
  \<open>error_len\<close> (\<open>None\<close> for input that ends inside a character). The file tools depend on both:
  they read a bounded number of bytes and have to tell a character that the bound cut in two
  from bytes that are not text at all.
\<close>

section \<open>Encoding\<close>

text \<open>A Rust \<open>char\<close> is a Unicode scalar value: no surrogates.\<close>

definition is_scalar :: "rchar \<Rightarrow> bool" where
  "is_scalar c \<longleftrightarrow> c < 0xD800 \<or> 0xE000 \<le> c \<and> c < 0x110000"

definition encode_char :: "rchar \<Rightarrow> nat list" where
  "encode_char c =
     (if c < 0x80 then [c]
      else if c < 0x800 then [0xC0 + c div 64, 0x80 + c mod 64]
      else if c < 0x10000 then [0xE0 + c div 4096, 0x80 + c div 64 mod 64, 0x80 + c mod 64]
      else [0xF0 + c div 262144, 0x80 + c div 4096 mod 64, 0x80 + c div 64 mod 64, 0x80 + c mod 64])"

definition as_bytes :: "rstr \<Rightarrow> nat list" where
  "as_bytes s = concat (map encode_char s)"

section \<open>Validation\<close>

text \<open>
  One turn of the validator's loop: a whole character and what follows it, or the \<open>error_len\<close>
  of the failure. The byte ranges are those of the validator, which reject overlong forms,
  surrogates and values past \<open>0x10FFFF\<close>.
\<close>

datatype Utf8Step = Whole rchar "nat list" | Broken "nat option"

definition continuation :: "nat \<Rightarrow> bool" where
  "continuation b \<longleftrightarrow> 0x80 \<le> b \<and> b < 0xC0"

definition second_of_three :: "nat \<Rightarrow> nat \<Rightarrow> bool" where
  "second_of_three a b \<longleftrightarrow>
     (if a = 0xE0 then 0xA0 \<le> b \<and> b < 0xC0 else if a = 0xED then 0x80 \<le> b \<and> b < 0xA0 else continuation b)"

definition second_of_four :: "nat \<Rightarrow> nat \<Rightarrow> bool" where
  "second_of_four a b \<longleftrightarrow>
     (if a = 0xF0 then 0x90 \<le> b \<and> b < 0xC0 else if a = 0xF4 then 0x80 \<le> b \<and> b < 0x90 else continuation b)"

definition decode_two :: "nat \<Rightarrow> nat list \<Rightarrow> Utf8Step" where
  "decode_two a bs =
     (case bs of [] \<Rightarrow> Broken None
      | b # r \<Rightarrow> if continuation b then Whole ((a - 0xC0) * 64 + (b - 0x80)) r else Broken (Some 1))"

definition decode_three :: "nat \<Rightarrow> nat list \<Rightarrow> Utf8Step" where
  "decode_three a bs =
     (case bs of [] \<Rightarrow> Broken None
      | b # bs' \<Rightarrow>
          if \<not> second_of_three a b then Broken (Some 1)
          else case bs' of [] \<Rightarrow> Broken None
               | d # r \<Rightarrow>
                   if continuation d then Whole ((a - 0xE0) * 4096 + (b - 0x80) * 64 + (d - 0x80)) r
                   else Broken (Some 2))"

definition decode_four :: "nat \<Rightarrow> nat list \<Rightarrow> Utf8Step" where
  "decode_four a bs =
     (case bs of [] \<Rightarrow> Broken None
      | b # bs' \<Rightarrow>
          if \<not> second_of_four a b then Broken (Some 1)
          else case bs' of [] \<Rightarrow> Broken None
               | d # bs'' \<Rightarrow>
                   if \<not> continuation d then Broken (Some 2)
                   else case bs'' of [] \<Rightarrow> Broken None
                        | e # r \<Rightarrow>
                            if continuation e
                            then Whole ((a - 0xF0) * 262144 + (b - 0x80) * 4096 + (d - 0x80) * 64 + (e - 0x80)) r
                            else Broken (Some 3))"

definition utf8_step :: "nat \<Rightarrow> nat list \<Rightarrow> Utf8Step" where
  "utf8_step a bs =
     (if a < 0x80 then Whole a bs
      else if 0xC2 \<le> a \<and> a < 0xE0 then decode_two a bs
      else if 0xE0 \<le> a \<and> a < 0xF0 then decode_three a bs
      else if 0xF0 \<le> a \<and> a < 0xF5 then decode_four a bs
      else Broken (Some 1))"

lemma utf8_step_shrinks: "utf8_step a bs = Whole c r \<Longrightarrow> length r \<le> length bs"
  by (auto simp: utf8_step_def decode_two_def decode_three_def decode_four_def
      split: if_splits list.splits)

text \<open>
  \<open>from_utf8\<close>: the text, or the text before the error with the \<open>error_len\<close>. \<open>valid_up_to\<close> is
  the number of bytes of that text.
\<close>

function from_utf8 :: "nat list \<Rightarrow> (rstr \<times> nat option) + rstr" where
  "from_utf8 [] = Inr []"
| "from_utf8 (a # bs) =
     (case utf8_step a bs of
        Broken e \<Rightarrow> Inl ([], e)
      | Whole c r \<Rightarrow> (case from_utf8 r of Inl (s, e) \<Rightarrow> Inl (c # s, e) | Inr s \<Rightarrow> Inr (c # s)))"
  by pat_completeness auto
termination
  by (relation "measure length") (auto dest!: utf8_step_shrinks)

section \<open>Round trips\<close>

lemma length_encode_char [simp]: "length (encode_char c) = len_utf8 c"
  by (simp add: encode_char_def len_utf8_def)

lemma length_as_bytes [simp]: "length (as_bytes s) = str_len s"
  by (induction s) (simp_all add: as_bytes_def)

lemma as_bytes_simps [simp]:
  "as_bytes [] = []" "as_bytes (c # s) = encode_char c @ as_bytes s" "as_bytes (s @ t) = as_bytes s @ as_bytes t"
  by (simp_all add: as_bytes_def)

lemma encode_char_not_Nil [simp]: "encode_char c \<noteq> []"
  by (simp add: encode_char_def)

lemma two_byte_parts:
  assumes "0x80 \<le> c" "c < (0x800 :: nat)"
  shows "2 \<le> c div 64" "c div 64 < 32"
  using assms by linarith+

lemma div_mod_digits:
  fixes c :: nat
  shows "c div 64 * 64 + c mod 64 = c"
    and "c div 4096 * 4096 + c div 64 mod 64 * 64 + c mod 64 = c"
    and "c div 262144 * 262144 + c div 4096 mod 64 * 4096 + c div 64 mod 64 * 64 + c mod 64 = c"
proof -
  have a: "d div 64 * 64 + d mod 64 = d" for d :: nat by simp
  have b: "c div 4096 = c div 64 div 64" "c div 262144 = c div 4096 div 64"
    by (simp_all add: div_mult2_eq [symmetric])
  show one: "c div 64 * 64 + c mod 64 = c" by (rule a)
  show two: "c div 4096 * 4096 + c div 64 mod 64 * 64 + c mod 64 = c"
    using a [of "c div 64"] one unfolding b(1) by linarith
  show "c div 262144 * 262144 + c div 4096 mod 64 * 4096 + c div 64 mod 64 * 64 + c mod 64 = c"
    using a [of "c div 4096"] two unfolding b(2) by linarith
qed

lemma second_of_three_ok:
  assumes "is_scalar c" "0x800 \<le> c" "c < 0x10000"
  shows "second_of_three (0xE0 + c div 4096) (0x80 + c div 64 mod 64)"
proof -
  define q r where "q = c div 4096" and "r = c div 64 mod 64"
  have r: "r < 64" by (simp add: r_def)
  have c: "c = q * 4096 + r * 64 + c mod 64" "c mod 64 < 64"
    using div_mod_digits(2) [of c] by (simp_all add: q_def r_def)
  show ?thesis unfolding second_of_three_def continuation_def q_def [symmetric] r_def [symmetric]
    using c r assms unfolding is_scalar_def by auto
qed

lemma second_of_four_ok:
  assumes "is_scalar c" "0x10000 \<le> c"
  shows "second_of_four (0xF0 + c div 262144) (0x80 + c div 4096 mod 64)" "c div 262144 < 5"
proof -
  define q r s where "q = c div 262144" and "r = c div 4096 mod 64" and "s = c div 64 mod 64"
  have r: "r < 64" "s < 64" by (simp_all add: r_def s_def)
  have c: "c = q * 262144 + r * 4096 + s * 64 + c mod 64" "c mod 64 < 64"
    using div_mod_digits(3) [of c] by (simp_all add: q_def r_def s_def)
  have le: "c < 1114112" using assms unfolding is_scalar_def by auto
  show "second_of_four (0xF0 + c div 262144) (0x80 + c div 4096 mod 64)"
    unfolding second_of_four_def continuation_def q_def [symmetric] r_def [symmetric]
    using c r assms(2) le by auto
  show "c div 262144 < 5" using le by simp
qed

lemma continuation_digit [simp]: "continuation (0x80 + d mod 64)"
  by (simp add: continuation_def)

lemma utf8_step_encode:
  assumes "is_scalar c"
  shows "utf8_step (hd (encode_char c)) (tl (encode_char c) @ r) = Whole c r"
proof -
  consider "c < 0x80" | "0x80 \<le> c" "c < 0x800" | "0x800 \<le> c" "c < 0x10000" | "0x10000 \<le> c"
    by linarith
  then show ?thesis
  proof cases
    case 1
    then show ?thesis by (simp add: encode_char_def utf8_step_def)
  next
    case 2
    then show ?thesis using two_byte_parts [OF 2]
      by (simp add: encode_char_def utf8_step_def decode_two_def)
  next
    case 3
    moreover have "c div 4096 < 16" using 3(2) by linarith
    ultimately show ?thesis using second_of_three_ok [OF assms 3] div_mod_digits(2) [of c]
      by (simp add: encode_char_def utf8_step_def decode_three_def)
  next
    case 4
    then show ?thesis using second_of_four_ok [OF assms 4] div_mod_digits(3) [of c]
      by (simp add: encode_char_def utf8_step_def decode_four_def)
  qed
qed

lemma from_utf8_encode:
  "is_scalar c \<Longrightarrow> from_utf8 (encode_char c @ bs) =
     (case from_utf8 bs of Inl (s, e) \<Rightarrow> Inl (c # s, e) | Inr s \<Rightarrow> Inr (c # s))"
  using utf8_step_encode [of c bs] by (cases "encode_char c") auto

lemma from_utf8_as_bytes: "list_all is_scalar s \<Longrightarrow> from_utf8 (as_bytes s) = Inr s"
  by (induction s) (simp_all add: from_utf8_encode)

text \<open>Input that ends inside a character is reported with no \<open>error_len\<close>.\<close>

lemma take_encode_char:
  assumes "is_scalar c" "0 < k" "k < len_utf8 c"
  shows "from_utf8 (take k (encode_char c)) = Inl ([], None)"
proof -
  consider "0x80 \<le> c" "c < 0x800" | "0x800 \<le> c" "c < 0x10000" | "0x10000 \<le> c"
    using assms(2,3) by (fastforce simp: len_utf8_def split: if_splits)
  then show ?thesis
  proof cases
    case 1
    then have "k = 1" using assms by (auto simp: len_utf8_def)
    then show ?thesis using 1 two_byte_parts [OF 1]
      by (simp add: encode_char_def utf8_step_def decode_two_def)
  next
    case 2
    then have "k \<in> {1, 2}" using assms by (auto simp: len_utf8_def)
    moreover have "c div 4096 < 16" using 2(2) by linarith
    ultimately show ?thesis using 2 second_of_three_ok [OF assms(1) 2]
      by (auto simp: encode_char_def utf8_step_def decode_three_def)
  next
    case 3
    then have "k \<in> {1, 2, 3}" using assms by (auto simp: len_utf8_def)
    then show ?thesis using 3 second_of_four_ok [OF assms(1) 3]
      by (auto simp: encode_char_def utf8_step_def decode_four_def)
  qed
qed

text \<open>
  A byte bound on valid text: the validator accepts, or reports an unfinished character after
  the characters that fit, which fall at most three bytes short of the bound.
\<close>

fun fitting :: "nat \<Rightarrow> rstr \<Rightarrow> rstr" where
  "fitting n [] = []"
| "fitting n (c # s) = (if len_utf8 c \<le> n then c # fitting (n - len_utf8 c) s else [])"

lemma len_utf8_le_4: "len_utf8 c \<le> 4"
  by (simp add: len_utf8_def)

lemma fitting_prefix: "prefix (fitting n s) s"
  by (induction n s rule: fitting.induct) auto

lemma fitting_bound: "str_len (fitting n s) \<le> n"
  by (induction n s rule: fitting.induct) auto

lemma fitting_all: "str_len s \<le> n \<Longrightarrow> fitting n s = s"
  by (induction n s rule: fitting.induct) auto

lemma fitting_nearly: "n \<le> str_len s \<Longrightarrow> n < str_len (fitting n s) + 4"
proof (induction n s rule: fitting.induct)
  case (2 n c s)
  show ?case
  proof (cases "len_utf8 c \<le> n")
    case True
    then have "n - len_utf8 c < str_len (fitting (n - len_utf8 c) s) + 4" using 2 by simp
    then show ?thesis using True by simp
  qed (use len_utf8_le_4 [of c] in simp)
qed simp

lemma fitting_longest: "prefix p s \<Longrightarrow> str_len p \<le> n \<Longrightarrow> prefix p (fitting n s)"
proof (induction n s arbitrary: p rule: fitting.induct)
  case (2 n c s)
  then show ?case by (cases p) auto
qed simp

lemma fitting_fitting: "m \<le> n \<Longrightarrow> fitting m (fitting n s) = fitting m s"
  by (induction n s arbitrary: m rule: fitting.induct) auto

lemma from_utf8_take:
  "list_all is_scalar s \<Longrightarrow> from_utf8 (take n (as_bytes s)) = Inr (fitting n s) \<or>
     n \<le> str_len s \<and> from_utf8 (take n (as_bytes s)) = Inl (fitting n s, None)"
proof (induction n s rule: fitting.induct)
  case (2 n c s)
  show ?case
  proof (cases "len_utf8 c \<le> n")
    case True
    then show ?thesis using 2 by (auto simp: from_utf8_encode)
  next
    case False
    then show ?thesis using 2(2) take_encode_char [of c n] by (cases n) auto
  qed
qed simp

end
