(* ===== verification/File_System.thy ===== *)
theory File_System
  imports Unix_Path Utf8_Codec
begin

text \<open>
  The file system the tools act on, as \<open>std::fs\<close> shows it on Unix: a tree of named nodes
  addressed by location (the list of names from the root), and the kernel's walk of a path,
  which follows symbolic links up to the usual limit of forty. \<open>canonicalize\<close>,
  \<open>symlink_metadata\<close>, \<open>File::open\<close> and \<open>fs::write\<close> are this walk with a different rule for
  the last segment. Hard links, mounts and permissions are not modelled; concurrent changes
  between two calls of one tool are not either.
\<close>

section \<open>Nodes and locations\<close>

datatype FsNode = Directory | RegularFile "nat list" | Symlink rstr | Special

type_synonym location = "rstr list"
type_synonym file_tree = "location \<Rightarrow> FsNode option"

record FileSystem =
  nodes :: file_tree
  current_dir :: location

datatype IoErrorKind = NotFound | NotADirectory | IsADirectory | FilesystemLoop | InvalidData | OtherIo

definition trivial :: "rstr \<Rightarrow> bool" where
  "trivial seg \<longleftrightarrow> seg = [] \<or> seg = lit ''.''"

definition valid_name :: "rstr \<Rightarrow> bool" where
  "valid_name n \<longleftrightarrow> \<not> trivial n \<and> n \<noteq> lit ''..'' \<and> 47 \<notin> set n"

definition tree_ok :: "file_tree \<Rightarrow> bool" where
  "tree_ok t \<longleftrightarrow> t [] = Some Directory \<and>
     (\<forall>p n. t (p @ [n]) \<noteq> None \<longrightarrow> valid_name n \<and> t p = Some Directory)"

definition is_link :: "FsNode \<Rightarrow> bool" where
  "is_link x \<longleftrightarrow> (case x of Symlink _ \<Rightarrow> True | _ \<Rightarrow> False)"

section \<open>Walking a path\<close>

text \<open>
  The last segment is followed (\<open>canonicalize\<close>, \<open>open\<close>), not followed (\<open>symlink_metadata\<close>), or
  followed and allowed to be missing (\<open>open\<close> with \<open>O_CREAT\<close>). A trailing slash or dot leaves a
  segment after the last name, so the name before it is followed and must be a directory.
\<close>

datatype LastSegment = Follow | NoFollow | Create

definition is_absolute :: "rstr \<Rightarrow> bool" where
  "is_absolute p \<longleftrightarrow> p \<noteq> [] \<and> hd p = 47"

function walk :: "LastSegment \<Rightarrow> file_tree \<Rightarrow> nat \<Rightarrow> location \<Rightarrow> rstr list \<Rightarrow> (IoErrorKind, location) result" where
  "walk m t k cur [] = Inr cur"
| "walk m t k cur (seg # rest) =
     (if t cur \<noteq> Some Directory then Inl NotADirectory
      else if trivial seg then walk m t k cur rest
      else if seg = lit ''..'' then walk m t k (butlast cur) rest
      else case t (cur @ [seg]) of
             None \<Rightarrow> if m = Create \<and> rest = [] then Inr (cur @ [seg]) else Inl NotFound
           | Some (Symlink target) \<Rightarrow>
               if m = NoFollow \<and> rest = [] then Inr (cur @ [seg])
               else (case k of 0 \<Rightarrow> Inl FilesystemLoop
                     | Suc k' \<Rightarrow> walk m t k' (if is_absolute target then [] else cur) (split_slash target @ rest))
           | Some _ \<Rightarrow> walk m t k (cur @ [seg]) rest)"
  by pat_completeness auto
termination
  by (relation "measures [\<lambda>(m, t, k, cur, segs). k, \<lambda>(m, t, k, cur, segs). length segs]") auto

definition MAX_SYMLINKS :: nat where
  "MAX_SYMLINKS = 40"

definition walk_path :: "LastSegment \<Rightarrow> FileSystem \<Rightarrow> rstr \<Rightarrow> (IoErrorKind, location) result" where
  "walk_path m fs p =
     (if p = [] then Inl NotFound
      else walk m (nodes fs) MAX_SYMLINKS (if is_absolute p then [] else current_dir fs) (split_slash p))"

section \<open>The operations of the standard library\<close>

text \<open>\<open>PathBuf\<close> of a location, \<open>Path::join\<close>, and a path spelled from its components.\<close>

definition location_path :: "location \<Rightarrow> rstr" where
  "location_path loc = (if loc = [] then [47] else concat (map ((#) 47) loc))"

definition path_join :: "rstr \<Rightarrow> rstr \<Rightarrow> rstr" where
  "path_join base p =
     (if is_absolute p then p
      else if base = [] \<or> last base = 47 then base @ p else base @ 47 # p)"

fun component_text :: "PathComponent \<Rightarrow> rstr" where
  "component_text RootDir = []"
| "component_text CurDir = lit ''.''"
| "component_text ParentDir = lit ''..''"
| "component_text (Normal n) = n"

definition components_path :: "PathComponent list \<Rightarrow> rstr" where
  "components_path cs = (if cs = [RootDir] then [47] else join [47] (map component_text cs))"

definition parent_path :: "rstr \<Rightarrow> rstr option" where
  "parent_path p = map_option components_path (path_parent (path_components p))"

definition canonicalize :: "FileSystem \<Rightarrow> rstr \<Rightarrow> (IoErrorKind, rstr) result" where
  "canonicalize fs p = and_then (walk_path Follow fs p) (\<lambda>loc. Inr (location_path loc))"

definition node_at :: "FileSystem \<Rightarrow> location \<Rightarrow> (IoErrorKind, FsNode) result" where
  "node_at fs loc = (case nodes fs loc of None \<Rightarrow> Inl NotFound | Some x \<Rightarrow> Inr x)"

definition symlink_metadata :: "FileSystem \<Rightarrow> rstr \<Rightarrow> (IoErrorKind, FsNode) result" where
  "symlink_metadata fs p = and_then (walk_path NoFollow fs p) (node_at fs)"

definition metadata :: "FileSystem \<Rightarrow> rstr \<Rightarrow> (IoErrorKind, FsNode) result" where
  "metadata fs p = and_then (walk_path Follow fs p) (node_at fs)"

text \<open>
  Opening a file and reading all of it, and \<open>fs::write\<close>, which truncates or creates the file and
  writes the bytes; the disk may refuse the open or stop after some bytes.
\<close>

definition read_bytes :: "FileSystem \<Rightarrow> rstr \<Rightarrow> (IoErrorKind, nat list) result" where
  "read_bytes fs p =
     and_then (metadata fs p)
       (\<lambda>x. case x of RegularFile bs \<Rightarrow> Inr bs | Directory \<Rightarrow> Inl IsADirectory | _ \<Rightarrow> Inl OtherIo)"

datatype DiskWrite = Completed | NotOpened | StoppedAfter nat

fun written :: "DiskWrite \<Rightarrow> nat list \<Rightarrow> nat list" where
  "written (StoppedAfter n) bs = take n bs"
| "written _ bs = bs"

definition fs_write :: "FileSystem \<Rightarrow> DiskWrite \<Rightarrow> rstr \<Rightarrow> nat list \<Rightarrow> FileSystem \<times> (IoErrorKind, unit) result" where
  "fs_write fs d p bs =
     (case walk_path Create fs p of
        Inl e \<Rightarrow> (fs, Inl e)
      | Inr loc \<Rightarrow>
          (case nodes fs loc of
             Some Directory \<Rightarrow> (fs, Inl IsADirectory)
           | Some (Symlink _) \<Rightarrow> (fs, Inl FilesystemLoop)
           | Some Special \<Rightarrow> (fs, if d = Completed then Inr () else Inl OtherIo)
           | _ \<Rightarrow>
               if d = NotOpened then (fs, Inl OtherIo)
               else (fs\<lparr>nodes := (nodes fs)(loc \<mapsto> RegularFile (written d bs))\<rparr>,
                     if d = Completed then Inr () else Inl OtherIo)))"

section \<open>Paths and their segments\<close>

lemma split_slash_not_Nil [simp]: "split_slash p \<noteq> []"
  by (induction p) (auto split: list.splits)

lemma split_slash_append: "split_slash (a @ 47 # b) = split_slash a @ split_slash b"
  by (induction a) (auto split: list.splits simp: Cons_eq_append_conv)

lemma split_slash_plain: "47 \<notin> set a \<Longrightarrow> split_slash a = [a]"
  by (induction a) auto

lemma split_slash_Nil_hd: "split_slash (47 # b) = [] # split_slash b"
  by simp

lemma split_slash_no_slash: "seg \<in> set (split_slash p) \<Longrightarrow> 47 \<notin> set seg"
  by (induction p arbitrary: seg) (auto split: list.splits if_splits)

lemma split_slash_names:
  assumes "list_all valid_name loc"
  shows "split_slash (concat (map ((#) 47) loc) @ 47 # p) = [] # loc @ split_slash p"
  using assms
proof (induction loc)
  case (Cons n loc)
  have "split_slash (n @ concat (map ((#) 47) loc) @ 47 # p) = n # loc @ split_slash p"
  proof (cases loc)
    case Nil
    then show ?thesis using Cons.prems by (simp add: split_slash_append split_slash_plain valid_name_def)
  next
    case (Cons n' loc')
    have "split_slash (n @ 47 # (n' @ concat (map ((#) 47) loc') @ 47 # p)) = n # n' # loc' @ split_slash p"
      using Cons Cons.prems Cons.IH by (simp add: split_slash_append split_slash_plain valid_name_def)
    then show ?thesis using Cons by simp
  qed
  then show ?case by simp
qed simp

lemma location_path_join:
  assumes "list_all valid_name loc" "\<not> is_absolute p"
  shows "split_slash (path_join (location_path loc) p) = [] # loc @ split_slash p"
proof (cases "loc = []")
  case True
  then show ?thesis using assms(2) by (simp add: path_join_def location_path_def)
next
  case False
  obtain loc' n where loc: "loc = loc' @ [n]" using False by (cases loc rule: rev_cases) auto
  have n: "n \<noteq> []" "last n \<noteq> 47"
    using assms(1) unfolding loc by (auto simp: valid_name_def trivial_def dest: last_in_set)
  have "path_join (location_path loc) p = concat (map ((#) 47) loc) @ 47 # p"
    using assms(2) False n by (simp add: path_join_def location_path_def loc)
  then show ?thesis using split_slash_names [OF assms(1)] by simp
qed

lemma absolute_join: "is_absolute (path_join (location_path loc) p)"
  by (cases loc) (auto simp: path_join_def location_path_def is_absolute_def)

lemma absolute_location: "is_absolute (location_path loc)" "location_path loc \<noteq> []"
  by (cases loc; simp add: location_path_def is_absolute_def)+

lemma split_location_path:
  assumes "list_all valid_name loc" "loc \<noteq> []"
  shows "split_slash (location_path loc) = [] # loc"
proof -
  obtain loc' n where loc: "loc = loc' @ [n]" using assms(2) by (cases loc rule: rev_cases) auto
  have "split_slash n = [n]" using assms(1) loc by (simp add: split_slash_plain valid_name_def)
  moreover have "split_slash (concat (map ((#) 47) loc') @ 47 # n) = [] # loc' @ split_slash n"
    by (rule split_slash_names) (use assms(1) loc in simp)
  ultimately show ?thesis using assms(2) by (simp add: location_path_def loc)
qed

lemma segment_component_name: "valid_name n \<Longrightarrow> segment_component n = Some (Normal n)"
  by (simp add: segment_component_def valid_name_def trivial_def)

lemma map_filter_names: "list_all valid_name ns \<Longrightarrow> List.map_filter segment_component ns = map Normal ns"
  by (induction ns) (simp_all add: segment_component_name List.map_filter_def)

lemma absolute_components:
  "is_absolute p \<Longrightarrow> path_components p = RootDir # List.map_filter segment_component (tl (split_slash p))"
  by (cases p) (auto simp: path_components_def is_absolute_def)

lemma map_filter_append: "List.map_filter f (xs @ ys) = List.map_filter f xs @ List.map_filter f ys"
  by (simp add: List.map_filter_def)

lemma location_components:
  "list_all valid_name loc \<Longrightarrow> path_components (location_path loc) = RootDir # map Normal loc"
  using map_filter_names [of loc] split_location_path [of loc] absolute_location(1) [of loc]
  by (cases "loc = []")
    (simp_all add: absolute_components location_path_def segment_component_def List.map_filter_def)

lemma join_components:
  assumes "list_all valid_name loc" "\<not> is_absolute p"
  shows "path_components (path_join (location_path loc) p) =
    RootDir # map Normal loc @ List.map_filter segment_component (split_slash p)"
  using assms location_path_join [OF assms] absolute_join [of loc p]
  by (simp add: absolute_components map_filter_append map_filter_names)

lemma components_path_names:
  assumes "list_all valid_name ns"
  shows "components_path (RootDir # map Normal ns) = location_path ns"
proof (cases "ns = []")
  case False
  have "join [47] ([] # map component_text (map Normal ns)) = concat (map ((#) 47) ns)"
    using False
  proof (induction ns)
    case (Cons n ns)
    then show ?case by (cases ns) auto
  qed simp
  then show ?thesis using False by (simp add: components_path_def location_path_def)
qed (simp add: components_path_def location_path_def)

section \<open>Laws of the walk\<close>

definition name_segment :: "rstr \<Rightarrow> bool" where
  "name_segment seg \<longleftrightarrow> \<not> trivial seg \<and> seg \<noteq> lit ''..''"

lemma valid_name_segment: "valid_name n \<Longrightarrow> name_segment n"
  by (simp add: valid_name_def name_segment_def)

lemma dots_not_trivial [simp]: "\<not> trivial (lit ''..'')"
  by (simp add: trivial_def lit_inj flip: lit_Nil)

text \<open>The steps of a walk, as rewrite rules and as a case analysis of a successful walk.\<close>

lemma walk_trivial: "t cur = Some Directory \<Longrightarrow> trivial seg \<Longrightarrow> walk m t k cur (seg # rest) = walk m t k cur rest"
  by simp

lemma walk_up: "t cur = Some Directory \<Longrightarrow> walk m t k cur (lit ''..'' # rest) = walk m t k (butlast cur) rest"
  by simp

lemma walk_name:
  "t cur = Some Directory \<Longrightarrow> name_segment seg \<Longrightarrow> t (cur @ [seg]) = Some x \<Longrightarrow> \<not> is_link x
     \<Longrightarrow> walk m t k cur (seg # rest) = walk m t k (cur @ [seg]) rest"
  by (cases x) (simp_all add: is_link_def name_segment_def)

lemma walk_link:
  "t cur = Some Directory \<Longrightarrow> name_segment seg \<Longrightarrow> t (cur @ [seg]) = Some (Symlink target)
     \<Longrightarrow> \<not> (m = NoFollow \<and> rest = [])
     \<Longrightarrow> walk m t (Suc k) cur (seg # rest) =
         walk m t k (if is_absolute target then [] else cur) (split_slash target @ rest)"
  by (auto simp: name_segment_def)

lemma walk_Cons_cases:
  assumes "walk m t k cur (seg # rest) = Inr loc"
  obtains (trivial) "t cur = Some Directory" "trivial seg" "walk m t k cur rest = Inr loc"
  | (up) "t cur = Some Directory" "seg = lit ''..''" "walk m t k (butlast cur) rest = Inr loc"
  | (missing) "t cur = Some Directory" "name_segment seg" "t (cur @ [seg]) = None" "m = Create" "rest = []"
      "loc = cur @ [seg]"
  | (last_link) target where "t cur = Some Directory" "name_segment seg" "t (cur @ [seg]) = Some (Symlink target)"
      "m = NoFollow" "rest = []" "loc = cur @ [seg]"
  | (link) target k' where "t cur = Some Directory" "name_segment seg" "t (cur @ [seg]) = Some (Symlink target)"
      "\<not> (m = NoFollow \<and> rest = [])" "k = Suc k'"
      "walk m t k' (if is_absolute target then [] else cur) (split_slash target @ rest) = Inr loc"
  | (name) x where "t cur = Some Directory" "name_segment seg" "t (cur @ [seg]) = Some x" "\<not> is_link x"
      "walk m t k (cur @ [seg]) rest = Inr loc"
proof -
  have dir: "t cur = Some Directory" using assms by (auto split: if_splits)
  consider "trivial seg" | "seg = lit ''..''" | "name_segment seg" unfolding name_segment_def by blast
  then show thesis
  proof cases
    case 3
    show ?thesis
    proof (cases "t (cur @ [seg])")
      case None
      then show ?thesis using missing [OF dir 3 None] assms dir 3
        by (simp add: name_segment_def split: if_splits)
    next
      case (Some x)
      show ?thesis
      proof (cases x)
        case (Symlink target)
        then show ?thesis
          using last_link [OF dir 3, of target] link [OF dir 3, of target] assms dir 3 Some
          by (simp add: name_segment_def split: if_splits nat.splits)
      qed (use name [OF dir 3 Some] walk_name [OF dir 3 Some] assms in \<open>simp_all add: is_link_def\<close>)
    qed
  qed (use trivial up assms dir in \<open>simp_all\<close>)
qed

text \<open>An induction principle for successful walks, one case per step.\<close>

lemma walk_induct_ok [consumes 1, case_names stop trivial up missing last_link link name]:
  assumes "walk m t k cur segs = Inr loc"
    and "\<And>k. P k loc []"
    and "\<And>k cur seg rest. t cur = Some Directory \<Longrightarrow> trivial seg \<Longrightarrow> walk m t k cur rest = Inr loc
           \<Longrightarrow> P k cur rest \<Longrightarrow> P k cur (seg # rest)"
    and "\<And>k cur rest. t cur = Some Directory \<Longrightarrow> walk m t k (butlast cur) rest = Inr loc
           \<Longrightarrow> P k (butlast cur) rest \<Longrightarrow> P k cur (lit ''..'' # rest)"
    and "\<And>k cur seg. t cur = Some Directory \<Longrightarrow> name_segment seg \<Longrightarrow> t (cur @ [seg]) = None \<Longrightarrow> m = Create
           \<Longrightarrow> loc = cur @ [seg] \<Longrightarrow> P k cur [seg]"
    and "\<And>k cur seg target. t cur = Some Directory \<Longrightarrow> name_segment seg \<Longrightarrow> t (cur @ [seg]) = Some (Symlink target)
           \<Longrightarrow> m = NoFollow \<Longrightarrow> loc = cur @ [seg] \<Longrightarrow> P k cur [seg]"
    and "\<And>k cur seg rest target. t cur = Some Directory \<Longrightarrow> name_segment seg
           \<Longrightarrow> t (cur @ [seg]) = Some (Symlink target) \<Longrightarrow> \<not> (m = NoFollow \<and> rest = [])
           \<Longrightarrow> walk m t k (if is_absolute target then [] else cur) (split_slash target @ rest) = Inr loc
           \<Longrightarrow> P k (if is_absolute target then [] else cur) (split_slash target @ rest)
           \<Longrightarrow> P (Suc k) cur (seg # rest)"
    and "\<And>k cur seg rest x. t cur = Some Directory \<Longrightarrow> name_segment seg \<Longrightarrow> t (cur @ [seg]) = Some x
           \<Longrightarrow> \<not> is_link x \<Longrightarrow> walk m t k (cur @ [seg]) rest = Inr loc \<Longrightarrow> P k (cur @ [seg]) rest
           \<Longrightarrow> P k cur (seg # rest)"
  shows "P k cur segs"
  using assms(1)
proof (induction "(k, length segs)" arbitrary: k cur segs rule: wf_induct_rule [OF wf_lex_prod [OF wf_less wf_less]])
  case (1 k segs cur)
  show ?case
  proof (cases segs)
    case Nil
    then show ?thesis using "1.prems" assms(2) by simp
  next
    case (Cons seg rest)
    have IH: "walk m t k' cur' segs' = Inr loc \<Longrightarrow> k' < k \<or> k' = k \<and> length segs' < length segs \<Longrightarrow> P k' cur' segs'"
      for k' cur' segs' using 1(1) by simp
    from "1.prems" [unfolded Cons] show ?thesis
      by (cases rule: walk_Cons_cases) (use IH Cons assms(3-8) in \<open>blast | simp\<close>)+
  qed
qed

lemma walk_follow_found:
  assumes "walk Follow t k cur segs = Inr loc" "tree_ok t" "t cur = Some x" "\<not> is_link x"
  shows "\<exists>y. t loc = Some y \<and> \<not> is_link y"
  using assms(1,3,4)
proof (induction arbitrary: x rule: walk_induct_ok)
  case (up k cur rest)
  have "t (butlast cur) = Some Directory"
    using assms(2) up(1) unfolding tree_ok_def by (cases cur rule: rev_cases) auto
  then show ?case using up by (auto simp: is_link_def)
next
  case (link k cur seg rest target)
  have "t [] = Some Directory" using assms(2) by (simp add: tree_ok_def)
  then show ?case using link by (auto simp: is_link_def split: if_splits)
qed auto

lemma tree_ok_prefix: "tree_ok t \<Longrightarrow> t (p @ q) \<noteq> None \<Longrightarrow> q \<noteq> [] \<Longrightarrow> t p = Some Directory"
proof (induction q rule: rev_induct)
  case (snoc n q)
  then have "t (p @ q) = Some Directory"
    unfolding tree_ok_def by (metis append.assoc)
  then show ?case using snoc by (cases "q = []") auto
qed simp

lemma tree_ok_names: "tree_ok t \<Longrightarrow> t p \<noteq> None \<Longrightarrow> list_all valid_name p"
proof (induction p rule: rev_induct)
  case (snoc n p)
  then show ?case unfolding tree_ok_def by auto
qed simp

text \<open>Walking a location that holds no link ends there; it costs no link traversal.\<close>

lemma walk_names:
  assumes "tree_ok t" "t (cur @ loc) = Some x" "\<not> is_link x"
  shows "walk m t k cur (loc @ segs) = walk m t k (cur @ loc) segs"
  using assms(2)
proof (induction loc arbitrary: cur)
  case (Cons n loc)
  have name: "name_segment n"
    using tree_ok_names [OF assms(1), of "cur @ n # loc"] Cons.prems by (simp add: valid_name_segment)
  have dir: "t cur = Some Directory"
    using tree_ok_prefix [OF assms(1), of cur "n # loc"] Cons.prems by simp
  obtain y where y: "t (cur @ [n]) = Some y" "\<not> is_link y"
    using tree_ok_prefix [OF assms(1), of "cur @ [n]" loc] Cons.prems assms(3)
    by (cases "loc = []") (auto simp: is_link_def)
  show ?case using walk_name [OF dir name y, of m k "loc @ segs"] Cons.IH [of "cur @ [n]"] Cons.prems
    by (simp del: walk.simps)
qed simp

text \<open>A walk of a longer path is a walk of its beginning and then of the rest.\<close>

lemma walk_append:
  "walk m t k cur (segs @ rest) = Inr loc \<Longrightarrow> rest \<noteq> []
     \<Longrightarrow> \<exists>d k'. walk Follow t k cur segs = Inr d \<and> walk m t k' d rest = Inr loc"
proof (induction "(k, length segs)" arbitrary: k cur segs
    rule: wf_induct_rule [OF wf_lex_prod [OF wf_less wf_less]])
  case (1 k segs cur)
  show ?case
  proof (cases segs)
    case Nil
    then show ?thesis using "1.prems" by auto
  next
    case (Cons seg segs')
    have IH: "walk m t k' cur' (ss @ rest) = Inr loc \<Longrightarrow> k' < k \<or> k' = k \<and> length ss < length segs
        \<Longrightarrow> \<exists>d k''. walk Follow t k' cur' ss = Inr d \<and> walk m t k'' d rest = Inr loc" for k' cur' ss
      using 1(1) "1.prems"(2) by simp
    from "1.prems"(1) [unfolded Cons append_Cons] show ?thesis
    proof (cases rule: walk_Cons_cases)
      case trivial
      then show ?thesis using IH [of k cur segs'] Cons by (simp only: walk_trivial) simp
    next
      case up
      then show ?thesis using IH [of k "butlast cur" segs'] Cons by (simp only: walk_up) simp
    next
      case (link target k')
      show ?thesis using IH [of k' _ "split_slash target @ segs'"] link(5,6) Cons
        walk_link [OF link(1-3), of Follow segs' k'] by (simp del: walk.simps)
    next
      case (name x)
      then show ?thesis using IH [of k "cur @ [seg]" segs'] Cons walk_name [OF name(1-4), of Follow k segs']
        by (simp del: walk.simps)
    qed (use "1.prems"(2) in simp_all)
  qed
qed

lemma walk_extend:
  assumes "walk Follow t k cur segs = Inr d"
  shows "\<exists>k'. \<forall>m rest. rest \<noteq> [] \<longrightarrow> walk m t k cur (segs @ rest) = walk m t k' d rest"
  using assms
proof (induction rule: walk_induct_ok)
  case (link k cur seg rest target)
  then obtain k' where k': "\<And>m rest'. rest' \<noteq> [] \<Longrightarrow>
      walk m t k (if is_absolute target then [] else cur) ((split_slash target @ rest) @ rest') = walk m t k' d rest'"
    by blast
  have "walk m t (Suc k) cur ((seg # rest) @ rest') = walk m t k' d rest'" if "rest' \<noteq> []" for m rest'
    using walk_link [OF link(1-3), of m "rest @ rest'" k] k' [OF that, of m] that by (simp del: walk.simps)
  then show ?case by blast
next
  case (name k cur seg rest x)
  then obtain k' where k': "\<And>m rest'. rest' \<noteq> [] \<Longrightarrow> walk m t k (cur @ [seg]) (rest @ rest') = walk m t k' d rest'"
    by blast
  have "walk m t k cur ((seg # rest) @ rest') = walk m t k' d rest'" if "rest' \<noteq> []" for m rest'
    using walk_name [OF name(1-4), of m k "rest @ rest'"] k' [OF that, of m] by (simp del: walk.simps)
  then show ?case by blast
qed auto

text \<open>Empty and dot segments only check that the walk stands on a directory.\<close>

inductive thinner :: "rstr list \<Rightarrow> rstr list \<Rightarrow> bool" where
  thinner_Nil: "thinner [] []"
| thinner_keep: "thinner xs ys \<Longrightarrow> thinner (y # xs) (y # ys)"
| thinner_drop: "trivial y \<Longrightarrow> thinner xs ys \<Longrightarrow> thinner xs (y # ys)"

inductive_cases thinner_ConsE: "thinner xs (y # ys)"
inductive_cases thinner_NilE: "thinner xs []"

lemma thinner_prefix: "thinner xs ys \<Longrightarrow> thinner (ts @ xs) (ts @ ys)"
  by (induction ts) (auto intro: thinner.intros)

lemma thinner_filter: "thinner (filter (\<lambda>s. \<not> trivial s) ys) ys"
  by (induction ys) (auto intro: thinner.intros)

lemma walk_thinner:
  assumes "walk Follow t k cur ys = Inr d" "thinner xs ys"
  shows "walk Follow t k cur xs = Inr d"
  using assms
proof (induction arbitrary: xs rule: walk_induct_ok)
  case (stop k)
  then show ?case by (auto elim: thinner_NilE)
next
  case (trivial k cur seg rest)
  then show ?case by (auto elim!: thinner_ConsE)
next
  case (up k cur rest)
  then show ?case by (auto elim!: thinner_ConsE)
next
  case (link k cur seg rest target)
  obtain xs' where xs: "xs = seg # xs'" "thinner xs' rest"
    using link(7) link(2) by (auto elim: thinner_ConsE simp: name_segment_def)
  show ?case using walk_link [OF link(1-3), of Follow xs' k] link(6) [OF thinner_prefix [OF xs(2)]] xs(1)
    by (simp del: walk.simps)
next
  case (name k cur seg rest x)
  obtain xs' where xs: "xs = seg # xs'" "thinner xs' rest"
    using name(7) name(2) by (auto elim: thinner_ConsE simp: name_segment_def)
  show ?case using walk_name [OF name(1-4), of Follow k xs'] name(6) [OF xs(2)] xs(1) by (simp del: walk.simps)
qed simp_all

text \<open>A path that ends in a slash or a dot leads to a directory.\<close>

lemma walk_trailing:
  assumes "walk m t k cur segs = Inr loc" "segs \<noteq> []" "trivial (last segs)"
  shows "t loc = Some Directory"
  using assms
proof (induction rule: walk_induct_ok)
  case (trivial k cur seg rest)
  then show ?case by (cases "rest = []") auto
next
  case (up k cur rest)
  then show ?case by (cases "rest = []") auto
next
  case (link k cur seg rest target)
  then show ?case by (cases "rest = []") (auto simp: name_segment_def)
next
  case (name k cur seg rest x)
  then show ?case by (cases "rest = []") (auto simp: name_segment_def)
qed (auto simp: name_segment_def)

text \<open>The last name of a path: missing, followed, or left alone.\<close>

lemma walk_last_name:
  assumes "walk m t k d [n] = Inr loc" "name_segment n" "\<forall>target. t (d @ [n]) \<noteq> Some (Symlink target)"
  shows "loc = d @ [n]"
  using assms(1) by (cases rule: walk_Cons_cases) (use assms(2,3) in \<open>auto simp: name_segment_def\<close>)

end
