(* ===== verification/Core_Types.thy ===== *)
theory Core_Types
  imports Rust_Prelude
begin

text \<open>
  The data types of the crate \<open>platonic-core\<close>: error values (\<open>error.rs\<close>), identifier
  newtypes (\<open>ids.rs\<close>), policy (\<open>policy.rs\<close>), context packs and their token budget
  (\<open>context.rs\<close>), tool calls (\<open>tool.rs\<close>), messages (\<open>message.rs\<close>) and the durable event
  ledger (\<open>event.rs\<close>). The type parameter \<open>'v\<close> stands for \<open>serde_json::Value\<close>, of which
  the crate uses equality only.
\<close>

section \<open>Errors\<close>

datatype Error =
    EmptyIdentifier string
  | ContextBudgetExceeded u32 u32
  | InvalidCompactionRange u64 u64
  | SequenceMismatch u64 u64
  | RunIdMismatch rstr rstr
  | InvalidTransition string string
  | StepMismatch u32 u32
  | TurnMismatch rstr rstr
  | TurnReused rstr
  | EmptyToolProposalsRejectionReason
  | ToolCallMismatch rstr rstr
  | ToolCallReused rstr
  | UnproposedToolCall

section \<open>Identifiers\<close>

datatype RunId = RunId (run_id_str: rstr)
datatype TurnId = TurnId (turn_id_str: rstr)
datatype AgentId = AgentId (agent_id_str: rstr)
datatype ProfileId = ProfileId (profile_id_str: rstr)
datatype ToolCallId = ToolCallId (tool_call_id_str: rstr)
datatype ArtifactId = ArtifactId (artifact_id_str: rstr)
datatype ToolName = ToolName (tool_name_str: rstr)
datatype ModelName = ModelName (model_name_str: rstr)
datatype ActorId = ActorId (actor_id_str: rstr)

text \<open>
  The body of the macro \<open>id_type!\<close>: \<open>id_new name con\<close> is the constructor \<open>new\<close> of the
  newtype \<open>name\<close> whose tuple constructor is \<open>con\<close>. Deserialization calls the same function.
\<close>

definition id_new :: "string \<Rightarrow> (rstr \<Rightarrow> 'id) \<Rightarrow> rstr \<Rightarrow> (Error, 'id) result" where
  "id_new name con v = (if trim v = [] then Inl (EmptyIdentifier name) else Inr (con v))"

definition RunId_new :: "rstr \<Rightarrow> (Error, RunId) result" where
  "RunId_new = id_new ''RunId'' RunId"
definition TurnId_new :: "rstr \<Rightarrow> (Error, TurnId) result" where
  "TurnId_new = id_new ''TurnId'' TurnId"
definition AgentId_new :: "rstr \<Rightarrow> (Error, AgentId) result" where
  "AgentId_new = id_new ''AgentId'' AgentId"
definition ProfileId_new :: "rstr \<Rightarrow> (Error, ProfileId) result" where
  "ProfileId_new = id_new ''ProfileId'' ProfileId"
definition ToolCallId_new :: "rstr \<Rightarrow> (Error, ToolCallId) result" where
  "ToolCallId_new = id_new ''ToolCallId'' ToolCallId"
definition ArtifactId_new :: "rstr \<Rightarrow> (Error, ArtifactId) result" where
  "ArtifactId_new = id_new ''ArtifactId'' ArtifactId"
definition ToolName_new :: "rstr \<Rightarrow> (Error, ToolName) result" where
  "ToolName_new = id_new ''ToolName'' ToolName"
definition ModelName_new :: "rstr \<Rightarrow> (Error, ModelName) result" where
  "ModelName_new = id_new ''ModelName'' ModelName"
definition ActorId_new :: "rstr \<Rightarrow> (Error, ActorId) result" where
  "ActorId_new = id_new ''ActorId'' ActorId"

section \<open>Policy\<close>

datatype EffectClass = ReadOnly | WorkspaceWrite | Network | ExternalSideEffect | SecretAccess

datatype PolicyDecision = Allow | RequireApproval rstr | Deny rstr

fun default_policy :: "EffectClass \<Rightarrow> PolicyDecision" where
  "default_policy ReadOnly = Allow"
| "default_policy WorkspaceWrite =
     RequireApproval (lit ''mutable or networked tool call requires explicit policy allowance'')"
| "default_policy Network =
     RequireApproval (lit ''mutable or networked tool call requires explicit policy allowance'')"
| "default_policy ExternalSideEffect =
     Deny (lit ''external side effects and secret access fail closed by default'')"
| "default_policy SecretAccess =
     Deny (lit ''external side effects and secret access fail closed by default'')"

section \<open>Context packs\<close>

datatype ContextLane =
    SystemContract | CurrentTask | ToolSchemas | RecentTurns | RetrievedContext
  | ArtifactSummary | Policy

record ContextFragment =
  cf_lane :: ContextLane
  cf_source :: rstr
  cf_content :: rstr
  cf_estimated_tokens :: u32

record ContextPack =
  cp_token_budget :: u32
  cp_fragments :: "ContextFragment list"

text \<open>
  \<open>estimated_tokens_u64\<close> widens each \<open>u32\<close> estimate and sums at 64 bits; the sum could only
  wrap with more than \<open>2 ^ 32\<close> fragments. \<open>estimated_tokens\<close> narrows with saturation.
\<close>

definition estimated_tokens_u64 :: "ContextPack \<Rightarrow> u64" where
  "estimated_tokens_u64 p = sum_list (map (\<lambda>f. ucast (cf_estimated_tokens f)) (cp_fragments p))"

definition estimated_tokens :: "ContextPack \<Rightarrow> u32" where
  "estimated_tokens p = ucast (min (estimated_tokens_u64 p) (ucast (max_of :: u32)))"

definition validate_budget :: "ContextPack \<Rightarrow> (Error, unit) result" where
  "validate_budget p =
     (let used = estimated_tokens_u64 p
      in if used > ucast (cp_token_budget p)
         then Inl (ContextBudgetExceeded (ucast (min used (ucast (max_of :: u32)))) (cp_token_budget p))
         else Inr ())"

section \<open>Tools and messages\<close>

record 'v ToolProposal =
  tp_tool :: ToolName
  tp_input :: 'v

record 'v ToolCall =
  tc_id :: ToolCallId
  tc_tool :: ToolName
  tc_effect :: EffectClass
  tc_input :: 'v

datatype ResultVisibility = Model | User | Both

record 'v ToolResult =
  tr_call_id :: ToolCallId
  tr_summary :: rstr
  tr_data :: 'v
  tr_artifacts :: "ArtifactId list"
  tr_visibility :: ResultVisibility

datatype MessageRole = System | User | Assistant | Tool

record Message =
  msg_role :: MessageRole
  msg_content :: rstr

section \<open>Events\<close>

record ModelUsage =
  mu_input_tokens :: u32
  mu_output_tokens :: u32

datatype RunIdentity =
    LegacyAgent AgentId
  | Profile ProfileId u64

record RunStartedEvent =
  rse_run_id :: RunId
  rse_identity :: RunIdentity

datatype 'v HarnessEvent =
    RunStarted RunStartedEvent
  | ContextBuilt RunId TurnId ContextPack
  | ContextCompacted RunId TurnId u32 u32 u64 u64
  | ModelRequested RunId TurnId u32 ModelName
  | ModelFailed RunId TurnId u32 rstr
  | ModelResponded RunId TurnId u32 Message "'v ToolProposal list" "ModelName option" "ModelUsage option"
  | ToolProposalsRejected RunId TurnId rstr
  | ToolCallProposed RunId TurnId "'v ToolCall"
  | PolicyEvaluated RunId ToolCallId PolicyDecision
  | ApprovalGranted RunId ToolCallId ActorId
  | ApprovalDenied RunId ToolCallId ActorId rstr
  | ToolStarted RunId ToolCallId
  | ToolFinished RunId "'v ToolResult"
  | ToolFailed RunId ToolCallId rstr
  | RunFinished RunId
  | RunFailed RunId rstr

record 'v RecordedEvent =
  re_seq :: u64
  re_occurred_at_ms :: u64
  re_event :: "'v HarnessEvent"

fun event_run_id :: "'v HarnessEvent \<Rightarrow> RunId" where
  "event_run_id (RunStarted e) = rse_run_id e"
| "event_run_id (ContextBuilt r _ _) = r"
| "event_run_id (ContextCompacted r _ _ _ _ _) = r"
| "event_run_id (ModelRequested r _ _ _) = r"
| "event_run_id (ModelFailed r _ _ _) = r"
| "event_run_id (ModelResponded r _ _ _ _ _ _) = r"
| "event_run_id (ToolProposalsRejected r _ _) = r"
| "event_run_id (ToolCallProposed r _ _) = r"
| "event_run_id (PolicyEvaluated r _ _) = r"
| "event_run_id (ApprovalGranted r _ _) = r"
| "event_run_id (ApprovalDenied r _ _ _) = r"
| "event_run_id (ToolStarted r _) = r"
| "event_run_id (ToolFinished r _) = r"
| "event_run_id (ToolFailed r _ _) = r"
| "event_run_id (RunFinished r) = r"
| "event_run_id (RunFailed r _) = r"

fun event_name :: "'v HarnessEvent \<Rightarrow> string" where
  "event_name (RunStarted _) = ''run_started''"
| "event_name (ContextBuilt _ _ _) = ''context_built''"
| "event_name (ContextCompacted _ _ _ _ _ _) = ''context_compacted''"
| "event_name (ModelRequested _ _ _ _) = ''model_requested''"
| "event_name (ModelFailed _ _ _ _) = ''model_failed''"
| "event_name (ModelResponded _ _ _ _ _ _ _) = ''model_responded''"
| "event_name (ToolProposalsRejected _ _ _) = ''tool_proposals_rejected''"
| "event_name (ToolCallProposed _ _ _) = ''tool_call_proposed''"
| "event_name (PolicyEvaluated _ _ _) = ''policy_evaluated''"
| "event_name (ApprovalGranted _ _ _) = ''approval_granted''"
| "event_name (ApprovalDenied _ _ _ _) = ''approval_denied''"
| "event_name (ToolStarted _ _) = ''tool_started''"
| "event_name (ToolFinished _ _) = ''tool_finished''"
| "event_name (ToolFailed _ _ _) = ''tool_failed''"
| "event_name (RunFinished _) = ''run_finished''"
| "event_name (RunFailed _ _) = ''run_failed''"

section \<open>Identifier newtypes: the shared contract\<close>

text \<open>
  Every identifier newtype promises the same contract: \<open>new\<close> accepts exactly the strings that
  are not blank, stores them verbatim, and names its type in the error. The consequences are
  proved once and hold for all nine newtypes.
\<close>

locale id_newtype =
  fixes type_name :: string
    and new :: "rstr \<Rightarrow> (Error, 'id) result"
    and as_str :: "'id \<Rightarrow> rstr"
  assumes new_blank: "trim v = [] \<Longrightarrow> new v = Inl (EmptyIdentifier type_name)"
    and new_stores: "trim v \<noteq> [] \<Longrightarrow> \<exists>i. new v = Inr i \<and> as_str i = v"
    and as_str_inj: "as_str i = as_str j \<Longrightarrow> i = j"
begin

lemma new_ok_iff: "(\<exists>i. new v = Inr i) \<longleftrightarrow> trim v \<noteq> []"
  using new_blank [of v] new_stores [of v] by fastforce

lemma new_as_str: "new v = Inr i \<Longrightarrow> as_str i = v"
  using new_blank [of v] new_stores [of v] by fastforce

lemma as_str_not_blank: "new v = Inr i \<Longrightarrow> trim (as_str i) \<noteq> []"
  using new_blank [of v] new_as_str [of v i] by fastforce

lemma reparse: "new v = Inr i \<Longrightarrow> new (as_str i) = Inr i"
  by (metis new_as_str)

lemma new_inj: "new v = Inr i \<Longrightarrow> new w = Inr i \<Longrightarrow> v = w"
  by (metis new_as_str)

lemma new_error: "new v = Inl e \<Longrightarrow> e = EmptyIdentifier type_name \<and> trim v = []"
  using new_blank [of v] new_stores [of v] by fastforce

end

lemma id_newtype_id_new:
  assumes "\<And>v. as_str (con v) = v" and "\<And>i j. as_str i = as_str j \<Longrightarrow> i = j"
  shows "id_newtype name (id_new name con) as_str"
  using assms by unfold_locales (auto simp: id_new_def)

interpretation run_id: id_newtype "''RunId''" RunId_new run_id_str
  unfolding RunId_new_def by (rule id_newtype_id_new) (auto intro: RunId.expand)
interpretation turn_id: id_newtype "''TurnId''" TurnId_new turn_id_str
  unfolding TurnId_new_def by (rule id_newtype_id_new) (auto intro: TurnId.expand)
interpretation agent_id: id_newtype "''AgentId''" AgentId_new agent_id_str
  unfolding AgentId_new_def by (rule id_newtype_id_new) (auto intro: AgentId.expand)
interpretation profile_id: id_newtype "''ProfileId''" ProfileId_new profile_id_str
  unfolding ProfileId_new_def by (rule id_newtype_id_new) (auto intro: ProfileId.expand)
interpretation tool_call_id: id_newtype "''ToolCallId''" ToolCallId_new tool_call_id_str
  unfolding ToolCallId_new_def by (rule id_newtype_id_new) (auto intro: ToolCallId.expand)
interpretation artifact_id: id_newtype "''ArtifactId''" ArtifactId_new artifact_id_str
  unfolding ArtifactId_new_def by (rule id_newtype_id_new) (auto intro: ArtifactId.expand)
interpretation tool_name: id_newtype "''ToolName''" ToolName_new tool_name_str
  unfolding ToolName_new_def by (rule id_newtype_id_new) (auto intro: ToolName.expand)
interpretation model_name: id_newtype "''ModelName''" ModelName_new model_name_str
  unfolding ModelName_new_def by (rule id_newtype_id_new) (auto intro: ModelName.expand)
interpretation actor_id: id_newtype "''ActorId''" ActorId_new actor_id_str
  unfolding ActorId_new_def by (rule id_newtype_id_new) (auto intro: ActorId.expand)


section \<open>The token budget\<close>

definition token_total :: "ContextPack \<Rightarrow> nat" where
  "token_total p = sum_list (map (\<lambda>f. unat (cf_estimated_tokens f)) (cp_fragments p))"

lemma unat_ucast_u32 [simp]: "unat (ucast (x :: u32) :: u64) = unat x"
proof -
  have "unat x < 2 ^ 64"
    using unat_bounded [of x] by simp
  then show ?thesis
    by (simp add: unsigned_ucast_eq take_bit_nat_eq_self)
qed

lemma unat_ucast_min_u32:
  "unat (ucast (min x (ucast (max_of :: u32))) :: u32) = min (unat (x :: u64)) (2 ^ 32 - 1)"
proof -
  have m: "unat (ucast (max_of :: u32) :: u64) = 2 ^ 32 - 1"
    unfolding unat_ucast_u32 by (simp add: unat_max_of)
  have "unat (min x (ucast (max_of :: u32))) = min (unat x) (2 ^ 32 - 1)"
    unfolding min_def word_le_nat_alt m by (simp add: unat_max_of)
  then show ?thesis
    by (simp add: unsigned_ucast_eq take_bit_nat_eq_self)
qed

lemma token_total_bound: "token_total p \<le> length (cp_fragments p) * (2 ^ 32 - 1)"
proof -
  have "sum_list (map (\<lambda>f. unat (cf_estimated_tokens f)) fs) \<le> length fs * (2 ^ 32 - 1)" for fs
  proof (induction fs)
    case (Cons f fs)
    have "unat (cf_estimated_tokens f) \<le> 2 ^ 32 - 1"
      using unat_bounded [of "cf_estimated_tokens f"] by simp
    with Cons show ?case by simp
  qed simp
  then show ?thesis by (simp add: token_total_def)
qed

lemma unat_sum_list_u64:
  "sum_list (map unat ws) < 2 ^ 64 \<Longrightarrow> unat (sum_list ws :: u64) = sum_list (map unat ws)"
proof (induction ws)
  case (Cons w ws)
  then have "unat (sum_list ws) = sum_list (map unat ws)" by simp
  with Cons.prems show ?case by (simp add: unat_add_no_overflow)
qed simp

lemma estimated_tokens_u64_exact:
  assumes "length (cp_fragments p) \<le> 2 ^ 32"
  shows "unat (estimated_tokens_u64 p) = token_total p"
proof -
  let ?ws = "map (\<lambda>f. ucast (cf_estimated_tokens f) :: u64) (cp_fragments p)"
  have sum: "sum_list (map unat ?ws) = token_total p"
    by (simp add: token_total_def comp_def)
  have "token_total p \<le> 2 ^ 32 * (2 ^ 32 - 1)"
    using token_total_bound [of p] assms by (meson mult_le_mono1 order_trans)
  then have "sum_list (map unat ?ws) < 2 ^ 64"
    unfolding sum by simp
  from unat_sum_list_u64 [OF this] show ?thesis
    unfolding estimated_tokens_u64_def sum .
qed

lemma validate_budget_ok_iff:
  assumes "length (cp_fragments p) \<le> 2 ^ 32"
  shows "validate_budget p = Inr () \<longleftrightarrow> token_total p \<le> unat (cp_token_budget p)"
  using estimated_tokens_u64_exact [OF assms]
  by (auto simp: validate_budget_def Let_def word_less_nat_alt)

lemma unat_estimated_tokens:
  assumes "length (cp_fragments p) \<le> 2 ^ 32"
  shows "unat (estimated_tokens p) = min (token_total p) (2 ^ 32 - 1)"
  using estimated_tokens_u64_exact [OF assms]
  by (simp only: estimated_tokens_def unat_ucast_min_u32)

end
