(* ===== verification/Tool_Catalog.thy ===== *)
theory Tool_Catalog
  imports Core_Types
begin

text \<open>
  The catalogue of built-in tools (\<open>tool_catalog.rs\<close>): internal and provider names and effect classes.
  Descriptions and JSON input schemas are text sent to the provider and are not modelled.
\<close>

datatype ToolInputSchema =
    ReadSchema | ListSchema | WriteSchema | ShellExecSchema | WebFetchSchema | ProfileReadSchema
  | ThreadTreeSchema | ThreadHistorySchema | ThreadSpawnSchema | ThreadReturnSchema | ThreadAnswerSchema
  | ComputerWindowsSchema | ComputerObserveSchema

record ToolDefinition =
  td_internal_name :: string
  td_provider_name :: string
  td_effect :: EffectClass
  td_input_schema :: ToolInputSchema

abbreviation tool_def :: "string \<Rightarrow> string \<Rightarrow> EffectClass \<Rightarrow> ToolInputSchema \<Rightarrow> ToolDefinition" where
  "tool_def i p e s \<equiv> \<lparr>td_internal_name = i, td_provider_name = p, td_effect = e, td_input_schema = s\<rparr>"

definition BOOTSTRAP_TOOLS :: "ToolDefinition list" where
  "BOOTSTRAP_TOOLS =
     [tool_def ''file.read'' ''file_read'' ReadOnly ReadSchema,
      tool_def ''file.list'' ''file_list'' ReadOnly ListSchema,
      tool_def ''file.write'' ''file_write'' WorkspaceWrite WriteSchema,
      tool_def ''file.edit'' ''file_edit'' WorkspaceWrite WriteSchema,
      tool_def ''shell.exec'' ''shell_exec'' ExternalSideEffect ShellExecSchema,
      tool_def ''web.fetch'' ''web_fetch'' Network WebFetchSchema,
      tool_def ''profile.read'' ''profile_read'' ReadOnly ProfileReadSchema,
      tool_def ''thread.tree'' ''thread_tree'' ReadOnly ThreadTreeSchema,
      tool_def ''thread.events'' ''thread_events'' ReadOnly ThreadHistorySchema,
      tool_def ''thread.transcript'' ''thread_transcript'' ReadOnly ThreadHistorySchema,
      tool_def ''thread.spawn'' ''thread_spawn'' WorkspaceWrite ThreadSpawnSchema,
      tool_def ''thread.return'' ''thread_return'' WorkspaceWrite ThreadReturnSchema,
      tool_def ''thread.answer'' ''thread_answer'' WorkspaceWrite ThreadAnswerSchema,
      tool_def ''computer.windows'' ''computer_windows'' SecretAccess ComputerWindowsSchema,
      tool_def ''computer.observe'' ''computer_observe'' SecretAccess ComputerObserveSchema]"

definition lookup_internal :: "rstr \<Rightarrow> ToolDefinition option" where
  "lookup_internal name = find (\<lambda>t. lit (td_internal_name t) = name) BOOTSTRAP_TOOLS"

definition default_enabled_tools :: "rstr list" where
  "default_enabled_tools =
     map (\<lambda>t. lit (td_internal_name t))
       (filter (\<lambda>t. td_internal_name t \<notin>
          {''profile.read'', ''thread.tree'', ''thread.events'', ''thread.transcript'', ''thread.spawn'',
           ''thread.return'', ''thread.answer'', ''computer.windows'', ''computer.observe''}) BOOTSTRAP_TOOLS)"

definition is_known_tool :: "rstr \<Rightarrow> bool" where
  "is_known_tool name \<longleftrightarrow> lookup_internal name \<noteq> None"

definition effect_for_tool :: "rstr \<Rightarrow> EffectClass" where
  "effect_for_tool name = (case lookup_internal name of None \<Rightarrow> ExternalSideEffect | Some t \<Rightarrow> td_effect t)"

definition provider_name_for_internal :: "rstr \<Rightarrow> rstr option" where
  "provider_name_for_internal name = map_option (\<lambda>t. lit (td_provider_name t)) (lookup_internal name)"

definition internal_name_for_provider :: "rstr \<Rightarrow> rstr option" where
  "internal_name_for_provider name =
     map_option (\<lambda>t. lit (td_internal_name t))
       (find (\<lambda>t. lit (td_provider_name t) = name \<or> lit (td_internal_name t) = name) BOOTSTRAP_TOOLS)"

definition is_logical_read_tool :: "rstr \<Rightarrow> bool" where
  "is_logical_read_tool name \<longleftrightarrow>
     name \<in> {lit ''profile.read'', lit ''thread.tree'', lit ''thread.events'', lit ''thread.transcript''}"

section \<open>Names\<close>

lemma catalogue_names_distinct:
  "distinct (map td_internal_name BOOTSTRAP_TOOLS @ map td_provider_name BOOTSTRAP_TOOLS)"
  by (simp add: BOOTSTRAP_TOOLS_def)

lemma find_unique:
  "distinct (map g xs) \<Longrightarrow> x \<in> set xs \<Longrightarrow> g x = k \<Longrightarrow> find (\<lambda>y. g y = k) xs = Some x"
  by (induction xs) auto

lemma lookup_internal_tool: "t \<in> set BOOTSTRAP_TOOLS \<Longrightarrow> lookup_internal (lit (td_internal_name t)) = Some t"
  unfolding lookup_internal_def lit_inj
  using catalogue_names_distinct by (intro find_unique) auto

lemma lookup_internal_Some:
  "lookup_internal name = Some t \<Longrightarrow> t \<in> set BOOTSTRAP_TOOLS \<and> name = lit (td_internal_name t)"
  by (auto simp: lookup_internal_def find_Some_iff)

lemma find_either:
  assumes "distinct (map f xs @ map g xs)" and "x \<in> set xs"
  shows "find (\<lambda>y. g y = g x \<or> f y = g x) xs = Some x" and "find (\<lambda>y. g y = f x \<or> f y = f x) xs = Some x"
  using assms by (induction xs) (auto simp: image_iff)

text \<open>
  Every built-in tool has its own two names: what the provider is told is what its answer is resolved to.
\<close>

lemma tool_names_roundtrip:
  assumes "provider_name_for_internal name = Some p"
  shows "internal_name_for_provider p = Some name" and "internal_name_for_provider name = Some name"
proof -
  obtain t where t: "t \<in> set BOOTSTRAP_TOOLS" "name = lit (td_internal_name t)" "p = lit (td_provider_name t)"
    using assms by (auto simp: provider_name_for_internal_def dest!: lookup_internal_Some)
  show "internal_name_for_provider p = Some name" and "internal_name_for_provider name = Some name"
    using find_either [OF catalogue_names_distinct t(1)] t(2,3)
    by (simp_all add: internal_name_for_provider_def lit_inj)
qed

lemma internal_name_known: "internal_name_for_provider name = Some i \<Longrightarrow> is_known_tool i"
  using lookup_internal_tool
  by (fastforce simp: internal_name_for_provider_def is_known_tool_def find_Some_iff)

lemma logical_reads_read_only: "is_logical_read_tool name \<Longrightarrow> effect_for_tool name = ReadOnly"
  by (auto simp: is_logical_read_tool_def effect_for_tool_def lookup_internal_def BOOTSTRAP_TOOLS_def lit_inj)

lemma default_tools_known: "name \<in> set default_enabled_tools \<Longrightarrow> is_known_tool name"
  using lookup_internal_tool by (fastforce simp: default_enabled_tools_def is_known_tool_def)

end
