(* ===== verification/Voice_Stream.thy ===== *)
theory Voice_Stream
  imports Core_Types
begin

text \<open>
  The voice companion stream: the durable voice facts of \<open>platonic-protocol/src/voice.rs\<close> and
  the validation the ledger applies to a complete stream (\<open>ledger/replay.rs\<close>, \<open>ledger/jsonl.rs\<close>),
  with the errors of the server crate that ledgers report (\<open>error.rs\<close>). The streams the
  validator accepts are characterised by a grammar.
\<close>

section \<open>Errors of the server crate\<close>

text \<open>
  The variants the modelled code constructs. The payloads of \<open>Io\<close>, \<open>Json\<close> and \<open>Sqlite\<close> are values
  of other crates that no modelled code inspects.
\<close>

text \<open>A finite \<open>f64\<close> is an integral multiple of the smallest positive one, \<open>2 ^ -1074\<close>.\<close>

datatype f64 = F64 int | NotFinite

datatype AppError =
    Config rstr
  | LedgerVersion u32 u32
  | EmptyLedger
  | LedgerExists rstr
  | LedgerConflict rstr u64
  | VoiceEventVersion u32 u32
  | VoiceLedgerConflict rstr u64
  | VoiceEventContract rstr
  | RunNotFound rstr
  | SessionNotFound rstr
  | SessionActive rstr rstr
  | Provider rstr
  | ProviderCompletionRateLimited "f64 option"
  | RunCanceled
  | RunFailedError rstr
  | PathEscapesWorkspace rstr
  | PlatonicMemoryTooLarge rstr nat
  | PlatonicMemoryInvalidUtf8 rstr
  | PlatonicMemoryNotRegular rstr
  | ToolError rstr
  | Io
  | Json
  | Sqlite
  | Core Error

section \<open>Voice facts\<close>

datatype VoiceEvent =
    VoiceCaptured (ve_run_id: RunId) (ve_turn_id: TurnId) (transcript_sha256: rstr)
      (transcript_bytes: u64) (transcript_span_ms: u64) (input_frames: u64) (output_frames: u64)
      (vad_start_sample: u64) (vad_speech_end_sample: u64) (vad_close_sample: u64)
      (vad_close_to_final_us: u64) (normalization_resampling_us: u64)
  | VoiceSpoken (ve_run_id: RunId) (ve_turn_id: TurnId) (ttfa_ms: u64) (sentence_count: u64)
      (interrupted_at: "u64 option")
  | VoiceInterrupted (ve_run_id: RunId) (ve_turn_id: TurnId) (spoken_prefix: rstr) (delta_index: u64)

definition VOICE_EVENT_VERSION :: u32 where "VOICE_EVENT_VERSION = 1"

record VoiceEventEnvelope =
  vee_v :: u32
  vee_sequence :: u64
  vee_event :: VoiceEvent

definition revision_one :: "u64 \<Rightarrow> VoiceEvent \<Rightarrow> VoiceEventEnvelope" where
  "revision_one sequence ev = \<lparr>vee_v = VOICE_EVENT_VERSION, vee_sequence = sequence, vee_event = ev\<rparr>"

text \<open>
  \<open>len\<close> and \<open>bytes\<close> of a string that consists of ASCII characters only are its length and
  characters; a string with any other character has a UTF-8 byte of at least 128, which the
  digit test refuses.
\<close>

definition is_lower_hex :: "rchar \<Rightarrow> bool" where
  "is_lower_hex c \<longleftrightarrow> (48 \<le> c \<and> c \<le> 57) \<or> (97 \<le> c \<and> c \<le> 102)"

fun voice_validate :: "VoiceEvent \<Rightarrow> (rstr, unit) result" where
  "voice_validate (VoiceCaptured _ _ sha bytes _ _ _ start speech_end close _ _) =
     (if bytes = 0 then Inl (lit ''captured transcript length must be nonzero'')
      else if str_len sha \<noteq> 64 \<or> \<not> list_all is_lower_hex sha
      then Inl (lit ''captured transcript SHA-256 must be 64 lowercase hex bytes'')
      else if start > speech_end \<or> speech_end > close
      then Inl (lit ''captured VAD sample boundaries are not ordered'')
      else Inr ())"
| "voice_validate (VoiceSpoken _ _ _ count _) =
     (if count = 0 then Inl (lit ''spoken sentence count must be nonzero'') else Inr ())"
| "voice_validate (VoiceInterrupted _ _ _ _) = Inr ()"

section \<open>Stream validation\<close>

text \<open>The next event interrupts this run and turn; the previous event is interrupted speech of it.\<close>

definition interrupts :: "RunId \<Rightarrow> TurnId \<Rightarrow> VoiceEvent option \<Rightarrow> bool" where
  "interrupts r t next =
     (case next of Some (VoiceInterrupted r' t' _ _) \<Rightarrow> r' = r \<and> t' = t | _ \<Rightarrow> False)"

definition interrupted_speech :: "RunId \<Rightarrow> TurnId \<Rightarrow> VoiceEvent option \<Rightarrow> bool" where
  "interrupted_speech r t prev =
     (case prev of Some (VoiceSpoken r' t' _ _ (Some _)) \<Rightarrow> r' = r \<and> t' = t | _ \<Rightarrow> False)"

definition contract :: "string \<Rightarrow> (AppError, unit) result" where
  "contract msg = Inl (VoiceEventContract (lit msg))"

fun stream_loop :: "VoiceEvent list \<Rightarrow> nat \<Rightarrow> bool \<Rightarrow> bool \<Rightarrow> VoiceEvent list \<Rightarrow> (AppError, unit) result" where
  "stream_loop evs i cap intr [] = Inr ()"
| "stream_loop evs i cap intr (VoiceCaptured _ _ _ _ _ _ _ _ _ _ _ _ # rest) =
     (if cap \<or> i \<noteq> 0 then contract ''voice capture must appear at most once and first''
      else stream_loop evs (i + 1) True intr rest)"
| "stream_loop evs i cap intr (VoiceSpoken r t _ _ at # rest) =
     (if intr then contract ''voice interruption must terminate its companion stream''
      else if at \<noteq> None \<and> \<not> interrupts r t (get evs (i + 1))
      then contract ''interrupted voice speech must be followed by its exact interruption fact''
      else stream_loop evs (i + 1) cap intr rest)"
| "stream_loop evs i cap intr (VoiceInterrupted r t _ _ # rest) =
     (let paired = interrupted_speech r t (if i = 0 then None else get evs (i - 1))
      in if intr \<or> \<not> paired \<or> i + 1 \<noteq> length evs
         then contract ''voice interruption must be paired with the preceding spoken fact and terminate the stream''
         else stream_loop evs (i + 1) cap True rest)"

definition validate_voice_event_stream :: "VoiceEvent list \<Rightarrow> (AppError, unit) result" where
  "validate_voice_event_stream evs = stream_loop evs 0 False False evs"

text \<open>Position of the first difference; \<open>u64::MAX\<close> when the streams agree.\<close>

definition first_voice_difference :: "VoiceEventEnvelope list \<Rightarrow> VoiceEventEnvelope list \<Rightarrow> u64" where
  "first_voice_difference existing proposed =
     (case position (\<lambda>(l, r). l \<noteq> r) (zip existing proposed) of
        Some i \<Rightarrow> of_nat i
      | None \<Rightarrow>
          if length existing \<noteq> length proposed then of_nat (min (length existing) (length proposed))
          else max_of)"

fun harness_event_turn_id :: "'v HarnessEvent \<Rightarrow> TurnId option" where
  "harness_event_turn_id (ContextBuilt _ t _) = Some t"
| "harness_event_turn_id (ContextCompacted _ t _ _ _ _) = Some t"
| "harness_event_turn_id (ModelRequested _ t _ _) = Some t"
| "harness_event_turn_id (ModelFailed _ t _ _) = Some t"
| "harness_event_turn_id (ModelResponded _ t _ _ _ _ _) = Some t"
| "harness_event_turn_id (ToolProposalsRejected _ t _) = Some t"
| "harness_event_turn_id (ToolCallProposed _ t _) = Some t"
| "harness_event_turn_id _ = None"

definition validate_voice_event_keys ::
  "'v RecordedEvent list \<Rightarrow> rstr \<Rightarrow> VoiceEventEnvelope list \<Rightarrow> (AppError, unit) result" where
  "validate_voice_event_keys records run_id envelopes =
     (if records = [] then Inl (RunNotFound run_id)
      else for_each (\<lambda>env.
        let turn_id = ve_turn_id (vee_event env)
        in if \<not> list_ex (\<lambda>rec. harness_event_turn_id (re_event rec) = Some turn_id) records
           then Inl (VoiceEventContract (lit ''voice event turn '' @ turn_id_str turn_id @
                      lit '' is absent from core run '' @ run_id))
           else Inr ()) envelopes)"

text \<open>
  \<open>validate_voice_envelopes\<close>: every envelope has the supported revision, the sequence number of
  its position and a valid payload, then the payloads form a valid stream. An index of a vector
  always fits \<open>u64\<close>.
\<close>

definition check_envelope :: "nat \<times> VoiceEventEnvelope \<Rightarrow> (AppError, unit) result" where
  "check_envelope = (\<lambda>(i, env).
     if vee_v env \<noteq> VOICE_EVENT_VERSION then Inl (VoiceEventVersion VOICE_EVENT_VERSION (vee_v env))
     else if vee_sequence env \<noteq> of_nat i
     then Inl (VoiceEventContract (lit ''voice event sequence was '' @ decimal (unat (vee_sequence env)) @
                lit '', expected '' @ decimal i))
     else case voice_validate (vee_event env) of
            Inl msg \<Rightarrow> Inl (VoiceEventContract msg)
          | Inr _ \<Rightarrow> Inr ())"

definition validate_voice_envelopes :: "VoiceEventEnvelope list \<Rightarrow> (AppError, unit) result" where
  "validate_voice_envelopes envelopes =
     and_then (for_each check_envelope (zip [0..<length envelopes] envelopes))
       (\<lambda>_. validate_voice_event_stream (map vee_event envelopes))"

section \<open>The grammar of accepted streams\<close>

fun is_captured :: "VoiceEvent \<Rightarrow> bool" where
  "is_captured (VoiceCaptured _ _ _ _ _ _ _ _ _ _ _ _) = True"
| "is_captured _ = False"

fun is_completed_speech :: "VoiceEvent \<Rightarrow> bool" where
  "is_completed_speech (VoiceSpoken _ _ _ _ None) = True"
| "is_completed_speech _ = False"

text \<open>The optional end of a stream: interrupted speech and its interruption.\<close>

fun stream_end :: "VoiceEvent list \<Rightarrow> bool" where
  "stream_end [] = True"
| "stream_end [VoiceSpoken r t _ _ (Some _), VoiceInterrupted r' t' _ _] = (r' = r \<and> t' = t)"
| "stream_end _ = False"

fun stream_body :: "VoiceEvent list \<Rightarrow> bool" where
  "stream_body [] = True"
| "stream_body (ev # evs) = (is_completed_speech ev \<and> stream_body evs \<or> stream_end (ev # evs))"

fun stream_grammar :: "VoiceEvent list \<Rightarrow> bool" where
  "stream_grammar (ev # evs) = (if is_captured ev then stream_body evs else stream_body (ev # evs))"
| "stream_grammar [] = True"

lemma stream_body_shape:
  "stream_body evs \<longleftrightarrow> (\<exists>spoken tail. evs = spoken @ tail \<and> list_all is_completed_speech spoken \<and> stream_end tail)"
proof (induction evs)
  case Nil
  then show ?case by (auto intro: exI [of _ "[]"])
next
  case (Cons ev evs)
  show ?case
  proof
    assume "stream_body (ev # evs)"
    then consider "is_completed_speech ev" "stream_body evs" | "stream_end (ev # evs)" by auto
    then show "\<exists>spoken tail. ev # evs = spoken @ tail \<and> list_all is_completed_speech spoken \<and> stream_end tail"
    proof cases
      case 1
      with Cons obtain spoken tail where "evs = spoken @ tail" "list_all is_completed_speech spoken" "stream_end tail"
        by blast
      with 1 show ?thesis by (intro exI [of _ "ev # spoken"] exI [of _ tail]) simp
    next
      case 2
      then show ?thesis by (intro exI [of _ "[]"] exI [of _ "ev # evs"]) simp
    qed
  next
    assume "\<exists>spoken tail. ev # evs = spoken @ tail \<and> list_all is_completed_speech spoken \<and> stream_end tail"
    with Cons show "stream_body (ev # evs)"
      by (auto simp: Cons_eq_append_conv)
  qed
qed

text \<open>
  The loop at position \<open>i\<close>, after a prefix with neither a pending nor a past interruption,
  accepts exactly the bodies. \<open>last_ok\<close> says that the prefix does not end in interrupted speech.
\<close>

definition last_ok :: "VoiceEvent list \<Rightarrow> bool" where
  "last_ok pre \<longleftrightarrow> pre = [] \<or> is_completed_speech (last pre) \<or> is_captured (last pre)"

lemma loop_body:
  "last_ok pre \<Longrightarrow> pre \<noteq> [] \<or> (rest = [] \<or> \<not> is_captured (hd rest)) \<Longrightarrow>
     stream_loop (pre @ rest) (length pre) cap False rest = Inr () \<longleftrightarrow> stream_body rest"
proof (induction rest arbitrary: pre)
  case (Cons ev rest)
  have next_ev: "get (pre @ ev # rest) (Suc (length pre)) = get rest 0"
    using get_append [of pre "ev # rest" 1] by (simp add: get_Cons)
  show ?case
  proof (cases ev)
    case (VoiceCaptured)
    with Cons.prems show ?thesis by (cases rest) (auto simp: contract_def)
  next
    case (VoiceInterrupted r t p d)
    have "\<not> interrupted_speech r t (if pre = [] then None else get (pre @ ev # rest) (length pre - 1))"
      using Cons.prems(1)
      by (cases pre rule: rev_cases)
        (auto simp: last_ok_def interrupted_speech_def get_def nth_append split: VoiceEvent.splits option.splits)
    with VoiceInterrupted show ?thesis
      by (cases rest) (auto simp: contract_def Let_def)
  next
    case (VoiceSpoken r t ms n at)
    show ?thesis
    proof (cases at)
      case None
      have "last_ok (pre @ [ev])"
        by (simp add: last_ok_def VoiceSpoken None)
      from Cons.IH [OF this] VoiceSpoken None show ?thesis
        by (cases rest) simp_all
    next
      case (Some k)
      show ?thesis
      proof (cases "interrupts r t (get rest 0)")
        case False
        then show ?thesis
          using VoiceSpoken Some next_ev
          by (cases rest; cases "hd rest"; cases "tl rest")
            (auto simp: contract_def interrupts_def get_Cons)
      next
        case True
        then obtain p d rest' where rest: "rest = VoiceInterrupted r t p d # rest'"
          by (cases rest) (auto simp: interrupts_def get_Cons split: VoiceEvent.splits)
        have "get (pre @ ev # rest) (length pre) = Some ev"
          using get_append [of pre "ev # rest" 0] by (simp add: get_Cons)
        then show ?thesis
          using VoiceSpoken Some next_ev True rest
          by (cases rest') (auto simp: contract_def Let_def interrupted_speech_def get_Cons)
      qed
    qed
  qed
qed simp

lemma stream_ok_iff_grammar: "validate_voice_event_stream evs = Inr () \<longleftrightarrow> stream_grammar evs"
proof (cases evs)
  case (Cons ev rest)
  show ?thesis
  proof (cases "is_captured ev")
    case True
    then have "last_ok [ev]"
      by (simp add: last_ok_def)
    from loop_body [OF this, of rest True] True Cons show ?thesis
      by (cases ev) (simp_all add: validate_voice_event_stream_def)
  next
    case False
    from loop_body [of "[]" evs False] False Cons show ?thesis
      by (simp add: validate_voice_event_stream_def last_ok_def)
  qed
qed (simp add: validate_voice_event_stream_def)

lemma captured_not_body: "is_captured ev \<Longrightarrow> \<not> stream_body (ev # rest)"
  by (cases ev; cases rest) auto

lemma stream_grammar_split:
  "stream_grammar evs \<longleftrightarrow>
     (\<exists>cap body. evs = cap @ body \<and> (cap = [] \<or> (\<exists>c. cap = [c] \<and> is_captured c)) \<and> stream_body body)"
proof (cases evs)
  case (Cons ev rest)
  have "(\<exists>cap body. ev # rest = cap @ body \<and> (cap = [] \<or> (\<exists>c. cap = [c] \<and> is_captured c)) \<and> stream_body body)
      \<longleftrightarrow> stream_body (ev # rest) \<or> is_captured ev \<and> stream_body rest"
    by (metis append_Cons append_Nil list.inject)
  with Cons show ?thesis
    using captured_not_body [of ev rest] by (cases "is_captured ev") auto
qed auto

text \<open>
  The streams the ledger accepts are exactly those of the grammar: an optional capture fact
  first, then completed speech facts, then optionally one interrupted speech fact followed by the
  interruption fact of the same run and turn, and nothing after it.
\<close>

theorem voice_stream_grammar:
  "validate_voice_event_stream evs = Inr () \<longleftrightarrow>
     (\<exists>cap spoken tail. evs = cap @ spoken @ tail \<and> (cap = [] \<or> (\<exists>c. cap = [c] \<and> is_captured c)) \<and>
        list_all is_completed_speech spoken \<and> stream_end tail)"
  unfolding stream_ok_iff_grammar stream_grammar_split stream_body_shape by blast

lemma envelope_payload_ok:
  assumes "validate_voice_envelopes envs = Inr ()" and "i < length envs"
  shows "vee_v (envs ! i) = VOICE_EVENT_VERSION \<and> vee_sequence (envs ! i) = of_nat i \<and>
    voice_validate (vee_event (envs ! i)) = Inr ()"
proof -
  have "(i, envs ! i) \<in> set (zip [0..<length envs] envs)"
    using assms(2) by (auto simp: in_set_zip intro: exI [of _ i])
  with assms(1) have "check_envelope (i, envs ! i) = Inr ()"
    by (auto simp: validate_voice_envelopes_def result_simps)
  then show ?thesis
    by (auto simp: check_envelope_def split: if_splits sum.splits)
qed

text \<open>Wrapping a valid stream in revision-one envelopes yields a valid batch.\<close>

definition envelopes_of :: "VoiceEvent list \<Rightarrow> VoiceEventEnvelope list" where
  "envelopes_of evs = map (\<lambda>(i, ev). revision_one (of_nat i) ev) (zip [0..<length evs] evs)"

lemma map_event_envelopes_of: "map vee_event (envelopes_of evs) = evs"
  by (simp add: envelopes_of_def revision_one_def comp_def case_prod_unfold)

text \<open>
  A committed voice batch is exactly what was validated: the envelopes built for a stream of
  valid events in grammatical order pass the reader's batch validation.
\<close>

theorem voice_batch_readable:
  assumes "\<forall>ev\<in>set evs. voice_validate ev = Inr ()" and "validate_voice_event_stream evs = Inr ()"
  shows "validate_voice_envelopes (envelopes_of evs) = Inr () \<and> map vee_event (envelopes_of evs) = evs"
proof -
  have "check_envelope (i, envelopes_of evs ! i) = Inr ()" if "i < length evs" for i
    using that assms(1) by (simp add: envelopes_of_def revision_one_def check_envelope_def)
  then have "\<forall>p\<in>set (zip [0..<length (envelopes_of evs)] (envelopes_of evs)). check_envelope p = Inr ()"
    by (auto simp: in_set_zip envelopes_of_def)
  then show ?thesis
    using assms(2) by (simp add: validate_voice_envelopes_def map_event_envelopes_of result_simps)
qed

definition sample_voice :: "VoiceEvent list" where
  "sample_voice =
     [VoiceCaptured (RunId (lit ''r'')) (TurnId (lit ''t'')) (replicate 64 97) 5 700 100 50 1 20 30 9 9,
      VoiceSpoken (RunId (lit ''r'')) (TurnId (lit ''t'')) 280 2 None,
      VoiceSpoken (RunId (lit ''r'')) (TurnId (lit ''u'')) 250 1 (Some 2),
      VoiceInterrupted (RunId (lit ''r'')) (TurnId (lit ''u'')) (lit ''the'') 3]"

theorem voice_batch_readable_witness:
  "list_all (\<lambda>ev. voice_validate ev = Inr ()) sample_voice \<and>
   validate_voice_envelopes (envelopes_of sample_voice) = Inr ()"
proof -
  have "\<forall>ev\<in>set sample_voice. voice_validate ev = Inr ()"
    by code_simp
  moreover have "validate_voice_event_stream sample_voice = Inr ()"
    by code_simp
  ultimately show ?thesis
    using voice_batch_readable [of sample_voice] by (simp add: list_all_iff)
qed

end
