(* ===== verification/File_Tools.thy ===== *)
theory File_Tools
  imports File_System Tool_Catalog Voice_Stream "HOL-Library.List_Lexorder"
begin

text \<open>
  The file tools (\<open>tools/files.rs\<close>) and the guard of the workspace memory file
  (\<open>tools/memory.rs\<close>, \<open>yolo_eligible\<close> of \<open>app/tool_exec.rs\<close>), over the file system of
  \<open>File_System\<close>. Decoding the JSON input of a call is serde's, so the tools take the decoded
  fields; the order in which the system lists a directory is a parameter.
\<close>

section \<open>Limits\<close>

definition MAX_READ_BYTES :: nat where
  "MAX_READ_BYTES = 64 * 1024"

definition READ_UTF8_LOOKAHEAD_BYTES :: nat where
  "READ_UTF8_LOOKAHEAD_BYTES = 4"

definition MAX_LIST_ENTRIES :: nat where
  "MAX_LIST_ENTRIES = 200"

definition MAX_LIST_DATA_BYTES :: nat where
  "MAX_LIST_DATA_BYTES = 32 * 1024"

definition PLATONIC_MEMORY_FILENAME :: rstr where
  "PLATONIC_MEMORY_FILENAME = lit ''PLATONIC.md''"

definition PLATONIC_MEMORY_MAX_BYTES :: nat where
  "PLATONIC_MEMORY_MAX_BYTES = 8192"

section \<open>Resolving a path inside the workspace\<close>

definition io_result :: "(IoErrorKind, 'a) result \<Rightarrow> (AppError, 'a) result" where
  "io_result r = (case r of Inl _ \<Rightarrow> Inl Io | Inr x \<Rightarrow> Inr x)"

definition path_escapes :: "rstr \<Rightarrow> bool" where
  "path_escapes p \<longleftrightarrow> is_absolute p \<or> ParentDir \<in> set (path_components p)"

definition inside :: "rstr \<Rightarrow> rstr \<Rightarrow> bool" where
  "inside root p \<longleftrightarrow> starts_with (path_components p) (path_components root)"

definition resolve_existing_path :: "FileSystem \<Rightarrow> rstr \<Rightarrow> rstr \<Rightarrow> (AppError, rstr) result" where
  "resolve_existing_path fs workspace_root raw =
     (if path_escapes raw then Inl (PathEscapesWorkspace raw)
      else and_then (io_result (canonicalize fs workspace_root)) (\<lambda>root.
           and_then (io_result (canonicalize fs (path_join root raw))) (\<lambda>candidate.
             if \<not> inside root candidate then Inl (PathEscapesWorkspace candidate) else Inr candidate)))"

definition check_existing_target :: "FileSystem \<Rightarrow> rstr \<Rightarrow> rstr \<Rightarrow> (AppError, unit) result" where
  "check_existing_target fs root candidate =
     (case symlink_metadata fs candidate of
        Inl _ \<Rightarrow> Inr ()
      | Inr x \<Rightarrow>
          if is_link x then Inl (PathEscapesWorkspace candidate)
          else and_then (io_result (canonicalize fs candidate)) (\<lambda>canonical.
                 if \<not> inside root canonical then Inl (PathEscapesWorkspace canonical) else Inr ()))"

definition resolve_write_path :: "FileSystem \<Rightarrow> rstr \<Rightarrow> rstr \<Rightarrow> (AppError, rstr) result" where
  "resolve_write_path fs workspace_root raw =
     (if path_escapes raw then Inl (PathEscapesWorkspace raw)
      else and_then (io_result (canonicalize fs workspace_root)) (\<lambda>root.
           let candidate = path_join root raw in
           and_then (check_existing_target fs root candidate) (\<lambda>_.
           case parent_path candidate of
             None \<Rightarrow> Inl (PathEscapesWorkspace candidate)
           | Some up \<Rightarrow>
               and_then (io_result (canonicalize fs up)) (\<lambda>parent.
                 if \<not> inside root parent then Inl (PathEscapesWorkspace parent) else Inr candidate))))"

section \<open>Reading\<close>

fun char_indices :: "nat \<Rightarrow> rstr \<Rightarrow> nat list" where
  "char_indices off [] = []"
| "char_indices off (c # s) = off # char_indices (off + len_utf8 c) s"

definition truncate_utf8 :: "rstr \<Rightarrow> nat \<Rightarrow> rstr" where
  "truncate_utf8 content max_bytes =
     (if str_len content \<le> max_bytes then content
      else let fit = takeWhile (\<lambda>index. index \<le> max_bytes) (char_indices 0 content);
               boundary = (if fit = [] then 0 else last fit)
           in fitting boundary content)"

definition read_utf8_prefix :: "nat list \<Rightarrow> nat \<Rightarrow> (IoErrorKind, rstr) result" where
  "read_utf8_prefix source source_bytes =
     (let buffer_bytes = MAX_READ_BYTES + READ_UTF8_LOOKAHEAD_BYTES;
          bytes = take buffer_bytes source
      in case from_utf8 bytes of
           Inr s \<Rightarrow> Inr s
         | Inl (valid, error_len) \<Rightarrow>
             if source_bytes > buffer_bytes \<and> error_len = None \<and> str_len valid \<ge> MAX_READ_BYTES
             then (case from_utf8 (take (str_len valid) bytes) of Inr s \<Rightarrow> Inr s | Inl _ \<Rightarrow> Inl InvalidData)
             else Inl InvalidData)"

record ListEntry =
  le_name :: rstr
  le_kind :: rstr

datatype FileToolData =
    ReadData (rd_path: rstr) (rd_content: rstr) (rd_truncated: bool) (rd_bytes: nat)
  | ListData (ld_path: rstr) (ld_entries: "ListEntry list") (ld_truncated: bool) (ld_entry_count: nat)
      (ld_returned_count: nat)
  | WriteData (wd_path: rstr) (wd_bytes: nat)

definition file_result :: "ToolCallId \<Rightarrow> rstr \<Rightarrow> FileToolData \<Rightarrow> FileToolData ToolResult" where
  "file_result call_id summary data =
     \<lparr>tr_call_id = call_id, tr_summary = summary, tr_data = data, tr_artifacts = [], tr_visibility = Both\<rparr>"

definition read_file :: "FileSystem \<Rightarrow> rstr \<Rightarrow> ToolCallId \<Rightarrow> rstr \<Rightarrow> (AppError, FileToolData ToolResult) result" where
  "read_file fs workspace_root call_id input_path =
     and_then (resolve_existing_path fs workspace_root input_path) (\<lambda>path.
     and_then (io_result (read_bytes fs path)) (\<lambda>source.
     let bytes = length source in
     and_then (io_result (read_utf8_prefix source bytes)) (\<lambda>content.
       Inr (file_result call_id
         (lit ''read '' @ decimal bytes @ lit '' bytes from '' @ input_path)
         (ReadData input_path (truncate_utf8 content MAX_READ_BYTES) (bytes > MAX_READ_BYTES) bytes)))))"

section \<open>Listing\<close>

definition file_kind :: "FsNode \<Rightarrow> rstr" where
  "file_kind x = lit (case x of Symlink _ \<Rightarrow> ''symlink'' | Directory \<Rightarrow> ''directory''
                      | RegularFile _ \<Rightarrow> ''file'' | Special \<Rightarrow> ''other'')"

definition estimated_list_entry_bytes :: "ListEntry \<Rightarrow> nat" where
  "estimated_list_entry_bytes e = str_len (le_name e) + str_len (le_kind e) + 32"

text \<open>\<open>partition_point\<close> on a sorted vector is the length of the run that satisfies the test.\<close>

definition retain_list_candidate :: "ListEntry list \<Rightarrow> ListEntry \<Rightarrow> ListEntry list" where
  "retain_list_candidate entries candidate =
     (let index = length (takeWhile (\<lambda>e. le_name e \<le> le_name candidate) entries) in
      if index \<ge> MAX_LIST_ENTRIES then entries
      else let kept = (if length entries = MAX_LIST_ENTRIES then butlast entries else entries)
           in take index kept @ candidate # drop index kept)"

fun bounded_entries :: "ListEntry list \<Rightarrow> ListEntry list \<Rightarrow> nat \<Rightarrow> ListEntry list" where
  "bounded_entries [] returned data_bytes = returned"
| "bounded_entries (e # es) returned data_bytes =
     (if length returned \<ge> MAX_LIST_ENTRIES
         \<or> data_bytes + estimated_list_entry_bytes e > MAX_LIST_DATA_BYTES then returned
      else bounded_entries es (returned @ [e]) (data_bytes + estimated_list_entry_bytes e))"

definition list_directory ::
  "(location \<Rightarrow> rstr list) \<Rightarrow> FileSystem \<Rightarrow> rstr \<Rightarrow> ToolCallId \<Rightarrow> rstr \<Rightarrow> (AppError, FileToolData ToolResult) result" where
  "list_directory read_dir fs workspace_root call_id input_path =
     and_then (resolve_existing_path fs workspace_root input_path) (\<lambda>path.
     and_then (io_result (walk_path Follow fs path)) (\<lambda>loc.
     and_then (io_result (node_at fs loc)) (\<lambda>x.
       if x \<noteq> Directory then Inl (ToolError (lit ''not a directory: '' @ input_path))
       else let found = map (\<lambda>n. \<lparr>le_name = n, le_kind = file_kind (the (nodes fs (loc @ [n])))\<rparr>) (read_dir loc);
                entries = foldl retain_list_candidate [] found;
                entry_count = length found;
                returned = bounded_entries entries [] 0;
                truncated = (length returned < length entries \<or> length returned < entry_count)
            in Inr (file_result call_id
                 (lit ''listed '' @ decimal (length returned) @ lit '' of '' @ decimal entry_count
                    @ lit '' entries in '' @ input_path)
                 (ListData input_path returned truncated entry_count (length returned))))))"

section \<open>Writing and the workspace memory\<close>

fun normalize_components :: "rstr \<Rightarrow> PathComponent list \<Rightarrow> rstr option" where
  "normalize_components p [] = Some p"
| "normalize_components p (CurDir # cs) = normalize_components p cs"
| "normalize_components p (Normal n # cs) = normalize_components (path_join p n) cs"
| "normalize_components p (_ # cs) = None"

definition platonic_memory_target_path :: "rstr \<Rightarrow> rstr \<Rightarrow> rstr option" where
  "platonic_memory_target_path workspace_root raw =
     (case normalize_components workspace_root (path_components raw) of
        None \<Rightarrow> None
      | Some p \<Rightarrow>
          if path_components p = path_components (path_join workspace_root PLATONIC_MEMORY_FILENAME)
          then Some p else None)"

definition validate_platonic_memory_content :: "rstr \<Rightarrow> nat list \<Rightarrow> (AppError, unit) result" where
  "validate_platonic_memory_content path content =
     (if length content > PLATONIC_MEMORY_MAX_BYTES
      then Inl (PlatonicMemoryTooLarge path PLATONIC_MEMORY_MAX_BYTES)
      else case from_utf8 content of Inr _ \<Rightarrow> Inr () | Inl _ \<Rightarrow> Inl (PlatonicMemoryInvalidUtf8 path))"

definition validate_platonic_memory_target :: "FileSystem \<Rightarrow> rstr \<Rightarrow> (AppError, unit) result" where
  "validate_platonic_memory_target fs path =
     (case symlink_metadata fs path of
        Inr (RegularFile _) \<Rightarrow> Inr ()
      | Inr _ \<Rightarrow> Inl (PlatonicMemoryNotRegular path)
      | Inl NotFound \<Rightarrow> Inr ()
      | Inl _ \<Rightarrow> Inl Io)"

definition check_memory_target :: "FileSystem \<Rightarrow> rstr \<Rightarrow> rstr \<Rightarrow> rstr \<Rightarrow> (AppError, unit) result" where
  "check_memory_target fs workspace_root raw content =
     (case platonic_memory_target_path workspace_root raw of
        None \<Rightarrow> Inr ()
      | Some path \<Rightarrow>
          and_then (validate_platonic_memory_content path (as_bytes content))
            (\<lambda>_. validate_platonic_memory_target fs path))"

definition write_file ::
  "FileSystem \<Rightarrow> DiskWrite \<Rightarrow> rstr \<Rightarrow> ToolCallId \<Rightarrow> rstr \<Rightarrow> rstr \<Rightarrow> rstr \<Rightarrow> rstr
     \<Rightarrow> FileSystem \<times> (AppError, FileToolData ToolResult) result" where
  "write_file fs disk workspace_root call_id input_path content summary_verb summary_preposition =
     guard_ok (check_memory_target fs workspace_root input_path content) fs
       (case resolve_write_path fs workspace_root input_path of
          Inl e \<Rightarrow> (fs, Inl e)
        | Inr path \<Rightarrow>
            (case fs_write fs disk path (as_bytes content) of
               (fs', Inl _) \<Rightarrow> (fs', Inl Io)
             | (fs', Inr _) \<Rightarrow>
                 (fs', Inr (file_result call_id
                    (summary_verb @ lit '' '' @ decimal (str_len content) @ lit '' bytes '' @ summary_preposition
                       @ lit '' '' @ input_path)
                    (WriteData input_path (str_len content))))))"

text \<open>
  The exclusion of the memory file from automatic approval: a call is granted without a person
  in auto-approve mode only if it runs a shell command or writes to the workspace elsewhere.
  \<open>path_field\<close> reads the string member \<open>path\<close> of the call's input.
\<close>

definition targets_platonic_memory :: "('v \<Rightarrow> rstr option) \<Rightarrow> rstr \<Rightarrow> rstr \<Rightarrow> 'v \<Rightarrow> bool" where
  "targets_platonic_memory path_field workspace_root tool_name input \<longleftrightarrow>
     tool_name \<in> {lit ''file.write'', lit ''file.edit''} \<and>
     (case path_field input of None \<Rightarrow> False
      | Some path \<Rightarrow> platonic_memory_target_path workspace_root path \<noteq> None)"

definition yolo_eligible :: "('v \<Rightarrow> rstr option) \<Rightarrow> rstr \<Rightarrow> 'v ToolCall \<Rightarrow> PolicyDecision \<Rightarrow> bool" where
  "yolo_eligible path_field workspace_root call policy \<longleftrightarrow>
     (case policy of RequireApproval _ \<Rightarrow> True | _ \<Rightarrow> False) \<and>
     (tool_name_str (tc_tool call) = lit ''shell.exec'' \<and> tc_effect call = ExternalSideEffect \<or>
      tc_effect call = WorkspaceWrite \<and>
      \<not> targets_platonic_memory path_field workspace_root (tool_name_str (tc_tool call)) (tc_input call))"

section \<open>Confinement\<close>

abbreviation workspace :: "FileSystem \<Rightarrow> rstr \<Rightarrow> location \<Rightarrow> bool" where
  "workspace fs workspace_root root \<equiv> walk_path Follow fs workspace_root = Inr root"

definition fs_ok :: "FileSystem \<Rightarrow> bool" where
  "fs_ok fs \<longleftrightarrow> tree_ok (nodes fs) \<and> nodes fs (current_dir fs) = Some Directory"

lemma io_result_Inr [result_simps]: "io_result r = Inr x \<longleftrightarrow> r = Inr x"
  by (auto simp: io_result_def split: sum.splits)

lemma canonicalize_Inr [result_simps]:
  "canonicalize fs p = Inr q \<longleftrightarrow> (\<exists>loc. walk_path Follow fs p = Inr loc \<and> q = location_path loc)"
  by (auto simp: canonicalize_def result_simps)

lemma walk_path_found:
  assumes "fs_ok fs" "walk_path Follow fs p = Inr loc"
  shows "\<exists>x. nodes fs loc = Some x \<and> \<not> is_link x"
  using assms walk_follow_found [of "nodes fs" MAX_SYMLINKS _ "split_slash p" loc]
  by (auto simp: walk_path_def fs_ok_def tree_ok_def is_link_def split: if_splits)

lemma walk_path_valid: "fs_ok fs \<Longrightarrow> walk_path Follow fs p = Inr loc \<Longrightarrow> list_all valid_name loc"
  using walk_path_found [of fs p loc] tree_ok_names [of "nodes fs" loc] by (auto simp: fs_ok_def)

lemma map_Normal_prefix: "prefix (map Normal a) (map Normal b) \<longleftrightarrow> prefix a b"
proof (induction a arbitrary: b)
  case (Cons n a)
  then show ?case by (cases b) auto
qed simp

lemma inside_locations:
  "list_all valid_name root \<Longrightarrow> list_all valid_name loc
     \<Longrightarrow> inside (location_path root) (location_path loc) \<longleftrightarrow> prefix root loc"
  by (simp add: inside_def location_components starts_with_prefix map_Normal_prefix)

text \<open>A path built below the workspace is walked from the workspace.\<close>

lemma walk_join:
  assumes "fs_ok fs" "nodes fs root = Some x" "\<not> is_link x" "\<not> is_absolute raw"
  shows "walk_path m fs (path_join (location_path root) raw) =
    walk m (nodes fs) MAX_SYMLINKS root (split_slash raw)"
proof -
  have ok: "tree_ok (nodes fs)" and top: "nodes fs [] = Some Directory"
    using assms(1) by (auto simp: fs_ok_def tree_ok_def)
  have names: "list_all valid_name root" using tree_ok_names [OF ok, of root] assms(2) by simp
  have "walk_path m fs (path_join (location_path root) raw) =
      walk m (nodes fs) MAX_SYMLINKS [] ([] # root @ split_slash raw)"
    using absolute_join [of root raw] location_path_join [OF names assms(4)]
    by (simp add: walk_path_def is_absolute_def del: walk.simps)
  also have "\<dots> = walk m (nodes fs) MAX_SYMLINKS [] (root @ split_slash raw)"
    by (rule walk_trivial [of "nodes fs" "[]", OF top]) (simp add: trivial_def)
  also have "\<dots> = walk m (nodes fs) MAX_SYMLINKS root (split_slash raw)"
    using walk_names [OF ok _ assms(3), of "[]" root m MAX_SYMLINKS "split_slash raw"] assms(2) by simp
  finally show ?thesis .
qed

lemma walk_below:
  assumes "fs_ok fs" "nodes fs root = Some x" "\<not> is_link x" "list_all valid_name names"
  shows "walk_path m fs (location_path (root @ names)) = walk m (nodes fs) MAX_SYMLINKS root names"
proof -
  have ok: "tree_ok (nodes fs)" and top: "nodes fs [] = Some Directory"
    using assms(1) by (auto simp: fs_ok_def tree_ok_def)
  have names: "list_all valid_name (root @ names)"
    using tree_ok_names [OF ok, of root] assms(2,4) by simp
  show ?thesis
  proof (cases "root @ names = []")
    case True
    then show ?thesis using top
      by (simp add: walk_path_def location_path_def is_absolute_def trivial_def)
  next
    case False
    have "walk m (nodes fs) MAX_SYMLINKS [] ([] # root @ names) = walk m (nodes fs) MAX_SYMLINKS root names"
      using walk_names [OF ok _ assms(3), of "[]" root m MAX_SYMLINKS names] assms(2)
      by (subst walk_trivial [of "nodes fs" "[]", OF top]) (simp_all add: trivial_def)
    then show ?thesis using absolute_location [of "root @ names"] split_location_path [OF names False]
      by (simp add: walk_path_def del: walk.simps)
  qed
qed

lemma walk_location:
  "fs_ok fs \<Longrightarrow> nodes fs loc = Some x \<Longrightarrow> \<not> is_link x \<Longrightarrow> walk_path m fs (location_path loc) = Inr loc"
  using walk_below [of fs loc x "[]" m] by simp

lemma resolve_existing_confined:
  assumes "fs_ok fs" "resolve_existing_path fs workspace_root raw = Inr p"
  shows "\<exists>root loc. workspace fs workspace_root root \<and> prefix root loc \<and> p = location_path loc
    \<and> walk_path Follow fs p = Inr loc
    \<and> walk Follow (nodes fs) MAX_SYMLINKS root (split_slash raw) = Inr loc"
proof -
  obtain root loc where root: "workspace fs workspace_root root"
    and loc: "walk_path Follow fs (path_join (location_path root) raw) = Inr loc"
    and p: "p = location_path loc" and ins: "inside (location_path root) (location_path loc)"
    and raw: "\<not> is_absolute raw"
    using assms(2)
    by (auto simp: resolve_existing_path_def result_simps path_escapes_def split: if_splits)
  obtain x y where x: "nodes fs root = Some x" "\<not> is_link x" and y: "nodes fs loc = Some y" "\<not> is_link y"
    using walk_path_found [OF assms(1)] root loc by blast
  show ?thesis
    using root p ins walk_location [OF assms(1) y] walk_join [OF assms(1) x raw] loc
      inside_locations [OF walk_path_valid [OF assms(1) root] walk_path_valid [OF assms(1) loc]]
    by auto
qed

text \<open>The segments of a path that does not escape are names, empty or dots.\<close>

lemma escaping_segment:
  assumes "\<not> path_escapes raw"
  shows "lit ''..'' \<notin> set (split_slash raw)"
proof
  assume dots: "lit ''..'' \<in> set (split_slash raw)"
  have dd: "segment_component (lit ''..'') = Some ParentDir"
    using dots_not_trivial by (simp add: segment_component_def trivial_def)
  have found: "ParentDir \<in> set (List.map_filter segment_component segs)" if "lit ''..'' \<in> set segs" for segs
    using that by (induction segs) (auto simp: List.map_filter_def dd)
  obtain seg segs where split: "split_slash raw = seg # segs" by (cases "split_slash raw") simp_all
  have "lit ''..'' \<noteq> lit ''.''" by (simp add: lit_inj)
  then have "ParentDir \<in> set (path_components raw)"
    using assms dots found [of segs] found [of "seg # segs"] split
    by (auto simp: path_escapes_def path_components_def is_absolute_def split: if_splits option.splits)
  then show False using assms by (simp add: path_escapes_def)
qed

lemma segment_names:
  assumes "lit ''..'' \<notin> set segs" "\<forall>s\<in>set segs. 47 \<notin> set s"
  shows "List.map_filter segment_component segs = map Normal (filter (\<lambda>s. \<not> trivial s) segs)"
    and "list_all valid_name (filter (\<lambda>s. \<not> trivial s) segs)"
  using assms by (induction segs)
    (auto simp: segment_component_def trivial_def List.map_filter_def valid_name_def)

lemma parent_of_join:
  assumes "list_all valid_name root" "\<not> is_absolute raw" "split_slash raw = init @ [n]" "name_segment n"
    "lit ''..'' \<notin> set (split_slash raw)"
  shows "parent_path (path_join (location_path root) raw) =
    Some (location_path (root @ filter (\<lambda>s. \<not> trivial s) init))"
proof -
  let ?names = "filter (\<lambda>s. \<not> trivial s) init"
  have slashes: "\<forall>s\<in>set (split_slash raw). 47 \<notin> set s" using split_slash_no_slash by blast
  have init: "List.map_filter segment_component init = map Normal ?names" "list_all valid_name ?names"
    using segment_names [of init] assms(3,5) slashes by auto
  have n: "segment_component n = Some (Normal n)"
    using assms(4) by (simp add: segment_component_def name_segment_def trivial_def)
  have "path_components (path_join (location_path root) raw) = (RootDir # map Normal (root @ ?names)) @ [Normal n]"
    using join_components [OF assms(1,2)] assms(3) init(1) n
    by (simp add: map_filter_append List.map_filter_def)
  then show ?thesis
    using components_path_names [of "root @ ?names"] assms(1) init(2)
    by (simp add: parent_path_def path_parent_def butlast_append)
qed

lemma resolve_write_confined:
  assumes fs: "fs_ok fs" and res: "resolve_write_path fs workspace_root raw = Inr p"
    and cre: "walk_path Create fs p = Inr loc" and nodir: "nodes fs loc \<noteq> Some Directory"
  shows "\<exists>root d n. workspace fs workspace_root root \<and> prefix root d \<and> loc = d @ [n] \<and> \<not> path_escapes raw
    \<and> p = path_join (location_path root) raw \<and> nodes fs d = Some Directory
    \<and> walk Follow (nodes fs) MAX_SYMLINKS root (butlast (split_slash raw)) = Inr d \<and> n = last (split_slash raw)
    \<and> name_segment n \<and> (\<forall>target. nodes fs loc \<noteq> Some (Symlink target))"
proof -
  obtain root up par where root: "workspace fs workspace_root root" and esc: "\<not> path_escapes raw"
    and p: "p = path_join (location_path root) raw"
    and target: "check_existing_target fs (location_path root) p = Inr ()"
    and up: "parent_path p = Some up" and par: "walk_path Follow fs up = Inr par"
    and ins: "inside (location_path root) (location_path par)"
    using res by (auto simp: resolve_write_path_def result_simps Let_def split: if_splits option.splits)
  have raw: "\<not> is_absolute raw" using esc by (simp add: path_escapes_def)
  obtain x where x: "nodes fs root = Some x" "\<not> is_link x" using walk_path_found [OF fs root] by blast
  have names: "list_all valid_name root" by (rule walk_path_valid [OF fs root])
  obtain init n where segs: "split_slash raw = init @ [n]" by (cases "split_slash raw" rule: rev_cases) auto
  have walk: "walk Create (nodes fs) MAX_SYMLINKS root (init @ [n]) = Inr loc"
    using cre walk_join [OF fs x raw] unfolding p segs by simp
  have dots: "lit ''..'' \<notin> set (split_slash raw)" by (rule escaping_segment [OF esc])
  have n: "name_segment n"
    using walk_trailing [OF walk] nodir dots unfolding segs name_segment_def by auto
  obtain d k' where d: "walk Follow (nodes fs) MAX_SYMLINKS root init = Inr d"
    and last: "walk Create (nodes fs) k' d [n] = Inr loc"
    using walk_append [OF walk] by auto
  have dir: "nodes fs d = Some Directory" using last by (auto split: if_splits)
  have nolink: "nodes fs (d @ [n]) \<noteq> Some (Symlink t)" for t
  proof
    assume link: "nodes fs (d @ [n]) = Some (Symlink t)"
    obtain k'' where "walk NoFollow (nodes fs) MAX_SYMLINKS root (init @ [n]) = walk NoFollow (nodes fs) k'' d [n]"
      using walk_extend [OF d] by blast
    also have "\<dots> = Inr (d @ [n])" using dir link n by (simp add: name_segment_def)
    finally have "symlink_metadata fs p = Inr (Symlink t)"
      using walk_join [OF fs x raw, of NoFollow] link unfolding p segs
      by (simp add: symlink_metadata_def node_at_def)
    then show False using target by (simp add: check_existing_target_def is_link_def)
  qed
  have loc: "loc = d @ [n]" by (rule walk_last_name [OF last n]) (use nolink in blast)
  have "walk Follow (nodes fs) MAX_SYMLINKS root (filter (\<lambda>s. \<not> trivial s) init) = Inr d"
    by (rule walk_thinner [OF d thinner_filter])
  moreover have "list_all valid_name (filter (\<lambda>s. \<not> trivial s) init)"
    using segment_names(2) [of init] dots split_slash_no_slash [of _ raw] unfolding segs by auto
  ultimately have "par = d"
    using par up walk_below [OF fs x, of "filter (\<lambda>s. \<not> trivial s) init" Follow]
      parent_of_join [OF names raw segs n dots] unfolding p by simp
  then have "prefix root d"
    using ins inside_locations [OF names walk_path_valid [OF fs par]] by simp
  then show ?thesis using root esc p dir d n nolink loc segs by auto
qed

section \<open>Bounded reads of text\<close>

lemma last_char_index:
  "off \<le> m \<Longrightarrow> m < off + str_len s \<Longrightarrow>
     takeWhile (\<lambda>i. i \<le> m) (char_indices off s) \<noteq> []
     \<and> last (takeWhile (\<lambda>i. i \<le> m) (char_indices off s)) = off + str_len (fitting (m - off) s)"
proof (induction off s rule: char_indices.induct)
  case (2 off c s)
  show ?case
  proof (cases "off + len_utf8 c \<le> m")
    case True
    then have "len_utf8 c \<le> m - off" "m - off - len_utf8 c = m - (off + len_utf8 c)" by linarith+
    then show ?thesis using 2 True by simp
  next
    case False
    then have "takeWhile (\<lambda>i. i \<le> m) (char_indices (off + len_utf8 c) s) = []" by (cases s) auto
    then show ?thesis using 2(2) False by simp
  qed
qed simp

lemma truncate_utf8_fitting: "truncate_utf8 s m = fitting m s"
proof (cases "str_len s \<le> m")
  case True
  then show ?thesis by (simp add: truncate_utf8_def fitting_all)
next
  case False
  have "fitting (str_len (fitting m s)) s = fitting m s"
  proof -
    have "fitting (str_len (fitting m s)) (fitting m s) = fitting m s" by (simp add: fitting_all)
    then show ?thesis using fitting_fitting [OF fitting_bound, of m s s] by simp
  qed
  then show ?thesis using False last_char_index [of 0 m s] by (simp add: truncate_utf8_def Let_def)
qed

lemma take_fitting_bytes:
  "take (str_len (fitting n s)) (take n (as_bytes s)) = as_bytes (fitting n s)"
proof -
  obtain r where r: "s = fitting n s @ r" using fitting_prefix [of n s] by (auto simp: prefix_def)
  have "as_bytes s = as_bytes (fitting n s) @ as_bytes r" using r by (metis as_bytes_simps(3))
  then have "take (str_len (fitting n s)) (as_bytes s) = as_bytes (fitting n s)" by simp
  then show ?thesis using fitting_bound [of n s] by (simp add: min_absorb1)
qed

lemma fitting_scalar: "list_all is_scalar s \<Longrightarrow> list_all is_scalar (fitting n s)"
  by (induction n s rule: fitting.induct) auto

lemma read_utf8_prefix_text:
  assumes "list_all is_scalar s"
  shows "\<exists>m \<ge> MAX_READ_BYTES. read_utf8_prefix (as_bytes s) (str_len s) = Inr (fitting m s)"
proof -
  let ?n = "MAX_READ_BYTES + READ_UTF8_LOOKAHEAD_BYTES"
  have whole: "from_utf8 (as_bytes (fitting ?n s)) = Inr (fitting ?n s)"
    by (rule from_utf8_as_bytes [OF fitting_scalar [OF assms]])
  consider "from_utf8 (take ?n (as_bytes s)) = Inr (fitting ?n s)"
    | "?n \<le> str_len s" "from_utf8 (take ?n (as_bytes s)) = Inl (fitting ?n s, None)"
    using from_utf8_take [OF assms] by blast
  then show ?thesis
  proof cases
    case 2
    have "?n < str_len s"
      using 2 from_utf8_as_bytes [OF assms] by (cases "?n = str_len s") auto
    moreover have "MAX_READ_BYTES \<le> str_len (fitting ?n s)"
      using fitting_nearly [OF 2(1)] by (simp add: READ_UTF8_LOOKAHEAD_BYTES_def)
    ultimately show ?thesis using 2(2) take_fitting_bytes [of ?n s] whole
      by (intro exI [of _ ?n]) (simp add: read_utf8_prefix_def Let_def)
  qed (auto simp: read_utf8_prefix_def Let_def intro!: exI [of _ ?n])
qed

lemma read_file_text:
  assumes "resolve_existing_path fs workspace_root raw = Inr p" "read_bytes fs p = Inr (as_bytes s)"
    "list_all is_scalar s"
  shows "read_file fs workspace_root call_id raw = Inr (file_result call_id
    (lit ''read '' @ decimal (str_len s) @ lit '' bytes from '' @ raw)
    (ReadData raw (fitting MAX_READ_BYTES s) (str_len s > MAX_READ_BYTES) (str_len s)))"
  using assms read_utf8_prefix_text [OF assms(3)] fitting_fitting [of MAX_READ_BYTES _ s]
  by (auto simp: read_file_def io_result_def truncate_utf8_fitting Let_def)

section \<open>What a write changes\<close>

lemma fs_write_cases:
  assumes "fs_write fs d p bs = (fs', r)"
  obtains (unchanged) "fs' = fs" "r = Inr () \<Longrightarrow> \<exists>loc. walk_path Create fs p = Inr loc \<and> nodes fs loc = Some Special"
  | (changed) loc where "walk_path Create fs p = Inr loc"
      "nodes fs loc = None \<or> (\<exists>old. nodes fs loc = Some (RegularFile old))"
      "fs' = fs\<lparr>nodes := (nodes fs)(loc \<mapsto> RegularFile (written d bs))\<rparr>" "r = Inr () \<Longrightarrow> d = Completed"
  using assms
  by (force simp: fs_write_def split: sum.splits option.splits FsNode.splits if_splits)

lemma walk_preserved:
  assumes "walk Follow t k cur segs = Inr d"
    and dirs: "\<And>q. t q = Some Directory \<Longrightarrow> t' q = Some Directory"
    and links: "\<And>q l. t q = Some (Symlink l) \<Longrightarrow> t' q = Some (Symlink l)"
    and others: "\<And>q x. t q = Some x \<Longrightarrow> \<not> is_link x \<Longrightarrow> \<exists>x'. t' q = Some x' \<and> \<not> is_link x'"
  shows "walk Follow t' k cur segs = Inr d"
  using assms(1)
proof (induction rule: walk_induct_ok)
  case (trivial k cur seg rest)
  then show ?case using walk_trivial [of t' cur, OF dirs [OF trivial(1)] trivial(2)] by simp
next
  case (up k cur rest)
  then show ?case using walk_up [of t' cur, OF dirs [OF up(1)]] by simp
next
  case (link k cur seg rest target)
  then show ?case using walk_link [of t' cur, OF dirs [OF link(1)] link(2) links [OF link(3)]] by simp
next
  case (name k cur seg rest x)
  then obtain x' where "t' (cur @ [seg]) = Some x'" "\<not> is_link x'" using others by blast
  then show ?case using walk_name [of t' cur, OF dirs [OF name(1)] name(2)] name(6) by simp
qed simp_all

lemma walk_update:
  assumes "walk Follow t k cur segs = Inr d" "t loc = None \<or> (\<exists>old. t loc = Some (RegularFile old))"
  shows "walk Follow (t(loc \<mapsto> RegularFile bs)) k cur segs = Inr d"
  by (rule walk_preserved [OF assms(1)]) (use assms(2) in \<open>auto simp: is_link_def\<close>)

lemma fs_ok_update:
  assumes "fs_ok fs" "nodes fs d = Some Directory" "valid_name n"
    "nodes fs (d @ [n]) = None \<or> (\<exists>old. nodes fs (d @ [n]) = Some (RegularFile old))"
  shows "fs_ok (fs\<lparr>nodes := (nodes fs)(d @ [n] \<mapsto> RegularFile bs)\<rparr>)"
proof -
  let ?t = "(nodes fs)(d @ [n] \<mapsto> RegularFile bs)"
  have dirs: "?t q = Some Directory" if "nodes fs q = Some Directory" for q
    using that assms(4) by auto
  have "valid_name n' \<and> ?t q = Some Directory" if "?t (q @ [n']) \<noteq> None" for q n'
  proof (cases "q @ [n'] = d @ [n]")
    case True
    then show ?thesis using assms(2,3) dirs by auto
  next
    case False
    then have "nodes fs (q @ [n']) \<noteq> None" using that by auto
    then show ?thesis using assms(1) dirs unfolding fs_ok_def tree_ok_def by blast
  qed
  then show ?thesis using assms(1) dirs unfolding fs_ok_def tree_ok_def by auto
qed

lemma write_file_cases:
  assumes "fs_ok fs" "write_file fs disk workspace_root call_id raw content verb prep = (fs', r)"
  obtains (unchanged) "fs' = fs" "is_ok r \<Longrightarrow> \<exists>loc. nodes fs loc = Some Special"
  | (changed) root d n where "workspace fs workspace_root root" "prefix root d" "\<not> path_escapes raw"
      "nodes fs d = Some Directory" "valid_name n" "n = last (split_slash raw)"
      "walk Follow (nodes fs) MAX_SYMLINKS root (butlast (split_slash raw)) = Inr d"
      "nodes fs (d @ [n]) = None \<or> (\<exists>old. nodes fs (d @ [n]) = Some (RegularFile old))"
      "fs' = fs\<lparr>nodes := (nodes fs)(d @ [n] \<mapsto> RegularFile (written disk (as_bytes content)))\<rparr>"
      "check_memory_target fs workspace_root raw content = Inr ()" "is_ok r \<Longrightarrow> disk = Completed"
proof (cases "check_memory_target fs workspace_root raw content")
  case (Inl e)
  then show thesis using assms(2) unchanged by (auto simp: write_file_def)
next
  case mem: (Inr u)
  show thesis
  proof (cases "resolve_write_path fs workspace_root raw")
    case (Inl e)
    then show thesis using mem assms(2) unchanged by (auto simp: write_file_def)
  next
    case res: (Inr p)
    obtain r' where w: "fs_write fs disk p (as_bytes content) = (fs', r')" and r: "is_ok r \<longleftrightarrow> r' = Inr ()"
      using assms(2) mem res
      by (cases "fs_write fs disk p (as_bytes content)") (auto simp: write_file_def split: sum.splits)
    from w show thesis
    proof (cases rule: fs_write_cases)
      case 1: unchanged
      then show thesis using unchanged r by blast
    next
      case 2: (changed loc)
      have "nodes fs loc \<noteq> Some Directory" using 2(2) by auto
      then obtain root d n where c: "workspace fs workspace_root root" "prefix root d" "loc = d @ [n]"
          "\<not> path_escapes raw" "nodes fs d = Some Directory"
          "walk Follow (nodes fs) MAX_SYMLINKS root (butlast (split_slash raw)) = Inr d"
          "n = last (split_slash raw)" "name_segment n"
        using resolve_write_confined [OF assms(1) res 2(1)] by blast
      have "47 \<notin> set n" using split_slash_no_slash [of n raw] c(7) by simp
      then have "valid_name n" using c(8) by (simp add: valid_name_def name_segment_def)
      then show thesis using changed [OF c(1,2,4,5) _ c(7) c(6)] 2 c(3) mem r by simp
    qed
  qed
qed

text \<open>Two small file systems, without and with a link inside the workspace \<open>/w\<close>.\<close>

definition sample_fs :: FileSystem where
  "sample_fs = \<lparr>nodes = map_of [([], Directory), ([[119]], Directory), ([[119], [97]], RegularFile [104, 105])],
     current_dir = []\<rparr>"

definition sample_link_fs :: FileSystem where
  "sample_link_fs = \<lparr>nodes = map_of [([], Directory), ([[119]], Directory), ([[119], [108]], Symlink (lit ''.''))],
     current_dir = []\<rparr>"

lemma sample_fs_ok: "fs_ok sample_fs" "fs_ok sample_link_fs"
  by (auto simp: fs_ok_def tree_ok_def sample_fs_def sample_link_fs_def valid_name_def trivial_def lit_def
      append_eq_Cons_conv split: if_splits)

abbreviation sample_write :: "rstr \<Rightarrow> FileSystem \<times> (AppError, FileToolData ToolResult) result" where
  "sample_write raw \<equiv> write_file sample_fs Completed [47, 119] (ToolCallId [99]) raw [121, 111] (lit ''wrote'') (lit ''to'')"

text \<open>
  C26. A file write, whatever path the model asked for and however the disk fails, changes nothing
  or exactly one node: a regular or missing file strictly inside the canonical workspace, which
  then holds the bytes the disk took. Symbolic links and directories are never replaced.
\<close>

theorem file_write_confined:
  assumes "fs_ok fs" "write_file fs disk workspace_root call_id raw content verb prep = (fs', r)"
  shows "fs_ok fs' \<and>
    (fs' = fs \<or>
     (\<exists>root loc. workspace fs workspace_root root \<and> strict_prefix root loc
        \<and> (nodes fs loc = None \<or> (\<exists>old. nodes fs loc = Some (RegularFile old)))
        \<and> fs' = fs\<lparr>nodes := (nodes fs)(loc \<mapsto> RegularFile (written disk (as_bytes content)))\<rparr>))"
  using assms
proof (cases rule: write_file_cases)
  case unchanged
  then show ?thesis using assms(1) by simp
next
  case (changed root d n)
  have "strict_prefix root (d @ [n])" using changed(2) by (auto simp: strict_prefix_def)
  then show ?thesis using changed fs_ok_update [OF assms(1) changed(4,5,8)] by blast
qed

theorem file_write_confined_witness:
  "fs_ok (fst (sample_write [98])) \<and> nodes (fst (sample_write [98])) [[119], [98]] = Some (RegularFile [121, 111]) \<and>
   (\<exists>root loc. workspace sample_fs [47, 119] root \<and> strict_prefix root loc
      \<and> fst (sample_write [98]) = sample_fs\<lparr>nodes := (nodes sample_fs)(loc \<mapsto> RegularFile [121, 111])\<rparr>)"
proof -
  have new: "nodes (fst (sample_write [98])) [[119], [98]] = Some (RegularFile [121, 111])" by code_simp
  moreover have "nodes sample_fs [[119], [98]] = None" by code_simp
  ultimately have "fst (sample_write [98]) \<noteq> sample_fs" by auto
  moreover have "written Completed (as_bytes [121, 111]) = [121, 111]" by code_simp
  ultimately show ?thesis using new file_write_confined [OF sample_fs_ok(1) prod.collapse [symmetric]] by metis
qed

text \<open>
  A successful read returns text of a file inside the canonical workspace, and exactly its
  longest prefix of whole characters within the read limit, with the size and the truncation
  flag of the whole file; a file that is not text within the limit is refused, not mangled.
\<close>

theorem file_read_confined:
  assumes "fs_ok fs" "resolve_existing_path fs workspace_root raw = Inr p"
    "read_bytes fs p = Inr (as_bytes s)" "list_all is_scalar s"
  shows "read_file fs workspace_root call_id raw = Inr (file_result call_id
      (lit ''read '' @ decimal (str_len s) @ lit '' bytes from '' @ raw)
      (ReadData raw (fitting MAX_READ_BYTES s) (str_len s > MAX_READ_BYTES) (str_len s)))
    \<and> prefix (fitting MAX_READ_BYTES s) s \<and> str_len (fitting MAX_READ_BYTES s) \<le> MAX_READ_BYTES
    \<and> (\<forall>q. prefix q s \<and> str_len q \<le> MAX_READ_BYTES \<longrightarrow> prefix q (fitting MAX_READ_BYTES s))
    \<and> (\<exists>root loc. workspace fs workspace_root root \<and> prefix root loc
         \<and> nodes fs loc = Some (RegularFile (as_bytes s)))"
proof -
  obtain root loc where "workspace fs workspace_root root" "prefix root loc" "walk_path Follow fs p = Inr loc"
    using resolve_existing_confined [OF assms(1,2)] by blast
  moreover from this have "nodes fs loc = Some (RegularFile (as_bytes s))"
    using assms(3)
    by (auto simp: read_bytes_def metadata_def node_at_def result_simps split: option.splits FsNode.splits)
  ultimately show ?thesis
    using read_file_text [OF assms(2-4)] fitting_prefix [of MAX_READ_BYTES s] fitting_bound [of MAX_READ_BYTES s]
      fitting_longest [of _ s MAX_READ_BYTES] by blast
qed

theorem file_read_confined_witness:
  "is_ok (read_file sample_fs [47, 119] (ToolCallId [99]) [97]) \<and> fitting MAX_READ_BYTES [104, 105] = [104, 105]
   \<and> (\<exists>root loc. workspace sample_fs [47, 119] root \<and> prefix root loc
        \<and> nodes sample_fs loc = Some (RegularFile [104, 105]))"
proof -
  have "resolve_existing_path sample_fs [47, 119] [97] = Inr [47, 119, 47, 97]" by code_simp
  moreover have "read_bytes sample_fs [47, 119, 47, 97] = Inr (as_bytes [104, 105])" by code_simp
  moreover have "list_all is_scalar [104, 105]" "as_bytes [104, 105] = [104, 105]"
    by (simp_all add: is_scalar_def encode_char_def)
  moreover have "fitting MAX_READ_BYTES [104, 105] = [104, 105]"
    by (rule fitting_all) (simp add: MAX_READ_BYTES_def len_utf8_def)
  ultimately show ?thesis
    using file_read_confined [OF sample_fs_ok(1), of "[47, 119]" "[97]" "[47, 119, 47, 97]" "[104, 105]" "ToolCallId [99]"]
    by (metis is_ok.simps(2))
qed

lemma resolve_after_write:
  assumes fs: "fs_ok fs" and root: "workspace fs workspace_root root" and d: "prefix root d" "nodes fs d = Some Directory"
    and n: "valid_name n" "n = last (split_slash raw)" and esc: "\<not> path_escapes raw"
    and walk: "walk Follow (nodes fs) MAX_SYMLINKS root (butlast (split_slash raw)) = Inr d"
    and old: "nodes fs (d @ [n]) = None \<or> (\<exists>old. nodes fs (d @ [n]) = Some (RegularFile old))"
    and fs': "fs' = fs\<lparr>nodes := (nodes fs)(d @ [n] \<mapsto> RegularFile bs)\<rparr>"
  shows "resolve_existing_path fs' workspace_root raw = Inr (location_path (d @ [n]))
    \<and> read_bytes fs' (location_path (d @ [n])) = Inr bs"
proof -
  have ok: "fs_ok fs'" unfolding fs' by (rule fs_ok_update [OF fs d(2) n(1) old])
  have raw: "\<not> is_absolute raw" using esc by (simp add: path_escapes_def)
  have root': "workspace fs' workspace_root root"
    using root walk_update [of "nodes fs" _ _ _ _ "d @ [n]" bs, OF _ old] unfolding fs' by (auto simp: walk_path_def split: if_splits)
  obtain x where x: "nodes fs' root = Some x" "\<not> is_link x" using walk_path_found [OF ok root'] by blast
  have regular: "nodes fs' (d @ [n]) = Some (RegularFile bs)" and dir: "nodes fs' d = Some Directory"
    using d(2) by (simp_all add: fs')
  have link: "\<not> is_link (RegularFile bs)" by (simp add: is_link_def)
  have "walk Follow (nodes fs') MAX_SYMLINKS root (butlast (split_slash raw)) = Inr d"
    using walk_update [of "nodes fs" _ _ _ _ "d @ [n]" bs, OF walk old] by (simp add: fs')
  then obtain k where "walk Follow (nodes fs') MAX_SYMLINKS root (butlast (split_slash raw) @ [n])
      = walk Follow (nodes fs') k d [n]"
    using walk_extend by blast
  also have "\<dots> = Inr (d @ [n])"
    using walk_name [of "nodes fs'" d n, OF dir valid_name_segment [OF n(1)] regular link] by simp
  finally have "walk_path Follow fs' (path_join (location_path root) raw) = Inr (d @ [n])"
    using walk_join [OF ok x raw] n(2) by simp
  moreover have "walk_path Follow fs' (location_path (d @ [n])) = Inr (d @ [n])"
    by (rule walk_location [OF ok regular link])
  moreover have "inside (location_path root) (location_path (d @ [n]))"
    using inside_locations [OF walk_path_valid [OF ok root'] walk_path_valid [OF ok calculation(1)]] d(1) by simp
  ultimately show ?thesis using root' esc regular
    by (simp add: resolve_existing_path_def canonicalize_def io_result_def read_bytes_def metadata_def node_at_def)
qed



section \<open>The memory file\<close>

lemma normalize_names:
  "normalize_components p (map Normal ns) = Some (foldl path_join p ns)"
  by (induction ns arbitrary: p) auto

lemma normalize_raw:
  assumes "\<not> path_escapes raw"
  shows "normalize_components p (path_components raw) =
    Some (foldl path_join p (filter (\<lambda>s. \<not> trivial s) (split_slash raw)))"
proof -
  have dots: "lit ''..'' \<notin> set (split_slash raw)" by (rule escaping_segment [OF assms])
  have slashes: "\<forall>s\<in>set (split_slash raw). 47 \<notin> set s" using split_slash_no_slash by blast
  obtain seg segs where split: "split_slash raw = seg # segs" by (cases "split_slash raw") simp_all
  have names: "List.map_filter segment_component (seg # segs) = map Normal (filter (\<lambda>s. \<not> trivial s) (seg # segs))"
      "List.map_filter segment_component segs = map Normal (filter (\<lambda>s. \<not> trivial s) segs)"
    using segment_names(1) [of "seg # segs"] segment_names(1) [of segs] dots slashes split by auto
  have rel: "(raw \<noteq> [] \<and> hd raw = 47) = False" using assms by (auto simp: path_escapes_def is_absolute_def)
  have comps: "path_components raw =
      (if seg = lit ''.'' then CurDir # List.map_filter segment_component segs
       else List.map_filter segment_component (seg # segs))"
    using rel by (simp only: path_components_def split if_False list.case)
  show ?thesis unfolding comps names split
    by (simp only: normalize_names normalize_components.simps if_distrib [of "normalize_components p"])
       (simp add: trivial_def)
qed

lemma walk_no_links:
  assumes "walk Follow t k cur segs = Inr d" "\<nexists>q l. prefix root q \<and> t q = Some (Symlink l)"
    "prefix root cur" "lit ''..'' \<notin> set segs"
  shows "d = cur @ filter (\<lambda>s. \<not> trivial s) segs"
  using assms(1,3,4)
proof (induction rule: walk_induct_ok)
  case (link k cur seg rest target)
  then show ?case using assms(2) prefix_order.trans [of root cur "cur @ [seg]"] by auto
qed (auto simp: name_segment_def)

text \<open>
  Where no symbolic link lies inside the workspace, the memory guard is complete: a call that
  changes the workspace memory file carried at most 8192 bytes of valid UTF-8, and it is a call
  that automatic approval excludes, so that a person granted it.
\<close>

theorem memory_guard_complete:
  assumes "fs_ok fs" "workspace fs workspace_root root"
    "\<nexists>q l. prefix root q \<and> nodes fs q = Some (Symlink l)"
    "write_file fs disk workspace_root (tc_id call) raw content verb prep = (fs', r)"
    "nodes fs' (root @ [PLATONIC_MEMORY_FILENAME]) \<noteq> nodes fs (root @ [PLATONIC_MEMORY_FILENAME])"
    "tool_name_str (tc_tool call) \<in> {lit ''file.write'', lit ''file.edit''}" "path_field (tc_input call) = Some raw"
  shows "str_len content \<le> PLATONIC_MEMORY_MAX_BYTES \<and> is_ok (from_utf8 (as_bytes content))
    \<and> \<not> yolo_eligible path_field workspace_root call policy"
  using assms(1,4)
proof (cases rule: write_file_cases)
  case unchanged
  then show ?thesis using assms(5) by simp
next
  case (changed root' d n)
  have root: "root' = root" using changed(1) assms(2) by simp
  have loc: "d = root" "n = PLATONIC_MEMORY_FILENAME" using changed(9) assms(5) by (auto split: if_splits)
  let ?init = "butlast (split_slash raw)"
  have split: "split_slash raw = ?init @ [n]" using changed(6) by simp
  have "lit ''..'' \<notin> set (split_slash raw)" by (rule escaping_segment [OF changed(3)])
  then have "lit ''..'' \<notin> set ?init" using in_set_butlastD by fast
  then have "filter (\<lambda>s. \<not> trivial s) ?init = []"
    using walk_no_links [OF changed(7), of root] assms(3) loc(1) root by simp
  moreover have "\<not> trivial n" using changed(5) by (simp add: valid_name_def)
  ultimately have "filter (\<lambda>s. \<not> trivial s) (split_slash raw) = [n]" by (subst split) simp
  then have target: "platonic_memory_target_path workspace_root raw = Some (path_join workspace_root n)"
    using normalize_raw [OF changed(3), of workspace_root] loc(2) by (simp add: platonic_memory_target_path_def)
  have shell: "lit ''file.write'' \<noteq> lit ''shell.exec''" "lit ''file.edit'' \<noteq> lit ''shell.exec''" by (simp_all add: lit_inj)
  show ?thesis using changed(10) target assms(6,7) shell
    by (auto simp: check_memory_target_def validate_platonic_memory_content_def result_simps yolo_eligible_def
        targets_platonic_memory_def split: if_splits sum.splits)
qed

abbreviation sample_memory_call :: "rstr ToolCall" where
  "sample_memory_call \<equiv> \<lparr>tc_id = ToolCallId [99], tc_tool = ToolName (lit ''file.edit''),
     tc_effect = WorkspaceWrite, tc_input = lit ''./PLATONIC.md''\<rparr>"

theorem memory_guard_complete_witness:
  "nodes (fst (sample_write (lit ''./PLATONIC.md''))) [[119], PLATONIC_MEMORY_FILENAME] = Some (RegularFile [121, 111])
   \<and> \<not> yolo_eligible Some [47, 119] sample_memory_call (RequireApproval [])"
proof -
  have new: "nodes (fst (sample_write (lit ''./PLATONIC.md''))) [[119], PLATONIC_MEMORY_FILENAME] = Some (RegularFile [121, 111])"
    by code_simp
  have ws: "workspace sample_fs [47, 119] [[119]]" by code_simp
  have old: "nodes sample_fs [[119], PLATONIC_MEMORY_FILENAME] = None" by code_simp
  have "\<nexists>q l. prefix [[119]] q \<and> nodes sample_fs q = Some (Symlink l)" by (auto simp: sample_fs_def split: if_splits)
  then show ?thesis
    using memory_guard_complete [OF sample_fs_ok(1) ws, of Completed sample_memory_call "lit ''./PLATONIC.md''" "[121, 111]"
        "lit ''wrote''" "lit ''to''" "fst (sample_write (lit ''./PLATONIC.md''))"
        "snd (sample_write (lit ''./PLATONIC.md''))" Some "RequireApproval []"] new old by simp
qed

lemma memory_name: "valid_name PLATONIC_MEMORY_FILENAME" "name_segment PLATONIC_MEMORY_FILENAME"
  by (code_simp, code_simp)

lemma dot_trivial [simp]: "trivial (lit ''.'')" "trivial []"
  by (simp_all add: trivial_def)

lemma split_dot: "split_slash (lit ''.'') = [lit ''.'']" "\<not> is_absolute (lit ''.'')"
  by (code_simp, code_simp)

lemma walk_dot_link:
  assumes "t root = Some Directory" "name_segment l" "t (root @ [l]) = Some (Symlink (lit ''.''))"
    "\<not> (m = NoFollow \<and> rest = [])"
  shows "walk m t (Suc k) root (l # rest) = walk m t k root rest"
  using walk_link [OF assms] assms(1) by (simp add: split_dot walk_trivial [of t root] del: walk.simps)

lemma walk_regular:
  assumes "t root = Some Directory" "name_segment n" "t (root @ [n]) = None \<or> (\<exists>old. t (root @ [n]) = Some (RegularFile old))"
  shows "walk m t k root [n] = (if t (root @ [n]) = None \<and> m \<noteq> Create then Inl NotFound else Inr (root @ [n]))"
  using assms by (auto simp: name_segment_def)

lemma path_join_name:
  assumes "list_all valid_name root" "valid_name n"
  shows "path_join (location_path root) n = location_path (root @ [n])"
proof -
  have n: "\<not> is_absolute n" using assms(2) by (cases n) (auto simp: is_absolute_def valid_name_def)
  show ?thesis
  proof (cases "root = []")
    case True
    then show ?thesis using n by (simp add: path_join_def location_path_def)
  next
    case False
    then obtain root' m where root: "root = root' @ [m]" by (cases root rule: rev_cases) auto
    have "m \<noteq> []" "last m \<noteq> 47"
      using assms(1) unfolding root by (auto simp: valid_name_def trivial_def dest: last_in_set)
    then show ?thesis using n by (simp add: path_join_def location_path_def root)
  qed
qed

text \<open>
  C28. The memory guard compares spellings, not locations: with a symbolic link to the workspace
  root inside the workspace, the path through the link overwrites the memory file with any
  content of any size, and automatic approval grants the call.
\<close>

theorem memory_guard_bypass:
  fixes content :: rstr
  defines "mem \<equiv> PLATONIC_MEMORY_FILENAME"
  assumes fs: "fs_ok fs" and root: "nodes fs root = Some Directory" and l: "valid_name l"
    and link: "nodes fs (root @ [l]) = Some (Symlink (lit ''.''))"
    and target: "nodes fs (root @ [mem]) = None \<or> (\<exists>old. nodes fs (root @ [mem]) = Some (RegularFile old))"
    and call: "tc_effect call = WorkspaceWrite" "path_field (tc_input call) = Some (l @ 47 # mem)"
  shows "fst (write_file fs Completed (location_path root) (tc_id call) (l @ 47 # mem) content verb prep)
      = fs\<lparr>nodes := (nodes fs)(root @ [mem] \<mapsto> RegularFile (as_bytes content))\<rparr>
    \<and> is_ok (snd (write_file fs Completed (location_path root) (tc_id call) (l @ 47 # mem) content verb prep))
    \<and> yolo_eligible path_field (location_path root) call (RequireApproval reason)"
proof -
  let ?raw = "l @ 47 # mem" and ?root = "location_path root"
  have mem: "valid_name mem" "name_segment mem" using memory_name by (simp_all add: mem_def)
  have names: "list_all valid_name root" using tree_ok_names [of "nodes fs" root] fs root by (simp add: fs_ok_def)
  have l': "name_segment l" by (rule valid_name_segment [OF l])
  have split: "split_slash ?raw = [l, mem]"
    using l mem by (simp add: split_slash_append split_slash_plain valid_name_def)
  have abs: "\<not> is_absolute ?raw" using l by (cases l) (auto simp: is_absolute_def valid_name_def)
  have "path_components ?raw = [Normal l, Normal mem]"
    using abs split segment_component_name [OF l] segment_component_name [OF mem(1)] l
    by (auto simp: path_components_def is_absolute_def List.map_filter_def valid_name_def)
  then have esc: "\<not> path_escapes ?raw" using abs by (simp add: path_escapes_def)
  have "platonic_memory_target_path ?root ?raw = None"
    using normalize_raw [OF esc, of ?root] l mem path_join_name [OF names l]
      path_join_name [OF names mem(1)] path_join_name [of "root @ [l]" mem] names
    by (simp add: platonic_memory_target_path_def split location_components mem_def [symmetric] valid_name_def)
  then have check: "check_memory_target fs ?root ?raw content = Inr ()"
    and yolo: "yolo_eligible path_field ?root call (RequireApproval reason)"
    using call by (simp_all add: check_memory_target_def yolo_eligible_def targets_platonic_memory_def)
  have dir: "\<not> is_link Directory" by (simp add: is_link_def)
  have wr: "walk_path m fs ?root = Inr root" for m by (rule walk_location [OF fs root dir])
  have wraw: "walk_path m fs (path_join ?root ?raw) =
      (if nodes fs (root @ [mem]) = None \<and> m \<noteq> Create then Inl NotFound else Inr (root @ [mem]))" for m
    using walk_join [OF fs root dir abs, of m] walk_dot_link [OF root l' link, of m "[mem]" 39]
      walk_regular [OF root mem(2) target, of m 39]
    by (simp add: split MAX_SYMLINKS_def del: walk.simps)
  have wup: "walk_path Follow fs (location_path (root @ [l])) = Inr root"
    using walk_below [OF fs root dir, of "[l]" Follow] walk_dot_link [OF root l' link, of Follow "[]" 39] l
    by (simp add: MAX_SYMLINKS_def del: walk.simps(2))
  have up: "parent_path (path_join ?root ?raw) = Some (location_path (root @ [l]))"
    using parent_of_join [OF names abs, of "[l]" mem] escaping_segment [OF esc] mem(2) l
    by (simp add: split valid_name_def)
  have ins: "inside ?root ?root" "inside ?root (location_path (root @ [mem]))"
    using inside_locations [OF names] names mem by auto
  have resolve: "resolve_write_path fs ?root ?raw = Inr (path_join ?root ?raw)"
    using target esc ins up wup wr wraw
    by (auto simp: resolve_write_path_def canonicalize_def io_result_def check_existing_target_def
        symlink_metadata_def node_at_def is_link_def)
  show ?thesis using check resolve wraw [of Create] target yolo
    by (auto simp: write_file_def fs_write_def)
qed

theorem memory_guard_bypass_witness:
  "fst (write_file sample_link_fs Completed (location_path [[119]]) (ToolCallId [99]) ([108] @ 47 # PLATONIC_MEMORY_FILENAME)
      (replicate 9000 97) [] []) = sample_link_fs\<lparr>nodes :=
      (nodes sample_link_fs)([[119]] @ [PLATONIC_MEMORY_FILENAME] \<mapsto> RegularFile (as_bytes (replicate 9000 97)))\<rparr>
   \<and> PLATONIC_MEMORY_MAX_BYTES < str_len (replicate 9000 97)"
proof -
  define call :: "rstr ToolCall" where "call = \<lparr>tc_id = ToolCallId [99], tc_tool = ToolName (lit ''file.edit''),
     tc_effect = WorkspaceWrite, tc_input = [108] @ 47 # PLATONIC_MEMORY_FILENAME\<rparr>"
  have "nodes sample_link_fs [[119]] = Some Directory" by code_simp
  moreover have "valid_name [108]" by code_simp
  moreover have "nodes sample_link_fs ([[119]] @ [[108]]) = Some (Symlink (lit ''.''))" by code_simp
  moreover have "nodes sample_link_fs ([[119]] @ [PLATONIC_MEMORY_FILENAME]) = None" by code_simp
  moreover have "PLATONIC_MEMORY_MAX_BYTES < str_len (replicate 9000 97)"
    using length_le_str_len [of "replicate 9000 97"] by (simp add: PLATONIC_MEMORY_MAX_BYTES_def)
  ultimately show ?thesis
    using memory_guard_bypass [OF sample_fs_ok(2), of "[[119]]" "[108]" call Some "replicate 9000 97" "[]" "[]" "[]"]
    by (simp add: call_def)
qed

end
