(* ===== verification/Closing_Tags.thy ===== *)
theory Closing_Tags
  imports Utf8_Codec
begin

text \<open>
  Untrusted text inside a tagged wrapper. The server writes a backslash after the bracket of every
  place where the closing tag would begin, in any capitalisation. The locale \<open>closing_tag\<close> has what
  the name of a tag must satisfy for that to be enough; the wrapper around tool output and the one
  around the messages of other threads interpret it.
\<close>

definition to_ascii_lowercase :: "rchar \<Rightarrow> rchar" where
  "to_ascii_lowercase c = (if 65 \<le> c \<and> c \<le> 90 then c + 32 else c)"

definition eq_closer :: "rstr \<Rightarrow> rstr \<Rightarrow> bool" where
  "eq_closer w s \<longleftrightarrow> map to_ascii_lowercase (take (length w) s) = w"

text \<open>\<open>windows(..).position(..)\<close>: the first place where the closer begins.\<close>

fun find_closer :: "rstr \<Rightarrow> rstr \<Rightarrow> nat option" where
  "find_closer w [] = None"
| "find_closer w (c # s) = (if eq_closer w (c # s) then Some 0 else map_option Suc (find_closer w s))"

lemma find_closer_bound: "find_closer w s = Some i \<Longrightarrow> i < length s"
  by (induction s arbitrary: i) (auto split: if_splits)

function neutralize_closers :: "rstr \<Rightarrow> rstr \<Rightarrow> rstr" where
  "neutralize_closers w body =
     (case find_closer w body of
        None \<Rightarrow> body
      | Some i \<Rightarrow> take (i + 1) body @ [92] @ neutralize_closers w (drop (i + 1) body))"
  by pat_completeness auto
termination
  by (relation "measure (length \<circ> snd)") (auto dest: find_closer_bound)

declare neutralize_closers.simps [simp del]

section \<open>One pass\<close>

fun neutral :: "rstr \<Rightarrow> rstr \<Rightarrow> rstr" where
  "neutral w [] = []"
| "neutral w (c # s) = (if eq_closer w (c # s) then [c, 92] else [c]) @ neutral w s"

lemma find_closer_None: "find_closer w s = None \<Longrightarrow> neutral w s = s"
  by (induction s) (auto split: if_splits)

lemma find_closer_Some: "find_closer w s = Some i \<Longrightarrow> neutral w s = take (i + 1) s @ [92] @ neutral w (drop (i + 1) s)"
  by (induction s arbitrary: i) (auto split: if_splits)

lemma neutralize_neutral: "neutralize_closers w s = neutral w s"
proof (induction w s rule: neutralize_closers.induct)
  case (1 w body)
  then show ?case
    by (subst neutralize_closers.simps) (auto simp: find_closer_None find_closer_Some split: option.splits)
qed

definition no_closer :: "rstr \<Rightarrow> rstr \<Rightarrow> bool" where
  "no_closer w s \<longleftrightarrow> (\<forall>i. \<not> eq_closer w (drop i s))"

lemma no_closer_Cons: "no_closer w (c # s) \<longleftrightarrow> \<not> eq_closer w (c # s) \<and> no_closer w s"
proof -
  have "(\<forall>i. \<not> eq_closer w (drop i (c # s))) \<longleftrightarrow> \<not> eq_closer w (c # s) \<and> (\<forall>i. \<not> eq_closer w (drop i s))"
    by (metis drop0 drop_Suc_Cons not0_implies_Suc)
  then show ?thesis by (simp add: no_closer_def)
qed

lemma prefix_no_closer: "prefix p s \<Longrightarrow> no_closer w s \<Longrightarrow> no_closer w p"
proof -
  assume "prefix p s" "no_closer w s"
  then obtain r where s: "s = p @ r" by (auto simp: prefix_def)
  have "\<not> eq_closer w (drop i p)" for i
  proof
    assume m: "eq_closer w (drop i p)"
    have "length w \<le> length (drop i p)"
      using m arg_cong [of _ _ length] unfolding eq_closer_def by (metis length_map length_take min.cobounded1)
    then have "take (length w) (drop i s) = take (length w) (drop i p)" by (simp add: s)
    then have "eq_closer w (drop i s)" using m by (simp only: eq_closer_def)
    then show False using \<open>no_closer w s\<close> by (simp add: no_closer_def)
  qed
  then show "no_closer w p" by (simp add: no_closer_def)
qed

lemma lowercase_bracket: "to_ascii_lowercase c = 60 \<longleftrightarrow> c = 60"
  by (auto simp: to_ascii_lowercase_def)

section \<open>Tags\<close>

locale closing_tag =
  fixes closer :: rstr and name :: rstr
  assumes closer_name: "closer = 60 # 47 # name"
    and no_bracket: "60 \<notin> set name"
    and no_line: "10 \<notin> set name"
begin

lemma eq_closer_Cons: "eq_closer closer (c # s) \<longleftrightarrow> c = 60 \<and> map to_ascii_lowercase (take (Suc (length name)) s) = 47 # name"
  by (simp add: eq_closer_def closer_name lowercase_bracket)

lemma eq_closer_Nil [simp]: "\<not> eq_closer closer []"
  by (simp add: eq_closer_def closer_name)

lemma not_closer: "to_ascii_lowercase d \<noteq> 47 \<Longrightarrow> \<not> eq_closer closer (c # d # s)"
  by (simp add: eq_closer_Cons)

lemma neutral_word:
  "60 \<notin> set v \<Longrightarrow> map to_ascii_lowercase (take (length v) (neutral closer s)) = v
     \<Longrightarrow> map to_ascii_lowercase (take (length v) s) = v"
proof (induction v arbitrary: s)
  case (Cons x v)
  then obtain c s' where s: "s = c # s'" by (cases s) auto
  have "c \<noteq> 60" using Cons.prems by (auto simp: s lowercase_bracket split: if_splits)
  then show ?case using Cons by (auto simp: s eq_closer_Cons)
qed simp

lemma neutral_no_closer: "no_closer closer (neutral closer s)"
proof (induction s)
  case (Cons c s)
  show ?case
  proof (cases "eq_closer closer (c # s)")
    case True
    have "\<not> eq_closer closer (c # 92 # neutral closer s)" "\<not> eq_closer closer (92 # neutral closer s)"
      by (auto simp: not_closer eq_closer_Cons to_ascii_lowercase_def)
    then show ?thesis using True Cons by (simp add: no_closer_Cons)
  next
    case False
    then have "\<not> eq_closer closer (c # neutral closer s)"
      using neutral_word [of "47 # name" s] no_bracket by (auto simp: eq_closer_Cons)
    then show ?thesis using False Cons by (simp add: no_closer_Cons)
  qed
qed (simp add: no_closer_def)

lemma neutralized: "no_closer closer (neutralize_closers closer s)"
  by (simp add: neutralize_neutral neutral_no_closer)

lemma eq_closer_append:
  assumes "\<not> eq_closer closer a"
  shows "\<not> eq_closer closer (a @ 10 # b)"
proof
  assume m: "eq_closer closer (a @ 10 # b)"
  show False
  proof (cases "length closer \<le> length a")
    case True
    then show False using m assms by (simp add: eq_closer_def)
  next
    case False
    then have "10 \<in> set (take (length closer) (a @ 10 # b))" by (simp add: take_Cons')
    then have "to_ascii_lowercase 10 \<in> set closer" using m unfolding eq_closer_def by (metis image_eqI set_map)
    then show False using no_line by (simp add: to_ascii_lowercase_def closer_name)
  qed
qed

lemma closer_after_line:
  assumes "no_closer closer a"
  shows "eq_closer closer (drop i (a @ 10 # b)) \<longleftrightarrow> length a < i \<and> eq_closer closer (drop (i - length a - 1) b)"
proof (cases "length a < i")
  case True
  then obtain k where "i = Suc (length a + k)" using less_imp_Suc_add by blast
  then show ?thesis by simp
next
  case False
  then show ?thesis using assms eq_closer_append [of "drop i a" b] by (auto simp: no_closer_def)
qed

lemma lines_no_closer: "no_closer closer a \<Longrightarrow> no_closer closer b \<Longrightarrow> no_closer closer (a @ 10 # b)"
  using closer_after_line unfolding no_closer_def by blast

lemma no_bracket_no_closer: "60 \<notin> set s \<Longrightarrow> no_closer closer s"
proof (induction s)
  case (Cons c s)
  then show ?case by (auto simp: no_closer_Cons eq_closer_Cons)
qed (simp add: no_closer_def)

lemma close_only:
  assumes "map to_ascii_lowercase name = name" and "60 \<notin> set rest"
  shows "eq_closer closer (drop i (closer @ rest)) \<longleftrightarrow> i = 0"
proof (cases i)
  case 0
  then show ?thesis using assms(1) by (simp add: eq_closer_def closer_name to_ascii_lowercase_def)
next
  case (Suc k)
  have "no_closer closer (47 # name @ rest)" using no_bracket assms(2) by (intro no_bracket_no_closer) simp
  then show ?thesis using Suc by (simp add: no_closer_def closer_name)
qed

text \<open>A wrapper of three lines closes once, at its end.\<close>

lemma wrapped_closer:
  assumes "no_closer closer a" "no_closer closer b" "map to_ascii_lowercase name = name"
  shows "eq_closer closer (drop i (a @ 10 # b @ 10 # closer @ [62])) \<longleftrightarrow>
    i + Suc (length closer) = length (a @ 10 # b @ 10 # closer @ [62])"
proof -
  have only: "eq_closer closer (drop j (closer @ [62])) \<longleftrightarrow> j = 0" for j
    by (rule close_only [OF assms(3)]) simp
  have "eq_closer closer (drop i (a @ 10 # b @ 10 # closer @ [62])) \<longleftrightarrow>
      length a < i \<and> length b < i - length a - 1 \<and> i - length a - 1 - length b - 1 = 0"
    by (simp only: closer_after_line [OF assms(1)] closer_after_line [OF assms(2)] only)
  also have "\<dots> \<longleftrightarrow> i = length a + 1 + length b + 1" by linarith
  finally show ?thesis by simp
qed

end

end
