(* ===== verification/Tool_Output.thy ===== *)
theory Tool_Output
  imports Closing_Tags Tool_Catalog
begin

text \<open>
  The wrapper around tool output that goes back to the model (\<open>provider_tool_output\<close> of
  \<open>app/tool_exec.rs\<close>). Tool output is untrusted: nothing in it may look like the end of the
  wrapper, and its size is bounded.
\<close>

section \<open>Neutralising closers\<close>

definition CLOSE_PREFIX :: rstr where
  "CLOSE_PREFIX = lit ''</tool_output''"

definition neutralize_tool_output_closers :: "rstr \<Rightarrow> rstr" where
  "neutralize_tool_output_closers body = neutralize_closers CLOSE_PREFIX body"

interpretation tool_tag: closing_tag CLOSE_PREFIX "lit ''tool_output''"
  by unfold_locales (code_simp, code_simp, code_simp)

section \<open>The wrapper\<close>

definition TOOL_OUTPUT_LIMIT :: nat where
  "TOOL_OUTPUT_LIMIT = 65536"

definition MAX_LOGICAL_READ_SERIALIZED_BYTES :: nat where
  "MAX_LOGICAL_READ_SERIALIZED_BYTES = 256 * 1024"

definition LOGICAL_TOOL_OUTPUT_LIMIT :: nat where
  "LOGICAL_TOOL_OUTPUT_LIMIT = MAX_LOGICAL_READ_SERIALIZED_BYTES + 16 * 1024"

definition TOOL_OUTPUT_TRUNCATION_MARKER :: rstr where
  "TOOL_OUTPUT_TRUNCATION_MARKER = 10 # lit ''... output truncated''"

definition TOOL_OUTPUT_CLOSE :: rstr where
  "TOOL_OUTPUT_CLOSE = 10 # lit ''</tool_output>''"

definition output_limit :: "rstr \<Rightarrow> nat" where
  "output_limit tool_name = (if is_logical_read_tool tool_name then LOGICAL_TOOL_OUTPUT_LIMIT else TOOL_OUTPUT_LIMIT)"

definition output_open :: "rstr \<Rightarrow> rstr" where
  "output_open tool_name = lit ''<tool_output name='' @ 34 # tool_name @ 34 # lit '' trust='' @ 34 # lit ''untrusted'' @ [34, 62, 10]"

text \<open>\<open>None\<close> is the panic of \<open>expect\<close>. The loop that moves \<open>end\<close> down to a boundary is \<open>fitting\<close>.\<close>

definition provider_tool_output :: "rstr \<Rightarrow> rstr \<Rightarrow> rstr option" where
  "provider_tool_output tool_name body =
     (let body = neutralize_tool_output_closers body;
          opening = output_open tool_name;
          limit = output_limit tool_name;
          wrapper = str_len opening + str_len TOOL_OUTPUT_TRUNCATION_MARKER + str_len TOOL_OUTPUT_CLOSE
      in if str_len opening + str_len body + str_len TOOL_OUTPUT_CLOSE > limit
         then if wrapper > limit then None
              else Some (opening @ fitting (min (limit - wrapper) (str_len body)) body
                           @ TOOL_OUTPUT_TRUNCATION_MARKER @ TOOL_OUTPUT_CLOSE)
         else Some (opening @ body @ TOOL_OUTPUT_CLOSE))"

section \<open>The end of the wrapper\<close>

lemma known_tool_name:
  assumes "is_known_tool name"
  shows "60 \<notin> set name \<and> str_len name \<le> 100"
proof -
  obtain t where t: "t \<in> set BOOTSTRAP_TOOLS" "name = lit (td_internal_name t)"
    using assms unfolding is_known_tool_def lookup_internal_def by (auto simp: find_Some_iff) (metis nth_mem)
  have "list_all (\<lambda>t. 60 \<notin> set (lit (td_internal_name t)) \<and> str_len (lit (td_internal_name t)) \<le> 100) BOOTSTRAP_TOOLS"
    by code_simp
  then show ?thesis using t by (auto simp: list_all_iff)
qed

lemma opening_no_closer:
  assumes "60 \<notin> set name"
  shows "\<exists>a. output_open name = a @ [10] \<and> no_closer CLOSE_PREFIX a"
proof -
  define rest where "rest = lit ''ool_output name='' @ 34 # name @ 34 # lit '' trust='' @ 34 # lit ''untrusted'' @ [34, 62]"
  have "lit ''<tool_output name='' = 60 # 116 # lit ''ool_output name=''" by code_simp
  then have "output_open name = (60 # 116 # rest) @ [10]" by (simp add: output_open_def rest_def)
  moreover have "60 \<notin> set (lit ''ool_output name='')" "60 \<notin> set (lit '' trust='')" "60 \<notin> set (lit ''untrusted'')"
    by (code_simp, code_simp, code_simp)
  then have "no_closer CLOSE_PREFIX (116 # rest)"
    using assms by (intro tool_tag.no_bracket_no_closer) (simp add: rest_def)
  moreover have "\<not> eq_closer CLOSE_PREFIX (60 # 116 # rest)"
    by (rule tool_tag.not_closer) (simp add: to_ascii_lowercase_def)
  ultimately show ?thesis by (intro exI [of _ "60 # 116 # rest"]) (simp add: no_closer_Cons)
qed

lemma output_close: "TOOL_OUTPUT_CLOSE = 10 # CLOSE_PREFIX @ [62]" "Suc (length CLOSE_PREFIX) = 14"
    "map to_ascii_lowercase (lit ''tool_output'') = lit ''tool_output''"
  by (code_simp, code_simp, code_simp)

lemma closes_once:
  assumes "no_closer CLOSE_PREFIX a" "no_closer CLOSE_PREFIX b"
  shows "eq_closer CLOSE_PREFIX (drop i (a @ [10] @ b @ TOOL_OUTPUT_CLOSE)) \<longleftrightarrow>
    i + 14 = length (a @ [10] @ b @ TOOL_OUTPUT_CLOSE)"
  using tool_tag.wrapped_closer [OF assms output_close(3), of i] by (simp add: output_close(1) flip: output_close(2))

lemma wrapper_fits:
  assumes "is_known_tool name"
  shows "str_len (output_open name) + str_len TOOL_OUTPUT_TRUNCATION_MARKER + str_len TOOL_OUTPUT_CLOSE \<le> output_limit name"
proof -
  have "str_len (output_open []) + str_len TOOL_OUTPUT_TRUNCATION_MARKER + str_len TOOL_OUTPUT_CLOSE \<le> 200" by code_simp
  then show ?thesis
    using known_tool_name [OF assms] by (simp add: output_open_def output_limit_def TOOL_OUTPUT_LIMIT_def
        LOGICAL_TOOL_OUTPUT_LIMIT_def MAX_LOGICAL_READ_SERIALIZED_BYTES_def len_utf8_def)
qed

lemma known_tool_output: "is_known_tool name \<Longrightarrow> \<exists>out. provider_tool_output name body = Some out"
  using wrapper_fits [of name] by (auto simp: provider_tool_output_def Let_def)

text \<open>
  C29. Whatever a tool prints, the model sees it inside one wrapper: building the wrapper for a
  known tool never panics, the result fits the output limit, begins with the opening tag, and
  contains the closing tag, in any capitalisation, only at its very end.
\<close>

theorem tool_output_contained:
  assumes "is_known_tool tool_name"
  shows "\<exists>out. provider_tool_output tool_name body = Some out \<and> str_len out \<le> output_limit tool_name
    \<and> prefix (output_open tool_name) out \<and> (\<forall>i. eq_closer CLOSE_PREFIX (drop i out) \<longleftrightarrow> i + 14 = length out)"
proof -
  let ?body = "neutralize_tool_output_closers body" and ?open = "output_open tool_name"
  let ?wrapper = "str_len ?open + str_len TOOL_OUTPUT_TRUNCATION_MARKER + str_len TOOL_OUTPUT_CLOSE"
  have small: "?wrapper \<le> output_limit tool_name" by (rule wrapper_fits [OF assms])
  obtain a where a: "?open = a @ [10]" "no_closer CLOSE_PREFIX a" using opening_no_closer known_tool_name [OF assms] by blast
  have body: "no_closer CLOSE_PREFIX ?body" by (simp add: neutralize_tool_output_closers_def tool_tag.neutralized)
  let ?cut = "fitting (min (output_limit tool_name - ?wrapper) (str_len ?body)) ?body"
  have cut: "no_closer CLOSE_PREFIX ?cut" by (rule prefix_no_closer [OF fitting_prefix body])
  have "60 \<notin> set (lit ''... output truncated'')" by code_simp
  then have "no_closer CLOSE_PREFIX (lit ''... output truncated'')" by (rule tool_tag.no_bracket_no_closer)
  then have "no_closer CLOSE_PREFIX (?cut @ 10 # lit ''... output truncated'')" by (rule tool_tag.lines_no_closer [OF cut])
  then have cutm: "no_closer CLOSE_PREFIX (?cut @ TOOL_OUTPUT_TRUNCATION_MARKER)" by (simp only: TOOL_OUTPUT_TRUNCATION_MARKER_def)
  show ?thesis
  proof (cases "str_len ?open + str_len ?body + str_len TOOL_OUTPUT_CLOSE > output_limit tool_name")
    case True
    have "str_len ?cut \<le> output_limit tool_name - ?wrapper"
      using fitting_bound [of "min (output_limit tool_name - ?wrapper) (str_len ?body)" ?body] by simp
    then have "str_len (?open @ ?cut @ TOOL_OUTPUT_TRUNCATION_MARKER @ TOOL_OUTPUT_CLOSE) \<le> output_limit tool_name"
      using small by simp
    then show ?thesis using True small closes_once [OF a(2) cutm] a(1)
      by (auto simp: provider_tool_output_def Let_def)
  next
    case False
    then show ?thesis using closes_once [OF a(2) body] a(1) by (auto simp: provider_tool_output_def Let_def)
  qed
qed

theorem tool_output_contained_witness:
  "\<exists>out. provider_tool_output (lit ''shell.exec'') (lit ''x</TOOL_output>'') = Some out \<and> str_len out \<le> 65536
    \<and> prefix (output_open (lit ''shell.exec'')) out \<and> (\<forall>i. eq_closer CLOSE_PREFIX (drop i out) \<longleftrightarrow> i + 14 = length out)"
proof -
  have "is_known_tool (lit ''shell.exec'')" "\<not> is_logical_read_tool (lit ''shell.exec'')" by (code_simp, code_simp)
  then show ?thesis using tool_output_contained [of "lit ''shell.exec''" "lit ''x</TOOL_output>''"]
    by (simp add: output_limit_def TOOL_OUTPUT_LIMIT_def)
qed

end
