(* ===== verification/Provider_Stream.thy ===== *)
theory Provider_Stream
  imports Voice_Stream Tool_Catalog
begin

text \<open>
  Streaming model responses (\<open>provider/openai_compat/stream.rs\<close> and \<open>types.rs\<close>): server-sent events are
  read line by line under byte limits and assembled into one response, while the text is handed to a
  callback. \<open>serde_json\<close> is a parameter; the callback may fail and keeps its own state. The reader is the
  sequence of bytes the provider sent.
\<close>

section \<open>Limits and provider types\<close>

definition MAX_ASSISTANT_TEXT_BYTES :: nat where "MAX_ASSISTANT_TEXT_BYTES = 4 * 1024 * 1024"
definition MAX_TOOL_CALLS :: nat where "MAX_TOOL_CALLS = 64"
definition MAX_TOOL_CALL_INDEX :: nat where "MAX_TOOL_CALL_INDEX = MAX_TOOL_CALLS - 1"
definition MAX_TOOL_NAME_BYTES :: nat where "MAX_TOOL_NAME_BYTES = 256"
definition MAX_TOOL_ARGUMENT_BYTES :: nat where "MAX_TOOL_ARGUMENT_BYTES = 1024 * 1024"
definition MAX_TOOL_ARGUMENTS_BYTES :: nat where "MAX_TOOL_ARGUMENTS_BYTES = 4 * 1024 * 1024"
definition MAX_DECODED_RESPONSE_BYTES :: nat where "MAX_DECODED_RESPONSE_BYTES = 8 * 1024 * 1024"
definition MAX_SSE_EVENT_BYTES :: nat where "MAX_SSE_EVENT_BYTES = 1024 * 1024"

abbreviation provider_error :: "string \<Rightarrow> AppError" where
  "provider_error msg \<equiv> Provider (lit msg)"

datatype ChatFinishReason = Stop | Length | ToolCalls | ContentFilter | FunctionCall

record ChatUsage =
  cu_prompt_tokens :: "u32 option"
  cu_completion_tokens :: "u32 option"

datatype 'v ModelBlock =
    TextBlock rstr
  | ToolUseBlock rstr rstr 'v
  | ToolResultBlock rstr rstr bool

datatype ModelStop = EndTurn | ToolUse | MaxOutput | ContentFilterStop

record 'v ModelResponse =
  mr_content :: "'v ModelBlock list"
  mr_stop :: ModelStop
  mr_served_model :: "ModelName option"
  mr_usage :: "ModelUsage option"

record ChatFunctionCallDelta =
  fd_name :: "rstr option"
  fd_arguments :: "rstr option"

record ChatToolCallDelta =
  tcd_index :: nat
  tcd_id :: "rstr option"
  tcd_function :: "ChatFunctionCallDelta option"

record ChatDelta =
  cd_content :: "rstr option"
  cd_tool_calls :: "ChatToolCallDelta list"

record ChatChunkChoice =
  cc_index :: nat
  cc_delta :: ChatDelta
  cc_finish_reason :: "ChatFinishReason option"

record ChatCompletionChunk =
  ch_model :: "ModelName option"
  ch_choices :: "ChatChunkChoice list"
  ch_usage :: "ChatUsage option"

text \<open>\<open>serde_json\<close>: parsing a value (or the text of the error), \<open>value.get("error").is_some()\<close> and
  deserialising a chunk.\<close>

record 'v json_lib =
  json_parse :: "rstr \<Rightarrow> (rstr, 'v) result"
  json_has_error :: "'v \<Rightarrow> bool"
  json_chunk :: "'v \<Rightarrow> (rstr, ChatCompletionChunk) result"

definition validate_tool_call :: "rstr \<Rightarrow> rstr \<Rightarrow> (AppError, unit) result" where
  "validate_tool_call name arguments =
     (if MAX_TOOL_NAME_BYTES < str_len name
      then Inl (provider_error ''provider response exceeded the 256-byte tool name limit'')
      else if MAX_TOOL_ARGUMENT_BYTES < str_len arguments
      then Inl (provider_error ''provider response exceeded the 1 MiB per-call tool arguments limit'')
      else Inr ())"

definition tool_use_from_provider ::
  "'v json_lib \<Rightarrow> rstr \<Rightarrow> rstr \<Rightarrow> rstr \<Rightarrow> (AppError, 'v ModelBlock) result" where
  "tool_use_from_provider js ident name arguments =
     (if trim ident = [] then Inl (provider_error ''provider returned tool call without ident'')
      else and_then (validate_tool_call name arguments) (\<lambda>_.
        case internal_name_for_provider name of
          None \<Rightarrow> Inl (Provider (lit ''provider returned unknown tool '' @ name))
        | Some tool_name \<Rightarrow>
            (case json_parse js arguments of
               Inl e \<Rightarrow> Inl (Provider (lit ''provider returned invalid JSON for '' @ name @ lit '': '' @ e))
             | Inr input \<Rightarrow> Inr (ToolUseBlock ident tool_name input))))"

fun stop_from_finish :: "ChatFinishReason \<Rightarrow> ModelStop" where
  "stop_from_finish Stop = EndTurn"
| "stop_from_finish ToolCalls = ToolUse"
| "stop_from_finish FunctionCall = ToolUse"
| "stop_from_finish Length = MaxOutput"
| "stop_from_finish ContentFilter = ContentFilterStop"

definition usage_from :: "ChatUsage option \<Rightarrow> ModelUsage option" where
  "usage_from usage =
     Option.bind usage (\<lambda>u. Option.bind (cu_prompt_tokens u) (\<lambda>i. Option.bind (cu_completion_tokens u) (\<lambda>out.
       Some \<lparr>mu_input_tokens = i, mu_output_tokens = out\<rparr>)))"

definition model_response ::
  "'v ModelBlock list \<Rightarrow> ChatFinishReason \<Rightarrow> ModelName option \<Rightarrow> ChatUsage option \<Rightarrow> 'v ModelResponse" where
  "model_response content finish_reason served_model usage =
     \<lparr>mr_content = content, mr_stop = stop_from_finish finish_reason, mr_served_model = served_model,
      mr_usage = usage_from usage\<rparr>"

section \<open>The assembler\<close>

record StreamingToolCall =
  st_id :: "rstr option"
  st_name :: rstr
  st_arguments :: rstr

text \<open>A \<open>BTreeMap<usize, _>\<close> is an association list sorted by key.\<close>

fun btree_put :: "nat \<Rightarrow> 'a \<Rightarrow> (nat \<times> 'a) list \<Rightarrow> (nat \<times> 'a) list" where
  "btree_put k v [] = [(k, v)]"
| "btree_put k v ((l, w) # m) =
     (if k < l then (k, v) # (l, w) # m else if k = l then (k, v) # m else (l, w) # btree_put k v m)"

record StreamingAssembler =
  as_text :: rstr
  as_tool_calls :: "(nat \<times> StreamingToolCall) list"
  as_tool_arguments_bytes :: nat
  as_finish_reason :: "ChatFinishReason option"
  as_served_model :: "ModelName option"
  as_usage :: "ChatUsage option"

definition assembler_default :: StreamingAssembler where
  "assembler_default =
     \<lparr>as_text = [], as_tool_calls = [], as_tool_arguments_bytes = 0, as_finish_reason = None,
      as_served_model = None, as_usage = None\<rparr>"

definition added_arguments_bytes :: "ChatToolCallDelta \<Rightarrow> nat" where
  "added_arguments_bytes d =
     (case Option.bind (tcd_function d) fd_arguments of None \<Rightarrow> 0 | Some a \<Rightarrow> str_len a)"

definition tool_delta_limits :: "StreamingAssembler \<Rightarrow> ChatToolCallDelta \<Rightarrow> (AppError, unit) result" where
  "tool_delta_limits a d =
     (let calls = as_tool_calls a;
          current = map_of calls (tcd_index d);
          name_len = (case current of None \<Rightarrow> 0 | Some c \<Rightarrow> str_len (st_name c));
          arg_len = (case current of None \<Rightarrow> 0 | Some c \<Rightarrow> str_len (st_arguments c))
      in if MAX_TOOL_CALL_INDEX < tcd_index d \<or> (current = None \<and> length calls = MAX_TOOL_CALLS)
         then Inl (provider_error ''provider response exceeded the 64 tool call limit'')
         else case tcd_function d of
                None \<Rightarrow> Inr ()
              | Some f \<Rightarrow>
                  if (case fd_name f of None \<Rightarrow> False | Some name \<Rightarrow> MAX_TOOL_NAME_BYTES < name_len + str_len name)
                  then Inl (provider_error ''provider response exceeded the 256-byte tool name limit'')
                  else if MAX_TOOL_ARGUMENT_BYTES < arg_len + added_arguments_bytes d
                  then Inl (provider_error ''provider response exceeded the 1 MiB per-call tool arguments limit'')
                  else if MAX_TOOL_ARGUMENTS_BYTES < as_tool_arguments_bytes a + added_arguments_bytes d
                  then Inl (provider_error ''provider response exceeded the 4 MiB aggregate tool arguments limit'')
                  else Inr ())"

definition merge_tool_call :: "StreamingToolCall \<Rightarrow> ChatToolCallDelta \<Rightarrow> StreamingToolCall" where
  "merge_tool_call entry d =
     \<lparr>st_id = (case tcd_id d of None \<Rightarrow> st_id entry | Some ident \<Rightarrow> if ident = [] then st_id entry else Some ident),
      st_name = st_name entry @ (case Option.bind (tcd_function d) fd_name of None \<Rightarrow> [] | Some n \<Rightarrow> n),
      st_arguments = st_arguments entry @ (case Option.bind (tcd_function d) fd_arguments of None \<Rightarrow> [] | Some x \<Rightarrow> x)\<rparr>"

definition apply_tool_delta :: "StreamingAssembler \<Rightarrow> ChatToolCallDelta \<Rightarrow> StreamingAssembler" where
  "apply_tool_delta a d =
     (let entry = (case map_of (as_tool_calls a) (tcd_index d) of
                     None \<Rightarrow> \<lparr>st_id = None, st_name = [], st_arguments = []\<rparr> | Some c \<Rightarrow> c)
      in a\<lparr>as_tool_calls := btree_put (tcd_index d) (merge_tool_call entry d) (as_tool_calls a),
           as_tool_arguments_bytes := as_tool_arguments_bytes a + added_arguments_bytes d\<rparr>)"

fun apply_tool_calls :: "StreamingAssembler \<Rightarrow> ChatToolCallDelta list \<Rightarrow> StreamingAssembler \<times> (AppError, unit) result" where
  "apply_tool_calls a [] = (a, Inr ())"
| "apply_tool_calls a (d # ds) =
     (case tool_delta_limits a d of
        Inl e \<Rightarrow> (a, Inl e)
      | Inr _ \<Rightarrow> apply_tool_calls (apply_tool_delta a d) ds)"

type_synonym 'c on_delta = "'c \<Rightarrow> rstr \<Rightarrow> 'c \<times> (AppError, unit) result"

definition apply_content ::
  "'c on_delta \<Rightarrow> 'c \<Rightarrow> StreamingAssembler \<Rightarrow> rstr option \<Rightarrow> ('c \<times> StreamingAssembler) \<times> (AppError, unit) result" where
  "apply_content on_delta c a content =
     (case content of
        None \<Rightarrow> ((c, a), Inr ())
      | Some t \<Rightarrow>
          if t = [] then ((c, a), Inr ())
          else if MAX_ASSISTANT_TEXT_BYTES < str_len (as_text a) + str_len t
          then ((c, a), Inl (provider_error ''provider response exceeded the 4 MiB assistant text limit''))
          else (case on_delta c t of
                  (c', Inl e) \<Rightarrow> ((c', a), Inl e)
                | (c', Inr _) \<Rightarrow> ((c', a\<lparr>as_text := as_text a @ t\<rparr>), Inr ())))"

fun apply_choices ::
  "'c on_delta \<Rightarrow> 'c \<Rightarrow> StreamingAssembler \<Rightarrow> ChatChunkChoice list \<Rightarrow> ('c \<times> StreamingAssembler) \<times> (AppError, unit) result" where
  "apply_choices on_delta c a [] = ((c, a), Inr ())"
| "apply_choices on_delta c a (choice # choices) =
     (if cc_index choice \<noteq> 0 then apply_choices on_delta c a choices
      else case apply_content on_delta c a (cd_content (cc_delta choice)) of
             ((c1, a1), Inl e) \<Rightarrow> ((c1, a1), Inl e)
           | ((c1, a1), Inr _) \<Rightarrow>
               (case apply_tool_calls a1 (cd_tool_calls (cc_delta choice)) of
                  (a2, Inl e) \<Rightarrow> ((c1, a2), Inl e)
                | (a2, Inr _) \<Rightarrow>
                    apply_choices on_delta c1
                      (case cc_finish_reason choice of None \<Rightarrow> a2 | Some r \<Rightarrow> a2\<lparr>as_finish_reason := Some r\<rparr>) choices))"

definition apply_chunk ::
  "'c on_delta \<Rightarrow> 'c \<Rightarrow> StreamingAssembler \<Rightarrow> ChatCompletionChunk \<Rightarrow> ('c \<times> StreamingAssembler) \<times> (AppError, unit) result" where
  "apply_chunk on_delta c a chunk =
     (let conflict = (case ch_model chunk of
                        None \<Rightarrow> False
                      | Some m \<Rightarrow> (case as_served_model a of None \<Rightarrow> False | Some first \<Rightarrow> first \<noteq> m))
      in if conflict
         then ((c, a), Inl (provider_error ''provider stream returned conflicting served model values''))
         else
           let a1 = (case as_served_model a of None \<Rightarrow> a\<lparr>as_served_model := ch_model chunk\<rparr> | Some _ \<Rightarrow> a);
               a2 = (case ch_usage chunk of None \<Rightarrow> a1 | Some u \<Rightarrow> a1\<lparr>as_usage := Some u\<rparr>)
           in apply_choices on_delta c a2 (ch_choices chunk))"

fun tool_blocks :: "'v json_lib \<Rightarrow> (nat \<times> StreamingToolCall) list \<Rightarrow> (AppError, 'v ModelBlock list) result" where
  "tool_blocks js [] = Inr []"
| "tool_blocks js ((_, call) # calls) =
     (case st_id call of
        None \<Rightarrow> Inl (provider_error ''provider stream returned tool call without ident'')
      | Some ident \<Rightarrow>
          and_then (tool_use_from_provider js ident (st_name call) (st_arguments call)) (\<lambda>block.
          and_then (tool_blocks js calls) (\<lambda>blocks. Inr (block # blocks))))"

definition into_model_response :: "'v json_lib \<Rightarrow> StreamingAssembler \<Rightarrow> (AppError, 'v ModelResponse) result" where
  "into_model_response js a =
     and_then (tool_blocks js (as_tool_calls a)) (\<lambda>blocks.
       case as_finish_reason a of
         None \<Rightarrow> Inl (provider_error ''provider stream ended without finish_reason'')
       | Some reason \<Rightarrow>
           Inr (model_response ((if as_text a = [] then [] else [TextBlock (as_text a)]) @ blocks) reason
                  (as_served_model a) (as_usage a)))"

section \<open>Reading the stream\<close>

text \<open>
  \<open>std::str::from_utf8\<close>: the shortest encodings of the Unicode scalar values, surrogates excluded.
\<close>

definition continuation :: "u8 \<Rightarrow> bool" where
  "continuation b \<longleftrightarrow> 128 \<le> b \<and> b \<le> 191"

definition low_bits :: "u8 \<Rightarrow> nat \<Rightarrow> nat" where
  "low_bits b n = unat b mod 2 ^ n"

fun from_utf8 :: "u8 list \<Rightarrow> rstr option" where
  "from_utf8 [] = Some []"
| "from_utf8 (a # bs) =
     (if a \<le> 127 then map_option (Cons (unat a)) (from_utf8 bs)
      else case bs of
        [] \<Rightarrow> None
      | b # cs \<Rightarrow>
          if \<not> continuation b then None
          else if 194 \<le> a \<and> a \<le> 223 then map_option (Cons (low_bits a 5 * 64 + low_bits b 6)) (from_utf8 cs)
          else (case cs of
            [] \<Rightarrow> None
          | c # ds \<Rightarrow>
              if \<not> continuation c then None
              else if 224 \<le> a \<and> a \<le> 239 \<and> (a = 224 \<longrightarrow> 160 \<le> b) \<and> (a = 237 \<longrightarrow> b \<le> 159)
              then map_option (Cons (low_bits a 4 * 4096 + low_bits b 6 * 64 + low_bits c 6)) (from_utf8 ds)
              else (case ds of
                [] \<Rightarrow> None
              | d # es \<Rightarrow>
                  if continuation d \<and> 240 \<le> a \<and> a \<le> 244 \<and> (a = 240 \<longrightarrow> 144 \<le> b) \<and> (a = 244 \<longrightarrow> b \<le> 143)
                  then map_option (Cons (low_bits a 3 * 262144 + low_bits b 6 * 4096 + low_bits c 6 * 64 + low_bits d 6))
                         (from_utf8 es)
                  else None)))"

definition trim_end_cr :: "rstr \<Rightarrow> rstr" where
  "trim_end_cr s = rev (dropWhile (\<lambda>c. c = 13) (rev s))"

definition strip_prefix :: "rstr \<Rightarrow> rstr \<Rightarrow> rstr option" where
  "strip_prefix pre s = (if take (length pre) s = pre then Some (drop (length pre) s) else None)"

definition append_stream_line :: "u8 list \<Rightarrow> rstr \<Rightarrow> (AppError, rstr \<times> bool) result" where
  "append_stream_line line event_data =
     (case from_utf8 line of
        None \<Rightarrow> Inl Io
      | Some l \<Rightarrow>
          let l' = trim_end_cr l in
          if l' = [] then Inr (event_data, True)
          else (case strip_prefix (lit ''data:'') l' of
                  None \<Rightarrow> Inr (event_data, False)
                | Some d \<Rightarrow>
                    Inr (event_data @ (if event_data = [] then [] else [10]) @ trim_start d, False)))"

definition process_stream_data ::
  "'v json_lib \<Rightarrow> 'c on_delta \<Rightarrow> 'c \<Rightarrow> StreamingAssembler \<Rightarrow> rstr \<Rightarrow>
     ('c \<times> StreamingAssembler) \<times> (AppError, bool) result" where
  "process_stream_data js on_delta c a d =
     (if trim d = lit ''[DONE]'' then ((c, a), Inr True)
      else case json_parse js d of
             Inl e \<Rightarrow> ((c, a), Inl (Provider (lit ''provider returned invalid SSE JSON: '' @ e)))
           | Inr v \<Rightarrow>
               if json_has_error js v then ((c, a), Inl (provider_error ''provider stream returned an error event''))
               else (case json_chunk js v of
                       Inl e \<Rightarrow> ((c, a), Inl (Provider (lit ''provider returned invalid SSE chunk: '' @ e)))
                     | Inr chunk \<Rightarrow>
                         (case apply_chunk on_delta c a chunk of
                            (s, Inl e) \<Rightarrow> (s, Inl e)
                          | (s, Inr _) \<Rightarrow> (s, Inr False))))"

text \<open>\<open>take(limit).read_until(b'\n')\<close>: the bytes read and the rest.\<close>

definition read_until :: "nat \<Rightarrow> u8 list \<Rightarrow> u8 list \<times> u8 list" where
  "read_until limit bs =
     (let w = takeWhile (\<lambda>b. b \<noteq> 10) bs;
          n = min limit (if length w < length bs then length w + 1 else length w)
      in (take n bs, drop n bs))"

lemma read_until_split: "(got, rest) = read_until n bs \<Longrightarrow> bs = got @ rest"
  by (simp add: read_until_def Let_def)

record 'c stream_state =
  ss_callback :: 'c
  ss_assembler :: StreamingAssembler
  ss_event_data :: rstr
  ss_line :: "u8 list"
  ss_decoded_bytes :: nat
  ss_event_bytes :: nat

text \<open>What one complete line does: the new state and whether the stream is done.\<close>

definition sse_line ::
  "'v json_lib \<Rightarrow> 'c on_delta \<Rightarrow> 'c stream_state \<Rightarrow> u8 list \<Rightarrow> 'c stream_state \<times> (AppError, bool) result" where
  "sse_line js on_delta s line =
     (case append_stream_line line (ss_event_data s) of
        Inl e \<Rightarrow> (s, Inl e)
      | Inr (event_data, False) \<Rightarrow> (s\<lparr>ss_event_data := event_data, ss_line := []\<rparr>, Inr False)
      | Inr (event_data, True) \<Rightarrow>
          if event_data = [] then (s\<lparr>ss_event_data := event_data, ss_event_bytes := 0, ss_line := []\<rparr>, Inr False)
          else (case process_stream_data js on_delta (ss_callback s) (ss_assembler s) event_data of
                  ((c, a), Inl e) \<Rightarrow> (s\<lparr>ss_callback := c, ss_assembler := a, ss_event_data := event_data\<rparr>, Inl e)
                | ((c, a), Inr True) \<Rightarrow>
                    (s\<lparr>ss_callback := c, ss_assembler := a, ss_event_data := event_data, ss_line := line\<rparr>, Inr True)
                | ((c, a), Inr False) \<Rightarrow>
                    (s\<lparr>ss_callback := c, ss_assembler := a, ss_event_data := [], ss_event_bytes := 0, ss_line := []\<rparr>, Inr False)))"

function sse_loop ::
  "'v json_lib \<Rightarrow> 'c on_delta \<Rightarrow> 'c stream_state \<Rightarrow> u8 list \<Rightarrow> 'c stream_state \<times> (AppError, bool) result" where
  "sse_loop js on_delta s bs =
     (let remaining = min (MAX_DECODED_RESPONSE_BYTES - ss_decoded_bytes s) (MAX_SSE_EVENT_BYTES - ss_event_bytes s);
          (got, rest) = read_until (remaining + 1) bs
      in if got = [] then (s, Inr False)
         else
           let decoded = ss_decoded_bytes s + length got; event = ss_event_bytes s + length got in
           if MAX_DECODED_RESPONSE_BYTES < decoded
           then (s, Inl (provider_error ''provider response exceeded the 8 MiB decoded data limit''))
           else if MAX_SSE_EVENT_BYTES < event
           then (s, Inl (provider_error ''provider response exceeded the 1 MiB SSE event limit''))
           else
             let line = ss_line s @ got;
                 s1 = s\<lparr>ss_decoded_bytes := decoded, ss_event_bytes := event, ss_line := line\<rparr>
             in if last line = 10 then
                  (case sse_line js on_delta s1 (butlast line) of
                     (s2, Inl e) \<Rightarrow> (s2, Inl e)
                   | (s2, Inr True) \<Rightarrow> (s2, Inr True)
                   | (s2, Inr False) \<Rightarrow> sse_loop js on_delta s2 rest)
                else sse_loop js on_delta s1 rest)"
  by pat_completeness auto
termination
  by (relation "measure (\<lambda>(js, on_delta, s, bs). length bs)") (simp, (force dest: read_until_split)+)

declare sse_loop.simps [simp del]

definition stream_start :: "'c \<Rightarrow> 'c stream_state" where
  "stream_start c =
     \<lparr>ss_callback = c, ss_assembler = assembler_default, ss_event_data = [], ss_line = [],
      ss_decoded_bytes = 0, ss_event_bytes = 0\<rparr>"

text \<open>An event that the end of the stream leaves pending.\<close>

definition stream_pending ::
  "'v json_lib \<Rightarrow> 'c on_delta \<Rightarrow> 'c stream_state \<Rightarrow> 'c stream_state \<times> (AppError, bool) result" where
  "stream_pending js on_delta s =
     (case process_stream_data js on_delta (ss_callback s) (ss_assembler s) (ss_event_data s) of
        ((c, a), r) \<Rightarrow> (s\<lparr>ss_callback := c, ss_assembler := a\<rparr>, r))"

text \<open>A last line without its newline, then an event without its blank line.\<close>

definition stream_last_line ::
  "'v json_lib \<Rightarrow> 'c on_delta \<Rightarrow> 'c stream_state \<Rightarrow> 'c stream_state \<times> (AppError, bool) result" where
  "stream_last_line js on_delta s =
     (if ss_line s = [] then (s, Inr False)
      else case append_stream_line (ss_line s) (ss_event_data s) of
             Inl e \<Rightarrow> (s, Inl e)
           | Inr (event_data, False) \<Rightarrow> (s\<lparr>ss_event_data := event_data\<rparr>, Inr False)
           | Inr (event_data, True) \<Rightarrow>
               if event_data = [] then (s\<lparr>ss_event_data := []\<rparr>, Inr False)
               else (case stream_pending js on_delta (s\<lparr>ss_event_data := event_data\<rparr>) of
                       (s1, Inl e) \<Rightarrow> (s1, Inl e)
                     | (s1, Inr d) \<Rightarrow> (s1\<lparr>ss_event_data := []\<rparr>, Inr d)))"

definition stream_tail ::
  "'v json_lib \<Rightarrow> 'c on_delta \<Rightarrow> 'c stream_state \<Rightarrow> 'c stream_state \<times> (AppError, bool) result" where
  "stream_tail js on_delta s =
     (case stream_last_line js on_delta s of
        (s1, Inl e) \<Rightarrow> (s1, Inl e)
      | (s1, Inr saw_done) \<Rightarrow>
          if ss_event_data s1 \<noteq> [] \<and> \<not> saw_done then stream_pending js on_delta s1 else (s1, Inr saw_done))"

definition parse_chat_completion_stream ::
  "'v json_lib \<Rightarrow> 'c on_delta \<Rightarrow> 'c \<Rightarrow> u8 list \<Rightarrow> 'c \<times> (AppError, 'v ModelResponse) result" where
  "parse_chat_completion_stream js on_delta c bs =
     (let finish = (\<lambda>s. (ss_callback s, into_model_response js (ss_assembler s))) in
      case sse_loop js on_delta (stream_start c) bs of
        (s, Inl e) \<Rightarrow> (ss_callback s, Inl e)
      | (s, Inr True) \<Rightarrow> finish s
      | (s, Inr False) \<Rightarrow>
          (case stream_tail js on_delta s of
             (s1, Inl e) \<Rightarrow> (ss_callback s1, Inl e)
           | (s1, Inr True) \<Rightarrow> finish s1
           | (s1, Inr False) \<Rightarrow> (ss_callback s1, Inl (provider_error ''provider stream ended before [DONE]''))))"

section \<open>The invariant of the assembler\<close>

text \<open>\<open>recording f\<close> is the callback \<open>f\<close> with a log of the text it accepted.\<close>

fun recording :: "'c on_delta \<Rightarrow> (rstr \<times> 'c) on_delta" where
  "recording f (log, c) t =
     (case f c t of (c', Inl e) \<Rightarrow> ((log, c'), Inl e) | (c', Inr u) \<Rightarrow> ((log @ t, c'), Inr u))"

abbreviation arguments_total :: "(nat \<times> StreamingToolCall) list \<Rightarrow> nat" where
  "arguments_total m \<equiv> sum_list (map (\<lambda>(k, c). str_len (st_arguments c)) m)"

definition tools_ok :: "StreamingAssembler \<Rightarrow> bool" where
  "tools_ok a \<longleftrightarrow>
     sorted_wrt (<) (map fst (as_tool_calls a)) \<and>
     (\<forall>(k, c) \<in> set (as_tool_calls a).
        k \<le> MAX_TOOL_CALL_INDEX \<and> str_len (st_name c) \<le> MAX_TOOL_NAME_BYTES \<and>
        str_len (st_arguments c) \<le> MAX_TOOL_ARGUMENT_BYTES) \<and>
     as_tool_arguments_bytes a = arguments_total (as_tool_calls a) \<and>
     as_tool_arguments_bytes a \<le> MAX_TOOL_ARGUMENTS_BYTES"

definition assembler_ok :: "rstr \<Rightarrow> StreamingAssembler \<Rightarrow> bool" where
  "assembler_ok log a \<longleftrightarrow> as_text a = log \<and> str_len log \<le> MAX_ASSISTANT_TEXT_BYTES \<and> tools_ok a"

lemma set_btree_put: "set (btree_put k v m) \<subseteq> insert (k, v) (set m)"
  by (induction k v m rule: btree_put.induct) auto

lemma keys_btree_put: "fst ` set (btree_put k v m) = insert k (fst ` set m)"
  by (induction k v m rule: btree_put.induct) auto

lemma sorted_btree_put: "sorted_wrt (<) (map fst m) \<Longrightarrow> sorted_wrt (<) (map fst (btree_put k v m))"
proof (induction k v m rule: btree_put.induct)
  case (2 k v l w m)
  then show ?case
    using keys_btree_put [of k v m] by (auto simp: image_iff)
qed simp

lemma total_btree_put:
  "sorted_wrt (<) (map fst m) \<Longrightarrow>
   sum_list (map (\<lambda>(k, c). f c) (btree_put k v m)) + (case map_of m k of None \<Rightarrow> 0 | Some w \<Rightarrow> f w) =
   sum_list (map (\<lambda>(k, c). f c) m) + (f v :: nat)"
proof (induction k v m rule: btree_put.induct)
  case (2 k v l w m)
  have "map_of m k = None" if "k < l"
    using 2(2) that by (auto simp: map_of_eq_None_iff)
  moreover have "map_of m l = None"
    using 2(2) by (auto simp: map_of_eq_None_iff)
  ultimately show ?case using 2 by auto
qed simp


lemma merge_lengths:
  "str_len (st_arguments (merge_tool_call c d)) = str_len (st_arguments c) + added_arguments_bytes d"
  "str_len (st_name (merge_tool_call c d)) =
     str_len (st_name c) + (case Option.bind (tcd_function d) fd_name of None \<Rightarrow> 0 | Some n \<Rightarrow> str_len n)"
  by (auto simp: merge_tool_call_def added_arguments_bytes_def split: option.splits)

lemma apply_tool_delta_ok:
  assumes "tools_ok a" and "tool_delta_limits a d = Inr ()"
  shows "tools_ok (apply_tool_delta a d)"
proof -
  let ?m = "as_tool_calls a" and ?k = "tcd_index d"
  let ?old = "case map_of ?m ?k of None \<Rightarrow> \<lparr>st_id = None, st_name = [], st_arguments = []\<rparr> | Some c \<Rightarrow> c"
  let ?new = "merge_tool_call ?old d"
  have sorted: "sorted_wrt (<) (map fst ?m)" and all: "\<forall>(k, c) \<in> set ?m. k \<le> MAX_TOOL_CALL_INDEX \<and>
      str_len (st_name c) \<le> MAX_TOOL_NAME_BYTES \<and> str_len (st_arguments c) \<le> MAX_TOOL_ARGUMENT_BYTES"
    and bytes: "as_tool_arguments_bytes a = arguments_total ?m" "as_tool_arguments_bytes a \<le> MAX_TOOL_ARGUMENTS_BYTES"
    using assms(1) by (auto simp: tools_ok_def)
  have old: "str_len (st_name ?old) \<le> MAX_TOOL_NAME_BYTES" "str_len (st_arguments ?old) \<le> MAX_TOOL_ARGUMENT_BYTES"
    using all by (auto split: option.splits dest!: map_of_SomeD)
  have old_len: "(case map_of ?m ?k of None \<Rightarrow> 0 | Some c \<Rightarrow> str_len (st_name c)) = str_len (st_name ?old)"
    "(case map_of ?m ?k of None \<Rightarrow> 0 | Some c \<Rightarrow> str_len (st_arguments c)) = str_len (st_arguments ?old)"
    by (auto split: option.splits)
  have key: "?k \<le> MAX_TOOL_CALL_INDEX"
    using assms(2) by (auto simp: tool_delta_limits_def Let_def split: if_splits)
  have lim: "str_len (st_name ?new) \<le> MAX_TOOL_NAME_BYTES" "str_len (st_arguments ?new) \<le> MAX_TOOL_ARGUMENT_BYTES"
      "as_tool_arguments_bytes a + added_arguments_bytes d \<le> MAX_TOOL_ARGUMENTS_BYTES"
    using assms(2) old bytes(2) unfolding tool_delta_limits_def Let_def old_len merge_lengths
    by (auto simp: added_arguments_bytes_def not_less split: if_splits option.splits)
  have total: "arguments_total (btree_put ?k ?new ?m) = arguments_total ?m + added_arguments_bytes d"
    using total_btree_put [OF sorted, of "\<lambda>c. str_len (st_arguments c)" ?k ?new] merge_lengths(1) [of ?old d] old_len(2)
    by simp
  show ?thesis
    unfolding tools_ok_def apply_tool_delta_def Let_def
    using sorted_btree_put [OF sorted] set_btree_put [of ?k ?new ?m] all key lim total bytes by fastforce
qed

lemma apply_tool_calls_ok:
  "tools_ok a \<Longrightarrow> tools_ok (fst (apply_tool_calls a ds)) \<and> as_text (fst (apply_tool_calls a ds)) = as_text a"
proof (induction ds arbitrary: a)
  case (Cons d ds)
  have "as_text (apply_tool_delta a d) = as_text a"
    by (simp add: apply_tool_delta_def Let_def)
  with Cons.IH [of "apply_tool_delta a d"] Cons.prems apply_tool_delta_ok [OF Cons.prems, of d] show ?case
    by (auto split: sum.split)
qed simp

lemma apply_content_ok:
  "assembler_ok (fst c) a \<Longrightarrow>
   case fst (apply_content (recording f) c a content) of (c', a') \<Rightarrow> assembler_ok (fst c') a'"
  by (cases c)
     (auto simp: apply_content_def assembler_ok_def tools_ok_def not_less split: option.splits prod.splits sum.splits)

lemma assembler_ok_fields [simp]:
  "assembler_ok log (a\<lparr>as_finish_reason := r\<rparr>) = assembler_ok log a"
  "assembler_ok log (a\<lparr>as_served_model := m\<rparr>) = assembler_ok log a"
  "assembler_ok log (a\<lparr>as_usage := u\<rparr>) = assembler_ok log a"
  by (simp_all add: assembler_ok_def tools_ok_def)

lemma apply_choices_ok:
  "assembler_ok (fst c) a \<Longrightarrow>
   case fst (apply_choices (recording f) c a choices) of (c', a') \<Rightarrow> assembler_ok (fst c') a'"
proof (induction choices arbitrary: c a)
  case (Cons choice choices)
  obtain c1 a1 r1 where content: "apply_content (recording f) c a (cd_content (cc_delta choice)) = ((c1, a1), r1)"
    by (metis prod.collapse)
  with apply_content_ok [OF Cons.prems, of f "cd_content (cc_delta choice)"] have ok1: "assembler_ok (fst c1) a1"
    by simp
  obtain a2 r2 where tools: "apply_tool_calls a1 (cd_tool_calls (cc_delta choice)) = (a2, r2)"
    by (metis prod.collapse)
  with apply_tool_calls_ok [of a1 "cd_tool_calls (cc_delta choice)"] ok1 have ok2: "assembler_ok (fst c1) a2"
    by (auto simp: assembler_ok_def)
  from Cons content tools ok1 ok2 show ?case
    by (cases r1; cases r2; cases "cc_finish_reason choice") simp_all
qed simp

lemma apply_chunk_ok:
  "assembler_ok (fst c) a \<Longrightarrow>
   case fst (apply_chunk (recording f) c a chunk) of (c', a') \<Rightarrow> assembler_ok (fst c') a'"
  by (auto simp: apply_chunk_def Let_def intro!: apply_choices_ok split: option.splits)

lemma process_stream_data_ok:
  assumes "assembler_ok (fst c) a"
  shows "case fst (process_stream_data js (recording f) c a d) of (c', a') \<Rightarrow> assembler_ok (fst c') a'"
proof -
  have "case fst (case apply_chunk (recording f) c a chunk of (s, Inl e) \<Rightarrow> (s, Inl e) | (s, Inr u) \<Rightarrow> (s, Inr b)) of
      (c', a') \<Rightarrow> assembler_ok (fst c') a'" for chunk and b :: bool
    using apply_chunk_ok [OF assms, of f chunk] by (auto split: prod.splits sum.splits)
  then show ?thesis
    using assms by (simp add: process_stream_data_def split: sum.split)
qed

lemma process_stream_data_keeps:
  "process_stream_data js (recording f) c a d = ((c', a'), r) \<Longrightarrow> assembler_ok (fst c) a \<Longrightarrow> assembler_ok (fst c') a'"
  using process_stream_data_ok [of c a js f d] by simp

definition stream_ok :: "(rstr \<times> 'c) stream_state \<Rightarrow> bool" where
  "stream_ok s \<longleftrightarrow> assembler_ok (fst (ss_callback s)) (ss_assembler s)"

lemma stream_ok_fields [simp]:
  "stream_ok (s\<lparr>ss_event_data := x\<rparr>) = stream_ok s" "stream_ok (s\<lparr>ss_line := y\<rparr>) = stream_ok s"
  "stream_ok (s\<lparr>ss_decoded_bytes := n\<rparr>) = stream_ok s" "stream_ok (s\<lparr>ss_event_bytes := n\<rparr>) = stream_ok s"
  "stream_ok (s\<lparr>ss_callback := c, ss_assembler := a\<rparr>) = assembler_ok (fst c) a"
  by (simp_all add: stream_ok_def)

lemma sse_line_ok: "stream_ok s \<Longrightarrow> stream_ok (fst (sse_line js (recording f) s line))"
  by (auto simp: sse_line_def stream_ok_def split: sum.splits prod.splits bool.splits
      dest!: process_stream_data_keeps)

lemma sse_loop_ok: "stream_ok s \<Longrightarrow> stream_ok (fst (sse_loop js (recording f) s bs))"
proof (induction "length bs" arbitrary: s bs rule: less_induct)
  case less
  obtain got rest where read: "read_until (min (MAX_DECODED_RESPONSE_BYTES - ss_decoded_bytes s)
      (MAX_SSE_EVENT_BYTES - ss_event_bytes s) + 1) bs = (got, rest)"
    by (metis prod.collapse)
  let ?s1 = "s\<lparr>ss_decoded_bytes := ss_decoded_bytes s + length got, ss_event_bytes := ss_event_bytes s + length got,
      ss_line := ss_line s @ got\<rparr>"
  have shorter: "got \<noteq> [] \<Longrightarrow> length rest < length bs"
    using read_until_split [OF read [symmetric]] by simp
  have ok1: "stream_ok ?s1" using less.prems by (simp add: stream_ok_def)
  obtain s2 r where line: "sse_line js (recording f) ?s1 (butlast (ss_line s @ got)) = (s2, r)"
    by (metis prod.collapse)
  have ok2: "stream_ok s2" using sse_line_ok [OF ok1, of js f "butlast (ss_line s @ got)"] line by simp
  show ?case
    using less.hyps [OF shorter ok1] less.hyps [OF shorter ok2] less.prems read line ok2
    by (subst sse_loop.simps) (auto simp: Let_def split: sum.split bool.split)
qed

lemma stream_pending_ok: "stream_ok s \<Longrightarrow> stream_ok (fst (stream_pending js (recording f) s))"
  by (auto simp: stream_pending_def stream_ok_def split: prod.splits dest!: process_stream_data_keeps)

lemma stream_pending_keeps:
  "stream_pending js (recording f) s = (s', r) \<Longrightarrow> stream_ok s \<Longrightarrow> stream_ok s'"
  using stream_pending_ok [of s js f] by simp

lemma stream_last_line_keeps:
  "stream_last_line js (recording f) s = (s', r) \<Longrightarrow> stream_ok s \<Longrightarrow> stream_ok s'"
  unfolding stream_last_line_def
  by (auto split: if_splits sum.splits prod.splits bool.splits dest!: stream_pending_keeps)

lemma stream_tail_ok:
  assumes "stream_ok s"
  shows "stream_ok (fst (stream_tail js (recording f) s))"
proof -
  obtain s1 r where l: "stream_last_line js (recording f) s = (s1, r)"
    by (metis prod.collapse)
  with assms have "stream_ok s1" by (rule stream_last_line_keeps [rotated])
  with l show ?thesis
    by (cases r) (simp_all add: stream_tail_def stream_pending_ok)
qed

section \<open>Properties\<close>

lemma tool_blocks_ok:
  "tool_blocks js calls = Inr blocks \<Longrightarrow>
   length blocks = length calls \<and>
   list_all (\<lambda>b. case b of ToolUseBlock ident name input \<Rightarrow> trim ident \<noteq> [] \<and> is_known_tool name | _ \<Rightarrow> False) blocks"
proof (induction js calls arbitrary: blocks rule: tool_blocks.induct)
  case (2 js k call calls)
  then obtain ident block rest where "st_id call = Some ident"
      "tool_use_from_provider js ident (st_name call) (st_arguments call) = Inr block"
      "tool_blocks js calls = Inr rest" "blocks = block # rest"
    by (auto simp: result_simps split: option.splits)
  moreover from this(2) have "case block of ToolUseBlock ident name input \<Rightarrow> trim ident \<noteq> [] \<and> is_known_tool name | _ \<Rightarrow> False"
    by (auto simp: tool_use_from_provider_def result_simps split: if_splits option.splits sum.splits dest: internal_name_known)
  ultimately show ?case using 2 by auto
qed simp

lemma tools_ok_count: "tools_ok a \<Longrightarrow> length (as_tool_calls a) \<le> MAX_TOOL_CALLS"
proof -
  assume ok: "tools_ok a"
  then have "distinct (map fst (as_tool_calls a))"
    by (simp add: tools_ok_def strict_sorted_iff)
  moreover have "set (map fst (as_tool_calls a)) \<subseteq> {..MAX_TOOL_CALL_INDEX}"
    using ok by (auto simp: tools_ok_def)
  ultimately have "length (map fst (as_tool_calls a)) \<le> card {..MAX_TOOL_CALL_INDEX}"
    by (metis card_mono distinct_card finite_atMost)
  then show ?thesis by (simp add: MAX_TOOL_CALL_INDEX_def MAX_TOOL_CALLS_def)
qed

text \<open>
  C33. A streamed response is what was streamed. For every byte sequence a provider may send and every
  callback, parsing ends; whatever the outcome, the text the callback accepted is within the text limit;
  and when a response is returned, its text is exactly the concatenation of the deltas the callback
  accepted, followed by at most 64 tool uses, each with a nonblank identifier and a known tool.
\<close>

theorem stream_response_faithful:
  assumes "parse_chat_completion_stream js (recording f) ([], c) bs = ((log, c'), r)"
  shows "str_len log \<le> MAX_ASSISTANT_TEXT_BYTES \<and>
    (\<forall>resp. r = Inr resp \<longrightarrow>
      (\<exists>blocks. mr_content resp = (if log = [] then [] else [TextBlock log]) @ blocks \<and>
         length blocks \<le> MAX_TOOL_CALLS \<and>
         list_all (\<lambda>b. case b of ToolUseBlock ident name input \<Rightarrow> trim ident \<noteq> [] \<and> is_known_tool name | _ \<Rightarrow> False) blocks))"
proof -
  obtain s r1 where loop: "sse_loop js (recording f) (stream_start ([], c)) bs = (s, r1)"
    by (metis prod.collapse)
  have "stream_ok (stream_start ([], c))"
    by (simp add: stream_ok_def stream_start_def assembler_ok_def assembler_default_def tools_ok_def)
  then have ok: "stream_ok s"
    using sse_loop_ok [of "stream_start ([], c)" js f bs] loop by simp
  obtain s1 r2 where tail: "stream_tail js (recording f) s = (s1, r2)"
    by (metis prod.collapse)
  have ok1: "stream_ok s1" using stream_tail_ok [OF ok, of js f] tail by simp
  obtain s' where s': "stream_ok s'" "ss_callback s' = (log, c')"
      "\<forall>resp. r = Inr resp \<longrightarrow> into_model_response js (ss_assembler s') = Inr resp"
    using assms loop tail ok ok1
    by (auto simp: parse_chat_completion_stream_def Let_def split: sum.splits bool.splits)
  then have a: "assembler_ok log (ss_assembler s')" by (simp add: stream_ok_def)
  then have "str_len log \<le> MAX_ASSISTANT_TEXT_BYTES" "as_text (ss_assembler s') = log"
      "length (as_tool_calls (ss_assembler s')) \<le> MAX_TOOL_CALLS"
    using tools_ok_count by (auto simp: assembler_ok_def)
  with s'(3) show ?thesis
    by (fastforce simp: into_model_response_def model_response_def result_simps split: option.splits dest: tool_blocks_ok)
qed

definition sample_json :: "unit json_lib" where
  "sample_json =
     \<lparr>json_parse = (\<lambda>d. if d = lit ''x'' then Inr () else Inl []), json_has_error = (\<lambda>_. False),
      json_chunk = (\<lambda>_. Inr
        \<lparr>ch_model = None,
         ch_choices = [\<lparr>cc_index = 0, cc_delta = \<lparr>cd_content = Some (lit ''hi''), cd_tool_calls = []\<rparr>, cc_finish_reason = Some Stop\<rparr>],
         ch_usage = None\<rparr>)\<rparr>"

definition sample_bytes :: "u8 list" where
  "sample_bytes =
     [100, 97, 116, 97, 58, 120, 10, 10, 100, 97, 116, 97, 58, 91, 68, 79, 78, 69, 93, 10, 10]"

definition accept_all :: "unit on_delta" where
  "accept_all c t = (c, Inr ())"

theorem stream_response_faithful_witness:
  "parse_chat_completion_stream sample_json (recording accept_all) ([], ()) sample_bytes =
     ((lit ''hi'', ()), Inr (model_response [TextBlock (lit ''hi'')] Stop None None)) \<and>
   str_len (lit ''hi'') \<le> MAX_ASSISTANT_TEXT_BYTES"
proof -
  have run: "parse_chat_completion_stream sample_json (recording accept_all) ([], ()) sample_bytes =
      ((lit ''hi'', ()), Inr (model_response [TextBlock (lit ''hi'')] Stop None None))"
    by (simp add: parse_chat_completion_stream_def stream_start_def assembler_default_def sample_bytes_def
        sse_loop.simps read_until_def sse_line_def append_stream_line_def trim_end_cr_def strip_prefix_def
        process_stream_data_def apply_chunk_def apply_content_def into_model_response_def accept_all_def sample_json_def
        MAX_DECODED_RESPONSE_BYTES_def MAX_SSE_EVENT_BYTES_def MAX_ASSISTANT_TEXT_BYTES_def
        trim_def trim_end_def trim_start_def is_whitespace_def lit_def len_utf8_def)
  from stream_response_faithful [OF run] run show ?thesis by blast
qed

end
