(* ===== verification/Event_Ledger.thy ===== *)
theory Event_Ledger
  imports Rust_Prelude
begin

text \<open>
  Event-sourced machines in general: a state is obtained by applying an ordered ledger of
  records, each record is either accepted or rejected with an error, and the loop stops at the
  first rejection (\<open>for record in events \<open>{\<close> state.apply(record)?; \<open>}\<close>\<close>). The locale
  \<open>ledger_machine\<close> is the interface between a machine and the code that replays ledgers
  (readback projection, ledger replay, recorders): what an accepted or rejected record may do
  to the state and to the sequence counter. The replay theory is proved once, inside it.
\<close>

fun replay_loop :: "('s \<Rightarrow> 'r \<Rightarrow> 's \<times> ('e, unit) result) \<Rightarrow> 's \<Rightarrow> 'r list \<Rightarrow> 's \<times> ('e, unit) result"
where
  "replay_loop f s [] = (s, Inr ())"
| "replay_loop f s (r # rs) =
     (case f s r of (s', Inl e) \<Rightarrow> (s', Inl e) | (s', Inr _) \<Rightarrow> replay_loop f s' rs)"

lemma replay_loop_Cons_ok:
  "replay_loop f s (r # rs) = (t, Inr ()) \<longleftrightarrow>
     (\<exists>s'. f s r = (s', Inr ()) \<and> replay_loop f s' rs = (t, Inr ()))"
  by (auto split: prod.splits sum.splits)

lemma replay_loop_append_ok:
  "replay_loop f s (xs @ ys) = (t, Inr ()) \<longleftrightarrow>
     (\<exists>s'. replay_loop f s xs = (s', Inr ()) \<and> replay_loop f s' ys = (t, Inr ()))"
  by (induction xs arbitrary: s) (auto split: prod.splits sum.splits)

lemma replay_loop_append_err:
  "replay_loop f s xs = (s', Inl e) \<Longrightarrow> replay_loop f s (xs @ ys) = (s', Inl e)"
  by (induction xs arbitrary: s) (auto split: prod.splits sum.splits)

lemma replay_loop_snoc_ok:
  "replay_loop f s (xs @ [r]) = (t, Inr ()) \<longleftrightarrow>
     (\<exists>s'. replay_loop f s xs = (s', Inr ()) \<and> f s' r = (t, Inr ()))"
  by (simp only: replay_loop_append_ok replay_loop_Cons_ok) simp

text \<open>
  Where a replay fails, it fails at exactly one record: everything before it was accepted, and
  it is the record whose application reported the error.
\<close>

lemma replay_loop_err_split:
  assumes "replay_loop f s rs = (t, Inl e)"
  shows "\<exists>xs r ys u. rs = xs @ r # ys \<and> replay_loop f s xs = (u, Inr ()) \<and> f u r = (t, Inl e)"
  using assms
proof (induction rs arbitrary: s)
  case (Cons r rs)
  show ?case
  proof (cases "f s r")
    case (Pair s' res)
    show ?thesis
    proof (cases res)
      case (Inl e')
      with Cons.prems Pair have "rs = rs \<and> replay_loop f s [] = (s, Inr ()) \<and> f s r = (t, Inl e)"
        by simp
      then show ?thesis
        by (metis append_Nil)
    next
      case (Inr u)
      with Cons.prems Pair have "replay_loop f s' rs = (t, Inl e)" by simp
      then obtain xs q ys v where
        "rs = xs @ q # ys" "replay_loop f s' xs = (v, Inr ())" "f v q = (t, Inl e)"
        using Cons.IH by blast
      with Pair Inr have "r # rs = (r # xs) @ q # ys \<and>
          replay_loop f s (r # xs) = (v, Inr ()) \<and> f v q = (t, Inl e)"
        by simp
      then show ?thesis by blast
    qed
  qed
qed simp

lemma replay_history_induct:
  assumes run: "replay_loop f s0 rs = (s, Inr ())"
    and base: "P [] s0"
    and step: "\<And>xs u r t. replay_loop f s0 xs = (u, Inr ()) \<Longrightarrow> P xs u \<Longrightarrow> f u r = (t, Inr ()) \<Longrightarrow>
                 P (xs @ [r]) t"
  shows "P rs s"
  using run
proof (induction rs arbitrary: s rule: rev_induct)
  case Nil
  with base show ?case by simp
next
  case (snoc r xs)
  then obtain u where "replay_loop f s0 xs = (u, Inr ())" and "f u r = (s, Inr ())"
    by (auto simp only: replay_loop_snoc_ok)
  with snoc.IH step show ?case by blast
qed

section \<open>Reachable states\<close>

inductive reachable :: "('s \<Rightarrow> 'r \<Rightarrow> 's \<times> ('e, unit) result) \<Rightarrow> 's \<Rightarrow> 's \<Rightarrow> bool"
  for f :: "'s \<Rightarrow> 'r \<Rightarrow> 's \<times> ('e, unit) result" and s0 :: 's where
  start: "reachable f s0 s0"
| step: "reachable f s0 s \<Longrightarrow> f s r = (s', Inr ()) \<Longrightarrow> reachable f s0 s'"

lemma reachable_iff_replay: "reachable f s0 s \<longleftrightarrow> (\<exists>rs. replay_loop f s0 rs = (s, Inr ()))"
proof
  assume "reachable f s0 s"
  then show "\<exists>rs. replay_loop f s0 rs = (s, Inr ())"
  proof (induction rule: reachable.induct)
    case start
    have "replay_loop f s0 [] = (s0, Inr ())" by simp
    then show ?case ..
  next
    case (step s r s')
    then obtain rs where "replay_loop f s0 rs = (s, Inr ())" by blast
    with step.hyps have "replay_loop f s0 (rs @ [r]) = (s', Inr ())"
      by (simp only: replay_loop_snoc_ok) blast
    then show ?case ..
  qed
next
  assume "\<exists>rs. replay_loop f s0 rs = (s, Inr ())"
  then obtain rs where "replay_loop f s0 rs = (s, Inr ())" ..
  then show "reachable f s0 s"
    by (rule replay_history_induct [where P = "\<lambda>_. reachable f s0"]) (auto intro: reachable.intros)
qed

lemma invariant_reachable:
  assumes "I s0" and "\<And>s r s'. I s \<Longrightarrow> f s r = (s', Inr ()) \<Longrightarrow> I s'" and "reachable f s0 s"
  shows "I s"
  using assms(3) by (induction rule: reachable.induct) (auto intro: assms(1,2))

section \<open>The interface of a sequenced machine\<close>

locale ledger_machine =
  fixes init :: 's
    and app :: "'s \<Rightarrow> 'r \<Rightarrow> 's \<times> ('e, unit) result"
    and seq_of :: "'r \<Rightarrow> u64"
    and next_seq :: "'s \<Rightarrow> u64"
  assumes init_seq: "next_seq init = 0"
    and reject_keeps: "app s r = (s', Inl e) \<Longrightarrow> s' = s"
    and accept_seq: "app s r = (s', Inr ()) \<Longrightarrow> seq_of r = next_seq s \<and> next_seq s' = next_seq s + 1"
begin

lemma replay_next_seq: "replay_loop app init rs = (s, Inr ()) \<Longrightarrow> next_seq s = of_nat (length rs)"
  by (erule replay_history_induct) (auto simp: init_seq dest: accept_seq)

lemma replay_contiguous:
  "replay_loop app init rs = (s, Inr ()) \<Longrightarrow> map seq_of rs = map of_nat [0..<length rs]"
  by (erule replay_history_induct) (simp_all, metis accept_seq replay_next_seq)

lemma replay_nth_seq:
  assumes "replay_loop app init rs = (s, Inr ())" and "i < length rs" and "length rs \<le> 2 ^ 64"
  shows "unat (seq_of (rs ! i)) = i"
proof -
  have "seq_of (rs ! i) = map seq_of rs ! i"
    using assms(2) by simp
  also have "\<dots> = of_nat i"
    using assms(2) by (simp add: replay_contiguous [OF assms(1)])
  finally show ?thesis
    using assms(2,3) by (simp add: unsigned_of_nat take_bit_nat_eq_self)
qed

lemma replay_wrong_seq_rejected:
  assumes "replay_loop app init rs = (s, Inr ())" and "seq_of r \<noteq> of_nat (length rs)"
  shows "\<exists>e. app s r = (s, Inl e)"
proof -
  obtain s' res where app: "app s r = (s', res)" by fastforce
  show ?thesis
  proof (cases res)
    case (Inl e)
    with app reject_keeps show ?thesis by blast
  next
    case (Inr u)
    with app have "seq_of r = next_seq s"
      by (simp add: accept_seq)
    with assms replay_next_seq [OF assms(1)] show ?thesis by simp
  qed
qed

text \<open>A failed replay leaves the machine at the state of the longest accepted prefix.\<close>

lemma replay_err_state:
  assumes "replay_loop app init rs = (t, Inl e)"
  shows "\<exists>xs r ys. rs = xs @ r # ys \<and> replay_loop app init xs = (t, Inr ()) \<and> app t r = (t, Inl e)"
proof -
  obtain xs r ys u where *: "rs = xs @ r # ys" "replay_loop app init xs = (u, Inr ())" "app u r = (t, Inl e)"
    using replay_loop_err_split [OF assms] by blast
  with reject_keeps have "t = u" by blast
  with * show ?thesis by blast
qed

end

end
