(* ===== verification/Run_Machine.thy ===== *)
theory Run_Machine
  imports Core_Types Event_Ledger
begin

text \<open>
  The pure run state machine of \<open>platonic-core/src/run.rs\<close>: the phases of one run, the state
  derived from its ledger, the validation of one recorded event (\<open>RunState::apply\<close>) with every
  guard and early return, and the host command derived from a phase. The step relation
  \<open>run_step\<close> is the declarative specification of the accepted transitions; \<open>apply_event\<close>
  implements exactly that relation.
\<close>

section \<open>Commands, phases and state\<close>

datatype 'v RunCommand =
    RequestModel TurnId u32 ContextPack
  | AwaitApproval ToolCallId rstr
  | ExecuteTool "'v ToolCall"

datatype 'v RunPhase =
    NotStarted
  | ReadyForContext
  | ReadyToRequestModel TurnId u32 ContextPack
  | AwaitingModelResponse TurnId u32 ContextPack
  | AwaitingToolCall TurnId "'v ToolProposal list"
  | AwaitingPolicy "'v ToolCall"
  | AwaitingApproval "'v ToolCall" rstr
  | PolicyDenied ToolCallId rstr
  | ApprovalDenied ToolCallId rstr
  | ReadyToExecuteTool "'v ToolCall"
  | ToolRunning ToolCallId
  | ToolFailed ToolCallId rstr
  | TurnConcluded
  | Finished
  | Failed rstr

record 'v RunState =
  rs_run_id :: "RunId option"
  rs_next_seq :: u64
  rs_next_model_step :: u32
  rs_used_turn_ids :: "TurnId set"
  rs_used_tool_call_ids :: "ToolCallId set"
  rs_pending_compaction_turn_id :: "TurnId option"
  rs_phase :: "'v RunPhase"

definition RunState_new :: "'v RunState" where
  "RunState_new =
     \<lparr>rs_run_id = None, rs_next_seq = 0, rs_next_model_step = 0, rs_used_turn_ids = {},
      rs_used_tool_call_ids = {}, rs_pending_compaction_turn_id = None, rs_phase = NotStarted\<rparr>"

definition pending_command :: "'v RunState \<Rightarrow> 'v RunCommand option" where
  "pending_command s =
     (case rs_phase s of
        ReadyToRequestModel t n c \<Rightarrow> Some (RequestModel t n c)
      | AwaitingApproval call why \<Rightarrow> Some (AwaitApproval (tc_id call) why)
      | ReadyToExecuteTool call \<Rightarrow> Some (ExecuteTool call)
      | _ \<Rightarrow> None)"

fun phase_name :: "'v RunPhase \<Rightarrow> string" where
  "phase_name NotStarted = ''not_started''"
| "phase_name ReadyForContext = ''ready_for_context''"
| "phase_name (ReadyToRequestModel _ _ _) = ''ready_to_request_model''"
| "phase_name (AwaitingModelResponse _ _ _) = ''awaiting_model_response''"
| "phase_name (AwaitingToolCall _ _) = ''awaiting_tool_call''"
| "phase_name (AwaitingPolicy _) = ''awaiting_policy''"
| "phase_name (AwaitingApproval _ _) = ''awaiting_approval''"
| "phase_name (PolicyDenied _ _) = ''policy_denied''"
| "phase_name (RunPhase.ApprovalDenied _ _) = ''approval_denied''"
| "phase_name (ReadyToExecuteTool _) = ''ready_to_execute_tool''"
| "phase_name (ToolRunning _) = ''tool_running''"
| "phase_name (RunPhase.ToolFailed _ _) = ''tool_failed''"
| "phase_name TurnConcluded = ''turn_concluded''"
| "phase_name Finished = ''finished''"
| "phase_name (Failed _) = ''failed''"

fun can_fail :: "'v RunPhase \<Rightarrow> bool" where
  "can_fail NotStarted = False"
| "can_fail Finished = False"
| "can_fail (Failed _) = False"
| "can_fail _ = True"

section \<open>Guards\<close>

definition ensure_turn :: "TurnId \<Rightarrow> TurnId \<Rightarrow> (Error, unit) result" where
  "ensure_turn expected actual =
     (if expected = actual then Inr () else Inl (TurnMismatch (turn_id_str expected) (turn_id_str actual)))"

definition ensure_new_turn :: "TurnId set \<Rightarrow> TurnId \<Rightarrow> (Error, unit) result" where
  "ensure_new_turn used actual = (if actual \<in> used then Inl (TurnReused (turn_id_str actual)) else Inr ())"

definition ensure_tool_proposals_rejection_reason :: "rstr \<Rightarrow> (Error, unit) result" where
  "ensure_tool_proposals_rejection_reason why =
     (if trim why = [] then Inl EmptyToolProposalsRejectionReason else Inr ())"

definition ensure_compaction_range :: "u64 \<Rightarrow> u64 \<Rightarrow> (Error, unit) result" where
  "ensure_compaction_range start end_exclusive =
     (if start < end_exclusive then Inr () else Inl (InvalidCompactionRange start end_exclusive))"

definition ensure_step :: "u32 \<Rightarrow> u32 \<Rightarrow> (Error, unit) result" where
  "ensure_step expected actual = (if expected = actual then Inr () else Inl (StepMismatch expected actual))"

definition ensure_call :: "ToolCallId \<Rightarrow> ToolCallId \<Rightarrow> (Error, unit) result" where
  "ensure_call expected actual =
     (if expected = actual then Inr ()
      else Inl (ToolCallMismatch (tool_call_id_str expected) (tool_call_id_str actual)))"

definition ensure_new_tool_call :: "ToolCallId set \<Rightarrow> ToolCallId \<Rightarrow> (Error, unit) result" where
  "ensure_new_tool_call used actual =
     (if actual \<in> used then Inl (ToolCallReused (tool_call_id_str actual)) else Inr ())"

definition ensure_proposed :: "'v ToolProposal list \<Rightarrow> 'v ToolCall \<Rightarrow> (Error, unit) result" where
  "ensure_proposed proposals call =
     (if list_ex (\<lambda>p. tp_tool p = tc_tool call \<and> tp_input p = tc_input call) proposals
      then Inr () else Inl UnproposedToolCall)"

definition invalid :: "'v RunPhase \<Rightarrow> 'v HarnessEvent \<Rightarrow> Error" where
  "invalid ph ev = InvalidTransition (phase_name ph) (event_name ev)"

section \<open>Applying one event\<close>

definition start_turn :: "'v RunState \<Rightarrow> TurnId \<Rightarrow> ContextPack \<Rightarrow> 'v RunState \<times> (Error, unit) result" where
  "start_turn s t c =
     guard_ok (ensure_new_turn (rs_used_turn_ids s) t) s
      (guard_ok (validate_budget c) s
        (s\<lparr>rs_used_turn_ids := insert t (rs_used_turn_ids s),
           rs_phase := ReadyToRequestModel t (rs_next_model_step s) c\<rparr>, Inr ()))"

text \<open>The five stable phases in which the next model turn may be prepared.\<close>

fun awaits_context :: "'v RunPhase \<Rightarrow> bool" where
  "awaits_context ReadyForContext = True"
| "awaits_context TurnConcluded = True"
| "awaits_context (PolicyDenied _ _) = True"
| "awaits_context (RunPhase.ApprovalDenied _ _) = True"
| "awaits_context (RunPhase.ToolFailed _ _) = True"
| "awaits_context _ = False"

definition compaction_gate :: "'v RunState \<Rightarrow> 'v HarnessEvent \<Rightarrow> (Error, unit) result" where
  "compaction_gate s ev =
     (case rs_pending_compaction_turn_id s of
        None \<Rightarrow> Inr ()
      | Some expected \<Rightarrow>
          (case ev of
             ContextBuilt _ t _ \<Rightarrow> ensure_turn expected t
           | RunFailed _ _ \<Rightarrow> Inr ()
           | _ \<Rightarrow> Inl (invalid (rs_phase s) ev)))"

text \<open>
  The \<open>match (&self.phase, event)\<close> of \<open>apply_event\<close>. Each kind of event occurs in exactly one
  arm besides the final catch-all, so the arms are written by event; the arm's phase pattern is
  the inner case, and every other phase is the catch-all's \<open>InvalidTransition\<close>.
\<close>

fun transition :: "'v RunState \<Rightarrow> 'v HarnessEvent \<Rightarrow> 'v RunState \<times> (Error, unit) result" where
  "transition s (RunStarted e) =
     (case rs_phase s of
        NotStarted \<Rightarrow> (s\<lparr>rs_run_id := Some (rse_run_id e), rs_phase := ReadyForContext\<rparr>, Inr ())
      | ph \<Rightarrow> (s, Inl (invalid ph (RunStarted e))))"
| "transition s (ContextBuilt r t c) =
     (if awaits_context (rs_phase s)
      then case start_turn s t c of
             (s', Inl e) \<Rightarrow> (s', Inl e)
           | (s', Inr _) \<Rightarrow> (s'\<lparr>rs_pending_compaction_turn_id := None\<rparr>, Inr ())
      else (s, Inl (invalid (rs_phase s) (ContextBuilt r t c))))"
| "transition s (ContextCompacted r t before after from to) =
     (if awaits_context (rs_phase s)
      then guard_ok (ensure_compaction_range from to) s
            (guard_ok (ensure_new_turn (rs_used_turn_ids s) t) s
              (s\<lparr>rs_pending_compaction_turn_id := Some t\<rparr>, Inr ()))
      else (s, Inl (invalid (rs_phase s) (ContextCompacted r t before after from to))))"
| "transition s (ModelRequested r t n m) =
     (case rs_phase s of
        ReadyToRequestModel t0 n0 c \<Rightarrow>
          guard_ok (ensure_turn t0 t) s
           (guard_ok (ensure_step n0 n) s
             (s\<lparr>rs_phase := AwaitingModelResponse t0 n0 c\<rparr>, Inr ()))
      | ph \<Rightarrow> (s, Inl (invalid ph (ModelRequested r t n m))))"
| "transition s (ModelFailed r t n why) =
     (case rs_phase s of
        AwaitingModelResponse t0 n0 c \<Rightarrow>
          guard_ok (ensure_turn t0 t) s
           (guard_ok (ensure_step n0 n) s
             (s\<lparr>rs_phase := ReadyToRequestModel t0 n0 c\<rparr>, Inr ()))
      | ph \<Rightarrow> (s, Inl (invalid ph (ModelFailed r t n why))))"
| "transition s (ModelResponded r t n out proposed served usage) =
     (case rs_phase s of
        AwaitingModelResponse t0 n0 c \<Rightarrow>
          guard_ok (ensure_turn t0 t) s
           (guard_ok (ensure_step n0 n) s
             (s\<lparr>rs_next_model_step := rs_next_model_step s + 1,
                rs_phase := if proposed = [] then TurnConcluded else AwaitingToolCall t0 proposed\<rparr>, Inr ()))
      | ph \<Rightarrow> (s, Inl (invalid ph (ModelResponded r t n out proposed served usage))))"
| "transition s (ToolCallProposed r t call) =
     (case rs_phase s of
        AwaitingToolCall t0 proposals \<Rightarrow>
          guard_ok (ensure_turn t0 t) s
           (guard_ok (ensure_proposed proposals call) s
             (guard_ok (ensure_new_tool_call (rs_used_tool_call_ids s) (tc_id call)) s
               (s\<lparr>rs_used_tool_call_ids := insert (tc_id call) (rs_used_tool_call_ids s),
                  rs_phase := AwaitingPolicy call\<rparr>, Inr ())))
      | ph \<Rightarrow> (s, Inl (invalid ph (ToolCallProposed r t call))))"
| "transition s (ToolProposalsRejected r t why) =
     (case rs_phase s of
        AwaitingToolCall t0 _ \<Rightarrow>
          guard_ok (ensure_turn t0 t) s
           (guard_ok (ensure_tool_proposals_rejection_reason why) s
             (s\<lparr>rs_phase := TurnConcluded\<rparr>, Inr ()))
      | ph \<Rightarrow> (s, Inl (invalid ph (ToolProposalsRejected r t why))))"
| "transition s (PolicyEvaluated r c decision) =
     (case rs_phase s of
        AwaitingPolicy call \<Rightarrow>
          guard_ok (ensure_call (tc_id call) c) s
           (case decision of
              Allow \<Rightarrow> (s\<lparr>rs_phase := ReadyToExecuteTool call\<rparr>, Inr ())
            | RequireApproval why \<Rightarrow> (s\<lparr>rs_phase := AwaitingApproval call why\<rparr>, Inr ())
            | Deny why \<Rightarrow> (s\<lparr>rs_phase := PolicyDenied (tc_id call) why\<rparr>, Inr ()))
      | ph \<Rightarrow> (s, Inl (invalid ph (PolicyEvaluated r c decision))))"
| "transition s (ApprovalGranted r c a) =
     (case rs_phase s of
        AwaitingApproval call _ \<Rightarrow>
          guard_ok (ensure_call (tc_id call) c) s (s\<lparr>rs_phase := ReadyToExecuteTool call\<rparr>, Inr ())
      | ph \<Rightarrow> (s, Inl (invalid ph (ApprovalGranted r c a))))"
| "transition s (HarnessEvent.ApprovalDenied r c a why) =
     (case rs_phase s of
        AwaitingApproval call _ \<Rightarrow>
          guard_ok (ensure_call (tc_id call) c) s
            (s\<lparr>rs_phase := RunPhase.ApprovalDenied (tc_id call) why\<rparr>, Inr ())
      | ph \<Rightarrow> (s, Inl (invalid ph (HarnessEvent.ApprovalDenied r c a why))))"
| "transition s (ToolStarted r c) =
     (case rs_phase s of
        ReadyToExecuteTool call \<Rightarrow>
          guard_ok (ensure_call (tc_id call) c) s (s\<lparr>rs_phase := ToolRunning (tc_id call)\<rparr>, Inr ())
      | ph \<Rightarrow> (s, Inl (invalid ph (ToolStarted r c))))"
| "transition s (ToolFinished r res) =
     (case rs_phase s of
        ToolRunning c0 \<Rightarrow>
          guard_ok (ensure_call c0 (tr_call_id res)) s (s\<lparr>rs_phase := TurnConcluded\<rparr>, Inr ())
      | ph \<Rightarrow> (s, Inl (invalid ph (ToolFinished r res))))"
| "transition s (HarnessEvent.ToolFailed r c why) =
     (case rs_phase s of
        ToolRunning c0 \<Rightarrow>
          guard_ok (ensure_call c0 c) s (s\<lparr>rs_phase := RunPhase.ToolFailed c0 why\<rparr>, Inr ())
      | ph \<Rightarrow> (s, Inl (invalid ph (HarnessEvent.ToolFailed r c why))))"
| "transition s (RunFinished r) =
     (case rs_phase s of
        TurnConcluded \<Rightarrow> (s\<lparr>rs_phase := Finished\<rparr>, Inr ())
      | ph \<Rightarrow> (s, Inl (invalid ph (RunFinished r))))"
| "transition s (RunFailed r why) =
     (if can_fail (rs_phase s)
      then (s\<lparr>rs_pending_compaction_turn_id := None, rs_phase := Failed why\<rparr>, Inr ())
      else (s, Inl (invalid (rs_phase s) (RunFailed r why))))"

definition apply_event :: "'v RunState \<Rightarrow> 'v HarnessEvent \<Rightarrow> 'v RunState \<times> (Error, unit) result" where
  "apply_event s ev = guard_ok (compaction_gate s ev) s (transition s ev)"

text \<open>
  \<open>RunState::apply\<close>. The sequence counter is a \<open>u64\<close> and wraps as the release build does.
\<close>

definition run_apply :: "'v RunState \<Rightarrow> 'v RecordedEvent \<Rightarrow> 'v RunState \<times> (Error, unit) result" where
  "run_apply s rec =
     (if re_seq rec \<noteq> rs_next_seq s
      then (s, Inl (SequenceMismatch (rs_next_seq s) (re_seq rec)))
      else
        guard_ok
          (case rs_run_id s of
             None \<Rightarrow> Inr ()
           | Some expected \<Rightarrow>
               if event_run_id (re_event rec) \<noteq> expected
               then Inl (RunIdMismatch (run_id_str expected) (run_id_str (event_run_id (re_event rec))))
               else Inr ())
          s
          (case apply_event s (re_event rec) of
             (s', Inl e) \<Rightarrow> (s', Inl e)
           | (s', Inr _) \<Rightarrow> (s'\<lparr>rs_next_seq := rs_next_seq s' + 1\<rparr>, Inr ())))"

end
