(* ===== verification/Run_Spec.thy ===== *)
theory Run_Spec
  imports Run_Machine
begin

text \<open>
  The run machine against its specification: the inductive step relation, the proof that
  \<open>apply_event\<close> implements exactly it, the interpretation of \<open>ledger_machine\<close> on
  \<open>RunState::apply\<close>, and the well-formedness invariant of every reachable state.
\<close>

section \<open>Guards as propositions\<close>

lemma guard_props [result_simps]:
  "ensure_turn t0 t = Inr () \<longleftrightarrow> t0 = t"
  "ensure_new_turn used t = Inr () \<longleftrightarrow> t \<notin> used"
  "ensure_tool_proposals_rejection_reason why = Inr () \<longleftrightarrow> trim why \<noteq> []"
  "ensure_compaction_range a b = Inr () \<longleftrightarrow> a < b"
  "ensure_step n0 n = Inr () \<longleftrightarrow> n0 = n"
  "ensure_call c0 c = Inr () \<longleftrightarrow> c0 = c"
  "ensure_new_tool_call calls c = Inr () \<longleftrightarrow> c \<notin> calls"
  by (auto simp: ensure_turn_def ensure_new_turn_def ensure_tool_proposals_rejection_reason_def
      ensure_compaction_range_def ensure_step_def ensure_call_def ensure_new_tool_call_def)

lemma ensure_proposed_ok [result_simps]:
  "ensure_proposed ps call = Inr () \<longleftrightarrow>
     (\<exists>p\<in>set ps. tp_tool p = tc_tool call \<and> tp_input p = tc_input call)"
  by (auto simp: ensure_proposed_def list_ex_iff)

section \<open>The step relation\<close>

definition gate_open :: "'v RunState \<Rightarrow> bool" where
  "gate_open s \<longleftrightarrow> rs_pending_compaction_turn_id s = None"

inductive run_step :: "'v RunState \<Rightarrow> 'v HarnessEvent \<Rightarrow> 'v RunState \<Rightarrow> bool" where
  started: "gate_open s \<Longrightarrow> rs_phase s = NotStarted \<Longrightarrow>
    run_step s (RunStarted e) (s\<lparr>rs_run_id := Some (rse_run_id e), rs_phase := ReadyForContext\<rparr>)"
| built: "awaits_context (rs_phase s) \<Longrightarrow> rs_pending_compaction_turn_id s \<in> {None, Some t} \<Longrightarrow>
    t \<notin> rs_used_turn_ids s \<Longrightarrow> validate_budget c = Inr () \<Longrightarrow>
    run_step s (ContextBuilt r t c)
      (s\<lparr>rs_used_turn_ids := insert t (rs_used_turn_ids s),
         rs_phase := ReadyToRequestModel t (rs_next_model_step s) c,
         rs_pending_compaction_turn_id := None\<rparr>)"
| compacted: "gate_open s \<Longrightarrow> awaits_context (rs_phase s) \<Longrightarrow> from < to \<Longrightarrow>
    t \<notin> rs_used_turn_ids s \<Longrightarrow>
    run_step s (ContextCompacted r t before after from to)
      (s\<lparr>rs_pending_compaction_turn_id := Some t\<rparr>)"
| requested: "gate_open s \<Longrightarrow> rs_phase s = ReadyToRequestModel t n c \<Longrightarrow>
    run_step s (ModelRequested r t n m) (s\<lparr>rs_phase := AwaitingModelResponse t n c\<rparr>)"
| model_failed: "gate_open s \<Longrightarrow> rs_phase s = AwaitingModelResponse t n c \<Longrightarrow>
    run_step s (ModelFailed r t n why) (s\<lparr>rs_phase := ReadyToRequestModel t n c\<rparr>)"
| answered: "gate_open s \<Longrightarrow> rs_phase s = AwaitingModelResponse t n c \<Longrightarrow>
    run_step s (ModelResponded r t n out [] served usage)
      (s\<lparr>rs_next_model_step := rs_next_model_step s + 1, rs_phase := TurnConcluded\<rparr>)"
| responded: "gate_open s \<Longrightarrow> rs_phase s = AwaitingModelResponse t n c \<Longrightarrow> ps \<noteq> [] \<Longrightarrow>
    run_step s (ModelResponded r t n out ps served usage)
      (s\<lparr>rs_next_model_step := rs_next_model_step s + 1, rs_phase := AwaitingToolCall t ps\<rparr>)"
| proposed: "gate_open s \<Longrightarrow> rs_phase s = AwaitingToolCall t ps \<Longrightarrow> p \<in> set ps \<Longrightarrow>
    tp_tool p = tc_tool call \<Longrightarrow> tp_input p = tc_input call \<Longrightarrow> tc_id call \<notin> rs_used_tool_call_ids s \<Longrightarrow>
    run_step s (ToolCallProposed r t call)
      (s\<lparr>rs_used_tool_call_ids := insert (tc_id call) (rs_used_tool_call_ids s),
         rs_phase := AwaitingPolicy call\<rparr>)"
| rejected: "gate_open s \<Longrightarrow> rs_phase s = AwaitingToolCall t ps \<Longrightarrow> trim why \<noteq> [] \<Longrightarrow>
    run_step s (ToolProposalsRejected r t why) (s\<lparr>rs_phase := TurnConcluded\<rparr>)"
| allowed: "gate_open s \<Longrightarrow> rs_phase s = AwaitingPolicy call \<Longrightarrow>
    run_step s (PolicyEvaluated r (tc_id call) Allow) (s\<lparr>rs_phase := ReadyToExecuteTool call\<rparr>)"
| held: "gate_open s \<Longrightarrow> rs_phase s = AwaitingPolicy call \<Longrightarrow>
    run_step s (PolicyEvaluated r (tc_id call) (RequireApproval why))
      (s\<lparr>rs_phase := AwaitingApproval call why\<rparr>)"
| denied: "gate_open s \<Longrightarrow> rs_phase s = AwaitingPolicy call \<Longrightarrow>
    run_step s (PolicyEvaluated r (tc_id call) (Deny why)) (s\<lparr>rs_phase := PolicyDenied (tc_id call) why\<rparr>)"
| granted: "gate_open s \<Longrightarrow> rs_phase s = AwaitingApproval call why \<Longrightarrow>
    run_step s (ApprovalGranted r (tc_id call) a) (s\<lparr>rs_phase := ReadyToExecuteTool call\<rparr>)"
| refused: "gate_open s \<Longrightarrow> rs_phase s = AwaitingApproval call why0 \<Longrightarrow>
    run_step s (HarnessEvent.ApprovalDenied r (tc_id call) a why)
      (s\<lparr>rs_phase := RunPhase.ApprovalDenied (tc_id call) why\<rparr>)"
| tool_started: "gate_open s \<Longrightarrow> rs_phase s = ReadyToExecuteTool call \<Longrightarrow>
    run_step s (ToolStarted r (tc_id call)) (s\<lparr>rs_phase := ToolRunning (tc_id call)\<rparr>)"
| tool_finished: "gate_open s \<Longrightarrow> rs_phase s = ToolRunning (tr_call_id res) \<Longrightarrow>
    run_step s (ToolFinished r res) (s\<lparr>rs_phase := TurnConcluded\<rparr>)"
| tool_failed: "gate_open s \<Longrightarrow> rs_phase s = ToolRunning c \<Longrightarrow>
    run_step s (HarnessEvent.ToolFailed r c why) (s\<lparr>rs_phase := RunPhase.ToolFailed c why\<rparr>)"
| finished: "gate_open s \<Longrightarrow> rs_phase s = TurnConcluded \<Longrightarrow>
    run_step s (RunFinished r) (s\<lparr>rs_phase := Finished\<rparr>)"
| failed: "can_fail (rs_phase s) \<Longrightarrow>
    run_step s (RunFailed r why) (s\<lparr>rs_pending_compaction_turn_id := None, rs_phase := Failed why\<rparr>)"

inductive_cases step_startedE [elim!]: "run_step s (RunStarted e) s'"
inductive_cases step_builtE [elim!]: "run_step s (ContextBuilt r t c) s'"
inductive_cases step_compactedE [elim!]: "run_step s (ContextCompacted r t b a from to) s'"
inductive_cases step_requestedE [elim!]: "run_step s (ModelRequested r t n m) s'"
inductive_cases step_model_failedE [elim!]: "run_step s (ModelFailed r t n why) s'"
inductive_cases step_respondedE [elim!]: "run_step s (ModelResponded r t n out ps served usage) s'"
inductive_cases step_proposedE [elim!]: "run_step s (ToolCallProposed r t call) s'"
inductive_cases step_rejectedE [elim!]: "run_step s (ToolProposalsRejected r t why) s'"
inductive_cases step_policyE [elim!]: "run_step s (PolicyEvaluated r c d) s'"
inductive_cases step_grantedE [elim!]: "run_step s (ApprovalGranted r c a) s'"
inductive_cases step_refusedE [elim!]: "run_step s (HarnessEvent.ApprovalDenied r c a why) s'"
inductive_cases step_tool_startedE [elim!]: "run_step s (ToolStarted r c) s'"
inductive_cases step_tool_finishedE [elim!]: "run_step s (ToolFinished r res) s'"
inductive_cases step_tool_failedE [elim!]: "run_step s (HarnessEvent.ToolFailed r c why) s'"
inductive_cases step_finishedE [elim!]: "run_step s (RunFinished r) s'"
inductive_cases step_failedE [elim!]: "run_step s (RunFailed r why) s'"

section \<open>The machine implements the relation\<close>

lemma start_turn_ok [result_simps]:
  "start_turn s t c = (s', Inr ()) \<longleftrightarrow>
     t \<notin> rs_used_turn_ids s \<and> validate_budget c = Inr () \<and>
     s' = s\<lparr>rs_used_turn_ids := insert t (rs_used_turn_ids s),
            rs_phase := ReadyToRequestModel t (rs_next_model_step s) c\<rparr>"
  by (auto simp: start_turn_def result_simps)

lemma start_turn_err [result_simps]: "start_turn s t c = (s', Inl e) \<Longrightarrow> s' = s"
  by (auto simp: start_turn_def result_simps)

lemma gate_ok_cases:
  "compaction_gate s ev = Inr () \<longleftrightarrow>
     gate_open s \<or> (\<exists>r t c. ev = ContextBuilt r t c \<and> rs_pending_compaction_turn_id s = Some t) \<or>
     (\<exists>r why. ev = RunFailed r why)"
  by (auto simp: compaction_gate_def gate_open_def result_simps split: option.splits HarnessEvent.splits)

lemma transition_sound:
  "compaction_gate s ev = Inr () \<Longrightarrow> transition s ev = (s', Inr ()) \<Longrightarrow> run_step s ev s'"
  by (cases ev)
    (auto simp: result_simps gate_ok_cases gate_open_def
      split: if_splits RunPhase.splits PolicyDecision.splits prod.splits sum.splits
      intro!: run_step.intros)


lemma transition_complete:
  "run_step s ev s' \<Longrightarrow> compaction_gate s ev = Inr () \<and> transition s ev = (s', Inr ())"
  by (induction rule: run_step.induct) (auto simp: result_simps gate_ok_cases gate_open_def start_turn_def ensure_new_turn_def)

lemma apply_event_iff_step: "apply_event s ev = (s', Inr ()) \<longleftrightarrow> run_step s ev s'"
  unfolding apply_event_def
  by (auto simp: result_simps dest: transition_complete intro: transition_sound)

lemma transition_err: "transition s ev = (s', Inl e) \<Longrightarrow> s' = s"
  by (cases ev)
    (auto simp: result_simps split: if_splits RunPhase.splits PolicyDecision.splits prod.splits sum.splits)

lemma apply_event_err: "apply_event s ev = (s', Inl e) \<Longrightarrow> s' = s"
  by (auto simp: apply_event_def result_simps dest: transition_err)

text \<open>
  One accepted record: its sequence number is the expected one, its run matches the bound run,
  its event is a step, and the counter advances by one.
\<close>

lemma run_apply_ok:
  "run_apply s rec = (s', Inr ()) \<longleftrightarrow>
     re_seq rec = rs_next_seq s \<and> rs_run_id s \<in> {None, Some (event_run_id (re_event rec))} \<and>
     (\<exists>u. run_step s (re_event rec) u \<and> s' = u\<lparr>rs_next_seq := rs_next_seq u + 1\<rparr>)"
  unfolding apply_event_iff_step [symmetric]
  by (auto simp: run_apply_def result_simps split: option.splits prod.splits sum.splits)

lemma run_apply_err: "run_apply s rec = (s', Inl e) \<Longrightarrow> s' = s"
  by (auto simp: run_apply_def result_simps split: if_splits option.splits prod.splits sum.splits
      dest: apply_event_err)

lemma run_step_next_seq: "run_step s ev s' \<Longrightarrow> rs_next_seq s' = rs_next_seq s"
  by (induction rule: run_step.induct) auto

text \<open>The run machine provides the interface that replay, readback and recorders rely on.\<close>

interpretation run_machine: ledger_machine RunState_new run_apply re_seq rs_next_seq
  by unfold_locales
    (auto simp: RunState_new_def run_apply_ok run_step_next_seq dest: run_apply_err)

abbreviation run_replay :: "'v RecordedEvent list \<Rightarrow> 'v RunState \<times> (Error, unit) result" where
  "run_replay \<equiv> replay_loop run_apply RunState_new"

section \<open>Well-formed states\<close>

text \<open>The turn a phase works for, the call it works on, and its pending model request.\<close>

fun phase_turn :: "'v RunPhase \<Rightarrow> TurnId option" where
  "phase_turn (ReadyToRequestModel t _ _) = Some t"
| "phase_turn (AwaitingModelResponse t _ _) = Some t"
| "phase_turn (AwaitingToolCall t _) = Some t"
| "phase_turn _ = None"

fun phase_call :: "'v RunPhase \<Rightarrow> ToolCallId option" where
  "phase_call (AwaitingPolicy call) = Some (tc_id call)"
| "phase_call (AwaitingApproval call _) = Some (tc_id call)"
| "phase_call (PolicyDenied c _) = Some c"
| "phase_call (RunPhase.ApprovalDenied c _) = Some c"
| "phase_call (ReadyToExecuteTool call) = Some (tc_id call)"
| "phase_call (ToolRunning c) = Some c"
| "phase_call (RunPhase.ToolFailed c _) = Some c"
| "phase_call _ = None"

fun phase_request :: "'v RunPhase \<Rightarrow> (u32 \<times> ContextPack) option" where
  "phase_request (ReadyToRequestModel _ n c) = Some (n, c)"
| "phase_request (AwaitingModelResponse _ n c) = Some (n, c)"
| "phase_request _ = None"

definition run_wf :: "'v RunState \<Rightarrow> bool" where
  "run_wf s \<longleftrightarrow>
     (rs_run_id s = None \<longleftrightarrow> rs_phase s = NotStarted) \<and>
     (case rs_pending_compaction_turn_id s of
        None \<Rightarrow> True | Some t \<Rightarrow> awaits_context (rs_phase s) \<and> t \<notin> rs_used_turn_ids s) \<and>
     set_option (phase_turn (rs_phase s)) \<subseteq> rs_used_turn_ids s \<and>
     set_option (phase_call (rs_phase s)) \<subseteq> rs_used_tool_call_ids s \<and>
     (case phase_request (rs_phase s) of
        None \<Rightarrow> True | Some (n, c) \<Rightarrow> n = rs_next_model_step s \<and> validate_budget c = Inr ()) \<and>
     (case rs_phase s of AwaitingToolCall _ ps \<Rightarrow> ps \<noteq> [] | _ \<Rightarrow> True) \<and>
     finite (rs_used_turn_ids s) \<and> finite (rs_used_tool_call_ids s)"

lemma run_wf_new: "run_wf RunState_new"
  by (simp add: run_wf_def RunState_new_def)

lemma awaits_context_phase [simp]:
  "awaits_context ph \<Longrightarrow> ph \<noteq> NotStarted"
  "awaits_context ph \<Longrightarrow> phase_turn ph = None"
  "awaits_context ph \<Longrightarrow> phase_request ph = None"
  "awaits_context ph \<Longrightarrow> can_fail ph"
  by (cases ph; simp)+

lemma run_wf_step: "run_step s ev s' \<Longrightarrow> run_wf s \<Longrightarrow> run_wf s'"
  by (induction rule: run_step.induct)
    (auto simp: run_wf_def gate_open_def split: option.splits)

end
