(* ===== verification/Run_History.thy ===== *)
theory Run_History
  imports Run_Spec
begin

text \<open>
  What an accepted ledger says about the past: every state that replays a ledger is well formed,
  the ledger's first event binds the run, turn and call identifiers are never reused, model steps
  count up, and every tool call follows the lifecycle of the abstract automaton \<open>call_step\<close>.
\<close>

section \<open>Observations on a ledger\<close>

abbreviation events :: "'v RecordedEvent list \<Rightarrow> 'v HarnessEvent list" where
  "events rs \<equiv> map re_event rs"

definition built_turns :: "'v HarnessEvent list \<Rightarrow> TurnId list" where
  "built_turns evs = List.map_filter (\<lambda>ev. case ev of ContextBuilt _ t _ \<Rightarrow> Some t | _ \<Rightarrow> None) evs"

definition proposed_calls :: "'v HarnessEvent list \<Rightarrow> 'v ToolCall list" where
  "proposed_calls evs = List.map_filter (\<lambda>ev. case ev of ToolCallProposed _ _ c \<Rightarrow> Some c | _ \<Rightarrow> None) evs"

definition response_steps :: "'v HarnessEvent list \<Rightarrow> u32 list" where
  "response_steps evs =
     List.map_filter (\<lambda>ev. case ev of ModelResponded _ _ n _ _ _ _ \<Rightarrow> Some n | _ \<Rightarrow> None) evs"

definition model_proposals :: "'v HarnessEvent list \<Rightarrow> 'v ToolProposal list" where
  "model_proposals evs =
     concat (map (\<lambda>ev. case ev of ModelResponded _ _ _ _ ps _ _ \<Rightarrow> ps | _ \<Rightarrow> []) evs)"

fun is_run_started :: "'v HarnessEvent \<Rightarrow> bool" where
  "is_run_started (RunStarted _) = True"
| "is_run_started _ = False"

fun is_terminal_phase :: "'v RunPhase \<Rightarrow> bool" where
  "is_terminal_phase Finished = True"
| "is_terminal_phase (Failed _) = True"
| "is_terminal_phase _ = False"

lemma observe_append [simp]:
  "built_turns (xs @ ys) = built_turns xs @ built_turns ys"
  "proposed_calls (xs @ ys) = proposed_calls xs @ proposed_calls ys"
  "response_steps (xs @ ys) = response_steps xs @ response_steps ys"
  "model_proposals (xs @ ys) = model_proposals xs @ model_proposals ys"
  by (simp_all add: built_turns_def proposed_calls_def response_steps_def model_proposals_def
      map_filter_def)

lemma observe_Nil [simp]:
  "built_turns [] = []" "proposed_calls [] = []" "response_steps [] = []" "model_proposals [] = []"
  by (simp_all add: built_turns_def proposed_calls_def response_steps_def model_proposals_def
      map_filter_def)

lemma observe_single:
  "built_turns [ev] = (case ev of ContextBuilt _ t _ \<Rightarrow> [t] | _ \<Rightarrow> [])"
  "proposed_calls [ev] = (case ev of ToolCallProposed _ _ c \<Rightarrow> [c] | _ \<Rightarrow> [])"
  "response_steps [ev] = (case ev of ModelResponded _ _ n _ _ _ _ \<Rightarrow> [n] | _ \<Rightarrow> [])"
  "model_proposals [ev] = (case ev of ModelResponded _ _ _ _ ps _ _ \<Rightarrow> ps | _ \<Rightarrow> [])"
  by (simp_all add: built_turns_def proposed_calls_def response_steps_def model_proposals_def
      map_filter_def split: HarnessEvent.splits)

section \<open>The lifecycle of one tool call\<close>

text \<open>
  The abstract specification of a tool call: proposed once, decided by policy, possibly held for
  an approval, executed at most once and settled at most once. An event about the call that has
  no transition from the current stage is a violation (\<open>None\<close>).
\<close>

datatype CallStage = Unseen | Proposed | Held | Permitted | Running | Settled

fun call_step :: "CallStage \<Rightarrow> 'v HarnessEvent \<Rightarrow> CallStage option" where
  "call_step Unseen ev = (case ev of ToolCallProposed _ _ _ \<Rightarrow> Some Proposed | _ \<Rightarrow> None)"
| "call_step Proposed ev =
     (case ev of
        PolicyEvaluated _ _ d \<Rightarrow>
          Some (case d of Allow \<Rightarrow> Permitted | RequireApproval _ \<Rightarrow> Held | Deny _ \<Rightarrow> Settled)
      | _ \<Rightarrow> None)"
| "call_step Held ev =
     (case ev of
        ApprovalGranted _ _ _ \<Rightarrow> Some Permitted
      | HarnessEvent.ApprovalDenied _ _ _ _ \<Rightarrow> Some Settled
      | _ \<Rightarrow> None)"
| "call_step Permitted ev = (case ev of ToolStarted _ _ \<Rightarrow> Some Running | _ \<Rightarrow> None)"
| "call_step Running ev =
     (case ev of
        ToolFinished _ _ \<Rightarrow> Some Settled
      | HarnessEvent.ToolFailed _ _ _ \<Rightarrow> Some Settled
      | _ \<Rightarrow> None)"
| "call_step Settled ev = None"

fun call_run :: "CallStage \<Rightarrow> 'v HarnessEvent list \<Rightarrow> CallStage option" where
  "call_run st [] = Some st"
| "call_run st (ev # evs) = Option.bind (call_step st ev) (\<lambda>st'. call_run st' evs)"

fun event_call :: "'v HarnessEvent \<Rightarrow> ToolCallId option" where
  "event_call (ToolCallProposed _ _ call) = Some (tc_id call)"
| "event_call (PolicyEvaluated _ c _) = Some c"
| "event_call (ApprovalGranted _ c _) = Some c"
| "event_call (HarnessEvent.ApprovalDenied _ c _ _) = Some c"
| "event_call (ToolStarted _ c) = Some c"
| "event_call (ToolFinished _ res) = Some (tr_call_id res)"
| "event_call (HarnessEvent.ToolFailed _ c _) = Some c"
| "event_call _ = None"

definition call_history :: "ToolCallId \<Rightarrow> 'v HarnessEvent list \<Rightarrow> 'v HarnessEvent list" where
  "call_history c evs = filter (\<lambda>ev. event_call ev = Some c) evs"

text \<open>The stage a non-terminal machine state assigns to a call.\<close>

fun phase_stage :: "'v RunPhase \<Rightarrow> CallStage" where
  "phase_stage (AwaitingPolicy _) = Proposed"
| "phase_stage (AwaitingApproval _ _) = Held"
| "phase_stage (ReadyToExecuteTool _) = Permitted"
| "phase_stage (ToolRunning _) = Running"
| "phase_stage _ = Settled"

definition stage_of :: "'v RunState \<Rightarrow> ToolCallId \<Rightarrow> CallStage" where
  "stage_of s c =
     (if c \<notin> rs_used_tool_call_ids s then Unseen
      else if phase_call (rs_phase s) = Some c then phase_stage (rs_phase s)
      else Settled)"

lemma call_run_append: "call_run st (xs @ ys) = Option.bind (call_run st xs) (\<lambda>st'. call_run st' ys)"
  by (induction xs arbitrary: st) (auto simp: bind_assoc split: bind_splits)

lemma call_run_snoc [simp]:
  "call_run st (xs @ [ev]) = Option.bind (call_run st xs) (\<lambda>st'. call_step st' ev)"
  by (simp add: call_run_append)

lemma call_history_snoc:
  "call_history c (evs @ [ev]) = call_history c evs @ (if event_call ev = Some c then [ev] else [])"
  by (simp add: call_history_def)

text \<open>One machine step is one step of the automaton of the call it is about.\<close>

lemma stage_step_same:
  "run_step s ev s' \<Longrightarrow> run_wf s \<Longrightarrow> event_call ev = Some c \<Longrightarrow>
     call_step (stage_of s c) ev = Some (stage_of s' c)"
  by (induction rule: run_step.induct) (auto simp: stage_of_def run_wf_def)

lemma stage_step_other:
  "run_step s ev s' \<Longrightarrow> run_wf s \<Longrightarrow> event_call ev \<noteq> Some c \<Longrightarrow> \<not> is_terminal_phase (rs_phase s') \<Longrightarrow>
     stage_of s' c = stage_of s c"
  by (induction rule: run_step.induct) (auto simp: stage_of_def run_wf_def elim!: awaits_context.elims)


section \<open>Invariants over histories\<close>

lemma run_wf_next_seq [simp]: "run_wf (s\<lparr>rs_next_seq := n\<rparr>) = run_wf s"
  by (simp add: run_wf_def cong: option.case_cong prod.case_cong)

lemma run_wf_apply: "run_apply s rec = (s', Inr ()) \<Longrightarrow> run_wf s \<Longrightarrow> run_wf s'"
  by (auto simp: run_apply_ok dest: run_wf_step)

lemma replay_wf: "run_replay rs = (s, Inr ()) \<Longrightarrow> run_wf s"
  by (erule replay_history_induct) (auto intro: run_wf_new run_wf_apply)

lemma stage_of_next_seq [simp]: "stage_of (s\<lparr>rs_next_seq := n\<rparr>) c = stage_of s c"
  by (simp add: stage_of_def)

text \<open>An induction rule for facts about the events of an accepted ledger.\<close>

lemma replay_event_induct [consumes 1, case_names start step]:
  assumes "run_replay rs = (s, Inr ())"
    and start: "P [] RunState_new"
    and step: "\<And>evs u ev t n. P evs u \<Longrightarrow> run_wf u \<Longrightarrow> rs_run_id u \<in> {None, Some (event_run_id ev)} \<Longrightarrow>
                 run_step u ev t \<Longrightarrow> P (evs @ [ev]) (t\<lparr>rs_next_seq := n\<rparr>)"
  shows "P (events rs) s"
  using assms(1)
proof (rule replay_history_induct [where P = "\<lambda>rs s. P (events rs) s"])
  show "P (events []) RunState_new"
    using start by simp
next
  fix xs u r t
  assume "run_replay xs = (u, Inr ())" and "P (events xs) u" and "run_apply u r = (t, Inr ())"
  then show "P (events (xs @ [r])) t"
    using step [of "events xs" u "re_event r"] by (auto simp: run_apply_ok dest: replay_wf)
qed

lemma terminal_no_step: "run_step s ev s' \<Longrightarrow> is_terminal_phase (rs_phase s) \<Longrightarrow> False"
  by (induction rule: run_step.induct) (auto elim!: awaits_context.elims can_fail.elims)

lemma replay_stage:
  assumes "run_replay rs = (s, Inr ())"
  shows "\<exists>st. call_run Unseen (call_history c (events rs)) = Some st \<and>
           (is_terminal_phase (rs_phase s) \<or> st = stage_of s c)"
  using assms
proof (induction rule: replay_event_induct)
  case start
  then show ?case
    by (simp add: call_history_def stage_of_def RunState_new_def)
next
  case (step evs u ev t n)
  then obtain st where st: "call_run Unseen (call_history c evs) = Some st"
    and cur: "st = stage_of u c"
    using terminal_no_step by blast
  show ?case
  proof (cases "event_call ev = Some c")
    case True
    with step st cur show ?thesis
      by (auto simp: call_history_snoc dest: stage_step_same)
  next
    case False
    with step st cur show ?thesis
      by (auto simp: call_history_snoc dest: stage_step_other)
  qed
qed

lemma step_keeps_binding:
  "run_step s ev s' \<Longrightarrow> rs_phase s \<noteq> NotStarted \<Longrightarrow> \<not> is_run_started ev \<and> rs_run_id s' = rs_run_id s"
  by (induction rule: run_step.induct) auto

lemma replay_run_binding:
  assumes "run_replay rs = (s, Inr ())"
  shows "case events rs of
           [] \<Rightarrow> s = RunState_new
         | ev # evs \<Rightarrow> is_run_started ev \<and> rs_run_id s = Some (event_run_id ev) \<and>
             (\<forall>e\<in>set evs. \<not> is_run_started e \<and> event_run_id e = event_run_id ev)"
  using assms
proof (induction rule: replay_event_induct)
  case (step evs u ev t n)
  show ?case
  proof (cases evs)
    case Nil
    with step have "u = RunState_new" by simp
    with step.hyps Nil show ?thesis
      by (cases ev) (auto simp: RunState_new_def gate_open_def)
  next
    case (Cons e es)
    with step have id: "rs_run_id u = Some (event_run_id e)" and ev: "event_run_id ev = event_run_id e"
      by auto
    then have "rs_phase u \<noteq> NotStarted"
      using step.hyps by (auto simp: run_wf_def)
    then have "\<not> is_run_started ev \<and> rs_run_id t = rs_run_id u"
      using step.hyps(3) by (auto dest: step_keeps_binding)
    with step.IH Cons id ev show ?thesis by auto
  qed
qed simp

lemma replay_turns:
  "run_replay rs = (s, Inr ()) \<Longrightarrow>
     distinct (built_turns (events rs)) \<and> set (built_turns (events rs)) = rs_used_turn_ids s"
proof (induction rule: replay_event_induct)
  case (step evs u ev t n)
  from step.hyps(3) step.IH show ?case
    by (induction rule: run_step.induct) (auto simp: observe_single)
qed (simp add: RunState_new_def)

lemma replay_calls:
  "run_replay rs = (s, Inr ()) \<Longrightarrow>
     distinct (map tc_id (proposed_calls (events rs))) \<and>
     tc_id ` set (proposed_calls (events rs)) = rs_used_tool_call_ids s"
proof (induction rule: replay_event_induct)
  case (step evs u ev t n)
  from step.hyps(3) step.IH show ?case
    by (induction rule: run_step.induct) (auto simp: observe_single)
qed (simp add: RunState_new_def)

lemma replay_steps:
  "run_replay rs = (s, Inr ()) \<Longrightarrow>
     response_steps (events rs) = map of_nat [0..<length (response_steps (events rs))] \<and>
     rs_next_model_step s = of_nat (length (response_steps (events rs)))"
proof (induction rule: replay_event_induct)
  case (step evs u ev t n)
  from step.hyps(3,1) step.IH show ?case
    by (induction rule: run_step.induct) (auto simp: observe_single run_wf_def)
qed (simp add: RunState_new_def)

text \<open>Every validated call repeats the tool and the input of a proposal a model made before.\<close>

lemma replay_proposals:
  "run_replay rs = (s, Inr ()) \<Longrightarrow>
     (\<forall>call\<in>set (proposed_calls (events rs)). \<exists>p\<in>set (model_proposals (events rs)).
        tp_tool p = tc_tool call \<and> tp_input p = tc_input call) \<and>
     (case rs_phase s of
        AwaitingToolCall _ ps \<Rightarrow> set ps \<subseteq> set (model_proposals (events rs)) | _ \<Rightarrow> True)"
proof (induction rule: replay_event_induct)
  case (step evs u ev t n)
  from step.hyps(3) step.IH show ?case
    by (induction rule: run_step.induct) (auto simp: observe_single split: RunPhase.splits)
qed (simp add: RunState_new_def)

end
