(* ===== verification/Ledger_Records.thy ===== *)
theory Ledger_Records
  imports Run_History Voice_Stream
begin

text \<open>
  The server's ledger layer over the run machine: versions and identities (\<open>ledger/types.rs\<close>),
  recording the next event (\<open>ledger/recorder.rs\<close>), replaying records and projecting a session's
  status (\<open>ledger/replay.rs\<close>).
\<close>

section \<open>Versions and identities\<close>

definition LEGACY_LEDGER_VERSION :: u32 where "LEGACY_LEDGER_VERSION = 1"
definition LEDGER_VERSION :: u32 where "LEDGER_VERSION = 2"

definition supported_ledger_version :: "u32 \<Rightarrow> bool" where
  "supported_ledger_version v \<longleftrightarrow> v = LEGACY_LEDGER_VERSION \<or> v = LEDGER_VERSION"

definition validate_ledger_identity :: "u32 \<Rightarrow> 'v HarnessEvent \<Rightarrow> (AppError, unit) result" where
  "validate_ledger_identity version ev =
     (case ev of
        RunStarted e \<Rightarrow>
          (case rse_identity e of
             Profile _ revision \<Rightarrow>
               if revision = 0 then Inl (Config (lit ''ledger profile identity requires a positive revision''))
               else if version = LEGACY_LEDGER_VERSION
               then Inl (Config (lit ''ledger v1 run_started requires legacy agent identity''))
               else Inr ()
           | LegacyAgent _ \<Rightarrow> Inr ())
      | _ \<Rightarrow> Inr ())"

record 'v LedgerLine =
  ll_v :: u32
  ll_record :: "'v RecordedEvent"

section \<open>Recording and replaying\<close>

text \<open>\<open>now\<close> is the host clock in milliseconds, \<open>now_ms()\<close>.\<close>

definition RUN_CANCELED_REASON :: rstr where
  "RUN_CANCELED_REASON = lit ''run canceled''"

definition next_record ::
  "u64 \<Rightarrow> 'v RunState \<Rightarrow> 'v HarnessEvent \<Rightarrow> 'v RunState \<times> (AppError, 'v RecordedEvent) result" where
  "next_record now s ev =
     (let rec = \<lparr>re_seq = rs_next_seq s, re_occurred_at_ms = now, re_event = ev\<rparr>
      in case run_apply s rec of
           (s', Inl e) \<Rightarrow> (s', Inl (Core e))
         | (s', Inr _) \<Rightarrow> (s', Inr rec))"

definition replay_records :: "'v RecordedEvent list \<Rightarrow> (AppError, 'v RunState) result" where
  "replay_records records =
     (case run_replay records of (s, Inl e) \<Rightarrow> Inl (Core e) | (s, Inr _) \<Rightarrow> Inr s)"

definition validate_record_run_ids :: "'v RecordedEvent list \<Rightarrow> rstr \<Rightarrow> (AppError, unit) result" where
  "validate_record_run_ids records selected =
     for_each (\<lambda>rec.
       let actual = run_id_str (event_run_id (re_event rec))
       in if actual \<noteq> selected then Inl (Core (RunIdMismatch selected actual)) else Inr ()) records"

text \<open>The events a session recorder only accepts together with a session outcome.\<close>

fun is_terminal_event :: "'v HarnessEvent \<Rightarrow> bool" where
  "is_terminal_event (RunFinished _) = True"
| "is_terminal_event (RunFailed _ _) = True"
| "is_terminal_event _ = False"

section \<open>Session records and status\<close>

datatype RunStateName = Running | Finished | Failed | Canceled | CancelRequested | Interrupted

fun run_state_str :: "RunStateName \<Rightarrow> string" where
  "run_state_str RunStateName.Running = ''running''"
| "run_state_str RunStateName.Finished = ''finished''"
| "run_state_str RunStateName.Failed = ''failed''"
| "run_state_str RunStateName.Canceled = ''canceled''"
| "run_state_str RunStateName.CancelRequested = ''cancel_requested''"
| "run_state_str RunStateName.Interrupted = ''interrupted''"

record SessionTurn =
  st_question :: rstr
  st_final_answer :: rstr

record 'v SessionRunRecords =
  srr_run_id :: rstr
  srr_session_index :: u64
  srr_question :: rstr
  srr_status :: RunStateName
  srr_final_answer :: "rstr option"
  srr_records :: "'v RecordedEvent list"

record 'v SessionRecords =
  ss_session_id :: rstr
  ss_runs :: "'v SessionRunRecords list"

record PersistedTokenUsage =
  pu_input_tokens :: u64
  pu_output_tokens :: u64
  pu_unknown_response_count :: u64

record PersistedSessionStatus =
  ps_session_id :: rstr
  ps_latest_run_id :: rstr
  ps_human_turn_count :: u64
  ps_core_event_count :: u64
  ps_served_model :: "rstr option"
  ps_last_run_usage :: PersistedTokenUsage
  ps_session_usage :: PersistedTokenUsage
  ps_approval_granted_count :: u64
  ps_approval_denied_count :: u64

definition usage_default :: PersistedTokenUsage where
  "usage_default = \<lparr>pu_input_tokens = 0, pu_output_tokens = 0, pu_unknown_response_count = 0\<rparr>"

definition observe_usage :: "PersistedTokenUsage \<Rightarrow> ModelUsage option \<Rightarrow> PersistedTokenUsage" where
  "observe_usage agg usage =
     (case usage of
        Some u \<Rightarrow> agg\<lparr>pu_input_tokens := pu_input_tokens agg + ucast (mu_input_tokens u),
                     pu_output_tokens := pu_output_tokens agg + ucast (mu_output_tokens u)\<rparr>
      | None \<Rightarrow> agg\<lparr>pu_unknown_response_count := pu_unknown_response_count agg + 1\<rparr>)"

definition observe_record ::
  "bool \<Rightarrow> PersistedSessionStatus \<Rightarrow> 'v RecordedEvent \<Rightarrow> PersistedSessionStatus" where
  "observe_record is_latest st rec =
     (case re_event rec of
        ModelResponded _ _ _ _ _ served usage \<Rightarrow>
          let st = st\<lparr>ps_served_model := map_option model_name_str served,
                      ps_session_usage := observe_usage (ps_session_usage st) usage\<rparr>
          in if is_latest then st\<lparr>ps_last_run_usage := observe_usage (ps_last_run_usage st) usage\<rparr> else st
      | HarnessEvent.ApprovalGranted _ _ _ \<Rightarrow>
          st\<lparr>ps_approval_granted_count := ps_approval_granted_count st + 1\<rparr>
      | HarnessEvent.ApprovalDenied _ _ _ _ \<Rightarrow>
          st\<lparr>ps_approval_denied_count := ps_approval_denied_count st + 1\<rparr>
      | _ \<Rightarrow> st)"

definition observe_run ::
  "rstr \<Rightarrow> PersistedSessionStatus \<Rightarrow> 'v SessionRunRecords \<Rightarrow> PersistedSessionStatus" where
  "observe_run latest_run_id st run =
     foldl (observe_record (srr_run_id run = latest_run_id))
       (st\<lparr>ps_core_event_count := ps_core_event_count st + of_nat (length (srr_records run))\<rparr>)
       (srr_records run)"

definition project_session_status ::
  "'v SessionRecords \<Rightarrow> (AppError, PersistedSessionStatus) result" where
  "project_session_status session =
     (if ss_runs session = [] then Inl (SessionNotFound (ss_session_id session))
      else
        let latest = last (ss_runs session);
            st = \<lparr>ps_session_id = ss_session_id session, ps_latest_run_id = srr_run_id latest,
                  ps_human_turn_count = of_nat (length (ss_runs session)), ps_core_event_count = 0,
                  ps_served_model = None, ps_last_run_usage = usage_default,
                  ps_session_usage = usage_default, ps_approval_granted_count = 0,
                  ps_approval_denied_count = 0\<rparr>
        in Inr (foldl (observe_run (srr_run_id latest)) st (ss_runs session)))"

section \<open>Lemmas\<close>

lemma replay_records_ok [result_simps]: "replay_records rs = Inr s \<longleftrightarrow> run_replay rs = (s, Inr ())"
  by (auto simp: replay_records_def split: prod.splits sum.splits)

lemma next_record_ok:
  "next_record now s ev = (s', Inr rec) \<longleftrightarrow>
     rec = \<lparr>re_seq = rs_next_seq s, re_occurred_at_ms = now, re_event = ev\<rparr> \<and> run_apply s rec = (s', Inr ())"
  by (auto simp: next_record_def Let_def split: prod.splits sum.splits)

lemma next_record_err: "next_record now s ev = (s', Inl e) \<Longrightarrow> s' = s"
  by (auto simp: next_record_def Let_def split: prod.splits sum.splits dest: run_apply_err)

text \<open>Recording extends a replayed ledger by exactly the returned record.\<close>

lemma next_record_extends:
  assumes "run_replay rs = (s, Inr ())" and "next_record now s ev = (s', Inr rec)"
  shows "run_replay (rs @ [rec]) = (s', Inr ()) \<and> re_event rec = ev \<and> re_seq rec = of_nat (length rs)"
  using assms by (auto simp: next_record_ok replay_loop_snoc_ok run_machine.replay_next_seq)

lemma validate_record_run_ids_ok:
  "validate_record_run_ids rs r = Inr () \<longleftrightarrow> (\<forall>rec\<in>set rs. event_run_id (re_event rec) = RunId r)"
proof -
  have "run_id_str i = r \<longleftrightarrow> i = RunId r" for i
    by (cases i) auto
  then show ?thesis
    by (auto simp: validate_record_run_ids_def result_simps Let_def)
qed

lemma replay_record_run_ids:
  assumes "run_replay rs = (s, Inr ())" and "rs_run_id s = Some r"
  shows "validate_record_run_ids rs (run_id_str r) = Inr ()"
  using replay_run_binding [OF assms(1)] assms(2)
  by (cases rs) (auto simp: validate_record_run_ids_ok RunState_new_def)

lemma run_state_str_inj: "run_state_str a = run_state_str b \<Longrightarrow> a = b"
  by (cases a; cases b) auto

end
