(* ===== verification/Run_Loop.thy ===== *)
theory Run_Loop
  imports File_Tools Tool_Output Provider_Stream Ledger_Records
begin

text \<open>
  The driver of one run (\<open>app/run_loop.rs\<close> and \<open>app/tool_exec.rs\<close>): it asks the provider for a
  response, records it, proposes the first tool call of the response, evaluates its policy, obtains
  an approval where one is needed, runs the tool and feeds the result back, for at most
  \<open>max_turns\<close> turns. The provider, the tools, the approval channels, the desktop handler and the
  cancellation flag belong to the host: each is a function on a world of arbitrary type, so the
  theorems hold for every behaviour of theirs. The recorder is any implementation of
  \<open>RunEventRecorder\<close>.
\<close>

section \<open>The host and the recorder\<close>

datatype ModelRole = RoleUser | RoleAssistant | RoleTool

record 'v ModelMessage =
  mm_role :: ModelRole
  mm_content :: "'v ModelBlock list"

datatype ApprovalMode = Prompt | AutoApprove | DenyMode rstr | External

datatype ApprovalOutcome = Granted | Denied rstr

datatype ExternalApprovalOutcome = ExternalGranted rstr | ExternalDenied rstr rstr

record ('w, 'v) Host =
  h_cancel_requested :: "'w \<Rightarrow> 'w \<times> bool"
  h_send :: "'v ModelMessage list \<Rightarrow> nat \<Rightarrow> 'w \<Rightarrow> 'w \<times> (AppError, 'v ModelResponse) result"
  h_retry_polls :: "int \<Rightarrow> 'w \<Rightarrow> 'w \<times> nat"
  h_context :: "'v ModelMessage list \<Rightarrow> nat \<Rightarrow> (AppError, ContextPack) result"
  h_execute :: "'v ToolCall \<Rightarrow> rstr option \<Rightarrow> 'w \<Rightarrow> 'w \<times> (AppError, 'v ToolResult) result"
  h_preview :: "'v ToolCall \<Rightarrow> 'w \<Rightarrow> 'w \<times> (AppError, rstr option) result"
  h_decide :: "'v ToolCall \<Rightarrow> rstr \<Rightarrow> rstr option \<Rightarrow> bool \<Rightarrow> 'w \<Rightarrow> 'w \<times> (AppError, ExternalApprovalOutcome) result"
  h_ask :: "'v ToolCall \<Rightarrow> rstr option \<Rightarrow> 'w \<Rightarrow> 'w \<times> (AppError, ApprovalOutcome) result"
  h_computer_new :: "'w \<Rightarrow> 'w \<times> (AppError, unit) result"
  h_computer_policy :: "'v ToolCall \<Rightarrow> 'w \<Rightarrow> 'w \<times> PolicyDecision"
  h_computer_granted :: "'v ToolCall \<Rightarrow> 'w \<Rightarrow> 'w \<times> (AppError, unit) result"
  h_computer_denied :: "'w \<Rightarrow> 'w \<times> unit"
  h_computer_cleanup :: "'w \<Rightarrow> 'w \<times> (AppError, unit) result"
  h_to_string :: "'v \<Rightarrow> (AppError, rstr) result"
  h_path_field :: "'v \<Rightarrow> rstr option"
  h_exit_code_failed :: "'v \<Rightarrow> bool"
  h_status_field :: "'v \<Rightarrow> rstr option"
  h_display :: "AppError \<Rightarrow> rstr"

record ('r, 'v) RunEventRecorder =
  rr_record :: "'r \<Rightarrow> 'v HarnessEvent \<Rightarrow> 'r \<times> (AppError, 'v RecordedEvent) result"
  rr_finish_run :: "'r \<Rightarrow> RunId \<Rightarrow> rstr \<Rightarrow> 'r \<times> (AppError, 'v RecordedEvent) result"
  rr_fail_run :: "'r \<Rightarrow> RunId \<Rightarrow> rstr \<Rightarrow> bool \<Rightarrow> 'r \<times> (AppError, 'v RecordedEvent) result"

text \<open>
  What a run does outside itself, in order: the records its recorder acknowledges, which it sends to
  its event channel where it has one, and the tool calls it executes, with the actor that approved
  them.
\<close>

datatype 'v RunEffect = Ledger "'v RecordedEvent" | Executed "'v ToolCall" "rstr option"

record ('w, 'r, 'v) Driver =
  dr_world :: 'w
  dr_recorder :: 'r
  dr_effects :: "'v RunEffect list"

record RunSetup =
  su_run_id :: RunId
  su_identity :: RunIdentity
  su_model :: ModelName
  su_max_turns :: u32
  su_enabled :: "rstr list"
  su_workspace_root :: rstr
  su_approval_mode :: ApprovalMode
  su_hydration :: "(u32 \<times> u32 \<times> u64) option"

section \<open>Programs over the driver's state\<close>

text \<open>A step returns a value, returns an error, or panics.\<close>

datatype Abort = Err AppError | Panic

type_synonym ('w, 'r, 'v, 'a) prog = "('w, 'r, 'v) Driver \<Rightarrow> ('w, 'r, 'v) Driver \<times> (Abort, 'a) result"

definition bind_prog :: "('w, 'r, 'v, 'a) prog \<Rightarrow> ('a \<Rightarrow> ('w, 'r, 'v, 'b) prog) \<Rightarrow> ('w, 'r, 'v, 'b) prog" where
  "bind_prog m f d = (case m d of (d', Inl e) \<Rightarrow> (d', Inl e) | (d', Inr x) \<Rightarrow> f x d')"

definition ok_prog :: "'a \<Rightarrow> ('w, 'r, 'v, 'a) prog" where
  "ok_prog x d = (d, Inr x)"

definition err_prog :: "AppError \<Rightarrow> ('w, 'r, 'v, 'a) prog" where
  "err_prog e d = (d, Inl (Err e))"

definition panic_prog :: "('w, 'r, 'v, 'a) prog" where
  "panic_prog d = (d, Inl Panic)"

definition app_prog :: "(AppError, 'a) result \<Rightarrow> ('w, 'r, 'v, 'a) prog" where
  "app_prog r = (case r of Inl e \<Rightarrow> err_prog e | Inr x \<Rightarrow> ok_prog x)"

definition core_prog :: "(Error, 'a) result \<Rightarrow> ('w, 'r, 'v, 'a) prog" where
  "core_prog r = (case r of Inl e \<Rightarrow> err_prog (Core e) | Inr x \<Rightarrow> ok_prog x)"

definition host :: "('w \<Rightarrow> 'w \<times> 'a) \<Rightarrow> ('w, 'r, 'v, 'a) prog" where
  "host f d = (case f (dr_world d) of (w, x) \<Rightarrow> (d\<lparr>dr_world := w\<rparr>, Inr x))"

abbreviation host_result :: "('w \<Rightarrow> 'w \<times> (AppError, 'a) result) \<Rightarrow> ('w, 'r, 'v, 'a) prog" where
  "host_result f \<equiv> bind_prog (host f) app_prog"

section \<open>Recording\<close>

text \<open>\<open>emit_ledger_record\<close> sends the acknowledged record to the event channel.\<close>

definition acknowledged ::
  "('r \<Rightarrow> 'r \<times> (AppError, 'v RecordedEvent) result) \<Rightarrow> ('w, 'r, 'v, 'v RecordedEvent) prog" where
  "acknowledged f d =
     (case f (dr_recorder d) of
        (r, Inl e) \<Rightarrow> (d\<lparr>dr_recorder := r\<rparr>, Inl (Err e))
      | (r, Inr rec) \<Rightarrow> (d\<lparr>dr_recorder := r, dr_effects := dr_effects d @ [Ledger rec]\<rparr>, Inr rec))"

definition record_event ::
  "('r, 'v) RunEventRecorder \<Rightarrow> 'v HarnessEvent \<Rightarrow> ('w, 'r, 'v, 'v RecordedEvent) prog" where
  "record_event ops ev = acknowledged (\<lambda>r. rr_record ops r ev)"

definition record_terminal_failure ::
  "('r, 'v) RunEventRecorder \<Rightarrow> RunId \<Rightarrow> rstr \<Rightarrow> bool \<Rightarrow> ('w, 'r, 'v, 'v RecordedEvent) prog" where
  "record_terminal_failure ops run_id reason canceled = acknowledged (\<lambda>r. rr_fail_run ops r run_id reason canceled)"

definition computer_tool :: "'v ToolCall \<Rightarrow> bool" where
  "computer_tool call \<longleftrightarrow> tool_name_str (tc_tool call) \<in> {lit ''computer.windows'', lit ''computer.observe''}"

definition cleanup_computer :: "('w, 'v) Host \<Rightarrow> bool \<Rightarrow> ('w, 'r, 'v, (AppError, unit) result) prog" where
  "cleanup_computer h computer = (if computer then host (h_computer_cleanup h) else ok_prog (Inr ()))"

definition record_terminal_success_with_computer ::
  "('w, 'v) Host \<Rightarrow> ('r, 'v) RunEventRecorder \<Rightarrow> RunId \<Rightarrow> bool \<Rightarrow> rstr \<Rightarrow> ('w, 'r, 'v, 'v RecordedEvent) prog" where
  "record_terminal_success_with_computer h ops run_id computer final_answer =
     bind_prog (cleanup_computer h computer) (\<lambda>cleaned.
       case cleaned of
         Inl error \<Rightarrow>
           bind_prog (record_terminal_failure ops run_id (h_display h error) False) (\<lambda>_. err_prog error)
       | Inr _ \<Rightarrow> acknowledged (\<lambda>r. rr_finish_run ops r run_id final_answer))"

definition record_terminal_failure_with_computer ::
  "('w, 'v) Host \<Rightarrow> ('r, 'v) RunEventRecorder \<Rightarrow> RunId \<Rightarrow> bool \<Rightarrow> rstr \<Rightarrow> bool \<Rightarrow> ('w, 'r, 'v, 'v RecordedEvent) prog" where
  "record_terminal_failure_with_computer h ops run_id computer reason canceled =
     bind_prog (cleanup_computer h computer) (\<lambda>cleaned.
       bind_prog
         (record_terminal_failure ops run_id
            (case cleaned of Inl error \<Rightarrow> h_display h error | Inr _ \<Rightarrow> reason)
            (canceled \<and> is_ok cleaned))
         (\<lambda>rec. case cleaned of Inl error \<Rightarrow> err_prog error | Inr _ \<Rightarrow> ok_prog rec))"

definition run_error :: "rstr \<Rightarrow> bool \<Rightarrow> AppError" where
  "run_error reason canceled = (if canceled then RunCanceled else RunFailedError reason)"

definition fail_run :: "('r, 'v) RunEventRecorder \<Rightarrow> RunId \<Rightarrow> rstr \<Rightarrow> bool \<Rightarrow> ('w, 'r, 'v, 'a) prog" where
  "fail_run ops run_id reason canceled =
     bind_prog (record_terminal_failure ops run_id reason canceled) (\<lambda>_. err_prog (run_error reason canceled))"

definition fail_run_with_computer ::
  "('w, 'v) Host \<Rightarrow> ('r, 'v) RunEventRecorder \<Rightarrow> RunId \<Rightarrow> bool \<Rightarrow> rstr \<Rightarrow> bool \<Rightarrow> ('w, 'r, 'v, 'a) prog" where
  "fail_run_with_computer h ops run_id computer reason canceled =
     bind_prog (record_terminal_failure_with_computer h ops run_id computer reason canceled)
       (\<lambda>_. err_prog (run_error reason canceled))"

definition check_cancel :: "('w, 'v) Host \<Rightarrow> ('r, 'v) RunEventRecorder \<Rightarrow> RunId \<Rightarrow> ('w, 'r, 'v, unit) prog" where
  "check_cancel h ops run_id =
     bind_prog (host (h_cancel_requested h)) (\<lambda>canceled.
       if canceled then fail_run ops run_id RUN_CANCELED_REASON True else ok_prog ())"

definition check_cancel_with_computer ::
  "('w, 'v) Host \<Rightarrow> ('r, 'v) RunEventRecorder \<Rightarrow> RunId \<Rightarrow> bool \<Rightarrow> ('w, 'r, 'v, unit) prog" where
  "check_cancel_with_computer h ops run_id computer =
     bind_prog (host (h_cancel_requested h)) (\<lambda>canceled.
       if canceled then fail_run_with_computer h ops run_id computer RUN_CANCELED_REASON True else ok_prog ())"

definition record_context_built ::
  "('w, 'v) Host \<Rightarrow> ('r, 'v) RunEventRecorder \<Rightarrow> RunId \<Rightarrow> bool \<Rightarrow> TurnId \<Rightarrow> ContextPack \<Rightarrow> ('w, 'r, 'v, unit) prog" where
  "record_context_built h ops run_id computer turn_id context d =
     (case record_event ops (ContextBuilt run_id turn_id context) d of
        (d', Inr _) \<Rightarrow> (d', Inr ())
      | (d', Inl (Err (Core (ContextBudgetExceeded used budget)))) \<Rightarrow>
          bind_prog
            (record_terminal_failure_with_computer h ops run_id computer
               (h_display h (Core (ContextBudgetExceeded used budget))) False)
            (\<lambda>_. err_prog (Core (ContextBudgetExceeded used budget))) d'
      | (d', Inl error) \<Rightarrow> (d', Inl error))"

section \<open>The model's response\<close>

fun block_text :: "'v ModelBlock \<Rightarrow> rstr option" where
  "block_text (TextBlock t) = Some t"
| "block_text _ = None"

fun block_tool_use :: "'v ModelBlock \<Rightarrow> (rstr \<times> rstr \<times> 'v) option" where
  "block_tool_use (ToolUseBlock use_id name input) = Some (use_id, name, input)"
| "block_tool_use _ = None"

definition response_text :: "'v ModelResponse \<Rightarrow> rstr" where
  "response_text response = join [10] (List.map_filter block_text (mr_content response))"

definition tool_uses :: "'v ModelResponse \<Rightarrow> (rstr \<times> rstr \<times> 'v) list" where
  "tool_uses response = List.map_filter block_tool_use (mr_content response)"

definition assistant_blocks :: "'v ModelBlock list \<Rightarrow> 'v ModelMessage" where
  "assistant_blocks content = \<lparr>mm_role = RoleAssistant, mm_content = content\<rparr>"

definition tool_result :: "rstr \<Rightarrow> rstr \<Rightarrow> bool \<Rightarrow> 'v ModelMessage" where
  "tool_result use_id content is_error = \<lparr>mm_role = RoleTool, mm_content = [ToolResultBlock use_id content is_error]\<rparr>"

fun collect_proposals :: "(rstr \<times> rstr \<times> 'v) list \<Rightarrow> (Error, 'v ToolProposal list) result" where
  "collect_proposals [] = Inr []"
| "collect_proposals ((use_id, name, input) # uses) =
     and_then (ToolName_new name) (\<lambda>tool.
     and_then (collect_proposals uses) (\<lambda>ps. Inr (\<lparr>tp_tool = tool, tp_input = input\<rparr> # ps)))"

definition proposals_from_response :: "'v ModelResponse \<Rightarrow> (Error, 'v ToolProposal list) result" where
  "proposals_from_response response = collect_proposals (tool_uses response)"

definition tool_call :: "ToolCallId \<Rightarrow> rstr \<Rightarrow> 'v \<Rightarrow> (Error, 'v ToolCall) result" where
  "tool_call call_id name input =
     and_then (ToolName_new name) (\<lambda>tool.
       Inr \<lparr>tc_id = call_id, tc_tool = tool, tc_effect = effect_for_tool name, tc_input = input\<rparr>)"

definition mint_tool_call_id :: "nat \<Rightarrow> (Error, ToolCallId) result" where
  "mint_tool_call_id step = ToolCallId_new (lit ''call_'' @ decimal (step + 1))"

definition mint_turn_id :: "nat \<Rightarrow> (Error, TurnId) result" where
  "mint_turn_id turn_index = TurnId_new (lit ''turn_'' @ decimal (turn_index + 1))"

definition evaluate_policy :: "rstr list \<Rightarrow> 'v ToolCall \<Rightarrow> PolicyDecision" where
  "evaluate_policy enabled_tools call =
     (let tool = tool_name_str (tc_tool call) in
      if tool \<in> set enabled_tools then
        if tool = lit ''thread.return'' \<or> tool = lit ''thread.answer'' then Allow
        else if tool = lit ''shell.exec'' then RequireApproval (lit ''shell.exec requires explicit local approval'')
        else if tool = lit ''web.fetch'' then RequireApproval (lit ''web.fetch requires explicit local approval'')
        else if computer_tool call then RequireApproval (tool @ lit '' requires explicit local approval'')
        else default_policy (tc_effect call)
      else Deny (lit ''tool is not enabled: '' @ tool))"

section \<open>Executing a tool\<close>

record ToolMessage =
  tm_content :: rstr
  tm_is_error :: bool

definition error_message :: "rstr \<Rightarrow> ToolMessage" where
  "error_message reason = \<lparr>tm_content = reason, tm_is_error = True\<rparr>"

definition tool_result_is_error :: "('w, 'v) Host \<Rightarrow> rstr \<Rightarrow> 'v \<Rightarrow> bool" where
  "tool_result_is_error h name data \<longleftrightarrow>
     name = lit ''shell.exec'' \<and> h_exit_code_failed h data
     \<or> name = lit ''thread.spawn'' \<and> h_status_field h data = Some (lit ''rejected'')
     \<or> is_logical_read_tool name \<and> h_status_field h data = Some (lit ''error'')
     \<or> (name = lit ''thread.return'' \<or> name = lit ''thread.answer'') \<and> h_status_field h data = Some (lit ''rejected'')"

definition execute_tool ::
  "('w, 'v) Host \<Rightarrow> 'v ToolCall \<Rightarrow> rstr option \<Rightarrow> ('w, 'r, 'v, (AppError, 'v ToolResult) result) prog" where
  "execute_tool h call actor d =
     host (h_execute h call actor) (d\<lparr>dr_effects := dr_effects d @ [Executed call actor]\<rparr>)"

definition execute_and_record_tool ::
  "('w, 'v) Host \<Rightarrow> ('r, 'v) RunEventRecorder \<Rightarrow> RunId \<Rightarrow> 'v ToolCall \<Rightarrow> rstr option \<Rightarrow> ('w, 'r, 'v, ToolMessage) prog" where
  "execute_and_record_tool h ops run_id call approving_actor =
     bind_prog (check_cancel h ops run_id) (\<lambda>_.
     bind_prog (record_event ops (ToolStarted run_id (tc_id call))) (\<lambda>_.
     bind_prog (execute_tool h call approving_actor) (\<lambda>outcome.
       case outcome of
         Inr res \<Rightarrow>
           bind_prog (app_prog (h_to_string h (tr_data res))) (\<lambda>content.
           bind_prog (record_event ops (ToolFinished run_id res)) (\<lambda>_.
             ok_prog \<lparr>tm_content = content,
               tm_is_error = tool_result_is_error h (tool_name_str (tc_tool call)) (tr_data res)\<rparr>))
       | Inl error \<Rightarrow>
           bind_prog (record_event ops (HarnessEvent.ToolFailed run_id (tc_id call) (h_display h error))) (\<lambda>_.
             ok_prog (error_message (h_display h error))))))"

section \<open>Approval\<close>

definition auto_grant_actor :: "('w, 'v) Host \<Rightarrow> RunSetup \<Rightarrow> 'v ToolCall \<Rightarrow> PolicyDecision \<Rightarrow> rstr option" where
  "auto_grant_actor h su call policy =
     (if su_approval_mode su = AutoApprove \<and> yolo_eligible (h_path_field h) (su_workspace_root su) call policy
      then Some (lit ''yolo'') else None)"

definition deny_actor :: "ApprovalMode \<Rightarrow> PolicyDecision \<Rightarrow> rstr option" where
  "deny_actor mode policy =
     (case (mode, policy) of (DenyMode actor, RequireApproval _) \<Rightarrow> Some actor | _ \<Rightarrow> None)"

definition grant_computer_approval :: "('w, 'v) Host \<Rightarrow> bool \<Rightarrow> 'v ToolCall \<Rightarrow> ('w, 'r, 'v, unit) prog" where
  "grant_computer_approval h computer call =
     (if computer_tool call
      then if computer then host_result (h_computer_granted h call) else err_prog (ToolError (lit ''computer_disabled''))
      else ok_prog ())"

definition deny_computer_approval :: "('w, 'v) Host \<Rightarrow> bool \<Rightarrow> 'v ToolCall \<Rightarrow> ('w, 'r, 'v, unit) prog" where
  "deny_computer_approval h computer call =
     (if computer_tool call \<and> computer then host (h_computer_denied h) else ok_prog ())"

definition run_approval_preview ::
  "('w, 'v) Host \<Rightarrow> bool \<Rightarrow> 'v ToolCall \<Rightarrow> ('w, 'r, 'v, (AppError, rstr option) result) prog" where
  "run_approval_preview h computer call =
     (if computer_tool call \<and> \<not> computer then ok_prog (Inl (ToolError (lit ''computer_disabled'')))
      else host (h_preview h call))"

definition record_approval_preview_denial ::
  "('w, 'v) Host \<Rightarrow> ('r, 'v) RunEventRecorder \<Rightarrow> RunId \<Rightarrow> ToolCallId \<Rightarrow> AppError \<Rightarrow> ('w, 'r, 'v, ToolMessage) prog" where
  "record_approval_preview_denial h ops run_id call_id error =
     bind_prog (core_prog (ActorId_new (lit ''host-validation''))) (\<lambda>actor.
     bind_prog (record_event ops (HarnessEvent.ApprovalDenied run_id call_id actor (h_display h error))) (\<lambda>_.
       ok_prog (error_message (h_display h error))))"

text \<open>The two ends of an approval: grant and execute, or deny and answer the model.\<close>

definition grant_and_execute ::
  "('w, 'v) Host \<Rightarrow> ('r, 'v) RunEventRecorder \<Rightarrow> RunId \<Rightarrow> bool \<Rightarrow> 'v ToolCall \<Rightarrow> rstr \<Rightarrow> ('w, 'r, 'v, ToolMessage) prog" where
  "grant_and_execute h ops run_id computer call actor =
     bind_prog (grant_computer_approval h computer call) (\<lambda>_.
     bind_prog (core_prog (ActorId_new actor)) (\<lambda>actor_id.
     bind_prog (record_event ops (ApprovalGranted run_id (tc_id call) actor_id)) (\<lambda>_.
       execute_and_record_tool h ops run_id call (Some actor))))"

definition deny_and_answer ::
  "('w, 'v) Host \<Rightarrow> ('r, 'v) RunEventRecorder \<Rightarrow> RunId \<Rightarrow> bool \<Rightarrow> 'v ToolCall \<Rightarrow> rstr \<Rightarrow> rstr \<Rightarrow> ('w, 'r, 'v, ToolMessage) prog" where
  "deny_and_answer h ops run_id computer call actor reason =
     bind_prog (deny_computer_approval h computer call) (\<lambda>_.
     bind_prog (core_prog (ActorId_new actor)) (\<lambda>actor_id.
     bind_prog (record_event ops (HarnessEvent.ApprovalDenied run_id (tc_id call) actor_id reason)) (\<lambda>_.
       ok_prog (error_message reason))))"

definition obtain_approval ::
  "('w, 'v) Host \<Rightarrow> ('r, 'v) RunEventRecorder \<Rightarrow> RunSetup \<Rightarrow> bool \<Rightarrow> 'v ToolCall \<Rightarrow> rstr \<Rightarrow> ('w, 'r, 'v, ToolMessage) prog" where
  "obtain_approval h ops su computer call reason =
     (let run_id = su_run_id su; policy = RequireApproval reason in
      case auto_grant_actor h su call policy of
        Some actor \<Rightarrow> grant_and_execute h ops run_id computer call actor
      | None \<Rightarrow>
        (case deny_actor (su_approval_mode su) policy of
           Some actor \<Rightarrow>
             deny_and_answer h ops run_id computer call actor
               (lit ''approval required but no approval channel is available: '' @ reason)
         | None \<Rightarrow>
             bind_prog (run_approval_preview h computer call) (\<lambda>preview.
               case preview of
                 Inl error \<Rightarrow> record_approval_preview_denial h ops run_id (tc_id call) error
               | Inr approval_preview \<Rightarrow>
                   if su_approval_mode su = External then
                     bind_prog
                       (host_result (h_decide h call reason approval_preview
                          (yolo_eligible (h_path_field h) (su_workspace_root su) call policy)))
                       (\<lambda>outcome. case outcome of
                          ExternalGranted actor \<Rightarrow> grant_and_execute h ops run_id computer call actor
                        | ExternalDenied actor why \<Rightarrow> deny_and_answer h ops run_id computer call actor why)
                   else
                     bind_prog (host_result (h_ask h call approval_preview))
                       (\<lambda>outcome. case outcome of
                          Granted \<Rightarrow> grant_and_execute h ops run_id computer call (lit ''stdin'')
                        | Denied why \<Rightarrow> deny_and_answer h ops run_id computer call (lit ''stdin'') why))))"

definition call_policy ::
  "('w, 'v) Host \<Rightarrow> RunSetup \<Rightarrow> bool \<Rightarrow> 'v ToolCall \<Rightarrow> ('w, 'r, 'v, PolicyDecision) prog" where
  "call_policy h su computer call =
     (let configured = evaluate_policy (su_enabled su) call in
      if computer_tool call \<and> \<not> (case configured of Deny _ \<Rightarrow> True | _ \<Rightarrow> False) \<and> computer
      then host (h_computer_policy h call) else ok_prog configured)"

definition run_tool_call ::
  "('w, 'v) Host \<Rightarrow> ('r, 'v) RunEventRecorder \<Rightarrow> RunSetup \<Rightarrow> bool \<Rightarrow> 'v ToolCall \<Rightarrow> ('w, 'r, 'v, ToolMessage) prog" where
  "run_tool_call h ops su computer call =
     bind_prog (call_policy h su computer call) (\<lambda>policy.
     bind_prog (record_event ops (PolicyEvaluated (su_run_id su) (tc_id call) policy)) (\<lambda>_.
       case policy of
         Allow \<Rightarrow> execute_and_record_tool h ops (su_run_id su) call None
       | RequireApproval reason \<Rightarrow> obtain_approval h ops su computer call reason
       | Deny reason \<Rightarrow> ok_prog (error_message reason)))"

section \<open>One turn\<close>

datatype 'v TurnEnd = NextTurn "'v ModelMessage list" | Answered rstr

definition completion_retry_delay :: "AppError \<Rightarrow> int option" where
  "completion_retry_delay error =
     (case error of
        ProviderCompletionRateLimited (Some (F64 t)) \<Rightarrow>
          if 0 \<le> t then if t \<le> 30 * 2 ^ 1074 then Some t else None else Some (2 ^ 1074)
      | ProviderCompletionRateLimited _ \<Rightarrow> Some (2 ^ 1074)
      | _ \<Rightarrow> None)"

fun wait_for_retry ::
  "('w, 'v) Host \<Rightarrow> ('r, 'v) RunEventRecorder \<Rightarrow> RunId \<Rightarrow> bool \<Rightarrow> nat \<Rightarrow> ('w, 'r, 'v, unit) prog" where
  "wait_for_retry h ops run_id computer 0 = ok_prog ()"
| "wait_for_retry h ops run_id computer (Suc polls) =
     bind_prog (check_cancel_with_computer h ops run_id computer)
       (\<lambda>_. wait_for_retry h ops run_id computer polls)"

definition begin_turn ::
  "('w, 'v) Host \<Rightarrow> ('r, 'v) RunEventRecorder \<Rightarrow> RunSetup \<Rightarrow> bool \<Rightarrow> nat \<Rightarrow> 'v ModelMessage list \<Rightarrow> ('w, 'r, 'v, TurnId) prog" where
  "begin_turn h ops su computer turn_index messages =
     (let run_id = su_run_id su in
      bind_prog (core_prog (mint_turn_id turn_index)) (\<lambda>turn_id.
      bind_prog (app_prog (h_context h messages turn_index)) (\<lambda>context.
      bind_prog (check_cancel_with_computer h ops run_id computer) (\<lambda>_.
      bind_prog
        (case su_hydration su of
           Some (before, after, dropped_turns) \<Rightarrow>
             if turn_index = 0 \<and> dropped_turns > 0
             then bind_prog (record_event ops (ContextCompacted run_id turn_id before after 0 dropped_turns))
                    (\<lambda>_. ok_prog ())
             else ok_prog ()
         | None \<Rightarrow> ok_prog ()) (\<lambda>_.
      bind_prog (record_context_built h ops run_id computer turn_id context) (\<lambda>_.
      bind_prog (record_event ops (ModelRequested run_id turn_id (of_nat turn_index) (su_model su))) (\<lambda>_.
        ok_prog turn_id)))))))"

definition request_model ::
  "('w, 'v) Host \<Rightarrow> ('r, 'v) RunEventRecorder \<Rightarrow> RunSetup \<Rightarrow> bool \<Rightarrow> nat \<Rightarrow> TurnId \<Rightarrow> 'v ModelMessage list
     \<Rightarrow> ('w, 'r, 'v, (AppError, 'v ModelResponse) result) prog" where
  "request_model h ops su computer turn_index turn_id messages =
     (let run_id = su_run_id su; send = host (h_send h messages turn_index) in
      bind_prog send (\<lambda>first.
        case first of
          Inr response \<Rightarrow> ok_prog (Inr response)
        | Inl error \<Rightarrow>
            (case completion_retry_delay error of
               None \<Rightarrow> ok_prog (Inl error)
             | Some delay \<Rightarrow>
                 bind_prog (check_cancel_with_computer h ops run_id computer) (\<lambda>_.
                 bind_prog (record_event ops
                   (ModelFailed run_id turn_id (of_nat turn_index) (h_display h error))) (\<lambda>_.
                 bind_prog (host (h_retry_polls h delay)) (\<lambda>polls.
                 bind_prog (wait_for_retry h ops run_id computer polls) (\<lambda>_.
                 bind_prog (check_cancel_with_computer h ops run_id computer) (\<lambda>_.
                 bind_prog (record_event ops (ModelRequested run_id turn_id (of_nat turn_index) (su_model su)))
                   (\<lambda>_. send))))))))) "

definition receive_response ::
  "('w, 'v) Host \<Rightarrow> ('r, 'v) RunEventRecorder \<Rightarrow> RunId \<Rightarrow> bool \<Rightarrow> (AppError, 'v ModelResponse) result
     \<Rightarrow> ('w, 'r, 'v, 'v ModelResponse) prog" where
  "receive_response h ops run_id computer response_result =
     (case response_result of
        Inr response \<Rightarrow> ok_prog response
      | Inl error \<Rightarrow>
          bind_prog (host (h_cancel_requested h)) (\<lambda>canceled.
          bind_prog (record_terminal_failure_with_computer h ops run_id computer
            (if canceled then RUN_CANCELED_REASON else h_display h error) canceled) (\<lambda>_.
            err_prog (if canceled then RunCanceled else error))))"

definition EXTRA_TOOL_CALL_ERROR :: rstr where
  "EXTRA_TOOL_CALL_ERROR =
     lit ''not executed: at most one tool call runs per response; re-issue this call alone if still needed''"

definition output_prog :: "rstr \<Rightarrow> rstr \<Rightarrow> ('w, 'r, 'v, rstr) prog" where
  "output_prog name content = (case provider_tool_output name content of None \<Rightarrow> panic_prog | Some out \<Rightarrow> ok_prog out)"

fun answer_extra_calls :: "(rstr \<times> rstr \<times> 'v) list \<Rightarrow> 'v ModelMessage list \<Rightarrow> ('w, 'r, 'v, 'v ModelMessage list) prog" where
  "answer_extra_calls [] messages = ok_prog messages"
| "answer_extra_calls ((use_id, name, _) # uses) messages =
     bind_prog (output_prog name EXTRA_TOOL_CALL_ERROR) (\<lambda>out.
       answer_extra_calls uses (messages @ [tool_result use_id out True]))"

definition run_first_call ::
  "('w, 'v) Host \<Rightarrow> ('r, 'v) RunEventRecorder \<Rightarrow> RunSetup \<Rightarrow> bool \<Rightarrow> nat \<Rightarrow> TurnId \<Rightarrow> rstr \<times> rstr \<times> 'v
     \<Rightarrow> (rstr \<times> rstr \<times> 'v) list \<Rightarrow> 'v ModelMessage list \<Rightarrow> ('w, 'r, 'v, 'v TurnEnd) prog" where
  "run_first_call h ops su computer turn_index turn_id use uses messages =
     (case use of (use_id, name, input) \<Rightarrow>
      bind_prog (core_prog (mint_tool_call_id turn_index)) (\<lambda>call_id.
      bind_prog (core_prog (tool_call call_id name input)) (\<lambda>call.
      bind_prog (record_event ops (ToolCallProposed (su_run_id su) turn_id call)) (\<lambda>_.
      bind_prog (run_tool_call h ops su computer call) (\<lambda>message.
      bind_prog (output_prog name (tm_content message)) (\<lambda>out.
      bind_prog (answer_extra_calls uses (messages @ [tool_result use_id out (tm_is_error message)])) (\<lambda>messages.
        ok_prog (NextTurn messages))))))))"

definition handle_response ::
  "('w, 'v) Host \<Rightarrow> ('r, 'v) RunEventRecorder \<Rightarrow> RunSetup \<Rightarrow> bool \<Rightarrow> nat \<Rightarrow> TurnId \<Rightarrow> 'v ModelMessage list
     \<Rightarrow> 'v ModelResponse \<Rightarrow> ('w, 'r, 'v, 'v TurnEnd) prog" where
  "handle_response h ops su computer turn_index turn_id messages response =
     (let run_id = su_run_id su; fail = (\<lambda>reason. fail_run_with_computer h ops run_id computer (lit reason) False) in
      bind_prog (core_prog (proposals_from_response response)) (\<lambda>proposals.
      bind_prog (record_event ops (ModelResponded run_id turn_id (of_nat turn_index)
        \<lparr>msg_role = Assistant, msg_content = response_text response\<rparr> proposals
        (mr_served_model response) (mr_usage response))) (\<lambda>_.
      if mr_stop response = MaxOutput then fail ''model reached max output tokens''
      else if mr_stop response = ContentFilterStop then fail ''model response was stopped by content filter''
      else
        bind_prog (check_cancel_with_computer h ops run_id computer) (\<lambda>_.
          if mr_stop response = ToolUse \<and> tool_uses response = []
          then fail ''provider reported tool use without tool calls''
          else if tool_uses response = [] then
            bind_prog (record_terminal_success_with_computer h ops run_id computer (response_text response))
              (\<lambda>_. ok_prog (Answered (response_text response)))
          else if \<not> distinct (map fst (tool_uses response)) then fail ''provider returned duplicate tool call ids''
          else
            run_first_call h ops su computer turn_index turn_id (hd (tool_uses response)) (tl (tool_uses response))
              (messages @ [assistant_blocks (mr_content response)])))))"

definition run_turn ::
  "('w, 'v) Host \<Rightarrow> ('r, 'v) RunEventRecorder \<Rightarrow> RunSetup \<Rightarrow> bool \<Rightarrow> nat \<Rightarrow> 'v ModelMessage list
     \<Rightarrow> ('w, 'r, 'v, 'v TurnEnd) prog" where
  "run_turn h ops su computer turn_index messages =
     bind_prog (begin_turn h ops su computer turn_index messages) (\<lambda>turn_id.
     bind_prog (request_model h ops su computer turn_index turn_id messages) (\<lambda>response_result.
     bind_prog (receive_response h ops (su_run_id su) computer response_result) (\<lambda>response.
       handle_response h ops su computer turn_index turn_id messages response)))"

section \<open>The loop\<close>

record RunOutcome =
  ro_run_id :: RunId
  ro_final_answer :: rstr

fun run_turns ::
  "('w, 'v) Host \<Rightarrow> ('r, 'v) RunEventRecorder \<Rightarrow> RunSetup \<Rightarrow> bool \<Rightarrow> nat list \<Rightarrow> 'v ModelMessage list
     \<Rightarrow> ('w, 'r, 'v, RunOutcome) prog" where
  "run_turns h ops su computer [] messages =
     fail_run_with_computer h ops (su_run_id su) computer
       (lit ''exceeded maximum turn count of '' @ decimal (unat (su_max_turns su))) False"
| "run_turns h ops su computer (turn_index # rest) messages =
     bind_prog (run_turn h ops su computer turn_index messages) (\<lambda>turn_end.
       case turn_end of
         NextTurn messages \<Rightarrow> run_turns h ops su computer rest messages
       | Answered answer \<Rightarrow> ok_prog \<lparr>ro_run_id = su_run_id su, ro_final_answer = answer\<rparr>)"

definition start_computer ::
  "('w, 'v) Host \<Rightarrow> ('r, 'v) RunEventRecorder \<Rightarrow> RunSetup \<Rightarrow> ('w, 'r, 'v, bool) prog" where
  "start_computer h ops su =
     (if list_ex (\<lambda>tool. tool \<in> {lit ''computer.windows'', lit ''computer.observe''}) (su_enabled su)
      then bind_prog (host (h_computer_new h)) (\<lambda>made.
             case made of
               Inr _ \<Rightarrow> ok_prog True
             | Inl error \<Rightarrow>
                 bind_prog (record_terminal_failure ops (su_run_id su) (h_display h error) False)
                   (\<lambda>_. err_prog error))
      else ok_prog False)"

definition run_prepared_question ::
  "('w, 'v) Host \<Rightarrow> ('r, 'v) RunEventRecorder \<Rightarrow> RunSetup \<Rightarrow> 'v ModelMessage list \<Rightarrow> ('w, 'r, 'v, RunOutcome) prog" where
  "run_prepared_question h ops su messages =
     bind_prog (record_event ops (RunStarted \<lparr>rse_run_id = su_run_id su, rse_identity = su_identity su\<rparr>)) (\<lambda>_.
     bind_prog (start_computer h ops su) (\<lambda>computer.
       run_turns h ops su computer [0 ..< unat (su_max_turns su)] messages))"

end
