(* ===== verification/Driver_Logic.thy ===== *)
theory Driver_Logic
  imports Run_Loop
begin

text \<open>
  Reasoning about driver programs: triples for normal and aborted ends, the effects of a run and
  what licenses an execution, what the host is known to do, and the identifiers the driver mints.
\<close>

section \<open>Partial correctness of driver programs\<close>

definition triple ::
  "(('w, 'r, 'v) Driver \<Rightarrow> bool) \<Rightarrow> ('w, 'r, 'v, 'a) prog \<Rightarrow> ('a \<Rightarrow> ('w, 'r, 'v) Driver \<Rightarrow> bool)
     \<Rightarrow> (Abort \<Rightarrow> ('w, 'r, 'v) Driver \<Rightarrow> bool) \<Rightarrow> bool" where
  "triple P m Q E \<longleftrightarrow>
     (\<forall>d. P d \<longrightarrow> (case m d of (d', Inr x) \<Rightarrow> Q x d' | (d', Inl e) \<Rightarrow> E e d'))"

lemma triple_bind:
  "triple P m R E \<Longrightarrow> (\<And>x. triple (R x) (f x) Q E) \<Longrightarrow> triple P (bind_prog m f) Q E"
  by (fastforce simp: triple_def bind_prog_def split: prod.splits sum.splits)

lemma bind_ok: "bind_prog (ok_prog x) f = f x"
  by (rule ext) (simp add: bind_prog_def ok_prog_def)

lemma triple_ok: "(\<And>d. P d \<Longrightarrow> Q x d) \<Longrightarrow> triple P (ok_prog x) Q E"
  by (simp add: triple_def ok_prog_def)

lemma triple_err: "(\<And>d. P d \<Longrightarrow> E (Err e) d) \<Longrightarrow> triple P (err_prog e) Q E"
  by (simp add: triple_def err_prog_def)

lemma triple_pre: "triple P m Q E \<Longrightarrow> (\<And>d. P' d \<Longrightarrow> P d) \<Longrightarrow> triple P' m Q E"
  by (simp add: triple_def)

lemma triple_post: "triple P m Q E \<Longrightarrow> (\<And>x d. Q x d \<Longrightarrow> Q' x d) \<Longrightarrow> triple P m Q' E"
  by (fastforce simp: triple_def split: prod.splits sum.splits)

lemma triple_error: "triple P m Q E \<Longrightarrow> (\<And>e d. E e d \<Longrightarrow> E' e d) \<Longrightarrow> triple P m Q E'"
  by (fastforce simp: triple_def split: prod.splits sum.splits)

lemma triple_fact: "(p \<Longrightarrow> triple P m Q E) \<Longrightarrow> triple (\<lambda>d. P d \<and> p) m Q E"
  by (auto simp: triple_def)

lemma triple_ex: "(\<And>y. triple (P y) m Q E) \<Longrightarrow> triple (\<lambda>d. \<exists>y. P y d) m Q E"
proof -
  assume "\<And>y. triple (P y) m Q E"
  then have "\<forall>y. triple (P y) m Q E" by blast
  then show ?thesis unfolding triple_def by (intro allI impI) (elim exE, simp)
qed

lemma triple_use: "triple P m Q E \<Longrightarrow> P d \<Longrightarrow> case m d of (d', Inr x) \<Rightarrow> Q x d' | (d', Inl e) \<Rightarrow> E e d'"
  by (simp add: triple_def)

lemma triple_if: "(b \<Longrightarrow> triple P m Q E) \<Longrightarrow> (\<not> b \<Longrightarrow> triple P n Q E) \<Longrightarrow> triple P (if b then m else n) Q E"
  by simp

section \<open>Sequence numbers do not steer the machine\<close>

lemma transition_seq:
  "transition (s\<lparr>rs_next_seq := q\<rparr>) ev = (fst (transition s ev)\<lparr>rs_next_seq := q\<rparr>, snd (transition s ev))"
proof (cases ev)
  case (ContextBuilt r t c)
  then show ?thesis
    by (auto simp: start_turn_def ensure_new_turn_def validate_budget_def Let_def split: RunPhase.splits)
next
  case (ToolCallProposed r t c)
  then show ?thesis
    by (auto simp: ensure_turn_def ensure_proposed_def ensure_new_tool_call_def split: RunPhase.splits)
next
  case (PolicyEvaluated r c p)
  then show ?thesis
    by (auto simp: ensure_call_def split: RunPhase.splits PolicyDecision.splits)
qed (auto simp: ensure_turn_def ensure_step_def ensure_call_def ensure_compaction_range_def ensure_new_turn_def
    ensure_tool_proposals_rejection_reason_def split: RunPhase.splits)

lemma apply_event_seq:
  "apply_event (s\<lparr>rs_next_seq := q\<rparr>) ev = (fst (apply_event s ev)\<lparr>rs_next_seq := q\<rparr>, snd (apply_event s ev))"
proof -
  have "compaction_gate (s\<lparr>rs_next_seq := q\<rparr>) ev = compaction_gate s ev"
    by (cases ev; cases "rs_pending_compaction_turn_id s") (simp_all add: compaction_gate_def)
  then show ?thesis by (cases "compaction_gate s ev") (simp_all add: apply_event_def transition_seq)
qed

lemma run_apply_seq:
  assumes "apply_event s ev = (s', Inr ())" "rs_run_id s = None \<or> rs_run_id s = Some (event_run_id ev)"
    "re_event rec = ev" "re_seq rec = q"
  shows "run_apply (s\<lparr>rs_next_seq := q\<rparr>) rec = (s'\<lparr>rs_next_seq := q + 1\<rparr>, Inr ())"
  using assms(2-4) by (auto simp: run_apply_def apply_event_seq assms(1))

section \<open>Effects\<close>

fun effect_record :: "'v RunEffect \<Rightarrow> 'v RecordedEvent option" where
  "effect_record (Ledger rec) = Some rec"
| "effect_record (Executed _ _) = None"

definition ledger_of :: "'v RunEffect list \<Rightarrow> 'v RecordedEvent list" where
  "ledger_of effects = List.map_filter effect_record effects"

lemma ledger_of_snoc [simp]:
  "ledger_of [] = []" "ledger_of (es @ [Ledger rec]) = ledger_of es @ [rec]" "ledger_of (es @ [Executed c a]) = ledger_of es"
  by (simp_all add: ledger_of_def List.map_filter_def)

definition seen :: "'v HarnessEvent \<Rightarrow> 'v RunEffect list \<Rightarrow> bool" where
  "seen ev effects \<longleftrightarrow> (\<exists>rec. Ledger rec \<in> set effects \<and> re_event rec = ev)"

definition latest :: "'v HarnessEvent \<Rightarrow> 'v RunEffect list \<Rightarrow> bool" where
  "latest ev effects \<longleftrightarrow> effects \<noteq> [] \<and> (\<exists>rec. last effects = Ledger rec \<and> re_event rec = ev)"

text \<open>
  An execution is licensed when the record before it is the start of that very call, the call was
  recorded as proposed with exactly this tool and input, and either its policy allowed it, with no
  approver, or the approval of the named actor was recorded.
\<close>

definition licensed :: "RunId \<Rightarrow> 'v RunEffect list \<Rightarrow> 'v ToolCall \<Rightarrow> rstr option \<Rightarrow> bool" where
  "licensed run_id before call actor \<longleftrightarrow>
     latest (ToolStarted run_id (tc_id call)) before
     \<and> (\<exists>turn_id. seen (ToolCallProposed run_id turn_id call) before)
     \<and> (seen (PolicyEvaluated run_id (tc_id call) Allow) before \<and> actor = None
        \<or> (\<exists>actor_id. seen (ApprovalGranted run_id (tc_id call) actor_id) before \<and> actor = Some (actor_id_str actor_id)))"

definition all_licensed :: "RunId \<Rightarrow> 'v RunEffect list \<Rightarrow> bool" where
  "all_licensed run_id effects \<longleftrightarrow>
     (\<forall>i call actor. i < length effects \<longrightarrow> effects ! i = Executed call actor \<longrightarrow>
        licensed run_id (take i effects) call actor)"

lemma all_licensed_snoc [simp]:
  "all_licensed run_id []" "all_licensed run_id (es @ [Ledger rec]) \<longleftrightarrow> all_licensed run_id es"
  "all_licensed run_id (es @ [Executed c a]) \<longleftrightarrow> all_licensed run_id es \<and> licensed run_id es c a"
  by (auto simp: all_licensed_def nth_append less_Suc_eq)

lemma seen_snoc [simp]: "seen ev (es @ [Ledger rec]) \<longleftrightarrow> re_event rec = ev \<or> seen ev es"
  "seen ev (es @ [Executed c a]) \<longleftrightarrow> seen ev es"
  by (auto simp: seen_def)

lemma latest_snoc [simp]: "latest ev (es @ [Ledger rec]) \<longleftrightarrow> re_event rec = ev"
  by (simp add: latest_def)

section \<open>What the host is known to do\<close>

text \<open>
  The provider parser maps tool names to known tools, a tool returns a result for the call it was
  given, and no host function reports an error of the core crate.
\<close>

definition noncore :: "AppError \<Rightarrow> bool" where
  "noncore e \<longleftrightarrow> (case e of Core _ \<Rightarrow> False | _ \<Rightarrow> True)"

definition ok_or_noncore :: "(AppError, 'a) result \<Rightarrow> bool" where
  "ok_or_noncore r \<longleftrightarrow> (case r of Inl e \<Rightarrow> noncore e | Inr _ \<Rightarrow> True)"

definition host_ok :: "('w, 'v) Host \<Rightarrow> bool" where
  "host_ok h \<longleftrightarrow>
     (\<forall>messages i w. ok_or_noncore (snd (h_send h messages i w)))
     \<and> (\<forall>messages i w response. snd (h_send h messages i w) = Inr response \<longrightarrow>
          list_all (\<lambda>(_, name, _). is_known_tool name) (tool_uses response))
     \<and> (\<forall>call actor w res. snd (h_execute h call actor w) = Inr res \<longrightarrow> tr_call_id res = tc_id call)
     \<and> (\<forall>messages i. ok_or_noncore (h_context h messages i))
     \<and> (\<forall>call reason p y w. ok_or_noncore (snd (h_decide h call reason p y w)))
     \<and> (\<forall>call p w. ok_or_noncore (snd (h_ask h call p w)))
     \<and> (\<forall>w. ok_or_noncore (snd (h_computer_new h w)))
     \<and> (\<forall>call w. ok_or_noncore (snd (h_computer_granted h call w)))
     \<and> (\<forall>w. ok_or_noncore (snd (h_computer_cleanup h w)))
     \<and> (\<forall>v. ok_or_noncore (h_to_string h v))"

section \<open>Minted identifiers\<close>

lemma decimal_digit: "n < 10 \<Longrightarrow> decimal n = [48 + n]"
  by (simp add: decimal.simps)

lemma decimal_digits: "\<not> n < 10 \<Longrightarrow> decimal n = decimal (n div 10) @ [48 + n mod 10]"
  by (subst decimal.simps) simp

lemma decimal_not_Nil: "decimal n \<noteq> []"
  by (cases "n < 10") (simp_all add: decimal_digit decimal_digits)

lemma decimal_inj: "decimal m = decimal n \<longleftrightarrow> m = n"
proof
  show "m = n" if "decimal m = decimal n"
    using that
  proof (induction m arbitrary: n rule: less_induct)
    case (less m)
    consider "m < 10" "n < 10" | "m < 10" "\<not> n < 10" | "\<not> m < 10" "n < 10" | "\<not> m < 10" "\<not> n < 10" by blast
    then show ?case
    proof cases
      case 4
      then have "decimal (m div 10) = decimal (n div 10)" "m mod 10 = n mod 10"
        using less.prems by (simp_all add: decimal_digits)
      moreover have "m div 10 < m" using 4 by simp
      ultimately show ?thesis using less.IH by (metis div_mult_mod_eq)
    qed (use less.prems decimal_not_Nil decimal_not_Nil [symmetric] in \<open>auto simp: decimal_digit decimal_digits\<close>)
  qed
qed simp

definition turn_at :: "nat \<Rightarrow> TurnId" where
  "turn_at i = TurnId (lit ''turn_'' @ decimal (i + 1))"

definition call_at :: "nat \<Rightarrow> ToolCallId" where
  "call_at i = ToolCallId (lit ''call_'' @ decimal (i + 1))"

lemma minted: "mint_turn_id i = Inr (turn_at i)" "mint_tool_call_id i = Inr (call_at i)"
proof -
  have "\<exists>c. c \<in> set (lit ''turn_'') \<and> \<not> is_whitespace c" "\<exists>c. c \<in> set (lit ''call_'') \<and> \<not> is_whitespace c"
    by (intro exI [of _ 95], simp add: lit_def is_whitespace_def)+
  then have "trim (lit ''turn_'' @ decimal (i + 1)) \<noteq> []" "trim (lit ''call_'' @ decimal (i + 1)) \<noteq> []"
    by (auto simp: trim_eq_Nil)
  then show "mint_turn_id i = Inr (turn_at i)" "mint_tool_call_id i = Inr (call_at i)"
    by (simp_all add: mint_turn_id_def mint_tool_call_id_def TurnId_new_def ToolCallId_new_def id_new_def turn_at_def call_at_def)
qed

lemma minted_fresh: "turn_at i \<notin> turn_at ` {..<i}" "call_at i \<notin> call_at ` {..<i}"
  by (auto simp: turn_at_def call_at_def decimal_inj)

end
