(* ===== verification/Run_Conformance.thy ===== *)
theory Run_Conformance
  imports Driver_Logic
begin

text \<open>
  The driver against the run state machine: whatever the provider, the tools, the approvers and
  the recorder do, the driver only records what the machine accepts, executes only calls whose
  start the ledger records, and reports an answer only for a run the ledger records as finished.
  The recorder enters as an interface, a locale that both recorders of the server interpret.
\<close>

section \<open>The interface of recorders\<close>

text \<open>
  What a \<open>RunEventRecorder\<close> promises the driver. An acknowledged record carries the event and was
  accepted by the machine from the recorder's state; a refusal by the machine is reported as a
  \<open>Core\<close> error, and every other error leaves the state as it was.
\<close>

locale run_recorder =
  fixes ops :: "('r, 'v) RunEventRecorder"
    and run_id :: RunId
    and inv :: "'r \<Rightarrow> bool"
    and state :: "'r \<Rightarrow> 'v RunState"
  assumes record_ok: "inv r \<Longrightarrow> rr_record ops r ev = (r', Inr rec) \<Longrightarrow>
      inv r' \<and> re_event rec = ev \<and> run_apply (state r) rec = (state r', Inr ())"
    and record_err: "inv r \<Longrightarrow> rr_record ops r ev = (r', Inl e) \<Longrightarrow> inv r' \<and> state r' = state r"
    and record_core: "inv r \<Longrightarrow> rr_record ops r ev = (r', Inl (Core c)) \<Longrightarrow>
      \<exists>at s. run_apply (state r) \<lparr>re_seq = rs_next_seq (state r), re_occurred_at_ms = at, re_event = ev\<rparr> = (s, Inl c)"
    and finish_ok: "inv r \<Longrightarrow> rr_finish_run ops r run_id answer = (r', Inr rec) \<Longrightarrow>
      re_event rec = RunFinished run_id \<and> (\<exists>s. run_apply (state r) rec = (s, Inr ()))"
    and finish_core: "inv r \<Longrightarrow> rr_finish_run ops r run_id answer = (r', Inl (Core c)) \<Longrightarrow>
      \<exists>at s. run_apply (state r) \<lparr>re_seq = rs_next_seq (state r), re_occurred_at_ms = at,
        re_event = RunFinished run_id\<rparr> = (s, Inl c)"
    and fail_ok: "inv r \<Longrightarrow> rr_fail_run ops r run_id why canceled = (r', Inr rec) \<Longrightarrow>
      re_event rec = RunFailed run_id why \<and> (\<exists>s. run_apply (state r) rec = (s, Inr ()))"
    and fail_core: "inv r \<Longrightarrow> rr_fail_run ops r run_id why canceled = (r', Inl (Core c)) \<Longrightarrow>
      \<exists>at s. run_apply (state r) \<lparr>re_seq = rs_next_seq (state r), re_occurred_at_ms = at,
        re_event = RunFailed run_id why\<rparr> = (s, Inl c)"
begin

text \<open>
  \<open>sync s F\<close>: the recorder and the sent records agree on the machine state \<open>s\<close>, the events \<open>F\<close>
  have been recorded, and every execution so far was licensed. \<open>closed\<close> is what remains true when
  the driver returns.
\<close>

definition sync :: "'v RunState \<Rightarrow> 'v HarnessEvent set \<Rightarrow> ('w, 'r, 'v) Driver \<Rightarrow> bool" where
  "sync s F d \<longleftrightarrow> inv (dr_recorder d) \<and> all_licensed run_id (dr_effects d)
     \<and> (\<forall>ev\<in>F. seen ev (dr_effects d))
     \<and> (\<exists>q. state (dr_recorder d) = s\<lparr>rs_next_seq := q\<rparr>
          \<and> run_replay (ledger_of (dr_effects d)) = (s\<lparr>rs_next_seq := q\<rparr>, Inr ()))"

definition closed :: "('w, 'r, 'v) Driver \<Rightarrow> bool" where
  "closed d \<longleftrightarrow> all_licensed run_id (dr_effects d)
     \<and> (\<exists>s. run_replay (ledger_of (dr_effects d)) = (s, Inr ()))"

definition benign :: "Abort \<Rightarrow> bool" where
  "benign a \<longleftrightarrow> (\<exists>e. a = Err e \<and>
     (\<forall>c. e = Core c \<longrightarrow> (\<exists>n. c = EmptyIdentifier n) \<or> (\<exists>used budget. c = ContextBudgetExceeded used budget)))"

abbreviation aborted :: "Abort \<Rightarrow> ('w, 'r, 'v) Driver \<Rightarrow> bool" where
  "aborted a d \<equiv> closed d \<and> benign a"

lemma sync_closed: "sync s F d \<Longrightarrow> closed d"
  by (auto simp: sync_def closed_def)

lemma sync_weaken: "sync s F d \<Longrightarrow> G \<subseteq> F \<Longrightarrow> sync s G d"
  by (auto simp: sync_def)

lemma apply_seq: "s\<lparr>rs_next_seq := q\<rparr>\<lparr>rs_next_seq := q'\<rparr> = s\<lparr>rs_next_seq := q'\<rparr>"
  by simp

lemma accepted_seq:
  assumes "apply_event s ev = (s', Inr ())" "rs_run_id s = None \<or> rs_run_id s = Some (event_run_id ev)"
  shows "run_apply (s\<lparr>rs_next_seq := q\<rparr>) \<lparr>re_seq = q, re_occurred_at_ms = at, re_event = ev\<rparr> = (t, Inl c) \<longleftrightarrow> False"
  using run_apply_seq [OF assms, of "\<lparr>re_seq = q, re_occurred_at_ms = at, re_event = ev\<rparr>" q] by simp

lemma record_error:
  assumes "sync s F d" "record_event ops ev d = (d', Inl a)"
  shows "sync s F d' \<and> (\<exists>e. a = Err e \<and> (noncore e \<or> (\<exists>c at q t. e = Core c \<and>
    run_apply (s\<lparr>rs_next_seq := q\<rparr>) \<lparr>re_seq = q, re_occurred_at_ms = at, re_event = ev\<rparr> = (t, Inl c))))"
proof -
  obtain q where q: "state (dr_recorder d) = s\<lparr>rs_next_seq := q\<rparr>" and inv: "inv (dr_recorder d)"
    using assms(1) unfolding sync_def by blast
  obtain r' e where r: "rr_record ops (dr_recorder d) ev = (r', Inl e)" "d' = d\<lparr>dr_recorder := r'\<rparr>" "a = Err e"
    using assms(2) by (auto simp: record_event_def acknowledged_def split: prod.splits sum.splits)
  show ?thesis
  proof (cases "noncore e")
    case True
    then show ?thesis using assms(1) record_err [OF inv r(1)] r by (auto simp: sync_def)
  next
    case False
    then obtain c where c: "e = Core c" by (auto simp: noncore_def split: AppError.splits)
    then show ?thesis using assms(1) record_err [OF inv r(1)] record_core [OF inv, of ev r' c] r
      by (fastforce simp: sync_def q)
  qed
qed

lemma record_success:
  assumes "sync s F d" "record_event ops ev d = (d', Inr rec)"
  shows "\<exists>q t. run_apply (s\<lparr>rs_next_seq := q\<rparr>) rec = (t, Inr ()) \<and> re_seq rec = q \<and> re_event rec = ev
    \<and> state (dr_recorder d') = t \<and> inv (dr_recorder d') \<and> dr_effects d' = dr_effects d @ [Ledger rec]
    \<and> run_replay (ledger_of (dr_effects d')) = (t, Inr ())"
proof -
  obtain q where q: "state (dr_recorder d) = s\<lparr>rs_next_seq := q\<rparr>"
      "run_replay (ledger_of (dr_effects d)) = (s\<lparr>rs_next_seq := q\<rparr>, Inr ())" and inv: "inv (dr_recorder d)"
    using assms(1) unfolding sync_def by blast
  obtain r' where r: "rr_record ops (dr_recorder d) ev = (r', Inr rec)"
      "d' = d\<lparr>dr_recorder := r', dr_effects := dr_effects d @ [Ledger rec]\<rparr>"
    using assms(2) by (auto simp: record_event_def acknowledged_def split: prod.splits sum.splits)
  have ok: "inv r'" "re_event rec = ev" "run_apply (s\<lparr>rs_next_seq := q\<rparr>) rec = (state r', Inr ())"
    using record_ok [OF inv r(1)] by (auto simp: q(1))
  moreover have "re_seq rec = q" using ok(3) by (auto simp: run_apply_def split: if_splits)
  ultimately show ?thesis using r(2) q(2) by (auto simp: replay_loop_snoc_ok)
qed

lemma record_strong:
  assumes "apply_event s ev = (s', Inr ())" "rs_run_id s = None \<or> rs_run_id s = Some (event_run_id ev)"
  shows "triple (sync s F) (record_event ops ev)
    (\<lambda>_ d. sync s' (insert ev F) d \<and> latest ev (dr_effects d)) (\<lambda>a d. sync s F d \<and> (\<exists>e. a = Err e \<and> noncore e))"
proof -
  have "case record_event ops ev d of (d', Inr x) \<Rightarrow> sync s' (insert ev F) d' \<and> latest ev (dr_effects d')
      | (d', Inl a) \<Rightarrow> sync s F d' \<and> (\<exists>e. a = Err e \<and> noncore e)" if sy: "sync s F d" for d
  proof (cases "record_event ops ev d")
    case (Pair d' x)
    show ?thesis
    proof (cases x)
      case (Inl a)
      then show ?thesis using record_error [OF sy, of ev d' a] Pair accepted_seq [OF assms] by auto
    next
      case (Inr rec)
      then obtain q t where t: "run_apply (s\<lparr>rs_next_seq := q\<rparr>) rec = (t, Inr ())" "re_seq rec = q" "re_event rec = ev"
          "state (dr_recorder d') = t" "inv (dr_recorder d')" "dr_effects d' = dr_effects d @ [Ledger rec]"
          "run_replay (ledger_of (dr_effects d')) = (t, Inr ())"
        using record_success [OF sy, of ev d' rec] Pair by blast
      moreover have "t = s'\<lparr>rs_next_seq := q + 1\<rparr>" using run_apply_seq [OF assms t(3,2)] t(1) by simp
      ultimately show ?thesis using sy Inr Pair by (auto simp: sync_def)
    qed
  qed
  then show ?thesis unfolding triple_def by blast
qed

lemma noncore_benign: "noncore e \<Longrightarrow> benign (Err e)"
  by (auto simp: noncore_def benign_def)

lemma record_step:
  assumes "apply_event s ev = (s', Inr ())" "rs_run_id s = None \<or> rs_run_id s = Some (event_run_id ev)"
  shows "triple (sync s F) (record_event ops ev)
    (\<lambda>_ d. sync s' (insert ev F) d \<and> latest ev (dr_effects d)) aborted"
  using record_strong [OF assms, of F] by (rule triple_error) (auto simp: noncore_benign sync_closed)

text \<open>Ending a run: the machine accepts the failure from every phase that can fail.\<close>

lemma terminal_step:
  assumes ok: "\<And>r r' rec. inv r \<Longrightarrow> f r = (r', Inr rec) \<Longrightarrow>
      re_event rec = ev \<and> (\<exists>s. run_apply (state r) rec = (s, Inr ()))"
    and core: "\<And>r r' c. inv r \<Longrightarrow> f r = (r', Inl (Core c)) \<Longrightarrow>
      \<exists>at s. run_apply (state r) \<lparr>re_seq = rs_next_seq (state r), re_occurred_at_ms = at, re_event = ev\<rparr> = (s, Inl c)"
    and acc: "apply_event s ev = (s', Inr ())" "rs_run_id s = None \<or> rs_run_id s = Some (event_run_id ev)"
  shows "triple (\<lambda>d. sync s F d \<and> P (dr_effects d)) (acknowledged f)
    (\<lambda>_ d. closed d \<and> (\<exists>es rec. dr_effects d = es @ [Ledger rec] \<and> re_event rec = ev \<and> P es)) aborted"
proof -
  have "case acknowledged f d of
        (d', Inr x) \<Rightarrow> closed d' \<and> (\<exists>es rec. dr_effects d' = es @ [Ledger rec] \<and> re_event rec = ev \<and> P es)
      | (d', Inl e) \<Rightarrow> aborted e d'" if sy: "sync s F d \<and> P (dr_effects d)" for d
  proof -
    obtain q where q: "state (dr_recorder d) = s\<lparr>rs_next_seq := q\<rparr>"
        "run_replay (ledger_of (dr_effects d)) = (s\<lparr>rs_next_seq := q\<rparr>, Inr ())"
      and d: "inv (dr_recorder d)" "all_licensed run_id (dr_effects d)"
      using sy unfolding sync_def by blast
    obtain r' x where r: "f (dr_recorder d) = (r', x)" by (cases "f (dr_recorder d)")
    show ?thesis
    proof (cases x)
      case (Inl e)
      have "e \<noteq> Core c" for c
        using core [OF d(1), of r' c] r Inl accepted_seq [OF acc] by (auto simp: q(1))
      then show ?thesis using r Inl d q(2) by (auto simp: acknowledged_def closed_def benign_def)
    next
      case (Inr rec)
      then show ?thesis using ok [OF d(1), of r' rec] r d q sy
        by (auto simp: acknowledged_def closed_def replay_loop_snoc_ok)
    qed
  qed
  then show ?thesis unfolding triple_def by blast
qed

lemma fail_accepted:
  "can_fail (rs_phase s) \<Longrightarrow> \<exists>s'. apply_event s (RunFailed run_id why) = (s', Inr ())"
  by (auto simp: apply_event_def compaction_gate_def split: option.splits)

lemma terminal_failure:
  assumes "can_fail (rs_phase s)" "rs_run_id s = Some run_id"
  shows "triple (sync s F) (record_terminal_failure ops run_id why canceled) (\<lambda>_. closed) aborted"
proof -
  obtain s' where s': "apply_event s (RunFailed run_id why) = (s', Inr ())" using fail_accepted [OF assms(1)] by blast
  have "triple (\<lambda>d. sync s F d \<and> True) (acknowledged (\<lambda>r. rr_fail_run ops r run_id why canceled))
      (\<lambda>_ d. closed d \<and> (\<exists>es rec. dr_effects d = es @ [Ledger rec] \<and> re_event rec = RunFailed run_id why \<and> True)) aborted"
    by (rule terminal_step [where P = "\<lambda>_. True", OF _ _ s']) (use fail_ok fail_core assms(2) in auto)
  then show ?thesis unfolding record_terminal_failure_def by (auto simp: triple_def split: prod.splits sum.splits)
qed

lemma sync_world [simp]: "sync s F (d\<lparr>dr_world := w\<rparr>) = sync s F d"
  by (simp add: sync_def)

lemma closed_world [simp]: "closed (d\<lparr>dr_world := w\<rparr>) = closed d"
  by (simp add: closed_def)

lemma host_sync: "triple (sync s F) (host f) (\<lambda>_. sync s F) E"
  by (auto simp: triple_def host_def split: prod.splits)

lemma benign_simps [simp]: "benign (Err RunCanceled)" "benign (Err (RunFailedError why))" "benign (Err (ToolError why))"
  "benign (Err (Core (EmptyIdentifier n)))" "benign (Err (Core (ContextBudgetExceeded used budget)))"
  by (auto simp: benign_def)

lemma benign_run_error [simp]: "benign (Err (run_error why canceled))"
  by (simp add: run_error_def)

lemma app_sync: "ok_or_noncore r \<Longrightarrow> triple (sync s F) (app_prog r) (\<lambda>x d. sync s F d \<and> r = Inr x) aborted"
  by (auto simp: triple_def app_prog_def ok_prog_def err_prog_def ok_or_noncore_def sync_closed noncore_benign
      split: sum.splits)

lemma app_any: "ok_or_noncore r \<Longrightarrow> triple (sync s F) (app_prog r) (\<lambda>_. sync s F) aborted"
  by (rule triple_post [OF app_sync]) simp_all

lemma host_result_sync:
  assumes "\<And>w. ok_or_noncore (snd (f w))"
  shows "triple (sync s F) (host_result f) (\<lambda>_. sync s F) aborted"
proof -
  have "triple (sync s F) (host f) (\<lambda>r d. sync s F d \<and> ok_or_noncore r) aborted"
    using assms by (auto simp: triple_def host_def split: prod.splits) (metis snd_conv)
  then show ?thesis
    by (rule triple_bind) (rule triple_fact, rule triple_post [OF app_sync], simp_all)
qed

lemma core_sync:
  assumes "\<And>e. r = Inl e \<Longrightarrow> \<exists>n. e = EmptyIdentifier n"
  shows "triple (sync s F) (core_prog r) (\<lambda>x d. sync s F d \<and> r = Inr x) aborted"
  using assms by (cases r) (auto simp: triple_def core_prog_def ok_prog_def err_prog_def sync_closed)

lemma cleanup_sync:
  assumes "host_ok h"
  shows "triple (sync s F) (cleanup_computer h computer) (\<lambda>c d. sync s F d \<and> ok_or_noncore c) aborted"
proof (cases computer)
  case True
  have "ok_or_noncore (snd (h_computer_cleanup h w))" for w using assms by (simp add: host_ok_def)
  then show ?thesis using True
    by (auto simp: cleanup_computer_def triple_def host_def split: prod.splits) (metis snd_conv)
qed (auto simp: cleanup_computer_def triple_def ok_prog_def ok_or_noncore_def)

text \<open>Every way of failing a run leaves an accepted ledger.\<close>

lemma fail_with_computer:
  assumes "host_ok h" "can_fail (rs_phase s)" "rs_run_id s = Some run_id"
  shows "triple (sync s F) (record_terminal_failure_with_computer h ops run_id computer why canceled) (\<lambda>_. closed) aborted"
  unfolding record_terminal_failure_with_computer_def
proof (rule triple_bind [OF cleanup_sync [OF assms(1)]], rule triple_fact, rule triple_bind [OF terminal_failure [OF assms(2,3)]])
  fix cleaned :: "(AppError, unit) result" and rec :: "'v RecordedEvent"
  assume "ok_or_noncore cleaned"
  then show "triple closed (case cleaned of Inl error \<Rightarrow> err_prog error | Inr _ \<Rightarrow> ok_prog rec) (\<lambda>_. closed) aborted"
    by (cases cleaned) (auto simp: ok_or_noncore_def noncore_benign intro: triple_ok triple_err)
qed

lemma fail_run_with_computer_sync:
  assumes "host_ok h" "can_fail (rs_phase s)" "rs_run_id s = Some run_id"
  shows "triple (sync s F) (fail_run_with_computer h ops run_id computer why canceled) Q aborted"
  unfolding fail_run_with_computer_def
  by (rule triple_bind [OF fail_with_computer [OF assms]]) (rule triple_err, simp)

lemma fail_run_sync:
  assumes "can_fail (rs_phase s)" "rs_run_id s = Some run_id"
  shows "triple (sync s F) (fail_run ops run_id why canceled) Q aborted"
  unfolding fail_run_def by (rule triple_bind [OF terminal_failure [OF assms]]) (rule triple_err, simp)

lemma check_cancel_sync:
  assumes "can_fail (rs_phase s)" "rs_run_id s = Some run_id"
  shows "triple (sync s F) (check_cancel h ops run_id) (\<lambda>_. sync s F) aborted"
  unfolding check_cancel_def
  by (rule triple_bind [OF host_sync]) (auto intro: fail_run_sync assms triple_ok)

lemma check_cancel_with_computer_sync:
  assumes "host_ok h" "can_fail (rs_phase s)" "rs_run_id s = Some run_id"
  shows "triple (sync s F) (check_cancel_with_computer h ops run_id computer) (\<lambda>_. sync s F) aborted"
  unfolding check_cancel_with_computer_def
  by (rule triple_bind [OF host_sync]) (auto intro: fail_run_with_computer_sync assms triple_ok)

section \<open>The phases of a turn\<close>

definition st :: "'v RunPhase \<Rightarrow> u32 \<Rightarrow> TurnId set \<Rightarrow> ToolCallId set \<Rightarrow> TurnId option \<Rightarrow> 'v RunState" where
  "st ph n T C pc = \<lparr>rs_run_id = Some run_id, rs_next_seq = 0, rs_next_model_step = n, rs_used_turn_ids = T,
     rs_used_tool_call_ids = C, rs_pending_compaction_turn_id = pc, rs_phase = ph\<rparr>"

lemma st_simps [simp]:
  "rs_run_id (st ph n T C pc) = Some run_id" "rs_phase (st ph n T C pc) = ph"
  "rs_next_model_step (st ph n T C pc) = n" "rs_used_turn_ids (st ph n T C pc) = T"
  "rs_used_tool_call_ids (st ph n T C pc) = C" "rs_pending_compaction_turn_id (st ph n T C pc) = pc"
  "(st ph n T C pc)\<lparr>rs_phase := ph'\<rparr> = st ph' n T C pc"
  "(st ph n T C pc)\<lparr>rs_used_tool_call_ids := C'\<rparr> = st ph n T C' pc"
  "(st ph n T C pc)\<lparr>rs_used_turn_ids := T'\<rparr> = st ph n T' C pc"
  "(st ph n T C pc)\<lparr>rs_next_model_step := n'\<rparr> = st ph n' T C pc"
  "(st ph n T C pc)\<lparr>rs_pending_compaction_turn_id := pc'\<rparr> = st ph n T C pc'"
  by (simp_all add: st_def)

lemma gate_open: "apply_event (st ph n T C None) ev = transition (st ph n T C None) ev"
  by (simp add: apply_event_def compaction_gate_def)

text \<open>One record from a known state, without the fact that it is the latest.\<close>

lemma record_to:
  assumes "apply_event s ev = (s', Inr ())" "rs_run_id s = None \<or> rs_run_id s = Some (event_run_id ev)" "G \<subseteq> insert ev F"
  shows "triple (sync s F) (record_event ops ev) (\<lambda>_. sync s' G) aborted"
  by (rule triple_post [OF record_step [OF assms(1,2)]]) (use assms(3) sync_weaken in blast)

definition ready :: "u32 \<Rightarrow> TurnId set \<Rightarrow> ToolCallId set \<Rightarrow> ('w, 'r, 'v) Driver \<Rightarrow> bool" where
  "ready n T C d \<longleftrightarrow> (\<exists>ph. sync (st ph n T C None) {} d \<and> awaits_context ph)"

lemma ready_ok: "awaits_context ph \<Longrightarrow> triple (sync (st ph n T C None) F) (ok_prog x) (\<lambda>_. ready n T C) E"
  by (rule triple_ok) (auto simp: ready_def intro: sync_weaken)

definition license :: "'v ToolCall \<Rightarrow> rstr option \<Rightarrow> 'v HarnessEvent set \<Rightarrow> bool" where
  "license call actor F \<longleftrightarrow> (\<exists>t. ToolCallProposed run_id t call \<in> F)
     \<and> (PolicyEvaluated run_id (tc_id call) Allow \<in> F \<and> actor = None
        \<or> (\<exists>a. ApprovalGranted run_id (tc_id call) a \<in> F \<and> actor = Some (actor_id_str a)))"

lemma license_mono: "license call actor F \<Longrightarrow> F \<subseteq> G \<Longrightarrow> license call actor G"
  by (auto simp: license_def)

lemma execute_licensed:
  assumes "host_ok h" "license call actor F"
  shows "triple (\<lambda>d. sync s F d \<and> latest (ToolStarted run_id (tc_id call)) (dr_effects d)) (execute_tool h call actor)
    (\<lambda>out d. sync s F d \<and> (\<forall>res. out = Inr res \<longrightarrow> tr_call_id res = tc_id call)) aborted"
proof -
  have res: "\<forall>w res. snd (h_execute h call actor w) = Inr res \<longrightarrow> tr_call_id res = tc_id call"
    using assms(1) by (simp add: host_ok_def)
  have "sync s F (d\<lparr>dr_effects := dr_effects d @ [Executed call actor]\<rparr>)"
    if "sync s F d" "latest (ToolStarted run_id (tc_id call)) (dr_effects d)" for d :: "('w, 'r, 'v) Driver"
    using that assms(2) by (auto simp: sync_def licensed_def license_def)
  then show ?thesis using res
    by (auto simp: triple_def execute_tool_def host_def split: prod.splits) (metis snd_conv)
qed

lemma outcome_recorded:
  assumes h: "host_ok h" and res: "\<forall>res. out = Inr res \<longrightarrow> tr_call_id res = tc_id call"
  shows "triple (sync (st (ToolRunning (tc_id call)) n T C None) F) (case out of
       Inl error \<Rightarrow> bind_prog (record_event ops (HarnessEvent.ToolFailed run_id (tc_id call) (h_display h error)))
                      (\<lambda>_. ok_prog (error_message (h_display h error)))
     | Inr res \<Rightarrow> bind_prog (app_prog (h_to_string h (tr_data res))) (\<lambda>content.
         bind_prog (record_event ops (ToolFinished run_id res)) (\<lambda>_. ok_prog \<lparr>tm_content = content,
           tm_is_error = tool_result_is_error h (tool_name_str (tc_tool call)) (tr_data res)\<rparr>)))
    (\<lambda>_. ready n T C) aborted"
proof (cases out)
  case (Inl error)
  have "triple (sync (st (ToolRunning (tc_id call)) n T C None) F)
      (record_event ops (HarnessEvent.ToolFailed run_id (tc_id call) (h_display h error)))
      (\<lambda>_. sync (st (RunPhase.ToolFailed (tc_id call) (h_display h error)) n T C None) {}) aborted"
    by (rule record_to) (simp_all add: gate_open ensure_call_def)
  then show ?thesis unfolding Inl sum.case by (rule triple_bind) (rule ready_ok, simp)
next
  case (Inr r)
  have str: "ok_or_noncore (h_to_string h (tr_data r))" using h by (simp add: host_ok_def)
  have "triple (sync (st (ToolRunning (tc_id call)) n T C None) F) (record_event ops (ToolFinished run_id r))
      (\<lambda>_. sync (st TurnConcluded n T C None) {}) aborted"
    by (rule record_to) (use res Inr in \<open>simp_all add: gate_open ensure_call_def\<close>)
  then show ?thesis unfolding Inr sum.case
    by (intro triple_bind [OF app_any [OF str]]) (erule triple_bind, rule ready_ok, simp)
qed

lemma execute_and_record:
  assumes "host_ok h" "license call actor F"
  shows "triple (sync (st (ReadyToExecuteTool call) n T C None) F) (execute_and_record_tool h ops run_id call actor)
    (\<lambda>_. ready n T C) aborted"
  unfolding execute_and_record_tool_def
proof (rule triple_bind [OF check_cancel_sync], simp, simp, rule triple_bind [OF record_step])
  show "apply_event (st (ReadyToExecuteTool call) n T C None) (ToolStarted run_id (tc_id call)) =
      (st (ToolRunning (tc_id call)) n T C None, Inr ())"
    by (simp add: gate_open ensure_call_def)
  have "license call actor (insert (ToolStarted run_id (tc_id call)) F)" by (rule license_mono [OF assms(2)]) blast
  from execute_licensed [OF assms(1) this]
  show "triple (\<lambda>d. sync (st (ToolRunning (tc_id call)) n T C None) (insert (ToolStarted run_id (tc_id call)) F) d
        \<and> latest (ToolStarted run_id (tc_id call)) (dr_effects d))
      (bind_prog (execute_tool h call actor) (\<lambda>outcome. case outcome of
         Inl error \<Rightarrow> bind_prog (record_event ops (HarnessEvent.ToolFailed run_id (tc_id call) (h_display h error)))
                        (\<lambda>_. ok_prog (error_message (h_display h error)))
       | Inr res \<Rightarrow> bind_prog (app_prog (h_to_string h (tr_data res))) (\<lambda>content.
           bind_prog (record_event ops (ToolFinished run_id res)) (\<lambda>_. ok_prog \<lparr>tm_content = content,
             tm_is_error = tool_result_is_error h (tool_name_str (tc_tool call)) (tr_data res)\<rparr>))))
      (\<lambda>_. ready n T C) aborted"
    by (rule triple_bind) (rule triple_fact, rule outcome_recorded [OF assms(1)])
qed simp

section \<open>Approval\<close>

lemma grant_computer_sync:
  "host_ok h \<Longrightarrow> triple (sync s F) (grant_computer_approval h computer call) (\<lambda>_. sync s F) aborted"
  unfolding grant_computer_approval_def
  by (auto intro!: host_result_sync triple_err triple_ok simp: host_ok_def sync_closed)

lemma deny_computer_sync: "triple (sync s F) (deny_computer_approval h computer call) (\<lambda>_. sync s F) aborted"
  unfolding deny_computer_approval_def by (auto intro: host_sync triple_ok)

lemma actor_sync:
  "triple (sync s F) (core_prog (ActorId_new actor)) (\<lambda>a d. sync s F d \<and> actor = actor_id_str a) aborted"
  by (rule triple_post [OF core_sync]) (auto dest: actor_id.new_error actor_id.new_as_str)

lemma grant_and_execute_sync:
  assumes "host_ok h" "ToolCallProposed run_id t call \<in> F"
  shows "triple (sync (st (AwaitingApproval call why) n T C None) F)
    (grant_and_execute h ops run_id computer call actor) (\<lambda>_. ready n T C) aborted"
  unfolding grant_and_execute_def
proof (rule triple_bind [OF grant_computer_sync [OF assms(1)]], rule triple_bind [OF actor_sync], rule triple_fact)
  fix a assume a: "actor = actor_id_str a"
  have "triple (sync (st (AwaitingApproval call why) n T C None) F)
      (record_event ops (ApprovalGranted run_id (tc_id call) a))
      (\<lambda>_. sync (st (ReadyToExecuteTool call) n T C None) (insert (ApprovalGranted run_id (tc_id call) a) F)) aborted"
    by (rule record_to) (simp_all add: gate_open ensure_call_def)
  moreover have "license call (Some actor) (insert (ApprovalGranted run_id (tc_id call) a) F)"
    using assms(2) a by (auto simp: license_def)
  ultimately show "triple (sync (st (AwaitingApproval call why) n T C None) F)
      (bind_prog (record_event ops (ApprovalGranted run_id (tc_id call) a))
        (\<lambda>_. execute_and_record_tool h ops run_id call (Some actor))) (\<lambda>_. ready n T C) aborted"
    by (intro triple_bind) (auto intro: execute_and_record assms(1))
qed

lemma deny_record:
  "triple (sync (st (AwaitingApproval call why) n T C None) F)
     (bind_prog (record_event ops (HarnessEvent.ApprovalDenied run_id (tc_id call) a reason)) (\<lambda>_. ok_prog x))
     (\<lambda>_. ready n T C) aborted"
proof -
  have "triple (sync (st (AwaitingApproval call why) n T C None) F)
      (record_event ops (HarnessEvent.ApprovalDenied run_id (tc_id call) a reason))
      (\<lambda>_. sync (st (RunPhase.ApprovalDenied (tc_id call) reason) n T C None) {}) aborted"
    by (rule record_to) (simp_all add: gate_open ensure_call_def)
  then show ?thesis by (rule triple_bind) (rule ready_ok, simp)
qed

lemma actor_any: "triple (sync s F) (core_prog (ActorId_new actor)) (\<lambda>_. sync s F) aborted"
  by (rule triple_post [OF actor_sync]) simp

lemma deny_and_answer_sync:
  "triple (sync (st (AwaitingApproval call why) n T C None) F)
     (deny_and_answer h ops run_id computer call actor reason) (\<lambda>_. ready n T C) aborted"
  unfolding deny_and_answer_def
  by (rule triple_bind [OF deny_computer_sync], rule triple_bind [OF actor_any], rule deny_record)

lemma preview_denial_sync:
  "triple (sync (st (AwaitingApproval call why) n T C None) F)
     (record_approval_preview_denial h ops run_id (tc_id call) error) (\<lambda>_. ready n T C) aborted"
  unfolding record_approval_preview_denial_def by (rule triple_bind [OF actor_any], rule deny_record)

lemma preview_sync: "triple (sync s F) (run_approval_preview h computer call) (\<lambda>_. sync s F) aborted"
  unfolding run_approval_preview_def by (auto intro: host_sync triple_ok)

lemma obtain_approval_sync:
  assumes "host_ok h" "ToolCallProposed run_id t call \<in> F" "su_run_id su = run_id"
  shows "triple (sync (st (AwaitingApproval call why) n T C None) F)
    (obtain_approval h ops su computer call reason) (\<lambda>_. ready n T C) aborted"
proof -
  note ends = grant_and_execute_sync [OF assms(1,2)] deny_and_answer_sync preview_denial_sync
  have decide: "triple (sync s F) (host_result (h_decide h call reason p y)) (\<lambda>_. sync s F) aborted"
    and ask: "triple (sync s F) (host_result (h_ask h call p)) (\<lambda>_. sync s F) aborted" for s p y
    using assms(1) by (auto intro!: host_result_sync simp: host_ok_def)
  show ?thesis unfolding obtain_approval_def Let_def assms(3)
    by (auto split: option.splits sum.splits ExternalApprovalOutcome.splits ApprovalOutcome.splits
        intro!: ends triple_bind [OF preview_sync] triple_bind [OF decide] triple_bind [OF ask])
qed

lemma call_policy_sync: "triple (sync s F) (call_policy h su computer call) (\<lambda>_. sync s F) aborted"
  unfolding call_policy_def Let_def by (auto intro: host_sync triple_ok)

lemma run_tool_call_sync:
  assumes "host_ok h" "ToolCallProposed run_id t call \<in> F" "su_run_id su = run_id"
  shows "triple (sync (st (AwaitingPolicy call) n T C None) F) (run_tool_call h ops su computer call) (\<lambda>_. ready n T C) aborted"
  unfolding run_tool_call_def assms(3)
proof (rule triple_bind [OF call_policy_sync])
  fix policy
  let ?ev = "PolicyEvaluated run_id (tc_id call) policy" and ?s = "st (AwaitingPolicy call) n T C None"
  let ?s' = "st (case policy of Allow \<Rightarrow> ReadyToExecuteTool call | RequireApproval why \<Rightarrow> AwaitingApproval call why
    | Deny why \<Rightarrow> PolicyDenied (tc_id call) why) n T C None"
  have "triple (sync ?s F) (record_event ops ?ev) (\<lambda>_. sync ?s' (insert ?ev F)) aborted"
    by (rule record_to) (auto simp: gate_open ensure_call_def split: PolicyDecision.splits)
  then show "triple (sync ?s F) (bind_prog (record_event ops ?ev) (\<lambda>_. case policy of
      Allow \<Rightarrow> execute_and_record_tool h ops run_id call None
    | RequireApproval reason \<Rightarrow> obtain_approval h ops su computer call reason
    | Deny reason \<Rightarrow> ok_prog (error_message reason))) (\<lambda>_. ready n T C) aborted"
  proof (rule triple_bind)
    have F: "ToolCallProposed run_id t call \<in> insert ?ev F" using assms(2) by simp
    show "triple (sync ?s' (insert ?ev F)) (case policy of
        Allow \<Rightarrow> execute_and_record_tool h ops run_id call None
      | RequireApproval reason \<Rightarrow> obtain_approval h ops su computer call reason
      | Deny reason \<Rightarrow> ok_prog (error_message reason)) (\<lambda>_. ready n T C) aborted"
      using execute_and_record [OF assms(1), of call None "insert ?ev F"] obtain_approval_sync [OF assms(1) F assms(3)]
        assms(2) by (cases policy) (auto simp: license_def intro: ready_ok)
  qed
qed

section \<open>A turn\<close>

lemma context_accepted:
  assumes "awaits_context ph" "t \<notin> T" "pc = None \<or> pc = Some t" "validate_budget c = Inr ()"
  shows "apply_event (st ph n T C pc) (ContextBuilt run_id t c) =
    (st (ReadyToRequestModel t n c) n (insert t T) C None, Inr ())"
  using assms by (auto simp: apply_event_def compaction_gate_def ensure_turn_def start_turn_def ensure_new_turn_def
      split: option.splits)

lemma context_rejected:
  assumes "awaits_context ph" "t \<notin> T" "pc = None \<or> pc = Some t" "validate_budget c = Inl e"
    "run_apply ((st ph n T C pc)\<lparr>rs_next_seq := q\<rparr>) rec = (s, r)" "re_event rec = ContextBuilt run_id t c" "re_seq rec = q"
  shows "r = Inl e"
proof -
  have "snd (apply_event (st ph n T C pc) (ContextBuilt run_id t c)) = Inl e"
    using assms(1-4) by (auto simp: apply_event_def compaction_gate_def ensure_turn_def start_turn_def ensure_new_turn_def)
  then show ?thesis using assms(5-7) by (auto simp: run_apply_def apply_event_seq)
qed

lemma budget_error: "validate_budget c = Inl e \<Longrightarrow> \<exists>used budget. e = ContextBudgetExceeded used budget"
  by (auto simp: validate_budget_def Let_def split: if_splits)

lemma record_context_built_sync:
  fixes h :: "('w, 'v) Host"
  assumes h: "host_ok h" and ph: "awaits_context ph" "t \<notin> T" "pc = None \<or> pc = Some t"
  shows "triple (sync (st ph n T C pc) F) (record_context_built h ops run_id computer t c)
    (\<lambda>_. sync (st (ReadyToRequestModel t n c) n (insert t T) C None) {}) aborted"
proof -
  let ?s = "st ph n T C pc" and ?ev = "ContextBuilt run_id t c" and ?s' = "st (ReadyToRequestModel t n c) n (insert t T) C None"
  have fails: "can_fail (rs_phase ?s)" using ph(1) by (cases ph) simp_all
  have ends: "triple (sync ?s F) (bind_prog (record_terminal_failure_with_computer h ops run_id computer why False)
      (\<lambda>_. err_prog (Core (ContextBudgetExceeded used budget)))) Q aborted" for why used budget and Q :: "unit \<Rightarrow> ('w, 'r, 'v) Driver \<Rightarrow> bool"
    by (rule triple_bind [OF fail_with_computer [OF h fails]]) (auto intro: triple_err)
  have "case record_context_built h ops run_id computer t c d of (d', Inr x) \<Rightarrow> sync ?s' {} d' | (d', Inl a) \<Rightarrow> aborted a d'"
    if sy: "sync ?s F d" for d
  proof (cases "record_event ops ?ev d")
    case (Pair d' x)
    show ?thesis
    proof (cases x)
      case (Inr rec)
      then obtain q s2 where q: "run_apply (?s\<lparr>rs_next_seq := q\<rparr>) rec = (s2, Inr ())" "re_seq rec = q" "re_event rec = ?ev"
        using record_success [OF sy, of ?ev d' rec] Pair by blast
      have "validate_budget c = Inr ()" using context_rejected [OF ph _ q(1,3,2)] by (cases "validate_budget c") auto
      have "triple (sync ?s F) (record_event ops ?ev) (\<lambda>_ d. sync ?s' (insert ?ev F) d \<and> latest ?ev (dr_effects d))
          (\<lambda>a d. sync ?s F d \<and> (\<exists>e. a = Err e \<and> noncore e))"
        by (rule record_strong [OF context_accepted [OF ph \<open>validate_budget c = Inr ()\<close>]]) simp
      then have "sync ?s' (insert ?ev F) d'" using sy Pair Inr by (fastforce simp: triple_def)
      then show ?thesis using Pair Inr by (auto simp: record_context_built_def intro: sync_weaken)
    next
      case (Inl a)
      then obtain e where e: "sync ?s F d'" "a = Err e" and cause: "noncore e \<or> (\<exists>c' at q t2. e = Core c' \<and>
          run_apply (?s\<lparr>rs_next_seq := q\<rparr>) \<lparr>re_seq = q, re_occurred_at_ms = at, re_event = ?ev\<rparr> = (t2, Inl c'))"
        using record_error [OF sy, of ?ev d' a] Pair by blast
      show ?thesis
      proof (cases "noncore e")
        case True
        then have "record_context_built h ops run_id computer t c d = (d', Inl (Err e))"
          using Pair Inl e(2) by (cases e) (auto simp: record_context_built_def noncore_def)
        then show ?thesis using e(1) True by (simp add: sync_closed noncore_benign)
      next
        case False
        then obtain c' at q t2 where c': "e = Core c'"
            "run_apply (?s\<lparr>rs_next_seq := q\<rparr>) \<lparr>re_seq = q, re_occurred_at_ms = at, re_event = ?ev\<rparr> = (t2, Inl c')"
          using cause by blast
        have "validate_budget c = Inl c'"
        proof (cases "validate_budget c")
          case (Inr u)
          then show ?thesis using c'(2) accepted_seq [OF context_accepted [OF ph, of c n C]] by simp
        qed (use context_rejected [OF ph _ c'(2)] in simp)
        then obtain used budget where b: "c' = ContextBudgetExceeded used budget" using budget_error by blast
        have "record_context_built h ops run_id computer t c d =
            bind_prog (record_terminal_failure_with_computer h ops run_id computer
              (h_display h (Core (ContextBudgetExceeded used budget))) False)
            (\<lambda>_. err_prog (Core (ContextBudgetExceeded used budget))) d'"
          using Pair Inl e(2) c'(1) b by (simp add: record_context_built_def)
        then show ?thesis using e(1) ends [of "h_display h (Core (ContextBudgetExceeded used budget))" used budget "\<lambda>_. sync ?s' {}"]
          unfolding triple_def by simp
      qed
    qed
  qed
  then show ?thesis unfolding triple_def by blast
qed

definition begun :: "nat \<Rightarrow> TurnId \<Rightarrow> ('w, 'r, 'v) Driver \<Rightarrow> bool" where
  "begun i t d \<longleftrightarrow> (\<exists>c. sync (st (AwaitingModelResponse t (of_nat i) c) (of_nat i) (turn_at ` {..<Suc i})
     (call_at ` {..<i}) None) {} d) \<and> t = turn_at i"

lemma turns_Suc: "insert (turn_at i) (turn_at ` {..<i}) = turn_at ` {..<Suc i}"
    "insert (call_at i) (call_at ` {..<i}) = call_at ` {..<Suc i}"
  by (simp_all add: lessThan_Suc)

lemma requested_sync:
  "triple (sync (st (ReadyToRequestModel t n c) n T C None) F) (record_event ops (ModelRequested run_id t n m))
     (\<lambda>_. sync (st (AwaitingModelResponse t n c) n T C None) {}) aborted"
  by (rule record_to) (simp_all add: gate_open ensure_turn_def ensure_step_def)

lemma compaction_sync:
  assumes "awaits_context ph" "t \<notin> T"
  shows "triple (sync (st ph n T C None) F)
    (case hydration of
       Some (before, after, dropped) \<Rightarrow>
         if i = 0 \<and> dropped > 0
         then bind_prog (record_event ops (ContextCompacted run_id t before after 0 dropped)) (\<lambda>_. ok_prog ())
         else ok_prog ()
     | None \<Rightarrow> ok_prog ())
    (\<lambda>_ d. \<exists>pc. sync (st ph n T C pc) {} d \<and> (pc = None \<or> pc = Some t)) aborted"
proof -
  have keep: "triple (sync (st ph n T C pc) F) (ok_prog ()) (\<lambda>_ d. \<exists>pc. sync (st ph n T C pc) {} d \<and> (pc = None \<or> pc = Some t)) aborted"
    if "pc = None \<or> pc = Some t" for pc F
    by (rule triple_ok) (use that in \<open>auto intro: sync_weaken\<close>)
  have rec: "triple (sync (st ph n T C None) F) (record_event ops (ContextCompacted run_id t before after 0 dropped))
      (\<lambda>_. sync (st ph n T C (Some t)) {}) aborted" if "dropped > 0" for before after dropped
    by (rule record_to) (use assms that in \<open>auto simp: gate_open ensure_compaction_range_def ensure_new_turn_def\<close>)
  have "triple (sync (st ph n T C None) F)
      (bind_prog (record_event ops (ContextCompacted run_id t before after 0 dropped)) (\<lambda>_. ok_prog ()))
      (\<lambda>_ d. \<exists>pc. sync (st ph n T C pc) {} d \<and> (pc = None \<or> pc = Some t)) aborted" if "dropped > 0" for before after dropped
    by (rule triple_bind [OF rec [OF that] keep]) simp
  then show ?thesis using keep [of None] by (auto split: option.splits prod.splits)
qed

lemma begin_turn_sync:
  assumes h: "host_ok h" and su: "su_run_id su = run_id"
  shows "triple (ready (of_nat i) (turn_at ` {..<i}) (call_at ` {..<i})) (begin_turn h ops su computer i messages)
    (begun i) aborted"
proof -
  let ?t = "turn_at i" and ?T = "turn_at ` {..<i}" and ?C = "call_at ` {..<i}" and ?n = "of_nat i :: u32"
  have "triple (sync (st ph ?n ?T ?C None) {}) (begin_turn h ops su computer i messages) (begun i) aborted"
    if ph: "awaits_context ph" for ph
  proof -
    have can: "can_fail (rs_phase (st ph ?n ?T ?C None))" using ph by (cases ph) simp_all
    have ctx: "ok_or_noncore (h_context h messages i)" using h by (simp add: host_ok_def)
    have built: "triple (\<lambda>d. \<exists>pc. sync (st ph ?n ?T ?C pc) {} d \<and> (pc = None \<or> pc = Some ?t))
        (record_context_built h ops run_id computer ?t c)
        (\<lambda>_. sync (st (ReadyToRequestModel ?t ?n c) ?n (turn_at ` {..<Suc i}) ?C None) {}) aborted" for c
      using record_context_built_sync [OF h ph minted_fresh(1)] by (intro triple_ex triple_fact) (simp add: turns_Suc)
    have fin: "triple (sync (st (AwaitingModelResponse ?t ?n c) ?n (turn_at ` {..<Suc i}) ?C None) {}) (ok_prog ?t) (begun i) aborted" for c
      by (rule triple_ok) (auto simp: begun_def)
    have core: "triple (sync (st ph ?n ?T ?C None) {}) (core_prog (mint_turn_id i))
        (\<lambda>t d. sync (st ph ?n ?T ?C None) {} d \<and> t = ?t) aborted"
      by (rule triple_post [OF core_sync]) (simp_all add: minted)
    show ?thesis unfolding begin_turn_def Let_def su
      by (rule triple_bind [OF core], rule triple_fact, simp only:, rule triple_bind [OF app_any [OF ctx]],
          rule triple_bind [OF check_cancel_with_computer_sync [OF h can]], simp,
          rule triple_bind [OF compaction_sync [OF ph minted_fresh(1)]], rule triple_bind [OF built],
          rule triple_bind [OF requested_sync], rule fin)
  qed
  then show ?thesis unfolding ready_def by (intro triple_ex triple_fact)
qed

lemma wait_sync:
  assumes "host_ok h" "can_fail (rs_phase s)" "rs_run_id s = Some run_id"
  shows "triple (sync s F) (wait_for_retry h ops run_id computer polls) (\<lambda>_. sync s F) aborted"
  by (induction polls) (auto intro: triple_ok triple_bind check_cancel_with_computer_sync assms)

definition response_ok :: "(AppError, 'v ModelResponse) result \<Rightarrow> bool" where
  "response_ok r \<longleftrightarrow> ok_or_noncore r \<and>
     (\<forall>response. r = Inr response \<longrightarrow> list_all (\<lambda>(_, name, _). is_known_tool name) (tool_uses response))"

lemma send_sync:
  assumes "host_ok h"
  shows "triple (sync s F) (host (h_send h messages i)) (\<lambda>r d. sync s F d \<and> response_ok r) aborted"
proof -
  have "response_ok (snd (h_send h messages i w))" for w using assms by (auto simp: host_ok_def response_ok_def)
  then show ?thesis by (auto simp: triple_def host_def split: prod.splits) (metis snd_conv)
qed

lemma request_model_sync:
  assumes h: "host_ok h" and su: "su_run_id su = run_id"
  shows "triple (begun i t) (request_model h ops su computer i t messages) (\<lambda>r d. begun i t d \<and> response_ok r) aborted"
proof -
  let ?n = "of_nat i :: u32" and ?T = "turn_at ` {..<Suc i}" and ?C = "call_at ` {..<i}"
  let ?s = "\<lambda>c. st (AwaitingModelResponse t ?n c) ?n ?T ?C None" and ?r = "\<lambda>c. st (ReadyToRequestModel t ?n c) ?n ?T ?C None"
  have failed: "triple (sync (?s c) {}) (record_event ops (ModelFailed run_id t ?n why)) (\<lambda>_. sync (?r c) {}) aborted" for c why
    by (rule record_to) (simp_all add: gate_open ensure_turn_def ensure_step_def)
  have ok: "triple (sync (?s c) {}) (ok_prog r) (\<lambda>r d. sync (?s c) {} d \<and> response_ok r) aborted" if "response_ok r" for c r
    by (rule triple_ok) (use that in simp)
  have again: "triple (sync (?s c) {})
      (bind_prog (check_cancel_with_computer h ops run_id computer) (\<lambda>_.
       bind_prog (record_event ops (ModelFailed run_id t ?n why)) (\<lambda>_.
       bind_prog (host (h_retry_polls h delay)) (\<lambda>polls.
       bind_prog (wait_for_retry h ops run_id computer polls) (\<lambda>_.
       bind_prog (check_cancel_with_computer h ops run_id computer) (\<lambda>_.
       bind_prog (record_event ops (ModelRequested run_id t ?n (su_model su))) (\<lambda>_. host (h_send h messages i))))))))
      (\<lambda>r d. sync (?s c) {} d \<and> response_ok r) aborted" for c why delay
    by (rule triple_bind [OF check_cancel_with_computer_sync [OF h]], simp, simp, rule triple_bind [OF failed],
        rule triple_bind [OF host_sync], rule triple_bind [OF wait_sync [OF h]], simp, simp,
        rule triple_bind [OF check_cancel_with_computer_sync [OF h]], simp, simp, rule triple_bind [OF requested_sync],
        rule send_sync [OF h])
  have "triple (sync (?s c) {}) (request_model h ops su computer i t messages)
      (\<lambda>r d. sync (?s c) {} d \<and> response_ok r) aborted" for c
    unfolding request_model_def Let_def su
    by (rule triple_bind [OF send_sync [OF h]], rule triple_fact) (auto split: sum.splits option.splits intro: ok again)
  then have "triple (\<lambda>d. \<exists>c. sync (?s c) {} d) (request_model h ops su computer i t messages)
      (\<lambda>r d. (\<exists>c. sync (?s c) {} d) \<and> response_ok r) aborted"
    by (intro triple_ex) (rule triple_post, assumption, blast)
  then show ?thesis unfolding begun_def by (intro triple_fact) (rule triple_post, assumption, simp)
qed

lemma receive_sync:
  fixes h :: "('w, 'v) Host"
  assumes h: "host_ok h" and r: "response_ok r"
  shows "triple (begun i t) (receive_response h ops run_id computer r)
    (\<lambda>response d. begun i t d \<and> list_all (\<lambda>(_, name, _). is_known_tool name) (tool_uses response)) aborted"
proof (cases r)
  case (Inr response)
  then show ?thesis using r by (auto simp: receive_response_def response_ok_def intro: triple_ok)
next
  case (Inl e)
  have e: "benign (Err (if c then RunCanceled else e))" for c
    using r Inl by (auto simp: response_ok_def ok_or_noncore_def noncore_benign)
  have "triple (sync (st (AwaitingModelResponse t n c) n T C None) {}) (receive_response h ops run_id computer r) Q aborted"
    for n c T C and Q :: "'v ModelResponse \<Rightarrow> ('w, 'r, 'v) Driver \<Rightarrow> bool"
    unfolding receive_response_def Inl sum.case
    by (rule triple_bind [OF host_sync], rule triple_bind [OF fail_with_computer [OF h]], simp, simp)
      (rule triple_err, use e in simp)
  then show ?thesis unfolding begun_def by (intro triple_fact triple_ex)
qed

end

end
