(* ===== verification/Run_Turns.thy ===== *)
theory Run_Turns
  imports Run_Conformance
begin

text \<open>
  The second half of the driver against the run state machine: what it does with a response, a
  whole turn, the loop over the turns and the run.
\<close>

context run_recorder
begin

section \<open>A response\<close>

definition quiet :: "('w, 'r, 'v, 'a) prog \<Rightarrow> bool" where
  "quiet m \<longleftrightarrow> (\<forall>d d' x. m d = (d', Inr x) \<longrightarrow> dr_effects d' = dr_effects d)"

lemma quiet_host: "quiet (host f)"
  by (auto simp: quiet_def host_def split: prod.splits)

lemma quiet_cleanup: "quiet (cleanup_computer h computer)"
  by (cases computer) (auto simp: cleanup_computer_def quiet_def ok_prog_def host_def split: prod.splits)

lemma quiet_check_cancel: "quiet (check_cancel_with_computer h ops run_id computer)"
  by (auto simp: quiet_def check_cancel_with_computer_def bind_prog_def host_def ok_prog_def err_prog_def
      fail_run_with_computer_def split: prod.splits sum.splits if_splits)

lemma triple_frame:
  "triple P m Q E \<Longrightarrow> quiet m \<Longrightarrow> triple (\<lambda>d. P d \<and> R (dr_effects d)) m (\<lambda>x d. Q x d \<and> R (dr_effects d)) E"
  by (fastforce simp: triple_def quiet_def split: prod.splits sum.splits)

definition answered :: "rstr \<Rightarrow> ('w, 'r, 'v) Driver \<Rightarrow> bool" where
  "answered text d \<longleftrightarrow> closed d \<and> (\<exists>es rec turn_id step served usage fin.
     dr_effects d = es @ [Ledger rec, Ledger fin]
     \<and> re_event rec = ModelResponded run_id turn_id step \<lparr>msg_role = Assistant, msg_content = text\<rparr> [] served usage
     \<and> re_event fin = RunFinished run_id)"

lemma finish_sync:
  assumes h: "host_ok h"
  shows "triple (\<lambda>d. sync (st TurnConcluded n T C None) F d
      \<and> latest (ModelResponded run_id t i \<lparr>msg_role = Assistant, msg_content = text\<rparr> [] served usage) (dr_effects d))
    (record_terminal_success_with_computer h ops run_id computer text) (\<lambda>_. answered text) aborted"
  (is "triple (\<lambda>d. sync ?s F d \<and> latest ?ev (dr_effects d)) _ _ _")
  unfolding record_terminal_success_with_computer_def
proof (rule triple_bind [OF triple_frame [OF cleanup_sync [OF h] quiet_cleanup]])
  fix cleaned :: "(AppError, unit) result"
  show "triple (\<lambda>d. (sync ?s F d \<and> ok_or_noncore cleaned) \<and> latest ?ev (dr_effects d))
      (case cleaned of Inl error \<Rightarrow> bind_prog (record_terminal_failure ops run_id (h_display h error) False) (\<lambda>_. err_prog error)
       | Inr _ \<Rightarrow> acknowledged (\<lambda>r. rr_finish_run ops r run_id text)) (\<lambda>_. answered text) aborted"
  proof (cases cleaned)
    case (Inl e)
    have "triple (\<lambda>d. sync ?s F d \<and> noncore e) (bind_prog (record_terminal_failure ops run_id (h_display h e) False) (\<lambda>_. err_prog e))
        (\<lambda>_. answered text) aborted"
      by (rule triple_fact, rule triple_bind [OF terminal_failure], simp, simp) (rule triple_err, simp add: noncore_benign)
    then show ?thesis unfolding Inl sum.case by (rule triple_pre) (auto simp: ok_or_noncore_def)
  next
    case (Inr u)
    have acc: "apply_event ?s (RunFinished run_id) = (st RunPhase.Finished n T C None, Inr ())" by (simp add: gate_open)
    have "triple (\<lambda>d. sync ?s F d \<and> latest ?ev (dr_effects d)) (acknowledged (\<lambda>r. rr_finish_run ops r run_id text))
        (\<lambda>_ d. closed d \<and> (\<exists>es rec. dr_effects d = es @ [Ledger rec] \<and> re_event rec = RunFinished run_id \<and> latest ?ev es)) aborted"
      (is "triple ?P ?m ?Q _")
      by (rule terminal_step [OF _ _ acc]) (use finish_ok finish_core in auto)
    moreover have "answered text d"
      if ends: "closed d" "dr_effects d = es @ [Ledger fin]" "re_event fin = RunFinished run_id" "latest ?ev es" for d es fin
    proof -
      obtain rec where "es = butlast es @ [Ledger rec]" "re_event rec = ?ev"
        using ends(4) unfolding latest_def by (metis append_butlast_last_id)
      then have "dr_effects d = butlast es @ [Ledger rec, Ledger fin]" using ends(2) by (metis append.assoc append_Cons append_Nil)
      then show ?thesis using ends(1,3) \<open>re_event rec = ?ev\<close> unfolding answered_def by blast
    qed
    ultimately have "triple ?P ?m (\<lambda>_. answered text) aborted" by - (erule triple_post, blast)
    then show ?thesis unfolding Inr sum.case by (rule triple_pre) simp
  qed
qed

lemma collect_head:
  assumes "collect_proposals ((u, name, input) # uses) = Inr ps"
  shows "\<exists>tool rest. ToolName_new name = Inr tool \<and> ps = \<lparr>tp_tool = tool, tp_input = input\<rparr> # rest"
  using assms by (auto simp: result_simps)

lemma collect_empty: "collect_proposals uses = Inr ps \<Longrightarrow> ps = [] \<longleftrightarrow> uses = []"
  by (cases uses) (auto simp: result_simps)

lemma collect_error: "collect_proposals uses = Inl e \<Longrightarrow> \<exists>n. e = EmptyIdentifier n"
proof (induction uses)
  case (Cons u uses)
  then show ?case by (cases u) (auto simp: result_simps dest: tool_name.new_error)
qed simp

lemma output_ready:
  assumes "is_known_tool name"
  shows "triple (ready n T C) (output_prog name content) (\<lambda>_. ready n T C) aborted"
  using known_tool_output [OF assms, of content]
  by (auto simp: output_prog_def triple_def ok_prog_def)

lemma extra_ready:
  "list_all (\<lambda>(_, name, _). is_known_tool name) uses \<Longrightarrow>
     triple (ready n T C) (answer_extra_calls uses messages) (\<lambda>_. ready n T C) aborted"
proof (induction uses messages rule: answer_extra_calls.induct)
  case (2 u name input uses messages)
  then show ?case by (auto intro!: triple_bind [OF output_ready])
qed (auto intro: triple_ok)

lemma run_first_call_sync:
  assumes h: "host_ok h" and su: "su_run_id su = run_id" and uses: "list_all (\<lambda>(_, name, _). is_known_tool name) (use # uses)"
    and ps: "collect_proposals (use # uses) = Inr ps" and t: "t = turn_at i"
  shows "triple (sync (st (AwaitingToolCall t ps) n T (call_at ` {..<i}) None) F)
    (run_first_call h ops su computer i t use uses messages)
    (\<lambda>e d. ready n T (call_at ` {..<Suc i}) d \<and> (\<exists>messages. e = NextTurn messages)) aborted"
proof -
  obtain u name input where use: "use = (u, name, input)" by (cases use)
  obtain tool rest where tool: "ToolName_new name = Inr tool" "ps = \<lparr>tp_tool = tool, tp_input = input\<rparr> # rest"
    using collect_head [OF ps [unfolded use]] by blast
  define call where "call = \<lparr>tc_id = call_at i, tc_tool = tool, tc_effect = effect_for_tool name, tc_input = input\<rparr>"
  have call: "tool_call (call_at i) name input = Inr call" by (simp add: tool_call_def tool(1) call_def)
  let ?s = "st (AwaitingToolCall t ps) n T (call_at ` {..<i}) None"
  let ?s' = "st (AwaitingPolicy call) n T (call_at ` {..<Suc i}) None" and ?ev = "ToolCallProposed run_id t call"
  have "apply_event ?s ?ev = (?s', Inr ())"
    using minted_fresh(2) [of i]
    by (simp add: gate_open ensure_turn_def ensure_proposed_def ensure_new_tool_call_def tool(2) call_def flip: turns_Suc)
  then have proposed: "triple (sync ?s F) (record_event ops ?ev) (\<lambda>_. sync ?s' (insert ?ev F)) aborted"
    by (rule record_to) simp_all
  have known: "is_known_tool name" "list_all (\<lambda>(_, name, _). is_known_tool name) uses" using uses by (simp_all add: use)
  have cores: "core_prog (mint_tool_call_id i) = ok_prog (call_at i)" "core_prog (tool_call (call_at i) name input) = ok_prog call"
    by (simp_all add: core_prog_def minted call)
  let ?C = "call_at ` {..<Suc i}"
  have extra: "triple (ready n T ?C) (bind_prog (answer_extra_calls uses ms) (\<lambda>ms. ok_prog (NextTurn ms)))
      (\<lambda>e d. ready n T ?C d \<and> (\<exists>ms. e = NextTurn ms)) aborted" for ms
    by (rule triple_bind [OF extra_ready [OF known(2)]], rule triple_ok) simp
  have called: "triple (sync ?s' (insert ?ev F)) (run_tool_call h ops su computer call) (\<lambda>_. ready n T ?C) aborted"
    by (rule run_tool_call_sync [OF h _ su, of t]) simp
  show ?thesis unfolding run_first_call_def use prod.case cores bind_ok su
    by (rule triple_bind [OF proposed], rule triple_bind [OF called], rule triple_bind [OF output_ready [OF known(1)]], rule extra)
qed

definition turn_ended :: "nat \<Rightarrow> 'v TurnEnd \<Rightarrow> ('w, 'r, 'v) Driver \<Rightarrow> bool" where
  "turn_ended i e d \<longleftrightarrow> (case e of
     NextTurn _ \<Rightarrow> ready (of_nat (Suc i)) (turn_at ` {..<Suc i}) (call_at ` {..<Suc i}) d
   | Answered text \<Rightarrow> answered text d)"

lemma responded_sync:
  assumes "t = turn_at i"
  shows "triple (sync (st (AwaitingModelResponse t (of_nat i) c) (of_nat i) T C None) {})
    (record_event ops (ModelResponded run_id t (of_nat i) out ps served usage))
    (\<lambda>_ d. sync (st (if ps = [] then TurnConcluded else AwaitingToolCall t ps) (of_nat (Suc i)) T C None) {} d
       \<and> latest (ModelResponded run_id t (of_nat i) out ps served usage) (dr_effects d)) aborted"
proof -
  let ?ev = "ModelResponded run_id t (of_nat i) out ps served usage"
  have "triple (sync (st (AwaitingModelResponse t (of_nat i) c) (of_nat i) T C None) {}) (record_event ops ?ev)
      (\<lambda>_ d. sync (st (if ps = [] then TurnConcluded else AwaitingToolCall t ps) (of_nat (Suc i)) T C None) (insert ?ev {}) d
        \<and> latest ?ev (dr_effects d)) aborted"
    by (rule record_step) (auto simp: gate_open ensure_turn_def ensure_step_def add.commute)
  then show ?thesis by (rule triple_post) (auto intro: sync_weaken)
qed

text \<open>After the response is recorded, every branch of the driver ends the turn or the run.\<close>

lemma after_response_sync:
  fixes h :: "('w, 'v) Host"
  assumes h: "host_ok h" and su: "su_run_id su = run_id" and t: "t = turn_at i"
    and known: "list_all (\<lambda>(_, name, _). is_known_tool name) (tool_uses response)"
    and ps: "collect_proposals (tool_uses response) = Inr ps"
  shows "triple (\<lambda>d. sync (st (if ps = [] then TurnConcluded else AwaitingToolCall t ps) (of_nat (Suc i)) (turn_at ` {..<Suc i})
        (call_at ` {..<i}) None) {} d \<and> latest (ModelResponded run_id t (of_nat i)
          \<lparr>msg_role = Assistant, msg_content = response_text response\<rparr> ps served usage) (dr_effects d))
     (if mr_stop response = ToolUse \<and> tool_uses response = []
      then fail_run_with_computer h ops run_id computer (lit ''provider reported tool use without tool calls'') False
      else if tool_uses response = [] then
        bind_prog (record_terminal_success_with_computer h ops run_id computer (response_text response))
          (\<lambda>_. ok_prog (Answered (response_text response)))
      else if \<not> distinct (map fst (tool_uses response))
      then fail_run_with_computer h ops run_id computer (lit ''provider returned duplicate tool call ids'') False
      else run_first_call h ops su computer i t (hd (tool_uses response)) (tl (tool_uses response)) messages)
     (turn_ended i) aborted" (is "triple (\<lambda>d. sync ?s {} d \<and> ?L d) _ _ _")
proof -
  have fails: "triple (\<lambda>d. sync ?s {} d \<and> ?L d) (fail_run_with_computer h ops run_id computer why False) (turn_ended i) aborted" for why
    by (rule triple_pre [OF fail_run_with_computer_sync [OF h]]) auto
  have empty: "ps = [] \<longleftrightarrow> tool_uses response = []" using collect_empty [OF ps] .
  have answers: "triple (\<lambda>d. sync ?s {} d \<and> ?L d)
      (bind_prog (record_terminal_success_with_computer h ops run_id computer (response_text response))
        (\<lambda>_. ok_prog (Answered (response_text response)))) (turn_ended i) aborted" if none: "ps = []"
  proof (rule triple_bind)
    show "triple (\<lambda>d. sync ?s {} d \<and> ?L d) (record_terminal_success_with_computer h ops run_id computer (response_text response))
        (\<lambda>_. answered (response_text response)) aborted"
      unfolding none by (simp only: if_True refl) (rule finish_sync [OF h])
  qed (rule triple_ok, simp add: turn_ended_def)
  have calls: "triple (\<lambda>d. sync ?s {} d \<and> ?L d)
      (run_first_call h ops su computer i t (hd (tool_uses response)) (tl (tool_uses response)) messages)
      (turn_ended i) aborted" if some: "tool_uses response \<noteq> []"
  proof -
    let ?n = "of_nat (Suc i) :: u32"
    have "triple (sync (st (AwaitingToolCall t ps) ?n (turn_at ` {..<Suc i}) (call_at ` {..<i}) None) {})
        (run_first_call h ops su computer i t (hd (tool_uses response)) (tl (tool_uses response)) messages)
        (\<lambda>e d. ready ?n (turn_at ` {..<Suc i}) (call_at ` {..<Suc i}) d \<and> (\<exists>messages. e = NextTurn messages)) aborted"
      by (rule run_first_call_sync [OF h su _ _ t]) (use known ps some in simp_all)
    then have "triple (sync (st (AwaitingToolCall t ps) ?n (turn_at ` {..<Suc i}) (call_at ` {..<i}) None) {})
        (run_first_call h ops su computer i t (hd (tool_uses response)) (tl (tool_uses response)) messages) (turn_ended i) aborted"
      by (rule triple_post) (auto simp: turn_ended_def)
    then show ?thesis by (rule triple_pre) (use empty some in auto)
  qed
  show ?thesis by (intro triple_if fails answers calls) (simp_all add: empty)
qed

lemma handle_response_sync:
  fixes h :: "('w, 'v) Host"
  assumes h: "host_ok h" and su: "su_run_id su = run_id"
    and known: "list_all (\<lambda>(_, name, _). is_known_tool name) (tool_uses response)"
  shows "triple (begun i t) (handle_response h ops su computer i t messages response) (turn_ended i) aborted"
proof -
  let ?n = "of_nat i :: u32" and ?T = "turn_at ` {..<Suc i}" and ?C = "call_at ` {..<i}"
  let ?out = "\<lparr>msg_role = Assistant, msg_content = response_text response\<rparr>"
  have "triple (sync (st (AwaitingModelResponse t ?n c) ?n ?T ?C None) {})
      (handle_response h ops su computer i t messages response) (turn_ended i) aborted" if t: "t = turn_at i" for c
    unfolding handle_response_def Let_def su proposals_from_response_def
  proof (rule triple_bind [OF core_sync], erule collect_error, rule triple_fact, rule triple_bind [OF responded_sync [OF t]], goal_cases)
    case (1 ps rec)
    let ?s = "st (if ps = [] then TurnConcluded else AwaitingToolCall t ps) (of_nat (Suc i)) ?T ?C None"
    let ?L = "\<lambda>d. latest (ModelResponded run_id t ?n ?out ps (mr_served_model response) (mr_usage response)) (dr_effects d)"
    have fails: "triple (\<lambda>d. sync ?s {} d \<and> ?L d) (fail_run_with_computer h ops run_id computer why False) (turn_ended i) aborted" for why
      by (rule triple_pre [OF fail_run_with_computer_sync [OF h]]) auto
    have goes: "triple (\<lambda>d. sync ?s {} d \<and> ?L d) (check_cancel_with_computer h ops run_id computer) (\<lambda>_ d. sync ?s {} d \<and> ?L d) aborted"
      by (rule triple_frame [OF check_cancel_with_computer_sync [OF h] quiet_check_cancel]) auto
    show ?case
      by (rule triple_if, rule fails, rule triple_if, rule fails,
          rule triple_bind [OF goes after_response_sync [OF h su t known 1]])
  qed
  then show ?thesis unfolding begun_def by (intro triple_fact triple_ex)
qed

lemma run_turn_sync:
  assumes h: "host_ok h" and su: "su_run_id su = run_id"
  shows "triple (ready (of_nat i) (turn_at ` {..<i}) (call_at ` {..<i})) (run_turn h ops su computer i messages)
    (turn_ended i) aborted"
  unfolding run_turn_def su
  by (rule triple_bind [OF begin_turn_sync [OF h su]], rule triple_bind [OF request_model_sync [OF h su]], rule triple_fact,
      rule triple_bind [OF receive_sync [OF h]], assumption, rule triple_fact, erule handle_response_sync [OF h su])

definition concluded :: "RunOutcome \<Rightarrow> ('w, 'r, 'v) Driver \<Rightarrow> bool" where
  "concluded out d \<longleftrightarrow> ro_run_id out = run_id \<and> answered (ro_final_answer out) d"

lemma run_turns_sync:
  fixes h :: "('w, 'v) Host"
  assumes h: "host_ok h" and su: "su_run_id su = run_id"
  shows "i \<le> m \<Longrightarrow> triple (ready (of_nat i) (turn_at ` {..<i}) (call_at ` {..<i})) (run_turns h ops su computer [i ..< m] messages)
    concluded aborted"
proof (induction "[i ..< m]" arbitrary: i messages)
  case Nil
  have "triple (sync (st ph n T C None) {}) (fail_run_with_computer h ops run_id computer why False) concluded aborted"
    if "awaits_context ph" for ph n T C why
    by (rule fail_run_with_computer_sync [OF h]) (use that in \<open>cases ph; simp\<close>)+
  then show ?case unfolding Nil(1) [symmetric] run_turns.simps su ready_def by (intro triple_ex triple_fact)
next
  case (Cons j js)
  have "i < m" using Cons(2) by (cases "i < m") simp_all
  then have unf: "[i ..< m] = i # [Suc i ..< m]" by (rule upt_conv_Cons)
  then have j: "js = [Suc i ..< m]" "Suc i \<le> m" using Cons(2) \<open>i < m\<close> by simp_all
  have "triple (turn_ended i e) (case e of NextTurn messages \<Rightarrow> run_turns h ops su computer [Suc i ..< m] messages
      | Answered answer \<Rightarrow> ok_prog \<lparr>ro_run_id = run_id, ro_final_answer = answer\<rparr>) concluded aborted" for e
  proof (cases e)
    case (NextTurn ms)
    show ?thesis unfolding NextTurn TurnEnd.case
      by (rule triple_pre [OF Cons(1) [OF j]]) (simp add: turn_ended_def)
  next
    case (Answered a)
    show ?thesis unfolding Answered TurnEnd.case by (rule triple_ok) (simp add: turn_ended_def concluded_def)
  qed
  then show ?case unfolding unf run_turns.simps su by (rule triple_bind [OF run_turn_sync [OF h su]])
qed

lemma start_computer_sync:
  assumes h: "host_ok h" and su: "su_run_id su = run_id" and s: "can_fail (rs_phase s)" "rs_run_id s = Some run_id"
  shows "triple (sync s F) (start_computer h ops su) (\<lambda>_. sync s F) aborted"
proof -
  have "ok_or_noncore (snd (h_computer_new h w))" for w using h by (simp add: host_ok_def)
  then have new: "triple (sync s F) (host (h_computer_new h)) (\<lambda>r d. sync s F d \<and> ok_or_noncore r) aborted"
    by (auto simp: triple_def host_def split: prod.splits) (metis snd_conv)
  have "triple (sync s F) (case r of Inr _ \<Rightarrow> ok_prog True
      | Inl e \<Rightarrow> bind_prog (record_terminal_failure ops run_id (h_display h e) False) (\<lambda>_. err_prog e)) (\<lambda>_. sync s F) aborted"
    if "ok_or_noncore r" for r
    using that by (cases r) (auto simp: ok_or_noncore_def noncore_benign intro!: triple_ok triple_err triple_bind [OF terminal_failure [OF s]])
  then show ?thesis unfolding start_computer_def su
    by (auto intro!: triple_ok triple_bind [OF new] triple_fact)
qed

text \<open>The whole run, from the recorder of a new run.\<close>

theorem run_prepared_question_sync:
  assumes h: "host_ok h" and su: "su_run_id su = run_id"
    and fresh: "inv (dr_recorder d)" "state (dr_recorder d) = RunState_new" "dr_effects d = []"
  shows "case run_prepared_question h ops su messages d of
      (d', Inr out) \<Rightarrow> concluded out d' | (d', Inl e) \<Rightarrow> aborted e d'"
proof -
  let ?s = "st ReadyForContext 0 {} {} None" and ?ev = "RunStarted \<lparr>rse_run_id = run_id, rse_identity = su_identity su\<rparr>"
  have new: "RunState_new = RunState_new\<lparr>rs_next_seq := 0\<rparr>" by (simp add: RunState_new_def)
  have init: "sync RunState_new {} d"
    unfolding sync_def using fresh new by (intro conjI exI [of _ 0]) auto
  have started: "triple (sync RunState_new {}) (record_event ops ?ev) (\<lambda>_. sync ?s {}) aborted"
    by (rule record_to) (simp_all add: apply_event_def compaction_gate_def RunState_new_def st_def)
  have turns: "triple (sync ?s {}) (run_turns h ops su c [0 ..< m] messages) concluded aborted" for c m
    by (rule triple_pre [OF run_turns_sync [OF h su]]) (auto simp: ready_def)
  have "triple (sync RunState_new {}) (run_prepared_question h ops su messages) concluded aborted"
    unfolding run_prepared_question_def su
    by (rule triple_bind [OF started], rule triple_bind [OF start_computer_sync [OF h su]], simp, simp, rule turns)
  then show ?thesis using init by (rule triple_use)
qed

end

end
