(* ===== verification/Run_Frame.thy ===== *)
theory Run_Frame
  imports Driver_Logic
begin

text \<open>
  The driver reaches its recorder only through the three calls of the interface and sends exactly
  the records they acknowledge: a relation between the recorder and the sent records that the
  three calls keep is kept by the whole run, however it ends.
\<close>

named_theorems frame

locale recorder_relation =
  fixes ops :: "('r, 'v) RunEventRecorder"
    and R :: "'r \<Rightarrow> 'v RecordedEvent list \<Rightarrow> bool"
  assumes record_keeps: "R r log \<Longrightarrow> rr_record ops r ev = (r', x) \<Longrightarrow>
      (case x of Inl _ \<Rightarrow> R r' log | Inr rec \<Rightarrow> R r' (log @ [rec]))"
    and finish_keeps: "R r log \<Longrightarrow> rr_finish_run ops r run_id answer = (r', x) \<Longrightarrow>
      (case x of Inl _ \<Rightarrow> R r' log | Inr rec \<Rightarrow> R r' (log @ [rec]))"
    and fail_keeps: "R r log \<Longrightarrow> rr_fail_run ops r run_id why canceled = (r', x) \<Longrightarrow>
      (case x of Inl _ \<Rightarrow> R r' log | Inr rec \<Rightarrow> R r' (log @ [rec]))"
begin

abbreviation related :: "('w, 'r, 'v) Driver \<Rightarrow> bool" where
  "related d \<equiv> R (dr_recorder d) (ledger_of (dr_effects d))"

definition keeps :: "('w, 'r, 'v, 'a) prog \<Rightarrow> bool" where
  "keeps m \<longleftrightarrow> (\<forall>d. related d \<longrightarrow> related (fst (m d)))"

lemma keepsD: "keeps m \<Longrightarrow> related d \<Longrightarrow> related (fst (m d))"
  by (simp add: keeps_def)

lemma keeps_prims [frame]: "keeps (ok_prog x)" "keeps (err_prog e)" "keeps panic_prog" "keeps (host f)"
  by (simp_all add: keeps_def ok_prog_def err_prog_def panic_prog_def host_def split: prod.splits)

lemma keeps_lifts [frame]: "keeps (app_prog r)" "keeps (core_prog r')"
  by (cases r; simp add: app_prog_def frame) (cases r'; simp add: core_prog_def frame)

lemma keeps_bind [frame]: "keeps m \<Longrightarrow> (\<And>x. keeps (f x)) \<Longrightarrow> keeps (bind_prog m f)"
  unfolding keeps_def bind_prog_def by (fastforce split: prod.splits sum.splits)

lemma keeps_acknowledged:
  assumes "\<And>r log r' x. R r log \<Longrightarrow> f r = (r', x) \<Longrightarrow> (case x of Inl _ \<Rightarrow> R r' log | Inr rec \<Rightarrow> R r' (log @ [rec]))"
  shows "keeps (acknowledged f)"
  using assms unfolding keeps_def acknowledged_def by (fastforce split: prod.splits sum.splits)

lemma keeps_calls [frame]:
  "keeps (record_event ops ev)" "keeps (record_terminal_failure ops run_id why canceled)"
  "keeps (acknowledged (\<lambda>r. rr_finish_run ops r run_id answer))"
  unfolding record_event_def record_terminal_failure_def
  by (rule keeps_acknowledged, (erule (1) record_keeps finish_keeps fail_keeps))+

lemma keeps_execute [frame]: "keeps (execute_tool h call actor)"
  by (simp add: keeps_def execute_tool_def host_def split: prod.splits)

lemma keeps_terminal [frame]:
  "keeps (cleanup_computer h computer)" "keeps (fail_run ops run_id why canceled)" "keeps (check_cancel h ops run_id)"
  unfolding cleanup_computer_def fail_run_def check_cancel_def by (auto intro!: frame)

lemma keeps_terminal_with_computer [frame]:
  "keeps (record_terminal_success_with_computer h ops run_id computer answer)"
  "keeps (record_terminal_failure_with_computer h ops run_id computer why canceled)"
  unfolding record_terminal_success_with_computer_def record_terminal_failure_with_computer_def
  by (auto intro!: frame split: sum.splits)

lemma keeps_cancel_with_computer [frame]:
  "keeps (fail_run_with_computer h ops run_id computer why canceled)"
  "keeps (check_cancel_with_computer h ops run_id computer)"
  unfolding check_cancel_with_computer_def fail_run_with_computer_def by (auto intro!: frame)

lemma keeps_context_built [frame]:
  fixes h :: "('w, 'v) Host"
  shows "keeps (record_context_built h ops run_id computer turn_id context)"
proof -
  have ends: "related (fst (bind_prog (record_terminal_failure_with_computer h ops run_id computer why False)
      (\<lambda>_. err_prog e :: ('w, 'r, 'v, unit) prog) d))"
    if "related d" for why e and d :: "('w, 'r, 'v) Driver"
    by (rule keepsD [OF _ that]) (intro frame)
  have "related (fst (record_context_built h ops run_id computer turn_id context d))" if d: "related d" for d :: "('w, 'r, 'v) Driver"
  proof -
    have "related (fst (record_event ops (ContextBuilt run_id turn_id context) d))"
      by (rule keepsD [OF keeps_calls(1) d])
    then show ?thesis using ends
      by (auto simp: record_context_built_def split: prod.splits sum.splits Abort.splits AppError.splits Error.splits)
  qed
  then show ?thesis by (simp add: keeps_def)
qed

lemma keeps_execute_and_record [frame]: "keeps (execute_and_record_tool h ops run_id call actor)"
  unfolding execute_and_record_tool_def by (auto intro!: frame split: sum.splits)

lemma keeps_approval_parts [frame]:
  "keeps (grant_computer_approval h computer call)" "keeps (deny_computer_approval h computer call)"
  "keeps (run_approval_preview h computer call)" "keeps (record_approval_preview_denial h ops run_id call_id error)"
  unfolding grant_computer_approval_def deny_computer_approval_def run_approval_preview_def record_approval_preview_denial_def
  by (auto intro!: frame)

lemma keeps_decisions [frame]:
  "keeps (grant_and_execute h ops run_id computer call actor)" "keeps (deny_and_answer h ops run_id computer call actor reason)"
  unfolding grant_and_execute_def deny_and_answer_def by (intro frame)+

lemma keeps_obtain_approval [frame]: "keeps (obtain_approval h ops su computer call reason)"
  unfolding obtain_approval_def Let_def
  by (auto intro!: frame split: option.splits sum.splits ExternalApprovalOutcome.splits ApprovalOutcome.splits)

lemma keeps_run_tool_call [frame]: "keeps (run_tool_call h ops su computer call)"
  unfolding run_tool_call_def call_policy_def Let_def by (auto intro!: frame split: PolicyDecision.splits)

lemma keeps_wait [frame]: "keeps (wait_for_retry h ops run_id computer polls)"
  by (induction polls) (auto intro!: frame)

lemma keeps_begin_turn [frame]: "keeps (begin_turn h ops su computer i messages)"
  unfolding begin_turn_def Let_def by (auto intro!: frame split: option.splits prod.splits)

lemma keeps_request [frame]: "keeps (request_model h ops su computer i t messages)" "keeps (receive_response h ops run_id computer r)"
  unfolding request_model_def receive_response_def Let_def by (auto intro!: frame split: sum.splits option.splits)

lemma keeps_answer [frame]: "keeps (output_prog name content)" "keeps (answer_extra_calls uses messages)"
proof -
  show out: "keeps (output_prog name content)" for name content
    unfolding output_prog_def by (auto intro!: frame split: option.splits)
  show "keeps (answer_extra_calls uses messages)"
    by (induction uses messages rule: answer_extra_calls.induct) (auto intro!: frame out)
qed

lemma keeps_turn [frame]: "keeps (run_turn h ops su computer i messages)"
  unfolding run_turn_def handle_response_def run_first_call_def Let_def by (auto intro!: frame split: prod.splits)

lemma keeps_turns [frame]: "keeps (run_turns h ops su computer turns messages)"
  by (induction turns arbitrary: messages) (auto intro!: frame split: TurnEnd.splits)

lemma keeps_run: "keeps (run_prepared_question h ops su messages)"
  unfolding run_prepared_question_def start_computer_def by (auto intro!: frame split: sum.splits)

lemma run_keeps: "related d \<Longrightarrow> run_prepared_question h ops su messages d = (d', x) \<Longrightarrow> related d'"
  using keepsD [OF keeps_run, of d h su messages] by simp

end

end
