(* ===== verification/Session_Store.thy ===== *)
theory Session_Store
  imports Ledger_Records
begin

text \<open>
  The SQLite ledger of \<open>ledger/sqlite.rs\<close> and \<open>ledger/replay.rs\<close>: the tables \<open>sessions\<close>,
  \<open>session_runs\<close> and \<open>ledger_events\<close> as lists of rows, one definition per transaction. A
  transaction that reports an error leaves the tables as they were (it is rolled back when it is
  dropped). The argument \<open>db\<close> is false when SQLite itself fails a statement; the transaction then
  reports \<open>Sqlite\<close>. \<open>PRIMARY KEY\<close> and \<open>UNIQUE\<close> constraints fail the insert the same way. JSON
  text of events is written and read by \<open>serde_json\<close>, a parameter of the model.
\<close>

section \<open>Tables\<close>

record SessionRow =
  sn_session_id :: rstr
  sn_created_at_ms :: int
  sn_updated_at_ms :: int

record SessionRunRow =
  sr_session_id :: rstr
  sr_run_id :: rstr
  sr_session_index :: int
  sr_question :: rstr
  sr_final_answer :: "rstr option"
  sr_status :: RunStateName
  sr_error :: "rstr option"
  sr_created_at_ms :: int
  sr_updated_at_ms :: int

record EventRow =
  er_run_id :: rstr
  er_seq :: int
  er_occurred_at_ms :: int
  er_v :: u32
  er_event_json :: rstr

record SqliteLedger =
  lg_sessions :: "SessionRow list"
  lg_session_runs :: "SessionRunRow list"
  lg_ledger_events :: "EventRow list"

record 'v event_json =
  to_string :: "'v HarnessEvent \<Rightarrow> rstr"
  from_str :: "rstr \<Rightarrow> 'v HarnessEvent option"

text \<open>A freshly migrated database.\<close>

definition ledger_empty :: SqliteLedger where
  "ledger_empty = \<lparr>lg_sessions = [], lg_session_runs = [], lg_ledger_events = []\<rparr>"

section \<open>Integers\<close>

text \<open>\<open>9223372036854775807\<close> is \<open>i64::MAX\<close>.\<close>

definition sqlite_i64 :: "u64 \<Rightarrow> string \<Rightarrow> (AppError, int) result" where
  "sqlite_i64 value fld =
     (if value \<le> 9223372036854775807 then Inr (uint value)
      else Inl (Config (lit ''ledger '' @ lit fld @ lit '' exceeds sqlite integer: '' @ decimal (unat value))))"

definition row_u64 :: "int \<Rightarrow> (AppError, u64) result" where
  "row_u64 value = (if 0 \<le> value then Inr (of_int value) else Inl Sqlite)"

section \<open>Statements\<close>

definition session_exists_in :: "SqliteLedger \<Rightarrow> rstr \<Rightarrow> bool" where
  "session_exists_in l sid = list_ex (\<lambda>row. sn_session_id row = sid) (lg_sessions l)"

definition session_runs_of :: "SqliteLedger \<Rightarrow> rstr \<Rightarrow> SessionRunRow list" where
  "session_runs_of l sid =
     sort_key sr_session_index (filter (\<lambda>row. sr_session_id row = sid) (lg_session_runs l))"

definition active_run_in :: "SqliteLedger \<Rightarrow> rstr \<Rightarrow> rstr option" where
  "active_run_in l sid =
     map_option sr_run_id (find (\<lambda>row. sr_status row = RunStateName.Running) (session_runs_of l sid))"

definition touch_session :: "SqliteLedger \<Rightarrow> rstr \<Rightarrow> int \<Rightarrow> SqliteLedger" where
  "touch_session l sid now =
     l\<lparr>lg_sessions := map (\<lambda>row. if sn_session_id row = sid then row\<lparr>sn_updated_at_ms := now\<rparr> else row)
                        (lg_sessions l)\<rparr>"

definition next_session_index :: "SqliteLedger \<Rightarrow> rstr \<Rightarrow> int" where
  "next_session_index l sid =
     (case map sr_session_index (session_runs_of l sid) of
        [] \<Rightarrow> 0 | i # is \<Rightarrow> foldl max i is + 1)"

definition is_running_row :: "rstr \<Rightarrow> SessionRunRow \<Rightarrow> bool" where
  "is_running_row run_id row \<longleftrightarrow> sr_run_id row = run_id \<and> sr_status row = RunStateName.Running"

definition running_session :: "SqliteLedger \<Rightarrow> rstr \<Rightarrow> rstr option" where
  "running_session l run_id = map_option sr_session_id (find (is_running_row run_id) (lg_session_runs l))"

definition update_running_session_outcome ::
  "SqliteLedger \<Rightarrow> rstr \<Rightarrow> RunStateName \<Rightarrow> rstr option \<Rightarrow> rstr option \<Rightarrow> int \<Rightarrow> (AppError, SqliteLedger) result" where
  "update_running_session_outcome l run_id status answer error now =
     (if \<not> list_ex (is_running_row run_id) (lg_session_runs l) then Inl (RunNotFound run_id)
      else Inr (l\<lparr>lg_session_runs := map (\<lambda>row.
             if is_running_row run_id row
             then row\<lparr>sr_status := status, sr_final_answer := answer, sr_error := error,
                      sr_updated_at_ms := now\<rparr>
             else row) (lg_session_runs l)\<rparr>))"

definition append_record_in ::
  "'v event_json \<Rightarrow> SqliteLedger \<Rightarrow> rstr \<Rightarrow> 'v RecordedEvent \<Rightarrow> (AppError, SqliteLedger) result" where
  "append_record_in js l run_id rec =
     and_then (validate_ledger_identity LEDGER_VERSION (re_event rec)) (\<lambda>_.
     and_then (sqlite_i64 (re_seq rec) ''seq'') (\<lambda>seq.
     and_then (sqlite_i64 (re_occurred_at_ms rec) ''occurred_at_ms'') (\<lambda>at.
       case find (\<lambda>row. er_run_id row = run_id \<and> er_seq row = seq) (lg_ledger_events l) of
         None \<Rightarrow>
           Inr (l\<lparr>lg_ledger_events := lg_ledger_events l @
             [\<lparr>er_run_id = run_id, er_seq = seq, er_occurred_at_ms = at, er_v = LEDGER_VERSION,
               er_event_json = to_string js (re_event rec)\<rparr>]\<rparr>)
       | Some row \<Rightarrow>
           and_then (row_u64 (er_occurred_at_ms row)) (\<lambda>existing_at.
             if existing_at = re_occurred_at_ms rec \<and> er_v row = LEDGER_VERSION \<and>
                er_event_json row = to_string js (re_event rec)
             then Inr l else Inl (LedgerConflict run_id (re_seq rec))))))"

definition sqlite_record_from_row :: "'v event_json \<Rightarrow> EventRow \<Rightarrow> (AppError, 'v RecordedEvent) result" where
  "sqlite_record_from_row js row =
     (if \<not> supported_ledger_version (er_v row) then Inl (LedgerVersion LEDGER_VERSION (er_v row))
      else case from_str js (er_event_json row) of
             None \<Rightarrow> Inl Sqlite
           | Some ev \<Rightarrow>
               and_then (validate_ledger_identity (er_v row) ev) (\<lambda>_.
               and_then (row_u64 (er_seq row)) (\<lambda>seq.
               and_then (row_u64 (er_occurred_at_ms row)) (\<lambda>at.
                 Inr \<lparr>re_seq = seq, re_occurred_at_ms = at, re_event = ev\<rparr>))))"

fun read_rows :: "'v event_json \<Rightarrow> EventRow list \<Rightarrow> (AppError, 'v RecordedEvent list) result" where
  "read_rows js [] = Inr []"
| "read_rows js (row # rows) =
     and_then (sqlite_record_from_row js row) (\<lambda>rec.
     and_then (read_rows js rows) (\<lambda>recs. Inr (rec # recs)))"

definition read_run_records_from :: "'v event_json \<Rightarrow> SqliteLedger \<Rightarrow> rstr \<Rightarrow> (AppError, 'v RecordedEvent list) result" where
  "read_run_records_from js l run_id =
     read_rows js (sort_key er_seq (filter (\<lambda>row. er_run_id row = run_id) (lg_ledger_events l)))"

section \<open>Transactions\<close>

definition session_turns :: "SqliteLedger \<Rightarrow> rstr \<Rightarrow> (AppError, SessionTurn list) result" where
  "session_turns l sid =
     (if \<not> session_exists_in l sid then Inl (SessionNotFound sid)
      else Inr (List.map_filter (\<lambda>row.
             if sr_status row = RunStateName.Finished
             then map_option (\<lambda>answer. \<lparr>st_question = sr_question row, st_final_answer = answer\<rparr>)
                    (sr_final_answer row)
             else None) (session_runs_of l sid)))"

definition begin_session_run ::
  "bool \<Rightarrow> u64 \<Rightarrow> SqliteLedger \<Rightarrow> rstr \<Rightarrow> RunId \<Rightarrow> rstr \<Rightarrow> bool \<Rightarrow>
     SqliteLedger \<times> (AppError, SessionTurn list) result" where
  "begin_session_run db now_ms l sid run_id question create_session =
     (case sqlite_i64 now_ms ''occurred_at_ms'' of
        Inl e \<Rightarrow> (l, Inl e)
      | Inr now \<Rightarrow>
          if \<not> session_exists_in l sid \<and> \<not> create_session then (l, Inl (SessionNotFound sid))
          else case active_run_in l sid of
            Some active \<Rightarrow> (l, Inl (SessionActive sid active))
          | None \<Rightarrow>
              if \<not> db \<or> list_ex (\<lambda>row. sr_run_id row = run_id_str run_id) (lg_session_runs l)
              then (l, Inl Sqlite)
              else
                let l1 = (if session_exists_in l sid then l
                          else l\<lparr>lg_sessions := lg_sessions l @
                            [\<lparr>sn_session_id = sid, sn_created_at_ms = now, sn_updated_at_ms = now\<rparr>]\<rparr>);
                    l2 = l1\<lparr>lg_session_runs := lg_session_runs l1 @
                            [\<lparr>sr_session_id = sid, sr_run_id = run_id_str run_id,
                              sr_session_index = next_session_index l1 sid, sr_question = question,
                              sr_final_answer = None, sr_status = RunStateName.Running, sr_error = None,
                              sr_created_at_ms = now, sr_updated_at_ms = now\<rparr>]\<rparr>;
                    l3 = touch_session l2 sid now
                in (l3, session_turns l3 sid))"

definition discard_running_session_run ::
  "bool \<Rightarrow> SqliteLedger \<Rightarrow> RunId \<Rightarrow> bool \<Rightarrow> SqliteLedger \<times> (AppError, unit) result" where
  "discard_running_session_run db l run_id created_session =
     (case running_session l (run_id_str run_id) of
        None \<Rightarrow> (l, Inl (Config (lit ''running session admission is unavailable for cleanup: '' @ run_id_str run_id)))
      | Some sid \<Rightarrow>
          if \<not> db then (l, Inl Sqlite)
          else
            let l1 = l\<lparr>lg_session_runs := filter (\<lambda>row. \<not> is_running_row (run_id_str run_id) row) (lg_session_runs l)\<rparr>;
                l2 = (if created_session \<and> \<not> list_ex (\<lambda>row. sr_session_id row = sid) (lg_session_runs l1)
                      then l1\<lparr>lg_sessions := filter (\<lambda>row. sn_session_id row \<noteq> sid) (lg_sessions l1)\<rparr>
                      else l1)
            in (l2, Inr ()))"

definition complete_session_terminal ::
  "bool \<Rightarrow> u64 \<Rightarrow> SqliteLedger \<Rightarrow> RunId \<Rightarrow> RunStateName \<Rightarrow> rstr option \<Rightarrow> rstr option \<Rightarrow>
     SqliteLedger \<times> (AppError, unit) result" where
  "complete_session_terminal db now_ms l run_id status answer error =
     (case sqlite_i64 now_ms ''occurred_at_ms'' of
        Inl e \<Rightarrow> (l, Inl e)
      | Inr now \<Rightarrow>
          (case running_session l (run_id_str run_id) of
             None \<Rightarrow> (l, Inl (RunNotFound (run_id_str run_id)))
           | Some sid \<Rightarrow>
               (case update_running_session_outcome l (run_id_str run_id) status answer error now of
                  Inl e \<Rightarrow> (l, Inl e)
                | Inr l1 \<Rightarrow> if db then (touch_session l1 sid now, Inr ()) else (l, Inl Sqlite))))"

definition commit_session_terminal ::
  "bool \<Rightarrow> u64 \<Rightarrow> 'v event_json \<Rightarrow> SqliteLedger \<Rightarrow> RunId \<Rightarrow> 'v RecordedEvent \<Rightarrow> RunStateName \<Rightarrow>
     rstr option \<Rightarrow> rstr option \<Rightarrow> SqliteLedger \<times> (AppError, unit) result" where
  "commit_session_terminal db now_ms js l run_id rec status answer error =
     (case sqlite_i64 now_ms ''occurred_at_ms'' of
        Inl e \<Rightarrow> (l, Inl e)
      | Inr now \<Rightarrow>
          (case running_session l (run_id_str run_id) of
             None \<Rightarrow> (l, Inl (RunNotFound (run_id_str run_id)))
           | Some sid \<Rightarrow>
               (case append_record_in js l (run_id_str run_id) rec of
                  Inl e \<Rightarrow> (l, Inl e)
                | Inr l1 \<Rightarrow>
                    (case update_running_session_outcome l1 (run_id_str run_id) status answer error now of
                       Inl e \<Rightarrow> (l, Inl e)
                     | Inr l2 \<Rightarrow> if db then (touch_session l2 sid now, Inr ()) else (l, Inl Sqlite)))))"

section \<open>The invariant of the tables\<close>

definition one_active :: "SessionRunRow list \<Rightarrow> bool" where
  "one_active rows \<longleftrightarrow>
     distinct (map sr_session_id (filter (\<lambda>row. sr_status row = RunStateName.Running) rows))"

definition store_wf :: "SqliteLedger \<Rightarrow> bool" where
  "store_wf l \<longleftrightarrow>
     distinct (map sn_session_id (lg_sessions l)) \<and>
     distinct (map sr_run_id (lg_session_runs l)) \<and>
     distinct (map (\<lambda>row. (sr_session_id row, sr_session_index row)) (lg_session_runs l)) \<and>
     distinct (map (\<lambda>row. (er_run_id row, er_seq row)) (lg_ledger_events l)) \<and>
     (\<forall>row\<in>set (lg_session_runs l). session_exists_in l (sr_session_id row)) \<and>
     one_active (lg_session_runs l)"

lemma store_wf_empty: "store_wf ledger_empty"
  by (simp add: store_wf_def ledger_empty_def one_active_def)

lemma session_exists_iff: "session_exists_in l sid \<longleftrightarrow> sid \<in> sn_session_id ` set (lg_sessions l)"
  by (auto simp: session_exists_in_def list_ex_iff)

lemma touch_session_simps [simp]:
  "lg_session_runs (touch_session l sid now) = lg_session_runs l"
  "lg_ledger_events (touch_session l sid now) = lg_ledger_events l"
  "map sn_session_id (lg_sessions (touch_session l sid now)) = map sn_session_id (lg_sessions l)"
  by (auto simp: touch_session_def)

lemma session_exists_touch [simp]: "session_exists_in (touch_session l sid now) = session_exists_in l"
proof -
  have "session_exists_in l' x \<longleftrightarrow> x \<in> set (map sn_session_id (lg_sessions l'))" for l' x
    by (simp add: session_exists_iff)
  then show ?thesis
    by (simp only: touch_session_simps fun_eq_iff) simp
qed

lemma session_exists_updates [simp]:
  "session_exists_in (l\<lparr>lg_session_runs := runs\<rparr>) = session_exists_in l"
  "session_exists_in (l\<lparr>lg_sessions := lg_sessions l @ [row]\<rparr>) sid \<longleftrightarrow>
     session_exists_in l sid \<or> sn_session_id row = sid"
  by (auto simp: session_exists_in_def fun_eq_iff)

lemma store_wf_touch [simp]: "store_wf (touch_session l sid now) = store_wf l"
  by (simp add: store_wf_def)

lemma set_session_runs_of: "set (session_runs_of l sid) = {row \<in> set (lg_session_runs l). sr_session_id row = sid}"
  by (simp add: session_runs_of_def)

lemma active_run_None:
  "active_run_in l sid = None \<longleftrightarrow>
     (\<forall>row\<in>set (lg_session_runs l). sr_session_id row = sid \<longrightarrow> sr_status row \<noteq> RunStateName.Running)"
  by (auto simp: active_run_in_def find_None_iff set_session_runs_of)

lemma foldl_max_ge: "(x :: int) \<le> i \<or> x \<in> set is \<Longrightarrow> x \<le> foldl max i is"
proof (induction "is" arbitrary: i)
  case (Cons j js)
  then have "x \<le> max i j \<or> x \<in> set js" by auto
  then show ?case by (simp add: Cons.IH)
qed simp

lemma next_session_index_fresh:
  assumes "row \<in> set (lg_session_runs l)" and "sr_session_id row = sid"
  shows "sr_session_index row < next_session_index l sid"
proof -
  have "row \<in> set (session_runs_of l sid)"
    using assms by (simp add: set_session_runs_of)
  then obtain z zs where runs: "session_runs_of l sid = z # zs" and "row = z \<or> row \<in> set zs"
    by (cases "session_runs_of l sid") auto
  then have "sr_session_index row \<le> foldl max (sr_session_index z) (map sr_session_index zs)"
    by (intro foldl_max_ge) auto
  then show ?thesis
    by (simp add: next_session_index_def runs)
qed

lemma running_session_Some:
  "running_session l run_id = Some sid \<Longrightarrow>
     \<exists>row\<in>set (lg_session_runs l). is_running_row run_id row \<and> sr_session_id row = sid"
  by (auto simp: running_session_def find_Some_iff)

text \<open>A map over the rows that keeps keys and adds no running row keeps the invariant.\<close>

lemma store_wf_update_rows:
  assumes "store_wf l" and "\<And>row. sr_session_id (f row) = sr_session_id row"
    and "\<And>row. sr_run_id (f row) = sr_run_id row" and "\<And>row. sr_session_index (f row) = sr_session_index row"
    and "\<And>row. sr_status (f row) = RunStateName.Running \<Longrightarrow> sr_status row = RunStateName.Running"
  shows "store_wf (l\<lparr>lg_session_runs := map f (lg_session_runs l)\<rparr>)"
proof -
  have "one_active (map f rows)" if "one_active rows" for rows
    using that unfolding one_active_def
  proof (induction rows)
    case (Cons row rows)
    have "set (map sr_session_id (filter (\<lambda>row. sr_status row = RunStateName.Running) (map f rows))) \<subseteq>
        set (map sr_session_id (filter (\<lambda>row. sr_status row = RunStateName.Running) rows))"
      using assms(2,5) by auto
    with Cons assms(2,5) show ?case by (auto split: if_splits)
  qed simp
  then show ?thesis
    using assms(1) by (auto simp: store_wf_def comp_def assms(2-4) session_exists_in_def)
qed

lemma store_wf_update_outcome:
  assumes "store_wf l" and "update_running_session_outcome l run_id status answer err now = Inr l'"
  shows "store_wf l'"
  using assms by (auto simp: update_running_session_outcome_def is_running_row_def split: if_splits
      intro!: store_wf_update_rows)

text \<open>
  An accepted append either finds the identical row already stored, or adds the row of the record
  under a key no row has.
\<close>

lemma append_record_cases:
  assumes "append_record_in js l run_id rec = Inr l'"
  obtains (again) row where "l' = l" and "row \<in> set (lg_ledger_events l)" and "er_run_id row = run_id"
      and "er_seq row = uint (re_seq rec)" and "er_v row = LEDGER_VERSION"
      and "er_event_json row = to_string js (re_event rec)" and "row_u64 (er_occurred_at_ms row) = Inr (re_occurred_at_ms rec)"
  | (fresh) "l' = l\<lparr>lg_ledger_events := lg_ledger_events l @
        [\<lparr>er_run_id = run_id, er_seq = uint (re_seq rec), er_occurred_at_ms = uint (re_occurred_at_ms rec),
          er_v = LEDGER_VERSION, er_event_json = to_string js (re_event rec)\<rparr>]\<rparr>"
      and "\<forall>row\<in>set (lg_ledger_events l). er_run_id row = run_id \<longrightarrow> er_seq row \<noteq> uint (re_seq rec)"
proof (cases "find (\<lambda>row. er_run_id row = run_id \<and> er_seq row = uint (re_seq rec)) (lg_ledger_events l)")
  case None
  then have "\<forall>row\<in>set (lg_ledger_events l). er_run_id row = run_id \<longrightarrow> er_seq row \<noteq> uint (re_seq rec)"
    by (auto simp: find_None_iff)
  with None assms show ?thesis
    by (intro fresh) (auto simp: append_record_in_def sqlite_i64_def result_simps split: if_splits)
next
  case (Some row)
  moreover from Some have "row \<in> set (lg_ledger_events l)" "er_run_id row = run_id" "er_seq row = uint (re_seq rec)"
    by (auto simp: find_Some_iff)
  ultimately show ?thesis
    using assms
    by (intro again [of row]) (auto simp: append_record_in_def sqlite_i64_def result_simps split: if_splits)
qed

lemma append_record_runs:
  "append_record_in js l run_id rec = Inr l' \<Longrightarrow> lg_session_runs l' = lg_session_runs l"
  by (erule append_record_cases) simp_all

lemma append_record_stored:
  "append_record_in js l run_id rec = Inr l' \<Longrightarrow>
     \<exists>row\<in>set (lg_ledger_events l'). er_run_id row = run_id \<and> er_seq row = uint (re_seq rec) \<and>
       er_event_json row = to_string js (re_event rec)"
  by (erule append_record_cases) (blast, simp)

lemma store_wf_append_record:
  assumes "store_wf l" and "append_record_in js l run_id rec = Inr l'"
  shows "store_wf l'"
  using assms(2)
proof (cases rule: append_record_cases)
  case fresh
  then have "distinct (map (\<lambda>row. (er_run_id row, er_seq row)) (lg_ledger_events l'))"
    using assms(1) by (auto simp: store_wf_def)
  with fresh(1) assms(1) show ?thesis
    by (simp add: store_wf_def session_exists_in_def)
qed (use assms(1) in simp)

section \<open>Atomic operations\<close>

text \<open>
  What every store operation promises: an error changes nothing, and success keeps the invariant.
  The locale carries the consequence for sequences of operations.
\<close>

locale atomic_operation =
  fixes inv :: "'s \<Rightarrow> bool"
    and operation :: "'s \<Rightarrow> 's \<times> ('e, 'a) result"
  assumes error_keeps: "operation s = (s', Inl e) \<Longrightarrow> s' = s"
    and success_inv: "inv s \<Longrightarrow> operation s = (s', Inr x) \<Longrightarrow> inv s'"
begin

lemma keeps_inv: "inv s \<Longrightarrow> inv (fst (operation s))"
  by (cases "operation s"; cases "snd (operation s)") (auto dest: error_keeps success_inv)

end

interpretation begin_tx: atomic_operation store_wf "\<lambda>l. begin_session_run db now l sid r q c" for db now sid r q c
proof
  fix l l' e
  assume "begin_session_run db now l sid r q c = (l', Inl e)"
  then show "l' = l"
    by (auto simp: begin_session_run_def session_turns_def Let_def
        split: sum.splits if_splits option.splits)
next
  fix l l' x
  assume wf: "store_wf l" and ok: "begin_session_run db now l sid r q c = (l', Inr x)"
  define l1 where "l1 = (if session_exists_in l sid then l
      else l\<lparr>lg_sessions := lg_sessions l @ [\<lparr>sn_session_id = sid, sn_created_at_ms = uint now, sn_updated_at_ms = uint now\<rparr>]\<rparr>)"
  define row where "row = \<lparr>sr_session_id = sid, sr_run_id = run_id_str r,
      sr_session_index = next_session_index l1 sid, sr_question = q, sr_final_answer = None,
      sr_status = RunStateName.Running, sr_error = None, sr_created_at_ms = uint now, sr_updated_at_ms = uint now\<rparr>"
  from ok have l': "l' = touch_session (l1\<lparr>lg_session_runs := lg_session_runs l1 @ [row]\<rparr>) sid (uint now)"
    and idle: "active_run_in l sid = None"
    and new: "\<forall>row\<in>set (lg_session_runs l). sr_run_id row \<noteq> run_id_str r"
    by (auto simp: begin_session_run_def sqlite_i64_def Let_def l1_def row_def list_ex_iff
        split: sum.splits if_splits option.splits)
  have wf1: "store_wf l1" and ex: "session_exists_in l1 sid" and runs: "lg_session_runs l1 = lg_session_runs l"
    using wf by (auto simp: l1_def store_wf_def session_exists_iff)
  have fresh: "\<forall>old\<in>set (lg_session_runs l1). sr_session_id old = sid \<longrightarrow>
      sr_session_index old \<noteq> sr_session_index row"
    using next_session_index_fresh [of _ l1 sid] by (fastforce simp: row_def)
  have "one_active (lg_session_runs l1 @ [row])"
    using wf1 idle by (auto simp: store_wf_def one_active_def active_run_None runs row_def)
  then have "store_wf (l1\<lparr>lg_session_runs := lg_session_runs l1 @ [row]\<rparr>)"
    using wf1 ex fresh new by (auto simp: store_wf_def session_exists_iff runs row_def)
  then show "store_wf l'"
    by (simp add: l')
qed

interpretation discard_tx: atomic_operation store_wf "\<lambda>l. discard_running_session_run db l r c" for db r c
proof
  fix l l' e
  assume "discard_running_session_run db l r c = (l', Inl e)"
  then show "l' = l"
    by (auto simp: discard_running_session_run_def Let_def split: option.splits if_splits)
next
  fix l l' x
  assume wf: "store_wf l" and ok: "discard_running_session_run db l r c = (l', Inr x)"
  define keep where "keep = filter (\<lambda>row. \<not> is_running_row (run_id_str r) row) (lg_session_runs l)"
  have "filter (\<lambda>row. sr_status row = RunStateName.Running) keep =
      filter (\<lambda>row. \<not> is_running_row (run_id_str r) row)
        (filter (\<lambda>row. sr_status row = RunStateName.Running) (lg_session_runs l))"
    by (simp add: keep_def conj_commute)
  with wf have "one_active keep"
    by (simp only: store_wf_def one_active_def distinct_map_filter)
  then have "store_wf (l\<lparr>lg_session_runs := keep\<rparr>)"
    using wf by (auto simp: keep_def store_wf_def distinct_map_filter session_exists_in_def)
  with ok show "store_wf l'"
    by (fastforce simp: discard_running_session_run_def Let_def keep_def store_wf_def session_exists_iff list_ex_iff
        distinct_map_filter split: option.splits if_splits)
qed

interpretation complete_tx: atomic_operation store_wf
  "\<lambda>l. complete_session_terminal db now l r status answer err" for db now r status answer err
  by unfold_locales
    (auto simp: complete_session_terminal_def split: sum.splits option.splits if_splits
      dest: store_wf_update_outcome)

interpretation commit_tx: atomic_operation store_wf
  "\<lambda>l. commit_session_terminal db now js l r rec status answer err" for db now js r rec status answer err
  by unfold_locales
    (auto simp: commit_session_terminal_def split: sum.splits option.splits if_splits
      intro: store_wf_update_outcome [OF store_wf_append_record])

section \<open>Sequences of transactions\<close>

text \<open>The transactions of one workspace ledger, in any order the writers obtain the lock.\<close>

datatype 'v StoreTx =
    Begin bool u64 rstr RunId rstr bool
  | Discard bool RunId bool
  | Append rstr "'v RecordedEvent"
  | Complete bool u64 RunId RunStateName "rstr option" "rstr option"
  | Commit bool u64 RunId "'v RecordedEvent" RunStateName "rstr option" "rstr option"

definition no_value :: "'s \<times> ('e, 'a) result \<Rightarrow> 's \<times> ('e, unit) result" where
  "no_value p = (case p of (s, Inl e) \<Rightarrow> (s, Inl e) | (s, Inr _) \<Rightarrow> (s, Inr ()))"

fun store_tx :: "'v event_json \<Rightarrow> SqliteLedger \<Rightarrow> 'v StoreTx \<Rightarrow> SqliteLedger \<times> (AppError, unit) result" where
  "store_tx js l (Begin db now sid r q c) = no_value (begin_session_run db now l sid r q c)"
| "store_tx js l (Discard db r c) = discard_running_session_run db l r c"
| "store_tx js l (Append run_id rec) =
     (case append_record_in js l run_id rec of Inl e \<Rightarrow> (l, Inl e) | Inr l' \<Rightarrow> (l', Inr ()))"
| "store_tx js l (Complete db now r status answer err) = complete_session_terminal db now l r status answer err"
| "store_tx js l (Commit db now r rec status answer err) = commit_session_terminal db now js l r rec status answer err"

fun store_run :: "'v event_json \<Rightarrow> SqliteLedger \<Rightarrow> 'v StoreTx list \<Rightarrow> SqliteLedger" where
  "store_run js l [] = l"
| "store_run js l (tx # txs) = store_run js (fst (store_tx js l tx)) txs"

interpretation store_step: atomic_operation store_wf "\<lambda>l. store_tx js l tx" for js tx
proof
  fix l l' e
  assume "store_tx js l tx = (l', Inl e)"
  then show "l' = l"
    by (cases tx) (auto simp: no_value_def split: prod.splits sum.splits
        dest: begin_tx.error_keeps discard_tx.error_keeps complete_tx.error_keeps commit_tx.error_keeps)
next
  fix l l' x
  assume "store_wf l" and "store_tx js l tx = (l', Inr x)"
  then show "store_wf l'"
    by (cases tx) (auto simp: no_value_def split: prod.splits sum.splits
        intro: begin_tx.success_inv discard_tx.success_inv complete_tx.success_inv commit_tx.success_inv
          store_wf_append_record)
qed

lemma store_run_wf: "store_wf l \<Longrightarrow> store_wf (store_run js l txs)"
  by (induction txs arbitrary: l) (auto dest: store_step.keeps_inv)

lemma one_active_unique:
  assumes "one_active rows" and "distinct (map sr_run_id rows)" and "a \<in> set rows" and "b \<in> set rows"
    and "sr_status a = RunStateName.Running" and "sr_status b = RunStateName.Running"
    and "sr_session_id a = sr_session_id b"
  shows "a = b"
  using assms unfolding one_active_def by (auto simp: distinct_map inj_on_def)


definition sample_js :: "nat event_json" where
  "sample_js = \<lparr>to_string = (\<lambda>ev. lit (event_name ev)),
     from_str = (\<lambda>s. if s = lit ''run_finished'' then Some (RunFinished (RunId (lit ''r1''))) else None)\<rparr>"

definition sample_txs :: "nat StoreTx list" where
  "sample_txs =
     [Begin True 5 (lit ''s'') (RunId (lit ''r1'')) (lit ''hi'') True,
      Begin True 6 (lit ''s'') (RunId (lit ''r2'')) (lit ''again'') True,
      Complete True 7 (RunId (lit ''r1'')) RunStateName.Finished (Some (lit ''done'')) None,
      Begin True 8 (lit ''s'') (RunId (lit ''r2'')) (lit ''again'') False]"


text \<open>
  Closing a session run is atomic: the transaction either reports an error and changes nothing,
  or leaves both truths in place, the terminal event in the run's ledger rows and the outcome
  (status, answer, error) on the run's session row, which was running before.
\<close>

theorem commit_terminal_atomic:
  assumes "store_wf l" and "commit_session_terminal db now js l r rec status answer err = (l', res)"
  shows "case res of
      Inl e \<Rightarrow> l' = l
    | Inr _ \<Rightarrow>
        (\<exists>row\<in>set (lg_ledger_events l'). er_run_id row = run_id_str r \<and> er_seq row = uint (re_seq rec) \<and>
           er_event_json row = to_string js (re_event rec)) \<and>
        (\<exists>row\<in>set (lg_session_runs l). is_running_row (run_id_str r) row \<and>
           row\<lparr>sr_status := status, sr_final_answer := answer, sr_error := err, sr_updated_at_ms := uint now\<rparr>
             \<in> set (lg_session_runs l'))"
proof (cases res)
  case (Inl e)
  with assms(2) show ?thesis
    by (auto dest: commit_tx.error_keeps)
next
  case (Inr u)
  with assms(2) obtain sid l1 where sid: "running_session l (run_id_str r) = Some sid"
    and app: "append_record_in js l (run_id_str r) rec = Inr l1"
    by (auto simp: commit_session_terminal_def sqlite_i64_def split: sum.splits option.splits if_splits)
  note runs = append_record_runs [OF app] and row = append_record_stored [OF app]
  obtain old where old: "old \<in> set (lg_session_runs l)" "is_running_row (run_id_str r) old"
    using running_session_Some [OF sid] by blast
  obtain l2 where upd: "update_running_session_outcome l1 (run_id_str r) status answer err (uint now) = Inr l2"
    and l': "l' = touch_session l2 sid (uint now)"
    using assms(2) Inr sid app
    by (auto simp: commit_session_terminal_def sqlite_i64_def split: sum.splits option.splits if_splits)
  let ?close = "\<lambda>row. if is_running_row (run_id_str r) row
      then row\<lparr>sr_status := status, sr_final_answer := answer, sr_error := err, sr_updated_at_ms := uint now\<rparr> else row"
  from upd have l2: "l2 = l1\<lparr>lg_session_runs := map ?close (lg_session_runs l1)\<rparr>"
    by (simp add: update_running_session_outcome_def split: if_splits)
  have "?close old \<in> ?close ` set (lg_session_runs l)"
    using old(1) by (rule imageI)
  then have "old\<lparr>sr_status := status, sr_final_answer := answer, sr_error := err, sr_updated_at_ms := uint now\<rparr>
      \<in> set (lg_session_runs l')" and "lg_ledger_events l' = lg_ledger_events l1"
    using old(2) by (simp_all add: l' l2 runs)
  with row old Inr show ?thesis by (simp only: sum.case) blast
qed

definition sample_store :: SqliteLedger where
  "sample_store = store_run sample_js ledger_empty (take 1 sample_txs)"

definition sample_finish :: "nat RecordedEvent" where
  "sample_finish = \<lparr>re_seq = 0, re_occurred_at_ms = 9, re_event = RunFinished (RunId (lit ''r1''))\<rparr>"

theorem commit_terminal_atomic_witness:
  "store_wf sample_store \<and>
   (\<exists>l'. commit_session_terminal True 9 sample_js sample_store (RunId (lit ''r1'')) sample_finish
      RunStateName.Finished (Some (lit ''done'')) None = (l', Inr ()) \<and>
    (\<exists>row\<in>set (lg_ledger_events l'). er_run_id row = lit ''r1'' \<and> er_seq row = 0))"
proof -
  have wf: "store_wf sample_store"
    unfolding sample_store_def by (rule store_run_wf) (rule store_wf_empty)
  let ?p = "commit_session_terminal True 9 sample_js sample_store (RunId (lit ''r1'')) sample_finish
      RunStateName.Finished (Some (lit ''done'')) None"
  have "is_ok (snd ?p)"
    by code_simp
  then have ok: "?p = (fst ?p, Inr ())"
    by (rule is_ok_unit)
  then obtain l' where l': "?p = (l', Inr ())" by blast
  from commit_terminal_atomic [OF wf l'] wf l' show ?thesis
    by (auto simp: sample_finish_def)
qed

end
