(* ===== verification/Run_Properties.thy ===== *)
theory Run_Properties
  imports Run_History
begin

text \<open>
  The correctness properties of the run machine, each with a concrete ledger on which its
  hypotheses hold.
\<close>

section \<open>Shapes of tool call histories\<close>

text \<open>What the automaton of one call must have read to be in each of its early stages.\<close>

lemma call_step_to:
  "call_step st ev = Some Unseen \<longleftrightarrow> False"
  "call_step st ev = Some Proposed \<longleftrightarrow> st = Unseen \<and> (\<exists>r t call. ev = ToolCallProposed r t call)"
  "call_step st ev = Some Held \<longleftrightarrow>
     st = Proposed \<and> (\<exists>r c why. ev = PolicyEvaluated r c (RequireApproval why))"
  "call_step st ev = Some Permitted \<longleftrightarrow>
     st = Proposed \<and> (\<exists>r c. ev = PolicyEvaluated r c Allow) \<or>
     st = Held \<and> (\<exists>r c a. ev = ApprovalGranted r c a)"
  by (cases st; cases ev; auto split: PolicyDecision.splits)+

lemma call_run_to:
  "call_run Unseen h = Some st \<longleftrightarrow>
     h = [] \<and> st = Unseen \<or>
     (\<exists>h' ev st'. h = h' @ [ev] \<and> call_run Unseen h' = Some st' \<and> call_step st' ev = Some st)"
  by (cases h rule: rev_cases) (auto simp: bind_eq_Some_conv)

lemma call_run_Unseen: "call_run Unseen h = Some Unseen \<longleftrightarrow> h = []"
  by (subst call_run_to) (auto simp: call_step_to)

lemma call_run_Proposed:
  "call_run Unseen h = Some Proposed \<longleftrightarrow> (\<exists>r t call. h = [ToolCallProposed r t call])"
  by (subst call_run_to) (auto simp: call_step_to call_run_Unseen)

lemma call_run_Held:
  "call_run Unseen h = Some Held \<longleftrightarrow>
     (\<exists>r t call r' c why.
        h = [ToolCallProposed r t call, PolicyEvaluated r' c (RequireApproval why)])"
  by (subst call_run_to) (auto simp: call_step_to call_run_Proposed)

lemma call_run_Permitted:
  "call_run Unseen h = Some Permitted \<longleftrightarrow>
     (\<exists>r t call r' c. h = [ToolCallProposed r t call, PolicyEvaluated r' c Allow]) \<or>
     (\<exists>r t call r' c why r'' c' a.
        h = [ToolCallProposed r t call, PolicyEvaluated r' c (RequireApproval why),
             ApprovalGranted r'' c' a])"
  by (subst call_run_to) (auto simp: call_step_to call_run_Proposed call_run_Held)

lemma call_history_event:
  "ev \<in> set (call_history c evs) \<Longrightarrow> ev \<in> set evs \<and> event_call ev = Some c"
  by (simp add: call_history_def)

lemma proposed_in_ledger: "ToolCallProposed r t call \<in> set evs \<Longrightarrow> call \<in> set (proposed_calls evs)"
  by (induction evs) (auto simp: proposed_calls_def map_filter_def)

lemma replay_same_run:
  assumes "run_replay rs = (s, Inr ())" and "e \<in> set (events rs)" and "e' \<in> set (events rs)"
  shows "event_run_id e = event_run_id e'"
  using replay_run_binding [OF assms(1)] assms(2,3) by (auto split: list.splits)

section \<open>A concrete ledger\<close>

text \<open>
  One run as the daemon records it: a model turn with a networked tool call that is held for an
  approval, granted and executed, then a second turn that answers. Tool inputs are numbers here.
\<close>

abbreviation (input) run1 :: RunId where "run1 \<equiv> RunId (lit ''run-1'')"
abbreviation (input) turn1 :: TurnId where "turn1 \<equiv> TurnId (lit ''turn-1'')"
abbreviation (input) turn2 :: TurnId where "turn2 \<equiv> TurnId (lit ''turn-2'')"
abbreviation (input) call1_id :: ToolCallId where "call1_id \<equiv> ToolCallId (lit ''call-1'')"
abbreviation (input) reply :: Message where "reply \<equiv> \<lparr>msg_role = Assistant, msg_content = lit ''done''\<rparr>"

definition sample_pack :: ContextPack where
  "sample_pack = \<lparr>cp_token_budget = 100, cp_fragments =
     [\<lparr>cf_lane = CurrentTask, cf_source = lit ''task'', cf_content = lit ''hello'',
       cf_estimated_tokens = 40\<rparr>,
      \<lparr>cf_lane = RecentTurns, cf_source = lit ''turns'', cf_content = lit ''hi'',
       cf_estimated_tokens = 60\<rparr>]\<rparr>"

definition sample_proposal :: "nat ToolProposal" where
  "sample_proposal = \<lparr>tp_tool = ToolName (lit ''fetch''), tp_input = 7\<rparr>"

definition sample_call :: "nat ToolCall" where
  "sample_call = \<lparr>tc_id = call1_id, tc_tool = ToolName (lit ''fetch''), tc_effect = Network, tc_input = 7\<rparr>"

definition sample_events :: "nat HarnessEvent list" where
  "sample_events =
     [RunStarted \<lparr>rse_run_id = run1, rse_identity = LegacyAgent (AgentId (lit ''plato''))\<rparr>,
      ContextBuilt run1 turn1 sample_pack,
      ModelRequested run1 turn1 0 (ModelName (lit ''m'')),
      ModelFailed run1 turn1 0 (lit ''timeout''),
      ModelRequested run1 turn1 0 (ModelName (lit ''m'')),
      ModelResponded run1 turn1 0 reply [sample_proposal] None None,
      ToolCallProposed run1 turn1 sample_call,
      PolicyEvaluated run1 call1_id (RequireApproval (lit ''network'')),
      ApprovalGranted run1 call1_id (ActorId (lit ''ada'')),
      ToolStarted run1 call1_id,
      ToolFinished run1 \<lparr>tr_call_id = call1_id, tr_summary = lit ''ok'', tr_data = 9,
                         tr_artifacts = [], tr_visibility = Both\<rparr>,
      ContextCompacted run1 turn2 90 40 0 6,
      ContextBuilt run1 turn2 sample_pack,
      ModelRequested run1 turn2 1 (ModelName (lit ''m'')),
      ModelResponded run1 turn2 1 reply [] None None,
      RunFinished run1]"

text \<open>Records numbered from zero, as a recorder writes them.\<close>

definition number_events :: "'v HarnessEvent list \<Rightarrow> 'v RecordedEvent list" where
  "number_events evs =
     map (\<lambda>(i, ev). \<lparr>re_seq = of_nat i, re_occurred_at_ms = 1000 + of_nat i, re_event = ev\<rparr>)
       (zip [0..<length evs] evs)"

definition sample_ledger :: "nat \<Rightarrow> nat RecordedEvent list" where
  "sample_ledger n = number_events (take n sample_events)"

lemma sample_budget [simp]: "validate_budget sample_pack = Inr ()"
  by (simp add: validate_budget_def estimated_tokens_u64_def sample_pack_def)

definition sample_state :: "nat \<Rightarrow> nat RunState" where
  "sample_state n = fst (run_replay (sample_ledger n))"

lemma replay_take_ok:
  "replay_loop f s xs = (t, Inr ()) \<Longrightarrow> is_ok (snd (replay_loop f s (take n xs)))"
  by (metis append_take_drop_id is_ok.simps(2) replay_loop_append_ok snd_conv)

lemma sample_ok: "run_replay (sample_ledger n) = (sample_state n, Inr ())"
proof -
  have "is_ok (snd (run_replay (number_events sample_events)))"
    by code_simp
  then have "is_ok (snd (run_replay (take n (number_events sample_events))))"
    by (cases "run_replay (number_events sample_events)") (auto simp: result_simps dest: replay_take_ok)
  moreover have "take n (number_events sample_events) = sample_ledger n"
    by (cases "n \<le> length sample_events")
      (simp_all add: sample_ledger_def number_events_def take_map take_zip take_upt)
  ultimately show ?thesis
    by (cases "run_replay (sample_ledger n)") (auto simp: result_simps sample_state_def)
qed

section \<open>Properties\<close>

text \<open>Whether the next record with this event would be accepted.\<close>

definition accepts :: "'v RunState \<Rightarrow> u64 \<Rightarrow> 'v HarnessEvent \<Rightarrow> bool" where
  "accepts s at ev =
     is_ok (snd (run_apply s \<lparr>re_seq = rs_next_seq s, re_occurred_at_ms = at, re_event = ev\<rparr>))"

lemma accepts_iff_step:
  assumes "rs_run_id s = Some (event_run_id ev)"
  shows "accepts s at ev \<longleftrightarrow> (\<exists>u. run_step s ev u)"
proof -
  have "accepts s at ev \<longleftrightarrow>
      (\<exists>s'. run_apply s \<lparr>re_seq = rs_next_seq s, re_occurred_at_ms = at, re_event = ev\<rparr> = (s', Inr ()))"
    by (cases "run_apply s \<lparr>re_seq = rs_next_seq s, re_occurred_at_ms = at, re_event = ev\<rparr>")
      (simp add: accepts_def result_simps)
  then show ?thesis
    using assms by (simp add: run_apply_ok)
qed

text \<open>
  C18. No tool runs without authority: when an accepted ledger records \<open>ToolStarted\<close> for a call,
  the complete earlier history of that call is a proposal followed by either an allowing policy
  decision or a policy decision that requires approval and its grant, all in the same run, and
  the call repeats tool and input of a proposal some model response made before.
\<close>

theorem tool_start_authorised:
  assumes "run_replay (rs @ rec # ys) = (s, Inr ())" and "re_event rec = ToolStarted r c"
  shows "\<exists>t call. tc_id call = c \<and>
     (call_history c (events rs) = [ToolCallProposed r t call, PolicyEvaluated r c Allow] \<or>
      (\<exists>why a. call_history c (events rs) =
         [ToolCallProposed r t call, PolicyEvaluated r c (RequireApproval why), ApprovalGranted r c a])) \<and>
     (\<exists>p\<in>set (model_proposals (events rs)). tp_tool p = tc_tool call \<and> tp_input p = tc_input call)"
proof -
  from assms(1) obtain u v where u: "run_replay rs = (u, Inr ())" and app: "run_apply u rec = (v, Inr ())"
    by (auto simp only: replay_loop_append_ok replay_loop_Cons_ok)
  from app assms(2) have ph: "\<exists>call. rs_phase u = ReadyToExecuteTool call \<and> tc_id call = c"
    and run: "rs_run_id u \<in> {None, Some r}"
    by (auto simp: run_apply_ok)
  note wf = replay_wf [OF u]
  from ph wf have "stage_of u c = Permitted" and "\<not> is_terminal_phase (rs_phase u)"
    by (auto simp: stage_of_def run_wf_def)
  with replay_stage [OF u, of c] have "call_run Unseen (call_history c (events rs)) = Some Permitted"
    by auto
  then obtain r0 t call h where h: "call_history c (events rs) = ToolCallProposed r0 t call # h"
    and shape: "(\<exists>r' c'. h = [PolicyEvaluated r' c' Allow]) \<or>
      (\<exists>r' c' why r'' c'' a. h = [PolicyEvaluated r' c' (RequireApproval why), ApprovalGranted r'' c'' a])"
    by (auto simp: call_run_Permitted)
  have run_of: "event_run_id e = r" if "e \<in> set (call_history c (events rs))" for e
    using that replay_run_binding [OF u] run wf ph
    by (auto simp: run_wf_def split: list.splits dest!: call_history_event)
  from h have first: "ToolCallProposed r0 t call \<in> set (call_history c (events rs))" by simp
  have "r0 = r"
    using run_of [OF first] by simp
  moreover have "tc_id call = c"
    using call_history_event [OF first] by simp
  moreover have "\<exists>p\<in>set (model_proposals (events rs)). tp_tool p = tc_tool call \<and> tp_input p = tc_input call"
    using replay_proposals [OF u] proposed_in_ledger [OF conjunct1 [OF call_history_event [OF first]]]
    by blast
  moreover have "h = [PolicyEvaluated r c Allow] \<or>
      (\<exists>why a. h = [PolicyEvaluated r c (RequireApproval why), ApprovalGranted r c a])"
  proof -
    have "\<forall>e\<in>set h. event_call e = Some c \<and> event_run_id e = r"
      using h call_history_event [of _ c "events rs"] run_of by simp
    with shape show ?thesis by (elim disjE exE) simp_all
  qed
  ultimately show ?thesis
    using h by metis
qed

lemma sample_split:
  assumes "n < 16"
  shows "\<exists>rec. sample_ledger (Suc n) = sample_ledger n @ [rec] \<and> re_event rec = sample_events ! n"
proof -
  have "n < length sample_events"
    using assms by (simp add: sample_events_def)
  then show ?thesis
    by (simp add: sample_ledger_def number_events_def take_Suc_conv_app_nth)
qed

theorem tool_start_authorised_witness:
  "run_replay (sample_ledger 10) = (sample_state 10, Inr ()) \<and>
   (\<exists>t call why a. call_history call1_id (events (sample_ledger 9)) =
      [ToolCallProposed run1 t call, PolicyEvaluated run1 call1_id (RequireApproval why),
       ApprovalGranted run1 call1_id a])"
proof -
  obtain rec where rec: "sample_ledger 10 = sample_ledger 9 @ [rec]" "re_event rec = ToolStarted run1 call1_id"
    using sample_split [of 9] by (auto simp: sample_events_def)
  have "length (call_history call1_id (events (sample_ledger 9))) = 3"
    by code_simp
  then show ?thesis
    using tool_start_authorised [of "sample_ledger 9" rec "[]" "sample_state 10" run1 call1_id]
      sample_ok [of 10] rec by auto
qed

text \<open>
  C19. The records about one call, in every accepted ledger, form a run of the abstract call
  automaton: proposed once, one policy decision, at most one approval verdict and only when one
  was required, started at most once and settled at most once. Unless the run has ended, the
  machine state knows the automaton's stage of every call.
\<close>

theorem call_lifecycle_refines:
  assumes "run_replay rs = (s, Inr ())"
  shows "\<exists>st. call_run Unseen (call_history c (events rs)) = Some st \<and>
     (is_terminal_phase (rs_phase s) \<or> st = stage_of s c)"
  using assms by (rule replay_stage)

theorem call_lifecycle_refines_witness:
  "run_replay (sample_ledger 8) = (sample_state 8, Inr ()) \<and>
   (\<exists>st. call_run Unseen (call_history call1_id (events (sample_ledger 8))) = Some st)"
  using call_lifecycle_refines [OF sample_ok [of 8], of call1_id] sample_ok [of 8] by blast

text \<open>
  A run is only recorded as finished when no tool call is left open: in an accepted ledger
  that ends with \<open>RunFinished\<close>, every call that occurs has been settled (denied, finished or
  failed).
\<close>

theorem finished_settles_calls:
  assumes "run_replay (rs @ [rec]) = (s, Inr ())" and "re_event rec = RunFinished r"
  shows "rs_phase s = Finished \<and>
     (\<forall>c. call_history c (events rs) = [] \<or> call_run Unseen (call_history c (events rs)) = Some Settled)"
proof -
  from assms(1) obtain u where u: "run_replay rs = (u, Inr ())" and app: "run_apply u rec = (s, Inr ())"
    by (auto simp only: replay_loop_snoc_ok)
  from app assms(2) have ph: "rs_phase u = TurnConcluded" and "rs_phase s = Finished"
    by (auto simp: run_apply_ok)
  moreover have "call_history c (events rs) = [] \<or> call_run Unseen (call_history c (events rs)) = Some Settled" for c
    using replay_stage [OF u, of c] ph by (auto simp: stage_of_def call_run_Unseen split: if_splits)
  ultimately show ?thesis by blast
qed

theorem finished_settles_calls_witness:
  "run_replay (sample_ledger 16) = (sample_state 16, Inr ()) \<and> rs_phase (sample_state 16) = Finished"
proof -
  obtain rec where "sample_ledger 16 = sample_ledger 15 @ [rec]" "re_event rec = RunFinished run1"
    using sample_split [of 15] by (auto simp: sample_events_def)
  then show ?thesis
    using finished_settles_calls [of "sample_ledger 15" rec "sample_state 16" run1] sample_ok [of 16] by simp
qed

text \<open>
  C20. Validation is atomic: \<open>RunState::apply\<close> either rejects a record and leaves every field of
  the state as it was, or accepts it, and it accepts exactly the records with the expected
  sequence number and the bound run whose event is a step of the specification \<open>run_step\<close>.
\<close>

theorem run_apply_refines_step:
  "case run_apply s rec of
     (s', Inl e) \<Rightarrow> s' = s \<and>
       (\<nexists>u. re_seq rec = rs_next_seq s \<and> rs_run_id s \<in> {None, Some (event_run_id (re_event rec))} \<and>
            run_step s (re_event rec) u)
   | (s', Inr _) \<Rightarrow>
       re_seq rec = rs_next_seq s \<and> rs_run_id s \<in> {None, Some (event_run_id (re_event rec))} \<and>
       (\<exists>u. run_step s (re_event rec) u \<and> s' = u\<lparr>rs_next_seq := rs_next_seq s + 1\<rparr>)"
proof (cases "run_apply s rec")
  case (Pair s' res)
  show ?thesis
  proof (cases res)
    case (Inl e)
    with Pair show ?thesis
      using run_apply_ok [of s rec] run_apply_err [of s rec s' e] by auto
  next
    case (Inr x)
    with Pair show ?thesis
      using run_apply_ok [of s rec s'] by auto (metis run_step_next_seq)+
  qed
qed

text \<open>
  A ledger that fails to replay stops at its first rejected record: the state is the one of
  the accepted prefix before it, and that record alone causes the reported error.
\<close>

theorem replay_stops_at_first_error:
  assumes "run_replay rs = (t, Inl e)"
  shows "\<exists>xs rec ys. rs = xs @ rec # ys \<and> run_replay xs = (t, Inr ()) \<and> run_apply t rec = (t, Inl e)"
  using assms by (rule run_machine.replay_err_state)

theorem replay_stops_at_first_error_witness:
  "\<exists>t e. run_replay (sample_ledger 3 @ sample_ledger 1) = (t, Inl e) \<and>
     (\<exists>xs rec ys. sample_ledger 3 @ sample_ledger 1 = xs @ rec # ys \<and>
        run_replay xs = (t, Inr ()) \<and> run_apply t rec = (t, Inl e))"
proof -
  have "\<not> is_ok (snd (run_replay (sample_ledger 3 @ sample_ledger 1)))"
    by code_simp
  then obtain t e where "run_replay (sample_ledger 3 @ sample_ledger 1) = (t, Inl e)"
    by (metis is_ok.elims(3) prod.collapse)
  with replay_stops_at_first_error [OF this] show ?thesis by blast
qed

text \<open>
  Accepted ledgers are contiguous: the record at position \<open>i\<close> carries the sequence number
  \<open>i\<close> (for ledgers of at most \<open>2 ^ 64\<close> records, the range of the counter).
\<close>

theorem accepted_ledger_contiguous:
  assumes "run_replay rs = (s, Inr ())" and "i < length rs" and "length rs \<le> 2 ^ 64"
  shows "unat (re_seq (rs ! i)) = i"
  using assms by (rule run_machine.replay_nth_seq)

theorem accepted_ledger_contiguous_witness:
  "3 < length (sample_ledger 5) \<and> unat (re_seq (sample_ledger 5 ! 3)) = 3"
proof -
  have "length (sample_ledger 5) = 5"
    by (simp add: sample_ledger_def number_events_def sample_events_def)
  then show ?thesis
    using accepted_ledger_contiguous [OF sample_ok [of 5], of 3] by simp
qed

text \<open>
  A ledger belongs to one run: its first record starts the run, no later record starts one,
  every record names that run, and it is the run the state is bound to.
\<close>

theorem ledger_bound_to_one_run:
  assumes "run_replay (rec # rs) = (s, Inr ())"
  shows "is_run_started (re_event rec) \<and> rs_run_id s = Some (event_run_id (re_event rec)) \<and>
    list_all (\<lambda>q. \<not> is_run_started (re_event q) \<and>
                  event_run_id (re_event q) = event_run_id (re_event rec)) rs"
  using replay_run_binding [OF assms] by (simp add: list_all_iff)

theorem ledger_bound_to_one_run_witness:
  "rs_run_id (sample_state 12) = Some run1"
proof -
  obtain rec rs where "sample_ledger 12 = rec # rs" "event_run_id (re_event rec) = run1"
    by (simp add: sample_ledger_def number_events_def sample_events_def upt_rec)
  then show ?thesis
    using ledger_bound_to_one_run [of rec rs "sample_state 12"] sample_ok [of 12] by simp
qed

text \<open>
  Identifiers are single use: no turn is built twice and no tool call identifier is proposed
  twice in an accepted ledger, and the state's two sets are exactly the identifiers used so far.
\<close>

theorem identifiers_used_once:
  assumes "run_replay rs = (s, Inr ())"
  shows "distinct (built_turns (events rs)) \<and> set (built_turns (events rs)) = rs_used_turn_ids s \<and>
    distinct (map tc_id (proposed_calls (events rs))) \<and>
    tc_id ` set (proposed_calls (events rs)) = rs_used_tool_call_ids s"
  using replay_turns [OF assms] replay_calls [OF assms] by simp

theorem identifiers_used_once_witness:
  "rs_used_turn_ids (sample_state 14) = {turn1, turn2} \<and>
   rs_used_tool_call_ids (sample_state 14) = {call1_id}"
proof -
  have "built_turns (events (sample_ledger 14)) = [turn1, turn2]"
    "map tc_id (proposed_calls (events (sample_ledger 14))) = [call1_id]"
    by code_simp+
  then show ?thesis
    using identifiers_used_once [OF sample_ok [of 14]] by (simp flip: set_map)
qed

text \<open>
  A terminal phase absorbs: once a run is finished or failed no record is ever accepted
  again, so an accepted ledger carries at most one terminal event and it is the last one.
\<close>

theorem terminal_absorbs:
  assumes "is_terminal_phase (rs_phase s)"
  shows "\<exists>e. run_apply s rec = (s, Inl e)"
proof (cases "run_apply s rec")
  case (Pair s' res)
  with assms have "\<exists>e. res = Inl e"
    by (cases res) (auto simp: run_apply_ok dest: terminal_no_step)
  with Pair show ?thesis
    using run_apply_err by blast
qed

theorem terminal_absorbs_witness:
  "is_terminal_phase (rs_phase (sample_state 16)) \<and>
   (\<exists>e. run_apply (sample_state 16) (hd (sample_ledger 1)) = (sample_state 16, Inl e))"
proof -
  have "is_terminal_phase (rs_phase (sample_state 16))"
    by code_simp
  with terminal_absorbs [OF this] show ?thesis by blast
qed

text \<open>
  The compaction window: after \<open>ContextCompacted\<close> for a turn the machine issues no command
  and the only records it accepts are the \<open>ContextBuilt\<close> of that same turn and \<open>RunFailed\<close>.
\<close>

theorem compaction_window:
  assumes "run_replay (rs @ [rec]) = (s, Inr ())" and "re_event rec = ContextCompacted r t b a from to"
  shows "from < to \<and> pending_command s = None \<and>
    (\<forall>next s'. run_apply s next = (s', Inr ()) \<longrightarrow>
       (\<exists>c. re_event next = ContextBuilt r t c) \<or> (\<exists>why. re_event next = RunFailed r why))"
proof -
  from assms obtain u where app: "run_apply u rec = (s, Inr ())"
    by (auto simp only: replay_loop_snoc_ok)
  with assms(2) have range: "from < to" and pend: "rs_pending_compaction_turn_id s = Some t"
    and ph: "awaits_context (rs_phase s)"
    by (auto simp: run_apply_ok)
  have run: "rs_run_id s = Some r"
    using replay_run_binding [OF assms(1)] assms(2) by (cases rs) auto
  have "(\<exists>c. re_event next = ContextBuilt r t c) \<or> (\<exists>why. re_event next = RunFailed r why)"
    if "run_apply s next = (s', Inr ())" for "next" s'
    using that pend run by (auto simp: run_apply_ok gate_open_def elim: run_step.cases)
  moreover have "pending_command s = None"
    using ph by (cases "rs_phase s") (simp_all add: pending_command_def)
  ultimately show ?thesis using range by blast
qed

theorem compaction_window_witness:
  "pending_command (sample_state 12) = None \<and> (0 :: u64) < 6"
proof -
  obtain rec where "sample_ledger 12 = sample_ledger 11 @ [rec]"
    "re_event rec = ContextCompacted run1 turn2 90 40 0 6"
    using sample_split [of 11] by (auto simp: sample_events_def)
  then show ?thesis
    using compaction_window [of "sample_ledger 11" rec "sample_state 12"] sample_ok [of 12] by simp
qed

text \<open>
  The host is asked to call a model only with a context that fits: when the pending command
  is \<open>RequestModel\<close>, the exact sum of the fragment estimates is within the pack's budget (no
  64-bit wrap, for packs of at most \<open>2 ^ 32\<close> fragments), the turn has been built in this run, and
  the step is the number of model responses recorded so far.
\<close>

theorem requested_context_fits:
  assumes "run_replay rs = (s, Inr ())" and "pending_command s = Some (RequestModel t n c)"
    and "length (cp_fragments c) \<le> 2 ^ 32"
  shows "token_total c \<le> unat (cp_token_budget c) \<and> t \<in> set (built_turns (events rs)) \<and>
    n = of_nat (length (response_steps (events rs)))"
proof -
  have ph: "rs_phase s = ReadyToRequestModel t n c"
    using assms(2) by (auto simp: pending_command_def split: RunPhase.splits)
  with replay_wf [OF assms(1)] have "validate_budget c = Inr ()" "n = rs_next_model_step s"
    "t \<in> rs_used_turn_ids s"
    by (auto simp: run_wf_def)
  then show ?thesis
    using validate_budget_ok_iff [OF assms(3)] replay_turns [OF assms(1)] replay_steps [OF assms(1)]
    by simp
qed

theorem requested_context_fits_witness:
  "pending_command (sample_state 13) = Some (RequestModel turn2 1 sample_pack) \<and>
   token_total sample_pack \<le> unat (cp_token_budget sample_pack)"
proof -
  have "pending_command (sample_state 13) = Some (RequestModel turn2 1 sample_pack)"
    by code_simp
  moreover have "length (cp_fragments sample_pack) \<le> 2 ^ 32"
    by (simp add: sample_pack_def)
  ultimately show ?thesis
    using requested_context_fits [OF sample_ok [of 13]] by blast
qed

text \<open>
  Model steps count the responses of a run: the \<open>k\<close>-th recorded response carries step \<open>k\<close>,
  failed attempts do not advance the step, and the next step is the number of responses.
\<close>

theorem model_steps_count_responses:
  assumes "run_replay rs = (s, Inr ())"
  shows "response_steps (events rs) = map of_nat [0..<length (response_steps (events rs))] \<and>
    rs_next_model_step s = of_nat (length (response_steps (events rs)))"
  using assms by (rule replay_steps)

theorem model_steps_count_responses_witness:
  "rs_next_model_step (sample_state 16) = 2"
proof -
  have "length (response_steps (events (sample_ledger 16))) = 2"
    by code_simp
  then show ?thesis
    using model_steps_count_responses [OF sample_ok [of 16]] by simp
qed

text \<open>
  C21. Commands are exactly the enabled host actions: in a running state reached by a ledger, the
  start of a call is accepted iff \<open>ExecuteTool\<close> of that call is pending, an approval grant iff
  \<open>AwaitApproval\<close> of that call is pending, a model request iff \<open>RequestModel\<close> of that turn and
  step is pending.
\<close>

theorem commands_enable_actions:
  assumes "run_replay rs = (s, Inr ())" and "rs_run_id s = Some r"
  shows "(accepts s at (ToolStarted r c) \<longleftrightarrow>
      (\<exists>call. pending_command s = Some (ExecuteTool call) \<and> tc_id call = c)) \<and>
    (accepts s at (ApprovalGranted r c a) \<longleftrightarrow> (\<exists>why. pending_command s = Some (AwaitApproval c why))) \<and>
    (accepts s at (ModelRequested r t n m) \<longleftrightarrow> (\<exists>pack. pending_command s = Some (RequestModel t n pack)))"
proof -
  have gate: "gate_open s" if "\<not> awaits_context (rs_phase s)"
    using that replay_wf [OF assms(1)] by (auto simp: run_wf_def gate_open_def split: option.splits)
  have "(\<exists>u. run_step s (ToolStarted r c) u) \<longleftrightarrow> (\<exists>call. rs_phase s = ReadyToExecuteTool call \<and> tc_id call = c)"
    using gate by (fastforce intro: run_step.tool_started)
  moreover have "(\<exists>u. run_step s (ApprovalGranted r c a) u) \<longleftrightarrow>
      (\<exists>call why. rs_phase s = AwaitingApproval call why \<and> tc_id call = c)"
    using gate by (fastforce intro: run_step.granted)
  moreover have "(\<exists>u. run_step s (ModelRequested r t n m) u) \<longleftrightarrow> (\<exists>pack. rs_phase s = ReadyToRequestModel t n pack)"
    using gate by (fastforce intro: run_step.requested)
  ultimately show ?thesis
    using assms(2) by (auto simp: accepts_iff_step pending_command_def split: RunPhase.splits)
qed

theorem commands_enable_actions_witness:
  "rs_run_id (sample_state 9) = Some run1 \<and> accepts (sample_state 9) 5 (ToolStarted run1 call1_id)"
proof -
  have run: "rs_run_id (sample_state 9) = Some run1"
    by code_simp
  moreover have "pending_command (sample_state 9) = Some (ExecuteTool sample_call)"
    by code_simp
  moreover have "tc_id sample_call = call1_id"
    by (simp add: sample_call_def)
  ultimately show ?thesis
    using commands_enable_actions [OF sample_ok [of 9] run, of 5 call1_id] by blast
qed

text \<open>
  C22. No run is stuck: in every state reached by a ledger that is not terminal, some next record
  is accepted; once the run has started, failing it is always possible.
\<close>

theorem run_never_stuck:
  assumes "run_replay rs = (s, Inr ())" and "\<not> is_terminal_phase (rs_phase s)"
  shows "\<exists>ev. accepts s at ev \<and>
     (rs_phase s \<noteq> NotStarted \<longrightarrow> (\<exists>r why. rs_run_id s = Some r \<and> ev = RunFailed r why))"
proof (cases "rs_run_id s")
  case None
  with replay_wf [OF assms(1)] have "rs_phase s = NotStarted" and "gate_open s"
    by (auto simp: run_wf_def gate_open_def split: option.splits)
  then have "run_apply s \<lparr>re_seq = rs_next_seq s, re_occurred_at_ms = at,
      re_event = RunStarted \<lparr>rse_run_id = run1, rse_identity = LegacyAgent (AgentId (lit ''plato''))\<rparr>\<rparr> =
      (s\<lparr>rs_run_id := Some run1, rs_phase := ReadyForContext, rs_next_seq := rs_next_seq s + 1\<rparr>, Inr ())"
    using None by (auto simp: run_apply_ok intro!: exI run_step.intros)
  with \<open>rs_phase s = NotStarted\<close> show ?thesis
    by (intro exI [of _ "RunStarted \<lparr>rse_run_id = run1, rse_identity = LegacyAgent (AgentId (lit ''plato''))\<rparr>"])
      (simp add: accepts_def)
next
  case (Some r)
  with replay_wf [OF assms(1)] assms(2) have "can_fail (rs_phase s)"
    by (cases "rs_phase s") (auto simp: run_wf_def)
  then have "run_step s (RunFailed r (lit ''stop'')) (s\<lparr>rs_pending_compaction_turn_id := None, rs_phase := Failed (lit ''stop'')\<rparr>)"
    by (rule run_step.failed)
  with Some have "accepts s at (RunFailed r (lit ''stop''))"
    by (metis accepts_iff_step event_run_id.simps(16))
  with Some show ?thesis by blast
qed

theorem run_never_stuck_witness:
  "\<not> is_terminal_phase (rs_phase (sample_state 12)) \<and> (\<exists>ev. accepts (sample_state 12) 0 ev)"
proof -
  have "\<not> is_terminal_phase (rs_phase (sample_state 12))"
    by code_simp
  with run_never_stuck [OF sample_ok this] show ?thesis by blast
qed

end
