(* ===== verification/Sqlite_Recorder.thy ===== *)
theory Sqlite_Recorder
  imports Session_Store Run_Properties "HOL-Library.Multiset"
begin

text \<open>
  The SQLite event recorder of \<open>ledger/sqlite.rs\<close>: it validates an event on a copy of the run
  state, stores the record, and only then advances its own state; terminal events of a session run
  are stored together with the outcome. The durability property says that what was acknowledged is
  exactly what is read back.
\<close>

section \<open>The recorder\<close>

record 'v SqliteEventRecorder =
  se_ledger :: SqliteLedger
  se_run_id :: RunId
  se_state :: "'v RunState"
  se_session_run_open :: bool
  se_terminal_attempted :: bool

definition sqlite_create :: "SqliteLedger \<Rightarrow> RunId \<Rightarrow> 'v SqliteEventRecorder" where
  "sqlite_create l r =
     \<lparr>se_ledger = l, se_run_id = r, se_state = RunState_new, se_session_run_open = False,
      se_terminal_attempted = False\<rparr>"

definition sqlite_from_session :: "SqliteLedger \<Rightarrow> RunId \<Rightarrow> 'v SqliteEventRecorder" where
  "sqlite_from_session l r =
     \<lparr>se_ledger = l, se_run_id = r, se_state = RunState_new, se_session_run_open = True,
      se_terminal_attempted = False\<rparr>"

definition sqlite_record ::
  "u64 \<Rightarrow> 'v event_json \<Rightarrow> 'v SqliteEventRecorder \<Rightarrow> 'v HarnessEvent \<Rightarrow>
     'v SqliteEventRecorder \<times> (AppError, 'v RecordedEvent) result" where
  "sqlite_record now js r ev =
     (if se_session_run_open r \<and> is_terminal_event ev
      then (r, Inl (Config (lit ''SQLite session terminal events require an atomic session outcome'')))
      else case next_record now (se_state r) ev of
        (next_state, Inl e) \<Rightarrow> (r, Inl e)
      | (next_state, Inr rec) \<Rightarrow>
          (case append_record_in js (se_ledger r) (run_id_str (se_run_id r)) rec of
             Inl e \<Rightarrow> (r, Inl e)
           | Inr l \<Rightarrow> (r\<lparr>se_ledger := l, se_state := next_state\<rparr>, Inr rec)))"

definition sqlite_record_terminal ::
  "bool \<Rightarrow> u64 \<Rightarrow> u64 \<Rightarrow> 'v event_json \<Rightarrow> 'v SqliteEventRecorder \<Rightarrow> 'v HarnessEvent \<Rightarrow> RunStateName \<Rightarrow>
     rstr option \<Rightarrow> rstr option \<Rightarrow> 'v SqliteEventRecorder \<times> (AppError, 'v RecordedEvent) result" where
  "sqlite_record_terminal db now1 now2 js r ev status answer err =
     (if \<not> se_session_run_open r then sqlite_record now1 js r ev
      else
        let r = r\<lparr>se_terminal_attempted := True\<rparr>
        in case next_record now1 (se_state r) ev of
             (next_state, Inl e) \<Rightarrow> (r, Inl e)
           | (next_state, Inr rec) \<Rightarrow>
               (case commit_session_terminal db now2 js (se_ledger r) (se_run_id r) rec status answer err of
                  (l, Inl e) \<Rightarrow> (r\<lparr>se_ledger := l\<rparr>, Inl e)
                | (l, Inr _) \<Rightarrow>
                    (r\<lparr>se_ledger := l, se_state := next_state, se_session_run_open := False\<rparr>, Inr rec)))"

definition sqlite_finish_run ::
  "bool \<Rightarrow> u64 \<Rightarrow> u64 \<Rightarrow> 'v event_json \<Rightarrow> 'v SqliteEventRecorder \<Rightarrow> rstr \<Rightarrow>
     'v SqliteEventRecorder \<times> (AppError, 'v RecordedEvent) result" where
  "sqlite_finish_run db now1 now2 js r answer =
     sqlite_record_terminal db now1 now2 js r (RunFinished (se_run_id r)) RunStateName.Finished (Some answer) None"

definition sqlite_fail_run ::
  "bool \<Rightarrow> u64 \<Rightarrow> u64 \<Rightarrow> 'v event_json \<Rightarrow> 'v SqliteEventRecorder \<Rightarrow> rstr \<Rightarrow> bool \<Rightarrow>
     'v SqliteEventRecorder \<times> (AppError, 'v RecordedEvent) result" where
  "sqlite_fail_run db now1 now2 js r error canceled =
     sqlite_record_terminal db now1 now2 js r (RunFailed (se_run_id r) error)
       (if canceled then RunStateName.Canceled else RunStateName.Failed) None (Some error)"

definition sqlite_drop :: "bool \<Rightarrow> u64 \<Rightarrow> u64 \<Rightarrow> 'v event_json \<Rightarrow> 'v SqliteEventRecorder \<Rightarrow> 'v SqliteEventRecorder" where
  "sqlite_drop db now1 now2 js r =
     (if se_session_run_open r \<and> \<not> se_terminal_attempted r
      then fst (sqlite_fail_run db now1 now2 js r (lit ''run ended before session status was closed'') False)
      else r)"

section \<open>Stored rows of a run\<close>

definition rows_of :: "SqliteLedger \<Rightarrow> rstr \<Rightarrow> EventRow list" where
  "rows_of l run_id = sort_key er_seq (filter (\<lambda>row. er_run_id row = run_id) (lg_ledger_events l))"

definition event_row :: "'v event_json \<Rightarrow> rstr \<Rightarrow> 'v RecordedEvent \<Rightarrow> EventRow" where
  "event_row js run_id rec =
     \<lparr>er_run_id = run_id, er_seq = uint (re_seq rec), er_occurred_at_ms = uint (re_occurred_at_ms rec),
      er_v = LEDGER_VERSION, er_event_json = to_string js (re_event rec)\<rparr>"

lemma sort_key_snoc:
  assumes "\<forall>y\<in>set xs. f y \<le> f x"
  shows "sort_key f (xs @ [x]) = sort_key f xs @ [x]"
proof (rule properties_for_sort_key)
  show "mset (sort_key f xs @ [x]) = mset (xs @ [x])" by simp
  show "filter (\<lambda>y. f k = f y) (sort_key f xs @ [x]) = filter (\<lambda>y. f k = f y) (xs @ [x])" for k
  proof -
    have "filter (\<lambda>y. f y = f k) (sort_key f xs) = filter (\<lambda>y. f y = f k) xs"
      by (rule sort_key_stable)
    then show ?thesis by (simp add: eq_commute [of "f k"])
  qed
  show "sorted (map f (sort_key f xs @ [x]))"
    using assms by (simp add: sorted_append)
qed

lemma rows_of_touch [simp]: "rows_of (touch_session l sid now) run_id = rows_of l run_id"
  by (simp add: rows_of_def)

lemma rows_of_outcome:
  "update_running_session_outcome l r status answer err now = Inr l' \<Longrightarrow> rows_of l' run_id = rows_of l run_id"
  by (auto simp: update_running_session_outcome_def rows_of_def split: if_splits)

text \<open>A record that appends after all stored rows of its run becomes the last row.\<close>

lemma rows_of_append:
  assumes "append_record_in js l run_id rec = Inr l'" and "\<forall>row\<in>set (rows_of l run_id). er_seq row < uint (re_seq rec)"
  shows "rows_of l' run_id = rows_of l run_id @ [event_row js run_id rec]"
  using assms(1)
proof (cases rule: append_record_cases)
  case (again row)
  then have "row \<in> set (rows_of l run_id)"
    by (simp add: rows_of_def)
  with again(4) assms(2) show ?thesis by force
next
  case fresh
  have "\<forall>row\<in>set (filter (\<lambda>row. er_run_id row = run_id) (lg_ledger_events l)). er_seq row \<le> er_seq (event_row js run_id rec)"
    using assms(2) by (fastforce simp: rows_of_def event_row_def)
  from sort_key_snoc [OF this] fresh(1) show ?thesis
    by (simp add: rows_of_def event_row_def)
qed

lemma append_record_storable:
  assumes "append_record_in js l run_id rec = Inr l'"
  shows "re_seq rec \<le> 9223372036854775807 \<and> re_occurred_at_ms rec \<le> 9223372036854775807 \<and>
    validate_ledger_identity LEDGER_VERSION (re_event rec) = Inr ()"
  using assms by (auto simp: append_record_in_def result_simps sqlite_i64_def split: if_splits)

definition storable :: "'v event_json \<Rightarrow> 'v RecordedEvent \<Rightarrow> bool" where
  "storable js rec \<longleftrightarrow> re_seq rec \<le> 9223372036854775807 \<and>
     validate_ledger_identity LEDGER_VERSION (re_event rec) = Inr ()"

lemma read_event_row:
  assumes "storable js rec" and "from_str js (to_string js (re_event rec)) = Some (re_event rec)"
  shows "sqlite_record_from_row js (event_row js run_id rec) = Inr rec"
  using assms
  by (simp add: sqlite_record_from_row_def event_row_def storable_def supported_ledger_version_def row_u64_def)

lemma read_rows_map:
  assumes "\<forall>rec\<in>set recs. storable js rec \<and> from_str js (to_string js (re_event rec)) = Some (re_event rec)"
  shows "read_rows js (map (event_row js run_id) recs) = Inr recs"
  using assms by (induction recs) (simp_all add: read_event_row)

section \<open>What the recorder maintains\<close>

definition recorder_inv :: "'v event_json \<Rightarrow> 'v SqliteEventRecorder \<Rightarrow> 'v RecordedEvent list \<Rightarrow> bool" where
  "recorder_inv js r recs \<longleftrightarrow>
     rows_of (se_ledger r) (run_id_str (se_run_id r)) = map (event_row js (run_id_str (se_run_id r))) recs \<and>
     run_replay recs = (se_state r, Inr ()) \<and> list_all (storable js) recs"

lemma i64_max_lt: "(w :: u64) \<le> 9223372036854775807 \<Longrightarrow> unat w < 2 ^ 63"
  by (simp add: word_le_nat_alt)

lemma storable_count:
  assumes "run_replay recs = (s, Inr ())" and "list_all (storable js) recs"
  shows "length recs \<le> 2 ^ 63"
proof (rule ccontr)
  assume "\<not> length recs \<le> 2 ^ 63"
  then have i: "2 ^ 63 < length recs" by simp
  let ?rec = "recs ! (2 ^ 63)"
  have "re_seq ?rec = map re_seq recs ! (2 ^ 63)"
    using i by (simp only: nth_map)
  also have "\<dots> = of_nat (2 ^ 63)"
    unfolding run_machine.replay_contiguous [OF assms(1)] using i by simp
  finally have "re_seq ?rec = 9223372036854775808" by simp
  moreover have "storable js ?rec"
    using assms(2) i by (simp add: list_all_length)
  ultimately show False
    by (simp add: storable_def)
qed

lemma next_seq_above:
  assumes "run_replay recs = (s, Inr ())" and "list_all (storable js) recs" and "rec \<in> set recs"
  shows "uint (re_seq rec) < uint (rs_next_seq s)"
proof -
  obtain i where i: "i < length recs" "rec = recs ! i"
    using assms(3) by (auto simp: in_set_conv_nth)
  have len: "length recs \<le> 2 ^ 63"
    by (rule storable_count [OF assms(1,2)])
  then have "unat (re_seq rec) = i"
    using run_machine.replay_nth_seq [OF assms(1) i(1)] i(2) by simp
  moreover have "unat (rs_next_seq s) = length recs"
    using len by (simp add: run_machine.replay_next_seq [OF assms(1)] unsigned_of_nat take_bit_nat_eq_self)
  ultimately have "unat (re_seq rec) < unat (rs_next_seq s)"
    using i(1) by simp
  then show ?thesis
    by (simp add: word_less_nat_alt [symmetric] word_less_def)
qed

lemma append_keeps_inv:
  assumes inv: "recorder_inv js r recs" and rec: "next_record now (se_state r) ev = (next, Inr rec)"
    and app: "append_record_in js (se_ledger r) (run_id_str (se_run_id r)) rec = Inr l"
  shows "rows_of l (run_id_str (se_run_id r)) = map (event_row js (run_id_str (se_run_id r))) (recs @ [rec]) \<and>
    run_replay (recs @ [rec]) = (next, Inr ()) \<and> list_all (storable js) (recs @ [rec])"
proof -
  from inv have rows: "rows_of (se_ledger r) (run_id_str (se_run_id r)) = map (event_row js (run_id_str (se_run_id r))) recs"
    and run: "run_replay recs = (se_state r, Inr ())" and st: "list_all (storable js) recs"
    by (simp_all add: recorder_inv_def)
  from rec have seq: "re_seq rec = rs_next_seq (se_state r)"
    by (simp add: next_record_ok)
  have "\<forall>row\<in>set (rows_of (se_ledger r) (run_id_str (se_run_id r))). er_seq row < uint (re_seq rec)"
    using next_seq_above [OF run st] by (auto simp: rows event_row_def seq)
  from rows_of_append [OF app this] next_record_extends [OF run rec] append_record_storable [OF app] st
  show ?thesis by (simp add: rows storable_def)
qed

lemma record_keeps_inv:
  assumes "recorder_inv js r recs" and "sqlite_record now js r ev = (r', res)"
  shows "case res of Inl e \<Rightarrow> r' = r | Inr rec \<Rightarrow> re_event rec = ev \<and> recorder_inv js r' (recs @ [rec])"
proof (cases res)
  case (Inl e)
  with assms(2) show ?thesis
    by (auto simp: sqlite_record_def split: if_splits prod.splits sum.splits)
next
  case (Inr rec)
  with assms(2) obtain "next" l where n: "next_record now (se_state r) ev = (next, Inr rec)"
    and app: "append_record_in js (se_ledger r) (run_id_str (se_run_id r)) rec = Inr l"
    and r': "r' = r\<lparr>se_ledger := l, se_state := next\<rparr>"
    by (auto simp: sqlite_record_def split: if_splits prod.splits sum.splits)
  from append_keeps_inv [OF assms(1) n app] n Inr show ?thesis
    by (simp add: recorder_inv_def r' next_record_ok)
qed

lemma commit_append:
  assumes "commit_session_terminal db now js l r rec status answer err = (l', Inr u)"
  shows "\<exists>l1. append_record_in js l (run_id_str r) rec = Inr l1 \<and>
    rows_of l' (run_id_str r) = rows_of l1 (run_id_str r)"
proof -
  obtain now_i sid l1 l2 where "append_record_in js l (run_id_str r) rec = Inr l1"
    and "update_running_session_outcome l1 (run_id_str r) status answer err now_i = Inr l2"
    and "l' = touch_session l2 sid now_i"
    using assms by (auto simp: commit_session_terminal_def split: sum.splits option.splits if_splits)
  then show ?thesis
    using rows_of_outcome by fastforce
qed

lemma record_terminal_keeps_inv:
  assumes "recorder_inv js r recs" and "sqlite_record_terminal db now1 now2 js r ev status answer err = (r', res)"
  shows "case res of Inl e \<Rightarrow> recorder_inv js r' recs
    | Inr rec \<Rightarrow> re_event rec = ev \<and> recorder_inv js r' (recs @ [rec])"
proof (cases "se_session_run_open r")
  case False
  with assms record_keeps_inv [OF assms(1), of now1 ev r' res] show ?thesis
    by (auto simp: sqlite_record_terminal_def split: sum.splits)
next
  case True
  show ?thesis
  proof (cases res)
    case (Inl e)
    with True assms show ?thesis
      by (auto simp: sqlite_record_terminal_def recorder_inv_def Let_def
          split: prod.splits sum.splits dest: commit_tx.error_keeps)
  next
    case (Inr rec)
    with True assms(2) obtain "next" l where n: "next_record now1 (se_state r) ev = (next, Inr rec)"
      and com: "commit_session_terminal db now2 js (se_ledger r) (se_run_id r) rec status answer err = (l, Inr ())"
      and r': "r' = r\<lparr>se_terminal_attempted := True, se_ledger := l, se_state := next, se_session_run_open := False\<rparr>"
      by (auto simp: sqlite_record_terminal_def Let_def split: prod.splits sum.splits)
    obtain l1 where app: "append_record_in js (se_ledger r) (run_id_str (se_run_id r)) rec = Inr l1"
      and rows: "rows_of l (run_id_str (se_run_id r)) = rows_of l1 (run_id_str (se_run_id r))"
      using commit_append [OF com] by blast
    from append_keeps_inv [OF assms(1) n app] n Inr rows show ?thesis
      by (simp add: recorder_inv_def r' next_record_ok)
  qed
qed

section \<open>Sequences of recorder calls\<close>

datatype 'v RecorderCall =
    RecordEvent u64 "'v HarnessEvent"
  | FinishRun bool u64 u64 rstr
  | FailRun bool u64 u64 rstr bool

fun recorder_call ::
  "'v event_json \<Rightarrow> 'v SqliteEventRecorder \<Rightarrow> 'v RecorderCall \<Rightarrow>
     'v SqliteEventRecorder \<times> (AppError, 'v RecordedEvent) result" where
  "recorder_call js r (RecordEvent now ev) = sqlite_record now js r ev"
| "recorder_call js r (FinishRun db now1 now2 answer) = sqlite_finish_run db now1 now2 js r answer"
| "recorder_call js r (FailRun db now1 now2 error canceled) = sqlite_fail_run db now1 now2 js r error canceled"

text \<open>The recorder after the calls, and the records they acknowledged.\<close>

fun recorder_calls ::
  "'v event_json \<Rightarrow> 'v SqliteEventRecorder \<Rightarrow> 'v RecorderCall list \<Rightarrow>
     'v SqliteEventRecorder \<times> 'v RecordedEvent list" where
  "recorder_calls js r [] = (r, [])"
| "recorder_calls js r (call # calls) =
     (let (r1, res) = recorder_call js r call; (r2, acked) = recorder_calls js r1 calls
      in (r2, (case res of Inl _ \<Rightarrow> acked | Inr rec \<Rightarrow> rec # acked)))"

lemma recorder_call_inv:
  assumes "recorder_inv js r recs" and "recorder_call js r call = (r', res)"
  shows "case res of Inl e \<Rightarrow> recorder_inv js r' recs | Inr rec \<Rightarrow> recorder_inv js r' (recs @ [rec])"
proof (cases call)
  case (RecordEvent now ev)
  with assms record_keeps_inv [OF assms(1), of now ev r' res] show ?thesis
    by (auto split: sum.splits)
next
  case (FinishRun db now1 now2 answer)
  with assms record_terminal_keeps_inv [OF assms(1)] show ?thesis
    by (fastforce simp: sqlite_finish_run_def split: sum.splits)
next
  case (FailRun db now1 now2 error canceled)
  with assms record_terminal_keeps_inv [OF assms(1)] show ?thesis
    by (fastforce simp: sqlite_fail_run_def split: sum.splits)
qed

lemma recorder_calls_inv:
  "recorder_inv js r recs \<Longrightarrow> recorder_calls js r calls = (r', acked) \<Longrightarrow> recorder_inv js r' (recs @ acked)"
proof (induction calls arbitrary: r recs acked)
  case (Cons call calls)
  obtain r1 res where one: "recorder_call js r call = (r1, res)" by fastforce
  obtain rest where more: "recorder_calls js r1 calls = (r', rest)"
    using Cons.prems(2) one by (auto simp: Let_def split: prod.splits)
  show ?case
  proof (cases res)
    case (Inl e)
    with recorder_call_inv [OF Cons.prems(1) one] Cons.IH more one Cons.prems(2) show ?thesis by simp
  next
    case (Inr rec)
    with recorder_call_inv [OF Cons.prems(1) one] have "recorder_inv js r1 (recs @ [rec])" by simp
    from Cons.IH [OF this more] Inr one more Cons.prems(2) show ?thesis by simp
  qed
qed simp

text \<open>
  C24. Acknowledged means durable: after any sequence of recorder calls, failures included, on a
  run without stored rows, reading the run returns exactly the acknowledged records, in the order
  they were acknowledged, and replaying them gives the recorder's own run state. This needs only
  that JSON text written for an acknowledged event parses back to it.
\<close>

theorem sqlite_recorder_durable:
  assumes "rows_of l (run_id_str r) = []"
    and "recorder_calls js (if session then sqlite_from_session l r else sqlite_create l r) calls = (rec, acked)"
    and "\<forall>q\<in>set acked. from_str js (to_string js (re_event q)) = Some (re_event q)"
  shows "read_run_records_from js (se_ledger rec) (run_id_str (se_run_id rec)) = Inr acked \<and>
    replay_records acked = Inr (se_state rec)"
proof -
  have "recorder_inv js (if session then sqlite_from_session l r else sqlite_create l r) []"
    using assms(1) by (simp add: recorder_inv_def sqlite_create_def sqlite_from_session_def)
  from recorder_calls_inv [OF this assms(2)] have inv: "recorder_inv js rec acked" by simp
  then have "read_rows js (rows_of (se_ledger rec) (run_id_str (se_run_id rec))) = Inr acked"
    using read_rows_map [of acked js] assms(3) by (simp add: recorder_inv_def list_all_iff)
  with inv show ?thesis
    by (simp add: read_run_records_from_def rows_of_def recorder_inv_def result_simps)
qed

text \<open>A codec for the first events of the concrete ledger: their names.\<close>

definition name_js :: "nat event_json" where
  "name_js =
     \<lparr>to_string = (\<lambda>ev. lit (event_name ev)),
      from_str = (\<lambda>s. find (\<lambda>ev. lit (event_name ev) = s) (take 3 sample_events))\<rparr>"

definition sample_calls :: "nat RecorderCall list" where
  "sample_calls = map (RecordEvent 3) [sample_events ! 0, sample_events ! 0, sample_events ! 1]"

theorem sqlite_recorder_durable_witness:
  "\<exists>rec acked. recorder_calls name_js (sqlite_create ledger_empty run1) sample_calls = (rec, acked) \<and>
     length acked = 2 \<and>
     read_run_records_from name_js (se_ledger rec) (run_id_str (se_run_id rec)) = Inr acked"
proof -
  let ?p = "recorder_calls name_js (sqlite_create ledger_empty run1) sample_calls"
  have p: "recorder_calls name_js (if False then sqlite_from_session ledger_empty run1 else sqlite_create ledger_empty run1)
      sample_calls = (fst ?p, snd ?p)" by simp
  have codec: "list_all (\<lambda>q. from_str name_js (to_string name_js (re_event q)) = Some (re_event q)) (snd ?p)"
    by code_simp
  have "length (snd ?p) = 2"
    by code_simp
  moreover have "rows_of ledger_empty (run_id_str run1) = []"
    by (simp add: rows_of_def ledger_empty_def)
  ultimately show ?thesis
    using sqlite_recorder_durable [OF _ p] codec
    by (intro exI [of _ "fst ?p"] exI [of _ "snd ?p"]) (simp add: list_all_iff)
qed

end
