(* ===== verification/Jsonl_Ledger.thy ===== *)
theory Jsonl_Ledger
  imports Session_Store Run_Properties
begin

text \<open>
  The JSON-lines run log of \<open>ledger/jsonl.rs\<close>: one line per record, committed by its newline. The
  file is its bytes; a write either completes or stops after some bytes. The model has the
  recorder with its poisoning, the reader that ignores an uncommitted tail, and the reopening that
  truncates it. \<open>serde_json\<close> is the parameter \<open>lj\<close>.
\<close>

section \<open>Lines\<close>

datatype 'v PersistedLedgerLine =
    Record "'v LedgerLine"
  | Voice "VoiceEventEnvelope list"

record 'v line_json =
  to_vec :: "'v PersistedLedgerLine \<Rightarrow> u8 list"
  from_slice :: "u8 list \<Rightarrow> 'v PersistedLedgerLine option"

text \<open>\<open>u8::is_ascii_whitespace\<close> and \<open>slice::split\<close> at newline bytes.\<close>

definition is_ascii_whitespace :: "u8 \<Rightarrow> bool" where
  "is_ascii_whitespace b \<longleftrightarrow> b = 32 \<or> b = 9 \<or> b = 10 \<or> b = 12 \<or> b = 13"

fun split_newline :: "u8 list \<Rightarrow> u8 list list" where
  "split_newline [] = [[]]"
| "split_newline (b # bs) =
     (if b = 10 then [] # split_newline bs
      else case split_newline bs of [] \<Rightarrow> [[b]] | seg # segs \<Rightarrow> (b # seg) # segs)"

definition committed_len :: "u8 list \<Rightarrow> nat" where
  "committed_len bytes =
     (case position (\<lambda>b. b = 10) (rev bytes) of None \<Rightarrow> 0 | Some i \<Rightarrow> length bytes - 1 - i + 1)"

fun check_line :: "'v PersistedLedgerLine \<Rightarrow> (AppError, unit) result" where
  "check_line (Record line) =
     (if \<not> supported_ledger_version (ll_v line) then Inl (LedgerVersion LEDGER_VERSION (ll_v line))
      else validate_ledger_identity (ll_v line) (re_event (ll_record line)))"
| "check_line (Voice envelopes) = validate_voice_envelopes envelopes"

fun parse_segments :: "'v line_json \<Rightarrow> u8 list list \<Rightarrow> (AppError, 'v PersistedLedgerLine list) result" where
  "parse_segments lj [] = Inr []"
| "parse_segments lj (seg # segs) =
     (if list_all is_ascii_whitespace seg then parse_segments lj segs
      else case from_slice lj seg of
             None \<Rightarrow> Inl Json
           | Some line \<Rightarrow>
               and_then (check_line line) (\<lambda>_.
               and_then (parse_segments lj segs) (\<lambda>lines. Inr (line # lines))))"

definition parse_ledger_lines :: "'v line_json \<Rightarrow> u8 list \<Rightarrow> (AppError, 'v PersistedLedgerLine list) result" where
  "parse_ledger_lines lj bytes = parse_segments lj (split_newline bytes)"

definition read_ledger_lines :: "'v line_json \<Rightarrow> u8 list \<Rightarrow> (AppError, 'v PersistedLedgerLine list) result" where
  "read_ledger_lines lj bytes = parse_ledger_lines lj (take (committed_len bytes) bytes)"

fun line_record :: "'v PersistedLedgerLine \<Rightarrow> 'v RecordedEvent option" where
  "line_record (Record line) = Some (ll_record line)"
| "line_record (Voice _) = None"

definition read_records :: "'v line_json \<Rightarrow> u8 list \<Rightarrow> (AppError, 'v RecordedEvent list) result" where
  "read_records lj bytes =
     and_then (read_ledger_lines lj bytes) (\<lambda>lines. Inr (List.map_filter line_record lines))"

text \<open>Opening for append returns the truncated file and the replayed state.\<close>

definition open_jsonl_for_append :: "'v line_json \<Rightarrow> u8 list \<Rightarrow> (AppError, u8 list \<times> 'v RunState) result" where
  "open_jsonl_for_append lj bytes =
     (let committed = take (committed_len bytes) bytes
      in and_then (parse_ledger_lines lj committed) (\<lambda>lines.
         and_then (replay_records (List.map_filter line_record lines)) (\<lambda>state.
           Inr (committed, state))))"

section \<open>The recorder\<close>

record JsonlSession =
  jn_ledger :: SqliteLedger
  jn_run_id :: RunId
  jn_created_session :: bool
  jn_open :: bool
  jn_terminal_attempted :: bool

record 'v JsonlEventRecorder =
  je_file :: "u8 list"
  je_state :: "'v RunState"
  je_session :: "JsonlSession option"
  je_poisoned :: bool

text \<open>\<open>WriteFailed k\<close>: writing, flushing or syncing failed after \<open>k\<close> bytes reached the file.\<close>

datatype WriteOutcome = Written | WriteFailed nat

definition jsonl_create :: "'v JsonlEventRecorder" where
  "jsonl_create = \<lparr>je_file = [], je_state = RunState_new, je_session = None, je_poisoned = False\<rparr>"

definition jsonl_open :: "'v line_json \<Rightarrow> u8 list \<Rightarrow> (AppError, 'v JsonlEventRecorder) result" where
  "jsonl_open lj bytes =
     and_then (open_jsonl_for_append lj bytes) (\<lambda>(file, state).
       Inr \<lparr>je_file = file, je_state = state, je_session = None, je_poisoned = False\<rparr>)"

definition with_session :: "'v JsonlEventRecorder \<Rightarrow> SqliteLedger \<Rightarrow> RunId \<Rightarrow> bool \<Rightarrow> 'v JsonlEventRecorder" where
  "with_session r l run_id created =
     r\<lparr>je_session := Some \<lparr>jn_ledger = l, jn_run_id = run_id, jn_created_session = created, jn_open = True,
                            jn_terminal_attempted = False\<rparr>\<rparr>"

definition record_event ::
  "u64 \<Rightarrow> WriteOutcome \<Rightarrow> 'v line_json \<Rightarrow> 'v JsonlEventRecorder \<Rightarrow> 'v HarnessEvent \<Rightarrow>
     'v JsonlEventRecorder \<times> (AppError, 'v RecordedEvent) result" where
  "record_event now io lj r ev =
     (if je_poisoned r
      then (r, Inl (Config (lit ''JSONL recorder is unavailable after a prior write failure'')))
      else case next_record now (je_state r) ev of
        (next_state, Inl e) \<Rightarrow> (r, Inl e)
      | (next_state, Inr rec) \<Rightarrow>
          let bytes = to_vec lj (Record \<lparr>ll_v = LEDGER_VERSION, ll_record = rec\<rparr>) @ [10]
          in case io of
               Written \<Rightarrow> (r\<lparr>je_file := je_file r @ bytes, je_state := next_state\<rparr>, Inr rec)
             | WriteFailed k \<Rightarrow> (r\<lparr>je_file := je_file r @ take k bytes, je_poisoned := True\<rparr>, Inl Io))"

definition jsonl_record ::
  "u64 \<Rightarrow> WriteOutcome \<Rightarrow> 'v line_json \<Rightarrow> 'v JsonlEventRecorder \<Rightarrow> 'v HarnessEvent \<Rightarrow>
     'v JsonlEventRecorder \<times> (AppError, 'v RecordedEvent) result" where
  "jsonl_record now io lj r ev =
     (if (case je_session r of Some session \<Rightarrow> jn_open session | None \<Rightarrow> False) \<and> is_terminal_event ev
      then (r, Inl (Config (lit ''JSONL session terminal events require a matching session outcome'')))
      else record_event now io lj r ev)"

definition jsonl_record_terminal ::
  "bool \<Rightarrow> u64 \<Rightarrow> u64 \<Rightarrow> WriteOutcome \<Rightarrow> 'v line_json \<Rightarrow> 'v JsonlEventRecorder \<Rightarrow> 'v HarnessEvent \<Rightarrow>
     RunStateName \<Rightarrow> rstr option \<Rightarrow> rstr option \<Rightarrow> 'v JsonlEventRecorder \<times> (AppError, 'v RecordedEvent) result" where
  "jsonl_record_terminal db now1 now2 io lj r ev status answer err =
     (case je_session r of
        None \<Rightarrow> record_event now1 io lj r ev
      | Some session \<Rightarrow>
          if \<not> jn_open session then (r, Inl (Config (lit ''JSONL session run is already closed'')))
          else
            let session = session\<lparr>jn_terminal_attempted := True\<rparr>
            in case record_event now1 io lj (r\<lparr>je_session := Some session\<rparr>) ev of
                 (r1, Inl e) \<Rightarrow> (r1, Inl e)
               | (r1, Inr rec) \<Rightarrow>
                   (case complete_session_terminal db now2 (jn_ledger session) (jn_run_id session) status answer err of
                      (l, Inl e) \<Rightarrow> (r1\<lparr>je_session := Some (session\<lparr>jn_ledger := l\<rparr>)\<rparr>, Inl e)
                    | (l, Inr _) \<Rightarrow>
                        (r1\<lparr>je_session := Some (session\<lparr>jn_ledger := l, jn_open := False\<rparr>)\<rparr>, Inr rec)))"

definition jsonl_finish_run where
  "jsonl_finish_run db now1 now2 io lj r run_id answer =
     jsonl_record_terminal db now1 now2 io lj r (RunFinished run_id) RunStateName.Finished (Some answer) None"

definition jsonl_fail_run where
  "jsonl_fail_run db now1 now2 io lj r run_id error canceled =
     jsonl_record_terminal db now1 now2 io lj r (RunFailed run_id error)
       (if canceled then RunStateName.Canceled else RunStateName.Failed) None (Some error)"

definition jsonl_drop ::
  "bool \<Rightarrow> u64 \<Rightarrow> u64 \<Rightarrow> WriteOutcome \<Rightarrow> 'v line_json \<Rightarrow> 'v JsonlEventRecorder \<Rightarrow> 'v JsonlEventRecorder" where
  "jsonl_drop db now1 now2 io lj r =
     (case je_session r of
        Some session \<Rightarrow>
          if jn_open session \<and> \<not> jn_terminal_attempted session \<and> \<not> je_poisoned r
          then fst (jsonl_fail_run db now1 now2 io lj r (jn_run_id session)
                     (lit ''run ended before session status was closed'') False)
          else r
      | None \<Rightarrow> r)"

section \<open>Voice batches in the run log\<close>

definition read_voice_events_from_jsonl ::
  "'v line_json \<Rightarrow> u8 list \<Rightarrow> rstr \<Rightarrow> (AppError, VoiceEventEnvelope list) result" where
  "read_voice_events_from_jsonl lj bytes selected =
     and_then (read_ledger_lines lj bytes) (\<lambda>lines.
       let records = List.map_filter line_record lines;
           batches = List.map_filter (\<lambda>line. case line of Voice envs \<Rightarrow> Some envs | Record _ \<Rightarrow> None) lines;
           envelopes = (case batches of [] \<Rightarrow> [] | envs # _ \<Rightarrow> envs)
       in if length batches > 1
          then Inl (VoiceEventContract (lit ''run '' @ selected @ lit '' contains multiple voice event batches''))
          else
            and_then (validate_record_run_ids records selected) (\<lambda>_.
            and_then (for_each (\<lambda>env.
               if run_id_str (ve_run_id (vee_event env)) \<noteq> selected
               then Inl (VoiceEventContract (lit ''voice event belongs to '' @ run_id_str (ve_run_id (vee_event env)) @
                          lit '', expected '' @ selected))
               else Inr ()) envelopes) (\<lambda>_.
            and_then (validate_voice_envelopes envelopes) (\<lambda>_.
            and_then (if envelopes \<noteq> [] then validate_voice_event_keys records selected envelopes else Inr ()) (\<lambda>_.
              Inr envelopes)))))"

definition append_voice_events_to_jsonl ::
  "WriteOutcome \<Rightarrow> 'v line_json \<Rightarrow> u8 list \<Rightarrow> rstr \<Rightarrow> VoiceEventEnvelope list \<Rightarrow>
     u8 list \<times> (AppError, VoiceEventEnvelope list) result" where
  "append_voice_events_to_jsonl io lj bytes run_id envelopes =
     (case open_jsonl_for_append lj bytes of
        Inl e \<Rightarrow> (bytes, Inl e)
      | Inr (file, _) \<Rightarrow>
          (case read_voice_events_from_jsonl lj file run_id of
             Inl e \<Rightarrow> (file, Inl e)
           | Inr existing \<Rightarrow>
               if existing \<noteq> []
               then if existing = envelopes then (file, Inr envelopes)
                    else (file, Inl (VoiceLedgerConflict run_id (first_voice_difference existing envelopes)))
               else
                 let line = to_vec lj (Voice envelopes) @ [10]
                 in case io of
                      Written \<Rightarrow> (file @ line, Inr envelopes)
                    | WriteFailed k \<Rightarrow> (file @ take k line, Inl Io)))"

section \<open>Committed prefixes\<close>

text \<open>What the model relies on from \<open>serde_json\<close>: compact JSON of a line parses back to it and is
  a nonblank single line.\<close>

definition line_ok :: "'v line_json \<Rightarrow> 'v PersistedLedgerLine \<Rightarrow> bool" where
  "line_ok lj line \<longleftrightarrow>
     from_slice lj (to_vec lj line) = Some line \<and> 10 \<notin> set (to_vec lj line) \<and>
     \<not> list_all is_ascii_whitespace (to_vec lj line)"

definition encode_lines :: "'v line_json \<Rightarrow> 'v PersistedLedgerLine list \<Rightarrow> u8 list" where
  "encode_lines lj lines = concat (map (\<lambda>line. to_vec lj line @ [10]) lines)"

lemma encode_lines_simps [simp]:
  "encode_lines lj [] = []"
  "encode_lines lj (line # lines) = to_vec lj line @ 10 # encode_lines lj lines"
  "encode_lines lj (xs @ ys) = encode_lines lj xs @ encode_lines lj ys"
  by (simp_all add: encode_lines_def)

lemma encode_lines_last: "lines \<noteq> [] \<Longrightarrow> \<exists>bs. encode_lines lj lines = bs @ [10]"
  by (cases lines rule: rev_cases) auto

lemma committed_no_newline: "10 \<notin> set tail \<Longrightarrow> committed_len tail = 0"
proof -
  assume "10 \<notin> set tail"
  then have "position (\<lambda>b. b = 10) (rev tail) = None"
    by (auto simp: position_None)
  then show ?thesis by (simp add: committed_len_def)
qed

lemma committed_after_newline: "10 \<notin> set tail \<Longrightarrow> committed_len (bs @ 10 # tail) = length bs + 1"
proof -
  assume "10 \<notin> set tail"
  then have "position (\<lambda>b. b = 10) (rev tail @ 10 # rev bs) = Some (length tail)"
    by (auto simp: position_Some nth_append in_set_conv_nth[symmetric] set_rev dest: nth_mem)
      (metis length_rev nth_mem set_rev)
  then show ?thesis by (simp add: committed_len_def)
qed

lemma committed_lines:
  assumes "10 \<notin> set tail"
  shows "take (committed_len (encode_lines lj lines @ tail)) (encode_lines lj lines @ tail) = encode_lines lj lines"
proof (cases "lines = []")
  case True
  with assms show ?thesis by (simp add: committed_no_newline)
next
  case False
  then obtain bs where "encode_lines lj lines = bs @ [10]"
    using encode_lines_last by blast
  with assms show ?thesis by (simp add: committed_after_newline)
qed

lemma split_newline_line: "10 \<notin> set bs \<Longrightarrow> split_newline (bs @ 10 # rest) = bs # split_newline rest"
  by (induction bs) auto

lemma parse_encoded:
  assumes "\<forall>line\<in>set lines. line_ok lj line \<and> check_line line = Inr ()"
  shows "parse_ledger_lines lj (encode_lines lj lines) = Inr lines"
  using assms
proof (induction lines)
  case (Cons line lines)
  then show ?case
    by (simp add: parse_ledger_lines_def split_newline_line line_ok_def)
qed (simp add: parse_ledger_lines_def)

section \<open>Recovery\<close>

definition ledger_line :: "'v RecordedEvent \<Rightarrow> 'v PersistedLedgerLine" where
  "ledger_line rec = Record \<lparr>ll_v = LEDGER_VERSION, ll_record = rec\<rparr>"

text \<open>A record the reader accepts once its line is committed.\<close>

definition readable :: "'v line_json \<Rightarrow> 'v RecordedEvent \<Rightarrow> bool" where
  "readable lj rec \<longleftrightarrow> line_ok lj (ledger_line rec) \<and> validate_ledger_identity LEDGER_VERSION (re_event rec) = Inr ()"

lemma map_filter_records: "List.map_filter line_record (map ledger_line recs) = recs"
  by (induction recs) (simp_all add: ledger_line_def)

lemma read_committed:
  assumes "\<forall>rec\<in>set recs. readable lj rec"
  shows "read_records lj (encode_lines lj (map ledger_line recs)) = Inr recs"
proof -
  have "\<forall>line\<in>set (map ledger_line recs). line_ok lj line \<and> check_line line = Inr ()"
    using assms by (auto simp: readable_def ledger_line_def supported_ledger_version_def)
  from parse_encoded [OF this] show ?thesis
    using committed_lines [of "[]" lj "map ledger_line recs"]
    by (simp add: read_records_def read_ledger_lines_def map_filter_records)
qed

lemma open_committed:
  assumes "\<forall>rec\<in>set recs. readable lj rec" and "run_replay recs = (s, Inr ())" and "10 \<notin> set tail"
  shows "open_jsonl_for_append lj (encode_lines lj (map ledger_line recs) @ tail) =
    Inr (encode_lines lj (map ledger_line recs), s)"
proof -
  have "\<forall>line\<in>set (map ledger_line recs). line_ok lj line \<and> check_line line = Inr ()"
    using assms(1) by (auto simp: readable_def ledger_line_def supported_ledger_version_def)
  from parse_encoded [OF this] show ?thesis
    using assms(2)
    unfolding open_jsonl_for_append_def committed_lines [OF assms(3)] Let_def
    by (simp add: map_filter_records replay_records_def)
qed

lemma take_line_cases:
  assumes "10 \<notin> set bs"
  shows "take k (bs @ [10]) = bs @ [10] \<and> length bs < k \<or> k \<le> length bs \<and> 10 \<notin> set (take k (bs @ [10]))"
  using assms by (cases "k \<le> length bs") (auto simp: take_Cons' dest: in_set_takeD)

lemma open_after_crash:
  assumes "run_replay recs = (s, Inr ())" and "next_record now s ev = (s', Inr rec)"
    and "\<forall>q\<in>set (recs @ [rec]). readable lj q"
  defines "line \<equiv> to_vec lj (ledger_line rec) @ [10]"
  shows "open_jsonl_for_append lj (encode_lines lj (map ledger_line recs) @ take k line) =
    Inr (if k < length line then (encode_lines lj (map ledger_line recs), s)
         else (encode_lines lj (map ledger_line (recs @ [rec])), s'))"
proof -
  have "10 \<notin> set (to_vec lj (ledger_line rec))"
    using assms(3) by (simp add: readable_def line_ok_def)
  from take_line_cases [OF this, of k] show ?thesis
  proof
    assume full: "take k (to_vec lj (ledger_line rec) @ [10]) = to_vec lj (ledger_line rec) @ [10] \<and>
      length (to_vec lj (ledger_line rec)) < k"
    have "run_replay (recs @ [rec]) = (s', Inr ())"
      using next_record_extends [OF assms(1,2)] by simp
    from open_committed [OF assms(3) this, of "[]"] full show ?thesis
      by (simp add: line_def del: take_append)
  next
    assume "k \<le> length (to_vec lj (ledger_line rec)) \<and> 10 \<notin> set (take k (to_vec lj (ledger_line rec) @ [10]))"
    with open_committed [of recs lj s] assms(1,3) show ?thesis
      by (simp add: line_def del: take_append)
  qed
qed

section \<open>What the recorder maintains\<close>

text \<open>
  The file is the acknowledged lines followed, once a write has failed, by some prefix of the one
  line that was being written; \<open>E\<close> holds the events the recorder was called with.
\<close>

definition jsonl_inv :: "'v line_json \<Rightarrow> 'v HarnessEvent set \<Rightarrow> 'v JsonlEventRecorder \<Rightarrow> 'v RecordedEvent list \<Rightarrow> bool" where
  "jsonl_inv lj E r recs \<longleftrightarrow>
     run_replay recs = (je_state r, Inr ()) \<and> re_event ` set recs \<subseteq> E \<and>
     (if je_poisoned r
      then \<exists>k now ev s' rec. next_record now (je_state r) ev = (s', Inr rec) \<and> ev \<in> E \<and>
             je_file r = encode_lines lj (map ledger_line recs) @ take k (to_vec lj (ledger_line rec) @ [10])
      else je_file r = encode_lines lj (map ledger_line recs))"

lemma jsonl_inv_session [simp]: "jsonl_inv lj E (r\<lparr>je_session := x\<rparr>) recs = jsonl_inv lj E r recs"
  by (simp add: jsonl_inv_def)

lemma jsonl_inv_cong:
  "je_file r' = je_file r \<Longrightarrow> je_state r' = je_state r \<Longrightarrow> je_poisoned r' = je_poisoned r \<Longrightarrow>
     jsonl_inv lj E r' recs = jsonl_inv lj E r recs"
  by (simp only: jsonl_inv_def)

lemma record_event_inv:
  assumes "jsonl_inv lj E r recs" and "record_event now io lj r ev = (r', res)" and "ev \<in> E"
  shows "case res of Inl e \<Rightarrow> jsonl_inv lj E r' recs
    | Inr rec \<Rightarrow> re_event rec = ev \<and> jsonl_inv lj E r' (recs @ [rec])"
proof (cases "je_poisoned r")
  case True
  with assms show ?thesis by (auto simp: record_event_def)
next
  case False
  with assms(1) have run: "run_replay recs = (je_state r, Inr ())"
    and bytes: "je_file r = encode_lines lj (map ledger_line recs)"
    by (simp_all add: jsonl_inv_def)
  obtain nx nr where n: "next_record now (je_state r) ev = (nx, nr)" by fastforce
  show ?thesis
  proof (cases nr)
    case (Inl e)
    with False n assms show ?thesis by (auto simp: record_event_def)
  next
    case (Inr rec)
    note ext = next_record_extends [OF run n [unfolded Inr]]
    show ?thesis
    proof (cases io)
      case Written
      with False n Inr assms(2) have "r' = r\<lparr>je_file := je_file r @ to_vec lj (ledger_line rec) @ [10], je_state := nx\<rparr>"
        and "res = Inr rec"
        by (auto simp: record_event_def ledger_line_def Let_def)
      with ext False bytes assms show ?thesis by (simp add: jsonl_inv_def)
    next
      case (WriteFailed k)
      with False n Inr assms(2) have "r' = r\<lparr>je_file := je_file r @ take k (to_vec lj (ledger_line rec) @ [10]), je_poisoned := True\<rparr>"
        and "res = Inl Io"
        by (auto simp: record_event_def ledger_line_def Let_def)
      moreover from this n Inr run bytes assms(1,3) have "jsonl_inv lj E r' recs"
        by (simp add: jsonl_inv_def del: take_append) blast
      ultimately show ?thesis by simp
    qed
  qed
qed

lemma jsonl_record_inv:
  assumes "jsonl_inv lj E r recs" and "jsonl_record now io lj r ev = (r', res)" and "ev \<in> E"
  shows "case res of Inl e \<Rightarrow> jsonl_inv lj E r' recs | Inr rec \<Rightarrow> jsonl_inv lj E r' (recs @ [rec])"
proof -
  from assms(2) consider "r' = r" "\<exists>e. res = Inl e" | "record_event now io lj r ev = (r', res)"
    by (auto simp: jsonl_record_def split: if_splits)
  then show ?thesis
    using assms(1) record_event_inv [OF assms(1) _ assms(3)] by cases (fastforce split: sum.splits)+
qed

text \<open>
  A terminal call may write its record and then fail to close the session; the record is then in
  the log although the call reported an error.
\<close>

lemma jsonl_record_terminal_inv:
  assumes "jsonl_inv lj E r recs" and "jsonl_record_terminal db now1 now2 io lj r ev status answer err = (r', res)"
    and "ev \<in> E"
  shows "case res of Inl e \<Rightarrow> jsonl_inv lj E r' recs \<or> (\<exists>rec. re_event rec = ev \<and> jsonl_inv lj E r' (recs @ [rec]))
    | Inr rec \<Rightarrow> jsonl_inv lj E r' (recs @ [rec])"
proof (cases "je_session r")
  case None
  with assms record_event_inv [OF assms(1) _ assms(3), of now1 io r' res] show ?thesis
    by (auto simp: jsonl_record_terminal_def split: sum.splits)
next
  case (Some session)
  let ?session = "session\<lparr>jn_terminal_attempted := True\<rparr>"
  obtain r1 res1 where one: "record_event now1 io lj (r\<lparr>je_session := Some ?session\<rparr>) ev = (r1, res1)" by fastforce
  have inv1: "case res1 of Inl e \<Rightarrow> jsonl_inv lj E r1 recs | Inr rec \<Rightarrow> re_event rec = ev \<and> jsonl_inv lj E r1 (recs @ [rec])"
    using record_event_inv [OF _ one assms(3), of recs] assms(1) by simp
  from assms Some one inv1 show ?thesis
    by (auto simp: jsonl_record_terminal_def Let_def split: if_splits sum.splits prod.splits)
qed

section \<open>Sequences of recorder calls\<close>

datatype 'v JsonlCall =
    JRecord u64 WriteOutcome "'v HarnessEvent"
  | JFinish bool u64 u64 WriteOutcome RunId rstr
  | JFail bool u64 u64 WriteOutcome RunId rstr bool

fun jsonl_call ::
  "'v line_json \<Rightarrow> 'v JsonlEventRecorder \<Rightarrow> 'v JsonlCall \<Rightarrow> 'v JsonlEventRecorder \<times> (AppError, 'v RecordedEvent) result" where
  "jsonl_call lj r (JRecord now io ev) = jsonl_record now io lj r ev"
| "jsonl_call lj r (JFinish db now1 now2 io run_id answer) = jsonl_finish_run db now1 now2 io lj r run_id answer"
| "jsonl_call lj r (JFail db now1 now2 io run_id error canceled) =
     jsonl_fail_run db now1 now2 io lj r run_id error canceled"

fun call_event :: "'v JsonlCall \<Rightarrow> 'v HarnessEvent" where
  "call_event (JRecord _ _ ev) = ev"
| "call_event (JFinish _ _ _ _ run_id _) = RunFinished run_id"
| "call_event (JFail _ _ _ _ run_id error _) = RunFailed run_id error"

fun jsonl_calls ::
  "'v line_json \<Rightarrow> 'v JsonlEventRecorder \<Rightarrow> 'v JsonlCall list \<Rightarrow> 'v JsonlEventRecorder \<times> 'v RecordedEvent list" where
  "jsonl_calls lj r [] = (r, [])"
| "jsonl_calls lj r (call # calls) =
     (let (r1, res) = jsonl_call lj r call; (r2, acked) = jsonl_calls lj r1 calls
      in (r2, (case res of Inl _ \<Rightarrow> acked | Inr rec \<Rightarrow> rec # acked)))"

lemma jsonl_call_inv:
  assumes "jsonl_inv lj E r recs" and "jsonl_call lj r call = (r', res)" and "call_event call \<in> E"
  shows "case res of
      Inl e \<Rightarrow> jsonl_inv lj E r' recs \<or> (\<exists>rec. is_terminal_event (re_event rec) \<and> jsonl_inv lj E r' (recs @ [rec]))
    | Inr rec \<Rightarrow> jsonl_inv lj E r' (recs @ [rec])"
proof (cases call)
  case (JRecord now io ev)
  with assms(2) have "jsonl_record now io lj r ev = (r', res)" by simp
  from jsonl_record_inv [OF assms(1) this] assms(3) JRecord show ?thesis
    by (simp split: sum.splits)
next
  case (JFinish db now1 now2 io run_id answer)
  with assms(2) have "jsonl_record_terminal db now1 now2 io lj r (RunFinished run_id) RunStateName.Finished (Some answer) None = (r', res)"
    by (simp add: jsonl_finish_run_def)
  from jsonl_record_terminal_inv [OF assms(1) this] assms(3) JFinish show ?thesis
    by (auto split: sum.splits intro: exI)
next
  case (JFail db now1 now2 io run_id error canceled)
  with assms(2) have "jsonl_record_terminal db now1 now2 io lj r (RunFailed run_id error)
      (if canceled then RunStateName.Canceled else RunStateName.Failed) None (Some error) = (r', res)"
    by (simp add: jsonl_fail_run_def)
  from jsonl_record_terminal_inv [OF assms(1) this] assms(3) JFail show ?thesis
    by (auto split: sum.splits intro: exI)
qed

text \<open>A run whose terminal event is in the log accepts no further record.\<close>

lemma terminal_event_phase:
  assumes "run_replay (recs @ [rec]) = (s, Inr ())" and "is_terminal_event (re_event rec)"
  shows "is_terminal_phase (rs_phase s)"
  using assms by (cases "re_event rec") (auto simp: replay_loop_snoc_ok run_apply_ok)

lemma terminal_next_record:
  assumes "is_terminal_phase (rs_phase s)"
  shows "\<exists>e. next_record now s ev = (s, Inl e)"
proof -
  obtain s' res where n: "next_record now s ev = (s', res)" by fastforce
  show ?thesis
  proof (cases res)
    case (Inl e)
    with n next_record_err show ?thesis by blast
  next
    case (Inr rec)
    with n assms show ?thesis
      by (auto simp: next_record_ok run_apply_ok dest: terminal_no_step)
  qed
qed

lemma terminal_call:
  assumes "is_terminal_phase (rs_phase (je_state r))" and "jsonl_call lj r call = (r', res)"
  shows "(\<exists>e. res = Inl e) \<and> je_file r' = je_file r \<and> je_state r' = je_state r \<and> je_poisoned r' = je_poisoned r"
proof -
  have rec: "\<exists>e. record_event now io lj q ev = (q, Inl e)" if q: "je_state q = je_state r" for now io q ev
  proof -
    obtain e where "next_record now (je_state q) ev = (je_state q, Inl e)"
      using terminal_next_record [of "je_state q" now ev] assms(1) q by auto
    then show ?thesis by (simp add: record_event_def)
  qed
  have closing: "(\<exists>e. res = Inl e) \<and> je_file r' = je_file r \<and> je_state r' = je_state r \<and> je_poisoned r' = je_poisoned r"
    if t: "jsonl_record_terminal db now1 now2 io lj r ev status answer err = (r', res)" for db now1 now2 io ev status answer err
  proof (cases "je_session r")
    case None
    with t rec [of r now1 io ev] show ?thesis by (auto simp: jsonl_record_terminal_def)
  next
    case (Some session)
    with t rec [of "r\<lparr>je_session := Some (session\<lparr>jn_terminal_attempted := True\<rparr>)\<rparr>" now1 io ev] show ?thesis
      by (auto simp: jsonl_record_terminal_def Let_def split: if_splits)
  qed
  show ?thesis
  proof (cases call)
    case (JRecord now io ev)
    with assms(2) rec [of r now io ev] show ?thesis
      by (auto simp: jsonl_record_def split: if_splits)
  qed (use assms(2) closing in \<open>auto simp: jsonl_finish_run_def jsonl_fail_run_def\<close>)
qed

lemma terminal_calls:
  "is_terminal_phase (rs_phase (je_state r)) \<Longrightarrow> jsonl_calls lj r calls = (r', acked) \<Longrightarrow>
     acked = [] \<and> je_file r' = je_file r \<and> je_state r' = je_state r \<and> je_poisoned r' = je_poisoned r"
proof (induction calls arbitrary: r acked)
  case (Cons call calls)
  obtain r1 res where one: "jsonl_call lj r call = (r1, res)" by fastforce
  obtain rest where more: "jsonl_calls lj r1 calls = (r', rest)"
    using Cons.prems(2) one by (auto simp: Let_def split: prod.splits)
  from terminal_call [OF Cons.prems(1) one] Cons.IH [OF _ more] Cons.prems one more show ?case by auto
qed simp

lemma jsonl_calls_inv:
  "jsonl_inv lj E r recs \<Longrightarrow> jsonl_calls lj r calls = (r', acked) \<Longrightarrow> call_event ` set calls \<subseteq> E \<Longrightarrow>
     \<exists>extra. length extra \<le> 1 \<and> (extra \<noteq> [] \<longrightarrow> is_terminal_phase (rs_phase (je_state r'))) \<and>
       jsonl_inv lj E r' (recs @ acked @ extra)"
proof (induction calls arbitrary: r recs acked)
  case Nil
  then show ?case by (intro exI [of _ "[]"]) simp
next
  case (Cons call calls)
  obtain r1 res where one: "jsonl_call lj r call = (r1, res)" by fastforce
  obtain rest where more: "jsonl_calls lj r1 calls = (r', rest)"
    using Cons.prems(2) one by (auto simp: Let_def split: prod.splits)
  have acked: "acked = (case res of Inl _ \<Rightarrow> rest | Inr rec \<Rightarrow> rec # rest)"
    using Cons.prems(2) one more by simp
  from Cons.prems(3) have ev: "call_event call \<in> E" and evs: "call_event ` set calls \<subseteq> E" by auto
  note inv1 = jsonl_call_inv [OF Cons.prems(1) one ev]
  show ?case
  proof (cases res)
    case (Inr rec)
    with inv1 Cons.IH [OF _ more evs, of "recs @ [rec]"] acked show ?thesis by simp
  next
    case (Inl e)
    with inv1 consider "jsonl_inv lj E r1 recs"
      | rec where "is_terminal_event (re_event rec)" "jsonl_inv lj E r1 (recs @ [rec])"
      by auto
    then show ?thesis
    proof cases
      case 1
      with Cons.IH [OF _ more evs] acked Inl show ?thesis by simp
    next
      case (2 rec)
      then have "is_terminal_phase (rs_phase (je_state r1))"
        by (intro terminal_event_phase) (auto simp: jsonl_inv_def)
      with terminal_calls [OF this more] 2(2) have "rest = [] \<and> jsonl_inv lj E r' (recs @ [rec]) \<and>
          is_terminal_phase (rs_phase (je_state r'))"
        using jsonl_inv_cong [of r' r1 lj E] by simp
      with acked Inl show ?thesis
        by (intro exI [of _ "[rec]"]) simp
    qed
  qed
qed

section \<open>Properties\<close>

text \<open>
  Crash recovery: if the process stops while the line of a further valid record is being
  written, at any byte, reopening the log succeeds and yields exactly the acknowledged records'
  state and file when the newline had not reached the file, and that state extended by the record
  when it had; nothing acknowledged is lost and no partial line survives.
\<close>

theorem jsonl_crash_recovery:
  assumes "run_replay recs = (s, Inr ())" and "next_record now s ev = (s', Inr rec)"
    and "\<forall>q\<in>set (recs @ [rec]). readable lj q"
  defines "line \<equiv> to_vec lj (ledger_line rec) @ [10]"
  shows "open_jsonl_for_append lj (encode_lines lj (map ledger_line recs) @ take k line) =
    Inr (if k < length line then (encode_lines lj (map ledger_line recs), s)
         else (encode_lines lj (map ledger_line (recs @ [rec])), s'))"
  using open_after_crash [OF assms(1-3)] by (simp only: line_def)

lemma jsonl_inv_reopens:
  assumes inv: "jsonl_inv lj E r (acked @ extra)" and short: "length extra \<le> 1"
    and last: "extra \<noteq> [] \<Longrightarrow> is_terminal_phase (rs_phase (je_state r))"
    and rd: "\<forall>rec. re_event rec \<in> E \<longrightarrow> readable lj rec"
  shows "\<exists>log' s'. open_jsonl_for_append lj (je_file r) = Inr (encode_lines lj (map ledger_line log'), s') \<and>
      run_replay log' = (s', Inr ()) \<and> (\<forall>q\<in>set log'. readable lj q) \<and>
      (\<exists>more. log' = acked @ more \<and> length more \<le> 1)"
proof -
  let ?log = "acked @ extra"
  from inv have run: "run_replay ?log = (je_state r, Inr ())" and ok: "\<forall>q\<in>set ?log. readable lj q"
    using rd by (auto simp: jsonl_inv_def)
  show ?thesis
  proof (cases "je_poisoned r")
    case False
    with inv have "je_file r = encode_lines lj (map ledger_line ?log) @ []" by (simp add: jsonl_inv_def)
    with open_committed [OF ok run, of "[]"] run ok short show ?thesis by (metis empty_iff list.set(1))
  next
    case True
    with inv obtain k now ev s' rec where n: "next_record now (je_state r) ev = (s', Inr rec)" and "ev \<in> E"
      and bytes: "je_file r = encode_lines lj (map ledger_line ?log) @ take k (to_vec lj (ledger_line rec) @ [10])"
      by (auto simp: jsonl_inv_def simp del: take_append)
    then have ok': "\<forall>q\<in>set (?log @ [rec]). readable lj q"
      using ok rd by (auto simp: next_record_ok)
    have "extra = []"
      using last terminal_next_record [of "je_state r" now ev] n by fastforce
    moreover have "run_replay (?log @ [rec]) = (s', Inr ())"
      using next_record_extends [OF run n] by simp
    ultimately show ?thesis
    proof (cases "k < length (to_vec lj (ledger_line rec) @ [10])")
      case True
      with open_after_crash [OF run n ok', of k] run ok short show ?thesis
        unfolding bytes by (intro exI [of _ ?log] exI [of _ "je_state r"]) (simp del: take_append map_append append_assoc)
    next
      case False
      with open_after_crash [OF run n ok', of k] \<open>run_replay (?log @ [rec]) = (s', Inr ())\<close> ok' \<open>extra = []\<close>
      show ?thesis
        unfolding bytes by (intro exI [of _ "?log @ [rec]"] exI [of _ s']) (simp del: take_append)
    qed
  qed
qed


text \<open>A codec for records of the concrete run: two 64-bit fields bit by bit, then the event's position.\<close>

definition bits64 :: "u64 \<Rightarrow> u8 list" where
  "bits64 w = map (\<lambda>i. if bit w i then 1 else 2) [0..<64]"

definition bits_word :: "u8 list \<Rightarrow> u64" where
  "bits_word bs = horner_sum of_bool 2 (map (\<lambda>b. b = 1) bs)"

definition sample_lj :: "nat line_json" where
  "sample_lj =
     \<lparr>to_vec = (\<lambda>line. case line of
        Record l \<Rightarrow> bits64 (re_seq (ll_record l)) @ bits64 (re_occurred_at_ms (ll_record l)) @
          (case position (\<lambda>e. e = re_event (ll_record l)) sample_events of
             Some i \<Rightarrow> 4 # replicate i 3 | None \<Rightarrow> [])
      | Voice _ \<Rightarrow> []),
      from_slice = (\<lambda>bs.
        if 128 < length bs
        then Some (Record \<lparr>ll_v = LEDGER_VERSION,
               ll_record = \<lparr>re_seq = bits_word (take 64 bs), re_occurred_at_ms = bits_word (take 64 (drop 64 bs)),
                            re_event = sample_events ! (length bs - 129)\<rparr>\<rparr>)
        else None)\<rparr>"

lemma bits_word_bits64: "bits_word (bits64 w) = w"
proof -
  have "map (\<lambda>b. b = 1) (bits64 w) = map (bit w) [0..<64]"
    by (simp add: bits64_def)
  then show ?thesis
    by (simp add: bits_word_def horner_sum_bit_eq_take_bit take_bit_word_eq_self)
qed

lemma sample_identity: "ev \<in> set sample_events \<Longrightarrow> validate_ledger_identity LEDGER_VERSION ev = Inr ()"
  by (auto simp: sample_events_def validate_ledger_identity_def)

lemma sample_readable:
  assumes "re_event rec \<in> set sample_events"
  shows "readable sample_lj rec"
proof -
  obtain i where pos: "position (\<lambda>e. e = re_event rec) sample_events = Some i"
    using assms position_None [of "\<lambda>e. e = re_event rec" sample_events] by fastforce
  then have nth: "sample_events ! i = re_event rec"
    by (simp add: position_Some)
  have vec: "to_vec sample_lj (ledger_line rec) =
      bits64 (re_seq rec) @ bits64 (re_occurred_at_ms rec) @ 4 # replicate i 3"
    by (simp add: sample_lj_def ledger_line_def pos)
  have len [simp]: "length (bits64 w) = 64" for w
    by (simp add: bits64_def)
  have "from_slice sample_lj (to_vec sample_lj (ledger_line rec)) = Some (ledger_line rec)"
    unfolding vec by (simp add: sample_lj_def ledger_line_def bits_word_bits64 nth)
  moreover have "10 \<notin> set (to_vec sample_lj (ledger_line rec))"
    unfolding vec by (auto simp: bits64_def)
  moreover have "\<not> list_all is_ascii_whitespace (to_vec sample_lj (ledger_line rec))"
    unfolding vec by (simp add: is_ascii_whitespace_def)
  ultimately show ?thesis
    using sample_identity [OF assms] by (simp add: readable_def line_ok_def)
qed

theorem jsonl_crash_recovery_witness:
  "\<exists>s' rec. next_record 7 (sample_state 3) (sample_events ! 3) = (s', Inr rec) \<and>
     open_jsonl_for_append sample_lj
       (encode_lines sample_lj (map ledger_line (sample_ledger 3)) @ take 20 (to_vec sample_lj (ledger_line rec) @ [10])) =
     Inr (encode_lines sample_lj (map ledger_line (sample_ledger 3)), sample_state 3)"
proof -
  have "is_ok (snd (next_record 7 (sample_state 3) (sample_events ! 3)))"
    by code_simp
  then obtain s' rec where n: "next_record 7 (sample_state 3) (sample_events ! 3) = (s', Inr rec)"
    by (metis is_ok_iff prod.collapse)
  have "re_event q \<in> set sample_events" if "q \<in> set (sample_ledger 3 @ [rec])" for q
    using that n
    by (auto simp: next_record_ok sample_ledger_def number_events_def set_zip sample_events_def)
  then have ok: "\<forall>q\<in>set (sample_ledger 3 @ [rec]). readable sample_lj q"
    by (blast intro: sample_readable)
  have "128 < length (to_vec sample_lj (ledger_line rec))"
    using ok by (auto simp: readable_def line_ok_def sample_lj_def split: if_splits)
  then show ?thesis
    using jsonl_crash_recovery [OF sample_ok [of 3] n ok, of 20] n by auto
qed

definition sample_jsonl_calls :: "nat JsonlCall list" where
  "sample_jsonl_calls =
     [JRecord 1 Written (sample_events ! 0), JRecord 2 Written (sample_events ! 1),
      JRecord 3 (WriteFailed 9) (sample_events ! 2), JRecord 4 Written (sample_events ! 2)]"


text \<open>
  A gap between writer and reader: the JSONL recorder acknowledges the start of a profile run
  with revision zero, which the SQLite recorder refuses to store, and every later reader rejects
  the log that then holds it.
\<close>

theorem jsonl_zero_revision_unreadable:
  fixes lj :: "'v line_json"
  assumes "line_ok lj (ledger_line \<lparr>re_seq = 0, re_occurred_at_ms = now,
      re_event = RunStarted \<lparr>rse_run_id = r, rse_identity = Profile p 0\<rparr>\<rparr>)"
  shows "\<exists>rec rec'. record_event now Written lj jsonl_create (RunStarted \<lparr>rse_run_id = r, rse_identity = Profile p 0\<rparr>) =
      (rec', Inr rec) \<and>
    open_jsonl_for_append lj (je_file rec') =
      Inl (Config (lit ''ledger profile identity requires a positive revision''))"
proof -
  let ?ev = "RunStarted \<lparr>rse_run_id = r, rse_identity = Profile p 0\<rparr> :: 'v HarnessEvent"
  let ?rec = "\<lparr>re_seq = 0, re_occurred_at_ms = now, re_event = ?ev\<rparr>"
  obtain s' where n: "next_record now RunState_new ?ev = (s', Inr ?rec)"
    by (simp add: next_record_def run_apply_def apply_event_def compaction_gate_def RunState_new_def)
  let ?file = "encode_lines lj [ledger_line ?rec]"
  have "take (committed_len ?file) ?file = ?file"
    using committed_lines [of "[]" lj "[ledger_line ?rec]"] by simp
  moreover have "parse_ledger_lines lj ?file = Inl (Config (lit ''ledger profile identity requires a positive revision''))"
    using assms
    by (simp add: parse_ledger_lines_def split_newline_line line_ok_def)
      (simp add: ledger_line_def supported_ledger_version_def validate_ledger_identity_def)
  ultimately have "open_jsonl_for_append lj ?file = Inl (Config (lit ''ledger profile identity requires a positive revision''))"
    unfolding open_jsonl_for_append_def Let_def by simp
  with n show ?thesis
    by (simp add: record_event_def jsonl_create_def ledger_line_def Let_def)
qed

definition gap_lj :: "nat line_json" where
  "gap_lj = \<lparr>to_vec = (\<lambda>_. [123]), from_slice = (\<lambda>_. Some (ledger_line \<lparr>re_seq = 0, re_occurred_at_ms = 5,
     re_event = RunStarted \<lparr>rse_run_id = run1, rse_identity = Profile (ProfileId (lit ''p'')) 0\<rparr>\<rparr>))\<rparr>"

theorem jsonl_zero_revision_unreadable_witness:
  "\<exists>rec rec'. record_event 5 Written gap_lj jsonl_create
      (RunStarted \<lparr>rse_run_id = run1, rse_identity = Profile (ProfileId (lit ''p'')) 0\<rparr>) = (rec', Inr rec) \<and>
    \<not> is_ok (open_jsonl_for_append gap_lj (je_file rec'))"
proof -
  have "line_ok gap_lj (ledger_line \<lparr>re_seq = 0, re_occurred_at_ms = 5,
      re_event = RunStarted \<lparr>rse_run_id = run1, rse_identity = Profile (ProfileId (lit ''p'')) 0\<rparr>\<rparr>)"
    by (simp add: line_ok_def gap_lj_def is_ascii_whitespace_def)
  from jsonl_zero_revision_unreadable [OF this] show ?thesis by fastforce
qed

end
