(* ===== verification/Run_Recorders.thy ===== *)
theory Run_Recorders
  imports Run_Turns Run_Frame Sqlite_Recorder Jsonl_Ledger
begin

text \<open>
  The recorder the driver is given (\<open>EventRecorder\<close> of \<open>ledger/recorder.rs\<close>: a JSONL or an SQLite
  recorder behind one interface) and the driver run on it. The clock, the database's commit and
  the file system decide each call's outcome through a \<open>Tick\<close> per call. The interpretation
  discharges the laws the driver relies on for both recorders, so the properties hold for each.
\<close>

section \<open>The recorder behind the interface\<close>

datatype 'v EventRecorder = Jsonl "'v JsonlEventRecorder" | Sqlite_Rec "'v SqliteEventRecorder"

record Tick =
  tk_db :: bool
  tk_now :: u64
  tk_commit_now :: u64
  tk_io :: WriteOutcome

definition EventRecorder_record ::
  "'v event_json \<Rightarrow> 'v line_json \<Rightarrow> Tick \<Rightarrow> 'v EventRecorder \<Rightarrow> 'v HarnessEvent
     \<Rightarrow> 'v EventRecorder \<times> (AppError, 'v RecordedEvent) result" where
  "EventRecorder_record js lj t r ev =
     (case r of
        Jsonl j \<Rightarrow> (case jsonl_record (tk_now t) (tk_io t) lj j ev of (j', x) \<Rightarrow> (Jsonl j', x))
      | Sqlite_Rec s \<Rightarrow> (case sqlite_record (tk_now t) js s ev of (s', x) \<Rightarrow> (Sqlite_Rec s', x)))"

definition EventRecorder_finish_run ::
  "'v event_json \<Rightarrow> 'v line_json \<Rightarrow> Tick \<Rightarrow> 'v EventRecorder \<Rightarrow> RunId \<Rightarrow> rstr
     \<Rightarrow> 'v EventRecorder \<times> (AppError, 'v RecordedEvent) result" where
  "EventRecorder_finish_run js lj t r run_id answer =
     (case r of
        Jsonl j \<Rightarrow>
          (case jsonl_finish_run (tk_db t) (tk_now t) (tk_commit_now t) (tk_io t) lj j run_id answer of
             (j', x) \<Rightarrow> (Jsonl j', x))
      | Sqlite_Rec s \<Rightarrow>
          (case sqlite_finish_run (tk_db t) (tk_now t) (tk_commit_now t) js s answer of
             (s', x) \<Rightarrow> (Sqlite_Rec s', x)))"

definition EventRecorder_fail_run ::
  "'v event_json \<Rightarrow> 'v line_json \<Rightarrow> Tick \<Rightarrow> 'v EventRecorder \<Rightarrow> RunId \<Rightarrow> rstr \<Rightarrow> bool
     \<Rightarrow> 'v EventRecorder \<times> (AppError, 'v RecordedEvent) result" where
  "EventRecorder_fail_run js lj t r run_id error canceled =
     (case r of
        Jsonl j \<Rightarrow>
          (case jsonl_fail_run (tk_db t) (tk_now t) (tk_commit_now t) (tk_io t) lj j run_id error canceled of
             (j', x) \<Rightarrow> (Jsonl j', x))
      | Sqlite_Rec s \<Rightarrow>
          (case sqlite_fail_run (tk_db t) (tk_now t) (tk_commit_now t) js s error canceled of
             (s', x) \<Rightarrow> (Sqlite_Rec s', x)))"

text \<open>The \<open>n\<close>th call of the recorder sees the \<open>n\<close>th tick.\<close>

definition recorder_ops ::
  "'v event_json \<Rightarrow> 'v line_json \<Rightarrow> (nat \<Rightarrow> Tick) \<Rightarrow> ('v EventRecorder \<times> nat, 'v) RunEventRecorder" where
  "recorder_ops js lj ticks =
     \<lparr>rr_record = (\<lambda>(r, n) ev. case EventRecorder_record js lj (ticks n) r ev of (r', x) \<Rightarrow> ((r', Suc n), x)),
      rr_finish_run = (\<lambda>(r, n) run_id answer.
        case EventRecorder_finish_run js lj (ticks n) r run_id answer of (r', x) \<Rightarrow> ((r', Suc n), x)),
      rr_fail_run = (\<lambda>(r, n) run_id error canceled.
        case EventRecorder_fail_run js lj (ticks n) r run_id error canceled of (r', x) \<Rightarrow> ((r', Suc n), x))\<rparr>"

fun recorder_state :: "'v EventRecorder \<times> nat \<Rightarrow> 'v RunState" where
  "recorder_state (Jsonl j, _) = je_state j"
| "recorder_state (Sqlite_Rec s, _) = se_state s"

fun recorder_for :: "RunId \<Rightarrow> 'v EventRecorder \<times> nat \<Rightarrow> bool" where
  "recorder_for run_id (Jsonl j, _) = True"
| "recorder_for run_id (Sqlite_Rec s, _) = (se_run_id s = run_id)"

section \<open>The laws of the interface\<close>

lemma next_record_core:
  "next_record now s ev = (s', Inl e) \<Longrightarrow>
     \<exists>c. e = Core c \<and> run_apply s \<lparr>re_seq = rs_next_seq s, re_occurred_at_ms = now, re_event = ev\<rparr> = (s', Inl c)"
  by (auto simp: next_record_def Let_def split: prod.splits sum.splits)

lemma noncore_simps [simp]: "noncore (Config m)" "noncore Io" "noncore Sqlite" "noncore (RunNotFound r)" "noncore (LedgerConflict r q)"
  by (simp_all add: noncore_def)

lemma identity_noncore: "validate_ledger_identity v ev = Inl e \<Longrightarrow> noncore e"
  by (cases ev) (auto simp: validate_ledger_identity_def noncore_def split: if_splits RunIdentity.splits)

text \<open>Storing a record or an outcome reports no error of the core crate.\<close>

lemma storing_noncore:
  "append_record_in js l run_id rec = Inl e \<Longrightarrow> noncore e"
  "commit_session_terminal db now js l r rec status answer err = (l', Inl e) \<Longrightarrow> noncore e"
  "complete_session_terminal db now l r status answer err = (l', Inl e) \<Longrightarrow> noncore e"
proof -
  show app: "append_record_in js l run_id rec = Inl e \<Longrightarrow> noncore e" for l run_id rec e
    by (auto simp: append_record_in_def sqlite_i64_def row_u64_def result_simps
        split: option.splits if_splits dest: identity_noncore)
  show "commit_session_terminal db now js l r rec status answer err = (l', Inl e) \<Longrightarrow> noncore e"
    "complete_session_terminal db now l r status answer err = (l', Inl e) \<Longrightarrow> noncore e"
    using app by (auto simp: commit_session_terminal_def complete_session_terminal_def update_running_session_outcome_def
        sqlite_i64_def split: option.splits if_splits sum.splits)
qed

abbreviation refuses :: "'v RunState \<Rightarrow> 'v HarnessEvent \<Rightarrow> Error \<Rightarrow> bool" where
  "refuses s ev c \<equiv> \<exists>at t. run_apply s \<lparr>re_seq = rs_next_seq s, re_occurred_at_ms = at, re_event = ev\<rparr> = (t, Inl c)"

definition lawful :: "'v RunState \<Rightarrow> 'v RunState \<Rightarrow> 'v HarnessEvent \<Rightarrow> (AppError, 'v RecordedEvent) result \<Rightarrow> bool" where
  "lawful s s' ev x \<longleftrightarrow> (case x of
     Inr rec \<Rightarrow> re_event rec = ev \<and> run_apply s rec = (s', Inr ())
   | Inl e \<Rightarrow> \<forall>c. e = Core c \<longrightarrow> refuses s ev c)"

lemma lawful_noncore: "noncore e \<Longrightarrow> lawful s s' ev (Inl e)"
  by (auto simp: lawful_def noncore_def)

lemma lawful_next_err: "next_record now s ev = (s1, Inl e) \<Longrightarrow> lawful s s' ev (Inl e)"
  using next_record_core [of now s ev s1 e] by (auto simp: lawful_def)

lemma lawful_next_ok: "next_record now s ev = (s', Inr rec) \<Longrightarrow> lawful s s' ev (Inr rec)"
  by (auto simp: lawful_def next_record_ok)

lemma sqlite_record_lawful:
  "sqlite_record now js r ev = (r', x) \<Longrightarrow> lawful (se_state r) (se_state r') ev x \<and> se_run_id r' = se_run_id r
     \<and> (\<not> is_ok x \<longrightarrow> se_state r' = se_state r)"
  by (auto simp: sqlite_record_def split: if_splits prod.splits sum.splits
      dest: lawful_next_err lawful_next_ok storing_noncore(1) intro: lawful_noncore)

lemma sqlite_terminal_lawful:
  "sqlite_record_terminal db now1 now2 js r ev status answer err = (r', x) \<Longrightarrow> lawful (se_state r) (se_state r') ev x"
  by (auto simp: sqlite_record_terminal_def Let_def split: if_splits prod.splits sum.splits
      dest: lawful_next_err lawful_next_ok storing_noncore(2) sqlite_record_lawful intro: lawful_noncore)

lemma jsonl_event_lawful:
  "Jsonl_Ledger.record_event now io lj r ev = (r', x) \<Longrightarrow> lawful (je_state r) (je_state r') ev x
     \<and> (\<not> is_ok x \<longrightarrow> je_state r' = je_state r)"
  by (auto simp: Jsonl_Ledger.record_event_def Let_def split: if_splits prod.splits sum.splits WriteOutcome.splits
      dest: lawful_next_err lawful_next_ok intro: lawful_noncore)

lemma jsonl_record_lawful:
  "jsonl_record now io lj r ev = (r', x) \<Longrightarrow> lawful (je_state r) (je_state r') ev x
     \<and> (\<not> is_ok x \<longrightarrow> je_state r' = je_state r)"
  using jsonl_event_lawful [of now io lj r ev r' x]
  by (auto simp: jsonl_record_def split: if_splits intro: lawful_noncore)

lemma jsonl_terminal_lawful:
  assumes "jsonl_record_terminal db now1 now2 io lj r ev status answer err = (r', x)"
  shows "lawful (je_state r) (je_state r') ev x"
proof (cases "je_session r")
  case None
  then show ?thesis using assms by (auto simp: jsonl_record_terminal_def dest: jsonl_event_lawful)
next
  case (Some session)
  let ?session = "session\<lparr>jn_terminal_attempted := True\<rparr>"
  obtain r1 y where y: "Jsonl_Ledger.record_event now1 io lj (r\<lparr>je_session := Some ?session\<rparr>) ev = (r1, y)" by fastforce
  have "lawful (je_state r) (je_state r1) ev y" using jsonl_event_lawful [OF y] by simp
  then show ?thesis using assms Some y
    by (auto simp: jsonl_record_terminal_def Let_def split: if_splits prod.splits sum.splits
        dest: storing_noncore(3) intro: lawful_noncore)
qed

lemma recorder_record_lawful:
  assumes "recorder_for run_id r" "rr_record (recorder_ops js lj ticks) r ev = (r', x)"
  shows "recorder_for run_id r' \<and> lawful (recorder_state r) (recorder_state r') ev x
    \<and> (\<not> is_ok x \<longrightarrow> recorder_state r' = recorder_state r)"
proof -
  obtain q n where r: "r = (q, n)" by (cases r)
  show ?thesis using assms
    by (cases q) (auto simp: r recorder_ops_def EventRecorder_record_def split: prod.splits
        dest: sqlite_record_lawful jsonl_record_lawful)
qed

lemma recorder_terminal_lawful:
  assumes "recorder_for run_id r"
  shows "rr_finish_run (recorder_ops js lj ticks) r run_id answer = (r', x) \<Longrightarrow>
      lawful (recorder_state r) (recorder_state r') (RunFinished run_id) x"
    "rr_fail_run (recorder_ops js lj ticks) r run_id why canceled = (r', x) \<Longrightarrow>
      lawful (recorder_state r) (recorder_state r') (RunFailed run_id why) x"
proof -
  obtain q n where r: "r = (q, n)" by (cases r)
  show "rr_finish_run (recorder_ops js lj ticks) r run_id answer = (r', x) \<Longrightarrow>
      lawful (recorder_state r) (recorder_state r') (RunFinished run_id) x"
    "rr_fail_run (recorder_ops js lj ticks) r run_id why canceled = (r', x) \<Longrightarrow>
      lawful (recorder_state r) (recorder_state r') (RunFailed run_id why) x"
    using assms
    by (cases q; auto simp: r recorder_ops_def EventRecorder_finish_run_def EventRecorder_fail_run_def sqlite_finish_run_def
        sqlite_fail_run_def jsonl_finish_run_def jsonl_fail_run_def split: prod.splits
        dest: sqlite_terminal_lawful jsonl_terminal_lawful)+
qed

interpretation er: run_recorder "recorder_ops js lj ticks" run_id "recorder_for run_id" recorder_state
  for js :: "'v event_json" and lj :: "'v line_json" and ticks run_id
proof (unfold_locales, goal_cases)
  case (1 r ev r' rec)
  then show ?case using recorder_record_lawful [OF 1] by (simp add: lawful_def)
next
  case (2 r ev r' e)
  then show ?case using recorder_record_lawful [OF 2] by simp
next
  case (3 r ev r' c)
  then show ?case using recorder_record_lawful [OF 3] by (simp add: lawful_def)
qed (fastforce dest: recorder_terminal_lawful simp: lawful_def)+

text \<open>The SQLite recorder's tables hold exactly the records it acknowledged.\<close>

definition stored :: "'v event_json \<Rightarrow> RunId \<Rightarrow> 'v EventRecorder \<times> nat \<Rightarrow> 'v RecordedEvent list \<Rightarrow> bool" where
  "stored js run_id r log \<longleftrightarrow>
     (case fst r of Sqlite_Rec s \<Rightarrow> recorder_inv js s log \<and> se_run_id s = run_id | Jsonl _ \<Rightarrow> False)"

lemma stored_record:
  assumes "recorder_inv js s log" "sqlite_record now js s ev = (s', x)"
  shows "case x of Inl _ \<Rightarrow> recorder_inv js s' log | Inr rec \<Rightarrow> recorder_inv js s' (log @ [rec])"
  using record_keeps_inv [OF assms] assms(1) by (auto split: sum.splits)

lemma stored_terminal:
  assumes "recorder_inv js s log" "sqlite_record_terminal db now1 now2 js s ev status answer err = (s', x)"
  shows "se_run_id s' = se_run_id s \<and> (case x of Inl _ \<Rightarrow> recorder_inv js s' log | Inr rec \<Rightarrow> recorder_inv js s' (log @ [rec]))"
proof -
  have "se_run_id s' = se_run_id s" using assms(2)
    by (auto simp: sqlite_record_terminal_def Let_def split: if_splits prod.splits sum.splits dest: sqlite_record_lawful)
  then show ?thesis using record_terminal_keeps_inv [OF assms] by (auto split: sum.splits)
qed

interpretation sr: recorder_relation "recorder_ops js lj ticks" "stored js run_id"
  for js :: "'v event_json" and lj ticks run_id
proof (unfold_locales, goal_cases)
  case (1 r log ev r' x)
  then show ?case
    by (auto simp: stored_def recorder_ops_def EventRecorder_record_def split: prod.splits EventRecorder.splits sum.splits
        dest: stored_record sqlite_record_lawful)
next
  case (2 r log run_id answer r' x)
  then show ?case
    by (auto simp: stored_def recorder_ops_def EventRecorder_finish_run_def sqlite_finish_run_def
        split: prod.splits EventRecorder.splits sum.splits dest: stored_terminal)
next
  case (3 r log run_id why canceled r' x)
  then show ?case
    by (auto simp: stored_def recorder_ops_def EventRecorder_fail_run_def sqlite_fail_run_def
        split: prod.splits EventRecorder.splits sum.splits dest: stored_terminal)
qed

section \<open>The run on its recorder\<close>

definition run_question ::
  "('w, 'v) Host \<Rightarrow> 'v event_json \<Rightarrow> 'v line_json \<Rightarrow> (nat \<Rightarrow> Tick) \<Rightarrow> 'v EventRecorder \<Rightarrow> RunSetup
     \<Rightarrow> 'v ModelMessage list \<Rightarrow> 'w \<Rightarrow> ('w, 'v EventRecorder \<times> nat, 'v) Driver \<times> (Abort, RunOutcome) result" where
  "run_question h js lj ticks r su messages w =
     run_prepared_question h (recorder_ops js lj ticks) su messages
       \<lparr>dr_world = w, dr_recorder = (r, 0), dr_effects = []\<rparr>"

definition new_recorder :: "RunId \<Rightarrow> 'v EventRecorder \<Rightarrow> bool" where
  "new_recorder run_id r \<longleftrightarrow> recorder_for run_id (r, 0) \<and> recorder_state (r, 0) = RunState_new"

lemma run_question_ends:
  assumes "host_ok h" "new_recorder (su_run_id su) r" "run_question h js lj ticks r su messages w = (d, x)"
  shows "case x of Inr out \<Rightarrow> er.concluded (su_run_id su) out d | Inl e \<Rightarrow> er.closed (su_run_id su) d \<and> er.benign e"
  using er.run_prepared_question_sync [OF assms(1) refl,
      of su "\<lparr>dr_world = w, dr_recorder = (r, 0), dr_effects = []\<rparr>" js lj ticks messages] assms(2,3)
  by (auto simp: new_recorder_def run_question_def split: sum.splits)

end
