(* ===== verification/Run_End_To_End.thy ===== *)
theory Run_End_To_End
  imports Run_Recorders
begin

text \<open>
  What a run guarantees on its recorder: executions are licensed by the ledger, the ledger is one the
  machine accepts, the answer is the recorded one, and the SQLite store holds exactly what was sent.
\<close>

section \<open>At most one execution per call\<close>

fun effect_call :: "'v RunEffect \<Rightarrow> 'v ToolCall option" where
  "effect_call (Ledger _) = None"
| "effect_call (Executed call _) = Some call"

definition executed :: "'v RunEffect list \<Rightarrow> 'v ToolCall list" where
  "executed effects = List.map_filter effect_call effects"

lemma executed_snoc [simp]:
  "executed [] = []" "executed (es @ [Ledger rec]) = executed es" "executed (es @ [Executed c a]) = executed es @ [c]"
  by (simp_all add: executed_def List.map_filter_def)

lemma started_once:
  assumes "run_replay (rs @ [rec]) = (s, Inr ())" "re_event rec = ToolStarted r c"
  shows "ToolStarted r' c \<notin> set (events rs)"
proof
  assume "ToolStarted r' c \<in> set (events rs)"
  then have seen: "ToolStarted r' c \<in> set (call_history c (events rs))" by (simp add: call_history_def)
  obtain u where u: "run_replay rs = (u, Inr ())" and app: "run_apply u rec = (s, Inr ())"
    using assms(1) by (auto simp: replay_loop_snoc_ok)
  from app assms(2) obtain call where ph: "rs_phase u = ReadyToExecuteTool call" "tc_id call = c"
    by (auto simp: run_apply_ok)
  then have "stage_of u c = Permitted" "\<not> is_terminal_phase (rs_phase u)"
    using replay_wf [OF u] by (auto simp: stage_of_def run_wf_def)
  then have "call_run Unseen (call_history c (events rs)) = Some Permitted" using replay_stage [OF u, of c] by auto
  then show False using seen by (auto simp: call_run_Permitted)
qed

lemma licensed_once:
  assumes "all_licensed run_id es" "run_replay (ledger_of es) = (s, Inr ())"
  shows "distinct (map tc_id (executed es)) \<and>
    (\<forall>call\<in>set (executed es). ToolStarted run_id (tc_id call) \<in> set (events (ledger_of es))) \<and>
    (\<forall>c. latest (ToolStarted run_id c) es \<longrightarrow> c \<notin> tc_id ` set (executed es))"
  using assms
proof (induction es arbitrary: s rule: rev_induct)
  case (snoc e es)
  show ?case
  proof (cases e)
    case (Ledger rec)
    then obtain u where u: "run_replay (ledger_of es) = (u, Inr ())"
      using snoc.prems(2) by (auto simp: replay_loop_snoc_ok)
    then show ?thesis using snoc Ledger started_once [of "ledger_of es" rec s run_id] by (fastforce simp: image_iff)
  next
    case (Executed call actor)
    then have lic: "all_licensed run_id es" "licensed run_id es call actor" and run: "run_replay (ledger_of es) = (s, Inr ())"
      using snoc.prems by simp_all
    have "\<exists>rec. Ledger rec \<in> set es \<and> re_event rec = ToolStarted run_id (tc_id call)"
      using lic(2) unfolding licensed_def latest_def by (metis last_in_set)
    then have "ToolStarted run_id (tc_id call) \<in> set (events (ledger_of es))"
      by (force simp: ledger_of_def List.map_filter_def)
    then show ?thesis using snoc.IH [OF lic(1) run] lic(2) by (auto simp: Executed licensed_def latest_def)
  qed
qed (simp add: latest_def)

section \<open>A concrete host\<close>

text \<open>
  The provider first asks for two tool calls and then answers. Errors of the core crate do not
  occur; the tool is a read of the workspace, so that its policy allows it.
\<close>

definition sample_host :: "(nat, nat) Host" where
  "sample_host =
     \<lparr>h_cancel_requested = (\<lambda>w. (w, False)),
      h_send = (\<lambda>messages i w. (w + 1,
        Inr \<lparr>mr_content = (if w = 0 then [ToolUseBlock (lit ''u1'') (lit ''file.read'') 5, ToolUseBlock (lit ''u2'') (lit ''file.list'') 6]
                          else [TextBlock (lit ''hi'')]),
             mr_stop = (if w = 0 then ToolUse else EndTurn), mr_served_model = None, mr_usage = None\<rparr>)),
      h_retry_polls = (\<lambda>_ w. (w, 0)),
      h_context = (\<lambda>messages i. Inr \<lparr>cp_token_budget = 10, cp_fragments = []\<rparr>),
      h_execute = (\<lambda>call actor w. (w, Inr \<lparr>tr_call_id = tc_id call, tr_summary = [], tr_data = tc_input call, tr_artifacts = [], tr_visibility = ResultVisibility.Both\<rparr>)),
      h_preview = (\<lambda>call w. (w, Inr None)),
      h_decide = (\<lambda>call reason p y w. (w, Inr (ExternalGranted (lit ''ada'')))),
      h_ask = (\<lambda>call p w. (w, Inr Granted)),
      h_computer_new = (\<lambda>w. (w, Inr ())),
      h_computer_policy = (\<lambda>call w. (w, Allow)),
      h_computer_granted = (\<lambda>call w. (w, Inr ())),
      h_computer_denied = (\<lambda>w. (w, ())),
      h_computer_cleanup = (\<lambda>w. (w, Inr ())),
      h_to_string = (\<lambda>v. Inr [v]),
      h_path_field = (\<lambda>v. None),
      h_exit_code_failed = (\<lambda>v. False),
      h_status_field = (\<lambda>v. None),
      h_display = (\<lambda>e. [])\<rparr>"

definition sample_setup :: RunSetup where
  "sample_setup =
     \<lparr>su_run_id = run1, su_identity = LegacyAgent (AgentId (lit ''plato'')), su_model = ModelName (lit ''m''),
      su_max_turns = 2, su_enabled = [lit ''file.read''], su_workspace_root = lit ''/w'', su_approval_mode = External,
      su_hydration = None\<rparr>"

definition sample_ticks :: "nat \<Rightarrow> Tick" where
  "sample_ticks n = \<lparr>tk_db = True, tk_now = of_nat n, tk_commit_now = of_nat n, tk_io = Written\<rparr>"

lemma sample_fields [simp]: "su_run_id sample_setup = run1" "su_hydration sample_setup = None" "su_max_turns sample_setup = 2"
  "su_enabled sample_setup = [lit ''file.read'']" "su_model sample_setup = ModelName (lit ''m'')"
  by (simp_all add: sample_setup_def)

lemma sample_host_simps [simp]:
  "h_cancel_requested sample_host w = (w, False)" "h_context sample_host m i = Inr \<lparr>cp_token_budget = 10, cp_fragments = []\<rparr>"
  "h_execute sample_host call actor w = (w, Inr \<lparr>tr_call_id = tc_id call, tr_summary = [], tr_data = tc_input call,
     tr_artifacts = [], tr_visibility = ResultVisibility.Both\<rparr>)"
  "h_to_string sample_host v = Inr [v]"
  by (simp_all add: sample_host_def)

lemma sample_host_ok: "host_ok sample_host"
proof -
  have "lookup_internal (lit ''file.read'') \<noteq> None" "lookup_internal (lit ''file.list'') \<noteq> None"
    by (simp_all add: lookup_internal_def BOOTSTRAP_TOOLS_def lit_inj)
  then have "list_all (\<lambda>(_, name, _). is_known_tool name) (tool_uses r)" if "snd (h_send sample_host m i w) = Inr r" for m i w r
    using that by (auto simp: sample_host_def tool_uses_def List.map_filter_def is_known_tool_def)
  then show ?thesis by (auto simp: host_ok_def ok_or_noncore_def sample_host_def split: sum.splits)
qed

text \<open>The sample run on a JSONL recorder whose writes succeed: every step succeeds.\<close>

abbreviation goes :: "(('w, 'r, 'v) Driver \<Rightarrow> bool) \<Rightarrow> ('w, 'r, 'v, 'a) prog \<Rightarrow> ('a \<Rightarrow> ('w, 'r, 'v) Driver \<Rightarrow> bool) \<Rightarrow> bool" where
  "goes P m Q \<equiv> triple P m Q (\<lambda>_ _. False)"

lemma goes_use: "goes P m Q \<Longrightarrow> P d \<Longrightarrow> \<exists>d' x. m d = (d', Inr x) \<and> Q x d'"
  using triple_use [of P m Q "\<lambda>_ _. False" d] by (auto split: prod.splits sum.splits)

definition healthy :: "nat RunState \<Rightarrow> nat \<Rightarrow> bool \<Rightarrow> (nat, nat EventRecorder \<times> nat, nat) Driver \<Rightarrow> bool" where
  "healthy s w b d \<longleftrightarrow> (\<exists>j n q. dr_recorder d = (Jsonl j, n) \<and> je_session j = None \<and> \<not> je_poisoned j \<and> je_state j = s\<lparr>rs_next_seq := q\<rparr>)
     \<and> dr_world d = w \<and> (b \<longrightarrow> (\<exists>call. Executed call None \<in> set (dr_effects d)))"

abbreviation sample_ops :: "(nat EventRecorder \<times> nat, nat) RunEventRecorder" where
  "sample_ops \<equiv> recorder_ops \<lparr>to_string = (\<lambda>_. []), from_str = (\<lambda>_. None)\<rparr> \<lparr>to_vec = (\<lambda>_. []), from_slice = (\<lambda>_. None)\<rparr> sample_ticks"

lemma healthy_next:
  assumes "apply_event s ev = (s', Inr ())" "rs_run_id s = None \<or> rs_run_id s = Some (event_run_id ev)"
  shows "\<exists>rec. next_record now (s\<lparr>rs_next_seq := q\<rparr>) ev = (s'\<lparr>rs_next_seq := q + 1\<rparr>, Inr rec)"
  using run_apply_seq [OF assms, of "\<lparr>re_seq = q, re_occurred_at_ms = now, re_event = ev\<rparr>" q]
  by (simp add: next_record_ok)

lemma healthy_record:
  assumes "apply_event s ev = (s', Inr ())" "rs_run_id s = None \<or> rs_run_id s = Some (event_run_id ev)"
    "\<not> is_terminal_event ev"
  shows "goes (healthy s w b) (Run_Loop.record_event sample_ops ev) (\<lambda>_. healthy s' w b)"
proof -
  have "case Run_Loop.record_event sample_ops ev d of (d', Inr x) \<Rightarrow> healthy s' w b d' | (d', Inl e) \<Rightarrow> False"
    if h: "healthy s w b d" for d
  proof -
    obtain j n q where j: "dr_recorder d = (Jsonl j, n)" "je_session j = None" "\<not> je_poisoned j" "je_state j = s\<lparr>rs_next_seq := q\<rparr>"
      using h unfolding healthy_def by blast
    obtain rec where "next_record (of_nat n) (je_state j) ev = (s'\<lparr>rs_next_seq := q + 1\<rparr>, Inr rec)"
      using healthy_next [OF assms(1,2)] unfolding j by blast
    then show ?thesis using j h assms(3)
      by (auto simp: Run_Loop.record_event_def acknowledged_def recorder_ops_def EventRecorder_record_def jsonl_record_def
          Jsonl_Ledger.record_event_def sample_ticks_def healthy_def)
  qed
  then show ?thesis unfolding triple_def by blast
qed

lemma healthy_host: "f w = (w', x) \<Longrightarrow> goes (healthy s w b) (host f) (\<lambda>y d. healthy s w' b d \<and> y = x)"
  by (auto simp: triple_def host_def healthy_def)

lemma healthy_check [simp]:
  "bind_prog (check_cancel_with_computer sample_host ops r c) f = f ()" "bind_prog (check_cancel sample_host ops r) f = f ()"
  by (rule ext, simp add: check_cancel_with_computer_def check_cancel_def bind_prog_def host_def ok_prog_def)+

abbreviation phase_st :: "nat RunPhase \<Rightarrow> u32 \<Rightarrow> TurnId set \<Rightarrow> ToolCallId set \<Rightarrow> nat RunState" where
  "phase_st ph n T C \<equiv> er.st run1 ph n T C None"

abbreviation sample_context :: ContextPack where
  "sample_context \<equiv> \<lparr>cp_token_budget = 10, cp_fragments = []\<rparr>"

lemma sample_context_budget: "validate_budget sample_context = Inr ()"
  by (simp add: validate_budget_def estimated_tokens_u64_def)

lemma goes_context_built:
  "goes P (Run_Loop.record_event ops (ContextBuilt r t c)) (\<lambda>_. Q) \<Longrightarrow> goes P (record_context_built h ops r computer t c) (\<lambda>_. Q)"
  by (fastforce simp: triple_def record_context_built_def split: prod.splits sum.splits)

lemma sample_begin:
  assumes "awaits_context ph" "turn_at i \<notin> T" "n = of_nat i"
  shows "goes (healthy (phase_st ph n T C) w b) (begin_turn sample_host sample_ops sample_setup False i messages)
    (\<lambda>t d. healthy (phase_st (AwaitingModelResponse (turn_at i) n sample_context) n (insert (turn_at i) T) C) w b d \<and> t = turn_at i)"
proof -
  let ?t = "turn_at i" and ?T = "insert (turn_at i) T"
  have built: "goes (healthy (phase_st ph n T C) w b) (Run_Loop.record_event sample_ops (ContextBuilt run1 ?t sample_context))
      (\<lambda>_. healthy (phase_st (ReadyToRequestModel ?t n sample_context) n ?T C) w b)"
    by (rule healthy_record)
      (use er.context_accepted [OF assms(1,2), of None sample_context run1 n C] sample_context_budget in simp_all)
  have requested: "goes (healthy (phase_st (ReadyToRequestModel ?t n sample_context) n ?T C) w b)
      (Run_Loop.record_event sample_ops (ModelRequested run1 ?t n m))
      (\<lambda>_. healthy (phase_st (AwaitingModelResponse ?t n sample_context) n ?T C) w b)" for m
    by (rule healthy_record) (simp_all add: er.gate_open ensure_turn_def ensure_step_def)
  have "begin_turn sample_host sample_ops sample_setup False i messages =
      bind_prog (record_context_built sample_host sample_ops run1 False ?t sample_context) (\<lambda>_.
      bind_prog (Run_Loop.record_event sample_ops (ModelRequested run1 ?t n (ModelName (lit ''m'')))) (\<lambda>_. ok_prog ?t))"
    by (simp add: begin_turn_def Let_def minted core_prog_def app_prog_def bind_ok assms(3))
  then show ?thesis
    by (simp only:) (rule triple_bind [OF goes_context_built [OF built]], rule triple_bind [OF requested], rule triple_ok, simp)
qed

definition first_response :: "nat ModelResponse" where
  "first_response = \<lparr>mr_content = [ToolUseBlock (lit ''u1'') (lit ''file.read'') 5, ToolUseBlock (lit ''u2'') (lit ''file.list'') 6],
     mr_stop = ToolUse, mr_served_model = None, mr_usage = None\<rparr>"

definition last_response :: "nat ModelResponse" where
  "last_response = \<lparr>mr_content = [TextBlock (lit ''hi'')], mr_stop = EndTurn, mr_served_model = None, mr_usage = None\<rparr>"

lemma sample_request:
  "goes (healthy s w b) (request_model sample_host sample_ops sample_setup False i t messages)
     (\<lambda>r d. healthy s (w + 1) b d \<and> r = Inr (if w = 0 then first_response else last_response))"
  unfolding request_model_def Let_def
  by (rule triple_bind [OF healthy_host [where x = "Inr (if w = 0 then first_response else last_response)" and w' = "w + 1"]])
    (simp add: sample_host_def first_response_def last_response_def, auto simp: triple_def ok_prog_def)

lemma sample_responded:
  "goes (healthy (phase_st (AwaitingModelResponse t n c) n T C) w b)
     (Run_Loop.record_event sample_ops (ModelResponded run1 t n out ps served usage))
     (\<lambda>_. healthy (phase_st (if ps = [] then TurnConcluded else AwaitingToolCall t ps) (n + 1) T C) w b)"
  by (rule healthy_record) (auto simp: er.gate_open ensure_turn_def ensure_step_def)

lemma sample_tools: "ToolName_new (lit ''file.read'') = Inr (ToolName (lit ''file.read''))"
  "ToolName_new (lit ''file.list'') = Inr (ToolName (lit ''file.list''))"
  "effect_for_tool (lit ''file.read'') = ReadOnly"
proof -
  have "\<exists>c. c \<in> set (lit ''file.read'') \<and> \<not> is_whitespace c" "\<exists>c. c \<in> set (lit ''file.list'') \<and> \<not> is_whitespace c"
    by (intro exI [of _ 102], simp add: lit_def is_whitespace_def)+
  then show "ToolName_new (lit ''file.read'') = Inr (ToolName (lit ''file.read''))"
    "ToolName_new (lit ''file.list'') = Inr (ToolName (lit ''file.list''))"
    by (auto simp: ToolName_new_def id_new_def trim_eq_Nil)
  show "effect_for_tool (lit ''file.read'') = ReadOnly"
    by (simp add: effect_for_tool_def lookup_internal_def BOOTSTRAP_TOOLS_def lit_inj)
qed

lemma sample_executes:
  "goes (healthy (phase_st (ReadyToExecuteTool call) n T C) w b) (execute_and_record_tool sample_host sample_ops run1 call None)
     (\<lambda>_. healthy (phase_st TurnConcluded n T C) w True)"
proof -
  have started: "goes (healthy (phase_st (ReadyToExecuteTool call) n T C) w b)
      (Run_Loop.record_event sample_ops (ToolStarted run1 (tc_id call))) (\<lambda>_. healthy (phase_st (ToolRunning (tc_id call)) n T C) w b)"
    by (rule healthy_record) (simp_all add: er.gate_open ensure_call_def)
  have ran: "goes (healthy (phase_st (ToolRunning (tc_id call)) n T C) w b) (execute_tool sample_host call None)
      (\<lambda>x d. healthy (phase_st (ToolRunning (tc_id call)) n T C) w True d \<and> (\<exists>res. x = Inr res \<and> tr_call_id res = tc_id call))"
    by (auto simp: triple_def execute_tool_def host_def healthy_def)
  have finished: "goes (healthy (phase_st (ToolRunning (tc_id call)) n T C) w True)
      (Run_Loop.record_event sample_ops (ToolFinished run1 res)) (\<lambda>_. healthy (phase_st TurnConcluded n T C) w True)"
    if "tr_call_id res = tc_id call" for res
    by (rule healthy_record) (use that in \<open>simp_all add: er.gate_open ensure_call_def\<close>)
  have recorded: "goes (healthy (phase_st (ToolRunning (tc_id call)) n T C) w True)
      (bind_prog (Run_Loop.record_event sample_ops (ToolFinished run1 res)) (\<lambda>_. ok_prog m))
      (\<lambda>_. healthy (phase_st TurnConcluded n T C) w True)" if "tr_call_id res = tc_id call" for res and m :: ToolMessage
    by (rule triple_bind [OF finished [OF that]], rule triple_ok)
  show ?thesis unfolding execute_and_record_tool_def
    by (simp only: healthy_check, rule triple_bind [OF started], rule triple_bind [OF ran], rule triple_fact)
      (auto simp: app_prog_def bind_ok intro: recorded)
qed

lemma sample_tool_call:
  assumes "tc_tool call = ToolName (lit ''file.read'')" "tc_effect call = ReadOnly"
  shows "goes (healthy (phase_st (AwaitingPolicy call) n T C) w b) (run_tool_call sample_host sample_ops sample_setup False call)
    (\<lambda>_. healthy (phase_st TurnConcluded n T C) w True)"
proof -
  have policy: "call_policy sample_host sample_setup False call = ok_prog Allow"
    using assms by (simp add: call_policy_def evaluate_policy_def lit_inj computer_tool_def Let_def)
  have evaluated: "goes (healthy (phase_st (AwaitingPolicy call) n T C) w b)
      (Run_Loop.record_event sample_ops (PolicyEvaluated run1 (tc_id call) Allow)) (\<lambda>_. healthy (phase_st (ReadyToExecuteTool call) n T C) w b)"
    by (rule healthy_record) (simp_all add: er.gate_open ensure_call_def)
  show ?thesis unfolding run_tool_call_def policy bind_ok sample_fields PolicyDecision.case
    by (rule triple_bind [OF evaluated sample_executes])
qed

lemma sample_output:
  "\<exists>out. provider_tool_output (lit ''file.read'') content = Some out" "\<exists>out. provider_tool_output (lit ''file.list'') content = Some out"
proof -
  have "is_known_tool (lit ''file.read'')" "is_known_tool (lit ''file.list'')"
    by (simp_all add: is_known_tool_def lookup_internal_def BOOTSTRAP_TOOLS_def lit_inj)
  then show "\<exists>out. provider_tool_output (lit ''file.read'') content = Some out" "\<exists>out. provider_tool_output (lit ''file.list'') content = Some out"
    using known_tool_output by blast+
qed

lemma sample_uses:
  "tool_uses first_response = [(lit ''u1'', lit ''file.read'', 5), (lit ''u2'', lit ''file.list'', 6)]" "tool_uses last_response = []"
  by (simp_all add: tool_uses_def first_response_def last_response_def List.map_filter_def)

definition sample_proposals :: "nat ToolProposal list" where
  "sample_proposals = [\<lparr>tp_tool = ToolName (lit ''file.read''), tp_input = 5\<rparr>, \<lparr>tp_tool = ToolName (lit ''file.list''), tp_input = 6\<rparr>]"

lemma sample_first_call:
  "goes (healthy (phase_st (AwaitingToolCall t sample_proposals) n T {}) w b)
     (run_first_call sample_host sample_ops sample_setup False 0 t (lit ''u1'', lit ''file.read'', 5) [(lit ''u2'', lit ''file.list'', 6)] messages)
     (\<lambda>e d. healthy (phase_st TurnConcluded n T {call_at 0}) w True d \<and> (\<exists>ms. e = NextTurn ms))"
proof -
  define call :: "nat ToolCall" where "call = \<lparr>tc_id = call_at 0, tc_tool = ToolName (lit ''file.read''), tc_effect = ReadOnly, tc_input = 5\<rparr>"
  have call: "tool_call (call_at 0) (lit ''file.read'') 5 = Inr call" by (simp add: tool_call_def sample_tools call_def)
  have proposed: "goes (healthy (phase_st (AwaitingToolCall t sample_proposals) n T {}) w b)
      (Run_Loop.record_event sample_ops (ToolCallProposed run1 t call)) (\<lambda>_. healthy (phase_st (AwaitingPolicy call) n T {call_at 0}) w b)"
    by (rule healthy_record)
      (simp_all add: er.gate_open ensure_turn_def ensure_proposed_def ensure_new_tool_call_def sample_proposals_def call_def)
  have called: "goes (healthy (phase_st (AwaitingPolicy call) n T {call_at 0}) w b)
      (run_tool_call sample_host sample_ops sample_setup False call) (\<lambda>_. healthy (phase_st TurnConcluded n T {call_at 0}) w True)"
    by (rule sample_tool_call) (simp_all add: call_def)
  have tail: "goes (healthy s w True) (bind_prog (output_prog (lit ''file.read'') content) (\<lambda>out.
      bind_prog (answer_extra_calls [(lit ''u2'', lit ''file.list'', x)] (messages @ [tool_result (lit ''u1'') out e])) (\<lambda>ms. ok_prog (NextTurn ms))))
      (\<lambda>e d. healthy s w True d \<and> (\<exists>ms. e = NextTurn ms))" for s content e and x :: nat
  proof -
    obtain o1 o2 where "provider_tool_output (lit ''file.read'') content = Some o1"
        "provider_tool_output (lit ''file.list'') EXTRA_TOOL_CALL_ERROR = Some o2"
      using sample_output by meson
    then show ?thesis by (auto simp: output_prog_def bind_ok intro: triple_ok)
  qed
  show ?thesis unfolding run_first_call_def prod.case core_prog_def minted sum.case bind_ok call sample_fields
    by (rule triple_bind [OF proposed], rule triple_bind [OF called], rule tail)
qed

lemma sample_turn:
  assumes "awaits_context ph" "turn_at i \<notin> T" "n = of_nat i"
    and handled: "goes (healthy (phase_st (AwaitingModelResponse (turn_at i) n sample_context) n (insert (turn_at i) T) C) (w + 1) b)
      (handle_response sample_host sample_ops sample_setup False i (turn_at i) messages (if w = 0 then first_response else last_response)) Q"
  shows "goes (healthy (phase_st ph n T C) w b) (run_turn sample_host sample_ops sample_setup False i messages) Q"
proof -
  let ?s = "phase_st (AwaitingModelResponse (turn_at i) n sample_context) n (insert (turn_at i) T) C"
  have received: "goes (healthy ?s (w + 1) b) (receive_response sample_host sample_ops run1 False (Inr r)) (\<lambda>x d. healthy ?s (w + 1) b d \<and> x = r)" for r
    unfolding receive_response_def sum.case by (rule triple_ok) simp
  show ?thesis unfolding run_turn_def sample_fields
    by (rule triple_bind [OF sample_begin [OF assms(1-3)]], rule triple_fact, simp only:, rule triple_bind [OF sample_request],
        rule triple_fact, simp only:, rule triple_bind [OF received], rule triple_fact, simp only:, rule handled)
qed

lemma sample_first_turn:
  "goes (healthy (phase_st ReadyForContext 0 {} {}) 0 False) (run_turn sample_host sample_ops sample_setup False 0 messages)
     (\<lambda>e d. healthy (phase_st TurnConcluded 1 {turn_at 0} {call_at 0}) 1 True d \<and> (\<exists>ms. e = NextTurn ms))"
proof -
  have ps: "proposals_from_response first_response = Inr sample_proposals"
    by (simp add: proposals_from_response_def sample_uses sample_tools sample_proposals_def)
  let ?s = "phase_st (AwaitingModelResponse (turn_at 0) 0 sample_context) 0 {turn_at 0} {}"
  have handled: "goes (healthy ?s 1 False) (handle_response sample_host sample_ops sample_setup False 0 (turn_at 0) messages first_response)
      (\<lambda>e d. healthy (phase_st TurnConcluded 1 {turn_at 0} {call_at 0}) 1 True d \<and> (\<exists>ms. e = NextTurn ms))"
    unfolding handle_response_def Let_def core_prog_def ps sum.case bind_ok sample_fields
    by (rule triple_bind, simp, rule sample_responded)
      (use sample_first_call in \<open>simp add: first_response_def [THEN arg_cong [where f = mr_stop]] sample_uses lit_inj sample_proposals_def\<close>)
  show ?thesis by (rule sample_turn) (use handled in simp_all)
qed

lemma sample_finish:
  "goes (healthy (phase_st TurnConcluded n T C) w True) (record_terminal_success_with_computer sample_host sample_ops run1 False answer)
     (\<lambda>_ d. \<exists>call. Executed call None \<in> set (dr_effects d))"
proof -
  have acc: "apply_event (phase_st TurnConcluded n T C) (RunFinished run1) = (phase_st RunPhase.Finished n T C, Inr ())"
    by (simp add: er.gate_open)
  have "case acknowledged (\<lambda>r. rr_finish_run sample_ops r run1 answer) d of
      (d', Inr x) \<Rightarrow> \<exists>call. Executed call None \<in> set (dr_effects d') | (d', Inl e) \<Rightarrow> False"
    if h: "healthy (phase_st TurnConcluded n T C) w True d" for d
  proof -
    obtain j m q where j: "dr_recorder d = (Jsonl j, m)" "je_session j = None" "\<not> je_poisoned j"
        "je_state j = (phase_st TurnConcluded n T C)\<lparr>rs_next_seq := q\<rparr>"
      using h unfolding healthy_def by blast
    obtain rec where "next_record (of_nat m) (je_state j) (RunFinished run1) = ((phase_st RunPhase.Finished n T C)\<lparr>rs_next_seq := q + 1\<rparr>, Inr rec)"
      using healthy_next [OF acc] unfolding j by fastforce
    then show ?thesis using j h
      by (auto simp: acknowledged_def recorder_ops_def EventRecorder_finish_run_def jsonl_finish_run_def jsonl_record_terminal_def
          Jsonl_Ledger.record_event_def sample_ticks_def healthy_def)
  qed
  then have "goes (healthy (phase_st TurnConcluded n T C) w True) (acknowledged (\<lambda>r. rr_finish_run sample_ops r run1 answer))
      (\<lambda>_ d. \<exists>call. Executed call None \<in> set (dr_effects d))"
    unfolding triple_def by blast
  then show ?thesis by (simp add: record_terminal_success_with_computer_def cleanup_computer_def bind_ok)
qed

lemma sample_last_turn:
  "goes (healthy (phase_st TurnConcluded 1 {turn_at 0} C) 1 True) (run_turn sample_host sample_ops sample_setup False 1 messages)
     (\<lambda>e d. (\<exists>call. Executed call None \<in> set (dr_effects d)) \<and> e = Answered (lit ''hi''))"
proof (rule sample_turn)
  have ps: "proposals_from_response last_response = Inr []" by (simp add: proposals_from_response_def sample_uses)
  have says: "response_text last_response = lit ''hi''"
    by (simp add: response_text_def last_response_def List.map_filter_def)
  let ?s = "phase_st (AwaitingModelResponse (turn_at 1) 1 sample_context) 1 (insert (turn_at 1) {turn_at 0}) C"
  have finish: "goes (healthy (phase_st TurnConcluded n T C) w True)
      (bind_prog (record_terminal_success_with_computer sample_host sample_ops run1 False answer) (\<lambda>_. ok_prog (Answered answer)))
      (\<lambda>e d. (\<exists>call. Executed call None \<in> set (dr_effects d)) \<and> e = Answered answer)" for n T w answer
    by (rule triple_bind [OF sample_finish], rule triple_ok) simp
  have "goes (healthy ?s 2 True) (handle_response sample_host sample_ops sample_setup False 1 (turn_at 1) messages last_response)
      (\<lambda>e d. (\<exists>call. Executed call None \<in> set (dr_effects d)) \<and> e = Answered (lit ''hi''))"
    unfolding handle_response_def Let_def core_prog_def ps sum.case bind_ok sample_fields says
    by (rule triple_bind, simp, rule sample_responded)
      (use finish in \<open>simp add: last_response_def [THEN arg_cong [where f = mr_stop]] sample_uses\<close>)
  then show "goes (healthy ?s (1 + 1) True) (handle_response sample_host sample_ops sample_setup False 1 (turn_at 1) messages
      (if (1::nat) = 0 then first_response else last_response))
      (\<lambda>e d. (\<exists>call. Executed call None \<in> set (dr_effects d)) \<and> e = Answered (lit ''hi''))" by (simp add: numeral_2_eq_2)
qed (simp_all add: turn_at_def decimal_inj)

lemma sample_run:
  "\<exists>d. run_question sample_host \<lparr>to_string = (\<lambda>_. []), from_str = (\<lambda>_. None)\<rparr> \<lparr>to_vec = (\<lambda>_. []), from_slice = (\<lambda>_. None)\<rparr>
      sample_ticks (Jsonl jsonl_create) sample_setup [] 0 = (d, Inr \<lparr>ro_run_id = run1, ro_final_answer = lit ''hi''\<rparr>)
    \<and> (\<exists>call. Executed call None \<in> set (dr_effects d))"
proof -
  let ?d = "\<lparr>dr_world = 0, dr_recorder = (Jsonl jsonl_create, 0), dr_effects = []\<rparr> :: (nat, nat EventRecorder \<times> nat, nat) Driver"
  let ?Q = "\<lambda>out (d :: (nat, nat EventRecorder \<times> nat, nat) Driver).
      (\<exists>call. Executed call None \<in> set (dr_effects d)) \<and> out = \<lparr>ro_run_id = run1, ro_final_answer = lit ''hi''\<rparr>"
  have started: "goes (healthy RunState_new 0 False)
      (Run_Loop.record_event sample_ops (RunStarted \<lparr>rse_run_id = run1, rse_identity = su_identity sample_setup\<rparr>))
      (\<lambda>_. healthy (phase_st ReadyForContext 0 {} {}) 0 False)"
    by (rule healthy_record) (simp_all add: apply_event_def compaction_gate_def RunState_new_def er.st_def)
  have second: "goes (healthy (phase_st TurnConcluded 1 {turn_at 0} {call_at 0}) 1 True)
      (run_turns sample_host sample_ops sample_setup False [1] ms) ?Q" for ms
    unfolding run_turns.simps sample_fields
    by (rule triple_bind [OF sample_last_turn], rule triple_fact, simp only: TurnEnd.case) (auto intro: triple_ok)
  have turns: "goes (healthy (phase_st ReadyForContext 0 {} {}) 0 False) (run_turns sample_host sample_ops sample_setup False [0, 1] []) ?Q"
    unfolding run_turns.simps(2) [of _ _ _ _ 0]
    by (rule triple_bind [OF sample_first_turn], rule triple_fact) (use second in auto)
  have plain: "start_computer sample_host sample_ops sample_setup = ok_prog False"
    by (simp add: start_computer_def lit_inj)
  have "goes (healthy RunState_new 0 False) (run_prepared_question sample_host sample_ops sample_setup []) ?Q"
    unfolding run_prepared_question_def sample_fields plain bind_ok
    by (rule triple_bind [OF started]) (use turns in \<open>simp add: upt_rec\<close>)
  moreover have "healthy RunState_new 0 False ?d" by (auto simp: healthy_def jsonl_create_def RunState_new_def)
  ultimately show ?thesis using goes_use unfolding run_question_def by blast
qed


section \<open>Properties of a run\<close>

text \<open>
  C1. A tool is executed only with a licence the ledger shows: whatever the model asks for and
  whatever the provider, the tools, the approvers and the recorder do, every execution of a run
  comes directly after the acknowledged record that starts that very call; the call was recorded
  as proposed with exactly this tool and input, and either its policy allowed it and nobody is
  named as approver, or the approval of the named actor is recorded before.
\<close>

theorem run_executions_licensed:
  assumes "host_ok h" "new_recorder (su_run_id su) r" "run_question h js lj ticks r su messages w = (d, x)"
  shows "all_licensed (su_run_id su) (dr_effects d)"
  using run_question_ends [OF assms] by (auto simp: er.closed_def er.concluded_def er.answered_def split: sum.splits)

lemma sample_new: "new_recorder (su_run_id sample_setup) (Jsonl jsonl_create)"
  by (simp add: new_recorder_def jsonl_create_def)

theorem run_executions_licensed_witness:
  "\<exists>d call. Executed call None \<in> set (dr_effects d) \<and> all_licensed run1 (dr_effects d)
     \<and> fst (run_question sample_host \<lparr>to_string = (\<lambda>_. []), from_str = (\<lambda>_. None)\<rparr> \<lparr>to_vec = (\<lambda>_. []), from_slice = (\<lambda>_. None)\<rparr>
          sample_ticks (Jsonl jsonl_create) sample_setup [] 0) = d"
  using sample_run run_executions_licensed [OF sample_host_ok sample_new] by fastforce

text \<open>
  C5. No call is executed twice in a run.
\<close>

theorem run_executes_once:
  assumes "host_ok h" "new_recorder (su_run_id su) r" "run_question h js lj ticks r su messages w = (d, x)"
  shows "distinct (map tc_id (executed (dr_effects d)))"
proof -
  have "er.closed (su_run_id su) d"
    using run_question_ends [OF assms] by (auto simp: er.concluded_def er.answered_def split: sum.splits)
  then show ?thesis using licensed_once [of "su_run_id su" "dr_effects d"] by (auto simp: er.closed_def)
qed

theorem run_executes_once_witness:
  "\<exists>d. distinct (map tc_id (executed (dr_effects d))) \<and> executed (dr_effects d) \<noteq> []
     \<and> fst (run_question sample_host \<lparr>to_string = (\<lambda>_. []), from_str = (\<lambda>_. None)\<rparr> \<lparr>to_vec = (\<lambda>_. []), from_slice = (\<lambda>_. None)\<rparr>
          sample_ticks (Jsonl jsonl_create) sample_setup [] 0) = d"
proof -
  obtain d call x where d: "run_question sample_host \<lparr>to_string = (\<lambda>_. []), from_str = (\<lambda>_. None)\<rparr> \<lparr>to_vec = (\<lambda>_. []), from_slice = (\<lambda>_. None)\<rparr>
      sample_ticks (Jsonl jsonl_create) sample_setup [] 0 = (d, x)" "Executed call None \<in> set (dr_effects d)"
    using sample_run by blast
  then have "executed (dr_effects d) \<noteq> []" by (force simp: executed_def List.map_filter_def filter_empty_conv)
  with run_executes_once [OF sample_host_ok sample_new d(1)] d(1) show ?thesis by simp
qed

text \<open>
  C2. The driver implements the run state machine: the records it sends, in order, are a ledger the
  machine accepts, so the driver never makes a move the machine forbids, however the run ends; it
  never panics; and an error of the core crate that it reports is an empty identifier or a context
  over its budget, never a rejected transition.
\<close>

theorem run_never_rejected:
  assumes "host_ok h" "new_recorder (su_run_id su) r" "run_question h js lj ticks r su messages w = (d, x)"
  shows "(\<exists>s. run_replay (ledger_of (dr_effects d)) = (s, Inr ())) \<and> x \<noteq> Inl Panic \<and>
    (\<forall>c. x = Inl (Err (Core c)) \<longrightarrow> (\<exists>n. c = EmptyIdentifier n) \<or> (\<exists>used budget. c = ContextBudgetExceeded used budget))"
  using run_question_ends [OF assms]
  by (auto simp: er.closed_def er.benign_def er.concluded_def er.answered_def split: sum.splits)

theorem run_never_rejected_witness:
  "\<exists>s d. run_replay (ledger_of (dr_effects d)) = (s, Inr ())
     \<and> fst (run_question sample_host \<lparr>to_string = (\<lambda>_. []), from_str = (\<lambda>_. None)\<rparr> \<lparr>to_vec = (\<lambda>_. []), from_slice = (\<lambda>_. None)\<rparr>
          sample_ticks (Jsonl jsonl_create) sample_setup [] 0) = d"
  using sample_run run_never_rejected [OF sample_host_ok sample_new] by fastforce

text \<open>
  C3. An answer is the recorded answer of a finished run: when the driver returns an outcome, the
  last two records it sent are the model response with exactly the returned text and no tool
  proposals, and the end of the run; the ledger replays to the finished phase.
\<close>

theorem run_answer_recorded:
  assumes "host_ok h" "new_recorder (su_run_id su) r" "run_question h js lj ticks r su messages w = (d, Inr out)"
  shows "ro_run_id out = su_run_id su \<and>
    (\<exists>es rec turn_id step served usage fin s. dr_effects d = es @ [Ledger rec, Ledger fin]
       \<and> re_event rec = ModelResponded (su_run_id su) turn_id step
           \<lparr>msg_role = Assistant, msg_content = ro_final_answer out\<rparr> [] served usage
       \<and> re_event fin = RunFinished (su_run_id su)
       \<and> run_replay (ledger_of (dr_effects d)) = (s, Inr ()) \<and> rs_phase s = RunPhase.Finished)"
proof -
  have c: "er.concluded (su_run_id su) out d" using run_question_ends [OF assms] by simp
  then obtain es rec turn_id step served usage fin s where ends: "dr_effects d = es @ [Ledger rec, Ledger fin]"
      "re_event rec = ModelResponded (su_run_id su) turn_id step \<lparr>msg_role = Assistant, msg_content = ro_final_answer out\<rparr> [] served usage"
      "re_event fin = RunFinished (su_run_id su)" and run: "run_replay (ledger_of (dr_effects d)) = (s, Inr ())"
    by (auto simp: er.concluded_def er.answered_def er.closed_def)
  have "ledger_of (dr_effects d) = ledger_of (es @ [Ledger rec]) @ [fin]"
    unfolding ends(1) using ledger_of_snoc(2) [of "es @ [Ledger rec]" fin] by simp
  then obtain u where "run_apply u fin = (s, Inr ())" using run by (metis replay_loop_snoc_ok)
  then have "rs_phase s = RunPhase.Finished" using ends(3) by (auto simp: run_apply_ok)
  then show ?thesis using c ends run unfolding er.concluded_def by blast
qed

theorem run_answer_recorded_witness:
  "\<exists>d es rec turn_id step served usage fin.
     run_question sample_host \<lparr>to_string = (\<lambda>_. []), from_str = (\<lambda>_. None)\<rparr> \<lparr>to_vec = (\<lambda>_. []), from_slice = (\<lambda>_. None)\<rparr>
       sample_ticks (Jsonl jsonl_create) sample_setup [] 0 = (d, Inr \<lparr>ro_run_id = run1, ro_final_answer = lit ''hi''\<rparr>)
     \<and> dr_effects d = es @ [Ledger rec, Ledger fin]
     \<and> re_event rec = ModelResponded run1 turn_id step \<lparr>msg_role = Assistant, msg_content = lit ''hi''\<rparr> [] served usage"
proof -
  obtain d where d: "run_question sample_host \<lparr>to_string = (\<lambda>_. []), from_str = (\<lambda>_. None)\<rparr> \<lparr>to_vec = (\<lambda>_. []), from_slice = (\<lambda>_. None)\<rparr>
      sample_ticks (Jsonl jsonl_create) sample_setup [] 0 = (d, Inr \<lparr>ro_run_id = run1, ro_final_answer = lit ''hi''\<rparr>)"
    using sample_run by blast
  from run_answer_recorded [OF sample_host_ok sample_new d] d show ?thesis by fastforce
qed


text \<open>A run without a turn: it starts, and it fails for want of turns.\<close>

definition no_turns :: RunSetup where
  "no_turns = sample_setup\<lparr>su_max_turns := 0\<rparr>"

definition two_js :: "nat event_json" where
  "two_js = \<lparr>to_string = (\<lambda>ev. case ev of RunStarted _ \<Rightarrow> [1] | _ \<Rightarrow> [2]),
     from_str = (\<lambda>s. if s = [1] then Some (RunStarted \<lparr>rse_run_id = run1, rse_identity = su_identity sample_setup\<rparr>)
       else Some (RunFailed run1 (lit ''exceeded maximum turn count of '' @ decimal 0)))\<rparr>"

lemma no_turns_run:
  "\<exists>d x. run_question sample_host two_js lj sample_ticks (Sqlite_Rec (sqlite_create ledger_empty run1)) no_turns [] 0 = (d, x)
     \<and> map re_event (ledger_of (dr_effects d)) = [RunStarted \<lparr>rse_run_id = run1, rse_identity = su_identity sample_setup\<rparr>,
          RunFailed run1 (lit ''exceeded maximum turn count of '' @ decimal 0)]"
  by (simp add: run_question_def run_prepared_question_def no_turns_def bind_prog_def ok_prog_def start_computer_def lit_inj
     Run_Loop.record_event_def acknowledged_def recorder_ops_def EventRecorder_record_def sqlite_record_def sqlite_create_def next_record_def
     run_apply_def apply_event_def compaction_gate_def RunState_new_def sample_ticks_def Let_def append_record_in_def
     validate_ledger_identity_def sqlite_i64_def ledger_empty_def sample_setup_def two_js_def
     fail_run_with_computer_def record_terminal_failure_with_computer_def cleanup_computer_def record_terminal_failure_def
     EventRecorder_fail_run_def sqlite_fail_run_def sqlite_record_terminal_def err_prog_def ledger_of_def List.map_filter_def)


end
