(* ===== verification/File_Listing.thy ===== *)
theory File_Listing
  imports File_Tools "HOL-Library.Multiset"
begin

text \<open>
  What \<open>file.list\<close> returns: the tool keeps a bounded sorted vector while it reads a directory in
  the system's order. It is shown to return the beginning of the fully sorted listing.
\<close>

section \<open>Bounded listings\<close>

definition insert_after :: "('a \<Rightarrow> 'b::linorder) \<Rightarrow> 'a \<Rightarrow> 'a list \<Rightarrow> 'a list" where
  "insert_after f c xs = takeWhile (\<lambda>x. f x \<le> f c) xs @ c # dropWhile (\<lambda>x. f x \<le> f c) xs"

lemma takeWhile_take: "takeWhile P (take n xs) = take n (takeWhile P xs)"
  by (induction xs arbitrary: n) (auto simp: take_Cons' split: nat.splits)

text \<open>Keeping the two hundred smallest names loses nothing of the two hundred smallest of all.\<close>

lemma retain_take:
  "retain_list_candidate (take MAX_LIST_ENTRIES S) c = take MAX_LIST_ENTRIES (insert_after le_name c S)"
proof -
  define P where "P e \<longleftrightarrow> le_name e \<le> le_name c" for e :: ListEntry
  define k where "k = length (takeWhile P S)"
  have tw: "takeWhile P S = take k S" "dropWhile P S = drop k S"
    unfolding k_def by (rule takeWhile_eq_take, rule dropWhile_eq_drop)
  have index: "length (takeWhile P (take 200 S)) = min 200 k" by (simp add: takeWhile_take k_def)
  have kept: "(if length (take 200 S) = 200 then butlast (take 200 S) else take 200 S) = take 199 S"
    by (simp add: butlast_take)
  have "drop k (take 199 S) = take (199 - k) (drop k S)" by (simp add: drop_take)
  moreover have "k \<le> length S" by (simp add: k_def length_takeWhile_le)
  ultimately show ?thesis
    unfolding retain_list_candidate_def insert_after_def P_def [symmetric] MAX_LIST_ENTRIES_def Let_def index kept tw
    by (auto simp: take_Cons' min_def)
qed

lemma retain_all:
  "foldl retain_list_candidate (take MAX_LIST_ENTRIES S) es =
     take MAX_LIST_ENTRIES (foldl (\<lambda>S c. insert_after le_name c S) S es)"
  by (induction es arbitrary: S) (simp_all add: retain_take)

lemma insert_after_mset: "mset (insert_after f c xs) = add_mset c (mset xs)"
  by (induction xs) (simp_all add: insert_after_def)

lemma insert_after_Cons:
  "insert_after f c (x # xs) = (if f x \<le> f c then x # insert_after f c xs else c # x # xs)"
  by (simp add: insert_after_def)

lemma insert_after_sorted: "sorted (map f xs) \<Longrightarrow> sorted (map f (insert_after f c xs))"
proof (induction xs)
  case (Cons x xs)
  have "set (insert_after f c xs) = insert c (set xs)"
    using arg_cong [OF insert_after_mset [of f c xs], of set_mset] by simp
  then show ?case using Cons by (auto simp: insert_after_Cons)
qed (simp add: insert_after_def)

lemma insert_after_stable:
  assumes "sorted (map f xs)"
  shows "filter (\<lambda>x. v = f x) (insert_after f c xs) = filter (\<lambda>x. v = f x) xs @ filter (\<lambda>x. v = f x) [c]"
  using assms
proof (induction xs)
  case (Cons x xs)
  show ?case
  proof (cases "f x \<le> f c")
    case True
    then show ?thesis using Cons by (cases "v = f x"; cases "v = f c"; auto simp: insert_after_Cons)
  next
    case False
    then have "\<forall>y\<in>set (x # xs). f y \<noteq> f c" using Cons.prems by fastforce
    then have "filter (\<lambda>y. f c = f y) (x # xs) = []" by (intro filter_False) (metis (full_types))
    then show ?thesis using False by (cases "v = f c") (simp_all add: insert_after_Cons del: filter.simps(2) add: filter.simps(2) [of _ c])
  qed
qed (simp add: insert_after_def)

lemma insert_all_sorted:
  "sorted (map f S) \<Longrightarrow> sorted (map f (foldl (\<lambda>S c. insert_after f c S) S es))
     \<and> mset (foldl (\<lambda>S c. insert_after f c S) S es) = mset S + mset es
     \<and> filter (\<lambda>x. v = f x) (foldl (\<lambda>S c. insert_after f c S) S es) = filter (\<lambda>x. v = f x) S @ filter (\<lambda>x. v = f x) es"
  by (induction es arbitrary: S) (auto simp: insert_after_sorted insert_after_stable insert_after_mset)

lemma retained_entries: "foldl retain_list_candidate [] es = take MAX_LIST_ENTRIES (sort_key le_name es)"
proof -
  let ?S = "foldl (\<lambda>S c. insert_after le_name c S) [] es"
  have "sort_key le_name es = ?S"
    using insert_all_sorted [of le_name "[]" es]
    by (intro properties_for_sort_key) simp_all
  then show ?thesis using retain_all [of "[]" es] by simp
qed

lemma bounded_entries_prefix:
  "\<exists>j \<le> length es. bounded_entries es ret b = ret @ take j es
     \<and> (length ret \<le> MAX_LIST_ENTRIES \<longrightarrow> length ret + j \<le> MAX_LIST_ENTRIES)
     \<and> (b \<le> MAX_LIST_DATA_BYTES \<longrightarrow>
          b + sum_list (map estimated_list_entry_bytes (take j es)) \<le> MAX_LIST_DATA_BYTES)
     \<and> (j < length es \<longrightarrow> length ret + j \<ge> MAX_LIST_ENTRIES
          \<or> b + sum_list (map estimated_list_entry_bytes (take (Suc j) es)) > MAX_LIST_DATA_BYTES)"
proof (induction es ret b rule: bounded_entries.induct)
  case (2 e es ret b)
  show ?case
  proof (cases "length ret \<ge> MAX_LIST_ENTRIES \<or> b + estimated_list_entry_bytes e > MAX_LIST_DATA_BYTES")
    case True
    then show ?thesis by (intro exI [of _ 0]) auto
  next
    case False
    then obtain j where "j \<le> length es" "bounded_entries (e # es) ret b = (ret @ [e]) @ take j es"
      "Suc (length ret) + j \<le> MAX_LIST_ENTRIES"
      "b + estimated_list_entry_bytes e + sum_list (map estimated_list_entry_bytes (take j es)) \<le> MAX_LIST_DATA_BYTES"
      "j < length es \<longrightarrow> Suc (length ret) + j \<ge> MAX_LIST_ENTRIES
        \<or> b + estimated_list_entry_bytes e + sum_list (map estimated_list_entry_bytes (take (Suc j) es)) > MAX_LIST_DATA_BYTES"
      using 2 by auto
    then show ?thesis using False by (intro exI [of _ "Suc j"]) (auto simp: add.assoc)
  qed
qed simp

text \<open>
  A directory listing does not depend on the order in which the system enumerates the
  directory: it is the beginning of the listing sorted by name, as long as two hundred entries
  and 32 KiB of data allow and no shorter, of a directory inside the workspace, and it is marked
  truncated exactly when an entry is missing.
\<close>

theorem file_list_canonical:
  assumes "fs_ok fs" "list_directory read_dir fs workspace_root call_id raw = Inr res"
  shows "\<exists>root loc S j. workspace fs workspace_root root \<and> prefix root loc \<and> nodes fs loc = Some Directory
    \<and> S = sort_key le_name
        (map (\<lambda>n. \<lparr>le_name = n, le_kind = file_kind (the (nodes fs (loc @ [n])))\<rparr>) (read_dir loc))
    \<and> j \<le> length S \<and> tr_data res = ListData raw (take j S) (j < length S) (length S) j
    \<and> j \<le> MAX_LIST_ENTRIES
    \<and> sum_list (map estimated_list_entry_bytes (take j S)) \<le> MAX_LIST_DATA_BYTES
    \<and> (j < length S \<longrightarrow> j = MAX_LIST_ENTRIES
         \<or> sum_list (map estimated_list_entry_bytes (take (Suc j) S)) > MAX_LIST_DATA_BYTES)"
proof -
  obtain p where p: "resolve_existing_path fs workspace_root raw = Inr p"
    using assms(2) by (auto simp: list_directory_def result_simps)
  then obtain root loc where loc: "workspace fs workspace_root root" "prefix root loc" "walk_path Follow fs p = Inr loc"
    using resolve_existing_confined [OF assms(1)] by blast
  define found where "found = map (\<lambda>n. \<lparr>le_name = n, le_kind = file_kind (the (nodes fs (loc @ [n])))\<rparr>) (read_dir loc)"
  define S where "S = sort_key le_name found"
  let ?T = "take MAX_LIST_ENTRIES S"
  obtain j where b: "j \<le> length ?T" "bounded_entries ?T [] 0 = take j ?T" "j \<le> MAX_LIST_ENTRIES"
      "sum_list (map estimated_list_entry_bytes (take j ?T)) \<le> MAX_LIST_DATA_BYTES"
      "j < length ?T \<longrightarrow> MAX_LIST_ENTRIES \<le> j
        \<or> sum_list (map estimated_list_entry_bytes (take (Suc j) ?T)) > MAX_LIST_DATA_BYTES"
    using bounded_entries_prefix [of ?T "[]" 0] by (auto simp del: take_take length_take)
  have j: "j \<le> length S" "bounded_entries ?T [] 0 = take j S" "j \<le> MAX_LIST_ENTRIES"
      "sum_list (map estimated_list_entry_bytes (take j S)) \<le> MAX_LIST_DATA_BYTES"
    using b(1-4) by (simp_all add: min_absorb1)
  have next_entry: "j = MAX_LIST_ENTRIES \<or> sum_list (map estimated_list_entry_bytes (take (Suc j) S)) > MAX_LIST_DATA_BYTES"
    if "j < length S"
  proof (cases "j = MAX_LIST_ENTRIES")
    case False
    then have "j < length ?T" "take (Suc j) ?T = take (Suc j) S" using that j(3) by (simp_all add: min_absorb1)
    then show ?thesis using b(5) False j(3) by auto
  qed simp
  have len: "length found = length S" by (simp add: S_def)
  have "nodes fs loc = Some Directory"
    and "tr_data res = ListData raw (take j S) (j < length S) (length S) j"
    using assms(2) p loc(3) j(1-3) len
    by (auto simp: list_directory_def result_simps io_result_def node_at_def file_result_def Let_def
        retained_entries found_def [symmetric] S_def [symmetric] split: option.splits if_splits)
  then show ?thesis using loc j next_entry unfolding S_def [symmetric] found_def [symmetric]
    by (intro exI [of _ root] exI [of _ loc] exI [of _ S] exI [of _ j]) (auto simp: S_def found_def)
qed

abbreviation sample_read_dir :: "location \<Rightarrow> rstr list" where
  "sample_read_dir loc \<equiv> (if loc = [[119]] then [[97]] else [])"

theorem file_list_canonical_witness:
  "\<exists>res root loc S j. list_directory sample_read_dir sample_fs [47, 119] (ToolCallId [99]) (lit ''.'') = Inr res
    \<and> workspace sample_fs [47, 119] root \<and> prefix root loc
    \<and> tr_data res = ListData (lit ''.'') (take j S) (j < length S) (length S) j \<and> j \<le> MAX_LIST_ENTRIES"
proof -
  have "is_ok (list_directory sample_read_dir sample_fs [47, 119] (ToolCallId [99]) (lit ''.''))"
    by (code_simp)
  then obtain res where res: "list_directory sample_read_dir sample_fs [47, 119] (ToolCallId [99]) (lit ''.'') = Inr res"
    by (auto simp: is_ok_iff)
  show ?thesis using res file_list_canonical [OF sample_fs_ok(1) res] by blast
qed

end
