(* ===== verification/Wire_Enums.thy ===== *)
theory Wire_Enums
  imports Rust_Prelude
begin

text \<open>
  The closed string enumerations of the protocol and of thread authority. Each has \<open>as_str\<close> and
  \<open>parse\<close>; the locale states that \<open>parse\<close> accepts exactly the strings \<open>as_str\<close> produces.
\<close>

datatype ReasoningEffort = None' | Minimal | Low | Medium | High | Xhigh | Max
datatype ThreadApprovalPolicy = Prompt | Yolo
datatype ThreadKind = Home | Child | Legacy
datatype ThreadConfinement = Landlock | Unconfined
datatype LegacyReason =
  AdditionalRoot | MissingProfile | CrossProfileEdge | MissingWorkspace | UnsupportedAuthority
datatype ThreadSpawnDecisionName = Granted | Denied | Canceled'

fun reasoning_as_str :: "ReasoningEffort \<Rightarrow> string" where
  "reasoning_as_str None' = ''none''"
| "reasoning_as_str Minimal = ''minimal''"
| "reasoning_as_str Low = ''low''"
| "reasoning_as_str Medium = ''medium''"
| "reasoning_as_str High = ''high''"
| "reasoning_as_str Xhigh = ''xhigh''"
| "reasoning_as_str Max = ''max''"

definition reasoning_parse :: "string \<Rightarrow> ReasoningEffort option" where
  "reasoning_parse v =
     (if v = ''none'' then Some None' else if v = ''minimal'' then Some Minimal
      else if v = ''low'' then Some Low else if v = ''medium'' then Some Medium
      else if v = ''high'' then Some High else if v = ''xhigh'' then Some Xhigh
      else if v = ''max'' then Some Max else None)"

fun approval_policy_as_str :: "ThreadApprovalPolicy \<Rightarrow> string" where
  "approval_policy_as_str Prompt = ''prompt''"
| "approval_policy_as_str Yolo = ''yolo''"

definition approval_policy_parse :: "string \<Rightarrow> ThreadApprovalPolicy option" where
  "approval_policy_parse v =
     (if v = ''prompt'' then Some Prompt else if v = ''yolo'' then Some Yolo else None)"

fun permits :: "ThreadApprovalPolicy \<Rightarrow> ThreadApprovalPolicy \<Rightarrow> bool" where
  "permits Yolo child = True"
| "permits Prompt child = (child = Prompt)"

fun thread_kind_as_str :: "ThreadKind \<Rightarrow> string" where
  "thread_kind_as_str Home = ''home''"
| "thread_kind_as_str Child = ''child''"
| "thread_kind_as_str Legacy = ''legacy''"

definition thread_kind_parse :: "string \<Rightarrow> ThreadKind option" where
  "thread_kind_parse v =
     (if v = ''home'' then Some Home else if v = ''child'' then Some Child
      else if v = ''legacy'' then Some Legacy else None)"

fun confinement_as_str :: "ThreadConfinement \<Rightarrow> string" where
  "confinement_as_str Landlock = ''landlock''"
| "confinement_as_str Unconfined = ''none''"

definition confinement_parse :: "string \<Rightarrow> ThreadConfinement option" where
  "confinement_parse v =
     (if v = ''landlock'' then Some Landlock else if v = ''none'' then Some Unconfined else None)"

fun legacy_reason_as_str :: "LegacyReason \<Rightarrow> string" where
  "legacy_reason_as_str AdditionalRoot = ''additional_root''"
| "legacy_reason_as_str MissingProfile = ''missing_profile''"
| "legacy_reason_as_str CrossProfileEdge = ''cross_profile_edge''"
| "legacy_reason_as_str MissingWorkspace = ''missing_workspace''"
| "legacy_reason_as_str UnsupportedAuthority = ''unsupported_authority''"

definition legacy_reason_parse :: "string \<Rightarrow> LegacyReason option" where
  "legacy_reason_parse v =
     (if v = ''additional_root'' then Some AdditionalRoot
      else if v = ''missing_profile'' then Some MissingProfile
      else if v = ''cross_profile_edge'' then Some CrossProfileEdge
      else if v = ''missing_workspace'' then Some MissingWorkspace
      else if v = ''unsupported_authority'' then Some UnsupportedAuthority else None)"

fun decision_as_str :: "ThreadSpawnDecisionName \<Rightarrow> string" where
  "decision_as_str Granted = ''granted''"
| "decision_as_str Denied = ''denied''"
| "decision_as_str Canceled' = ''canceled''"

definition decision_parse :: "string \<Rightarrow> ThreadSpawnDecisionName option" where
  "decision_parse v =
     (if v = ''granted'' then Some Granted else if v = ''denied'' then Some Denied
      else if v = ''canceled'' then Some Canceled' else None)"

section \<open>The shared contract\<close>

locale wire_enum =
  fixes as_str :: "'a \<Rightarrow> string"
    and parse :: "string \<Rightarrow> 'a option"
  assumes parse_iff: "parse v = Some x \<longleftrightarrow> v = as_str x"
begin

lemma roundtrip [simp]: "parse (as_str x) = Some x"
  by (simp add: parse_iff)

lemma as_str_eq: "as_str x = as_str y \<longleftrightarrow> x = y"
  by (metis roundtrip option.inject)

lemma parse_None: "parse v = None \<longleftrightarrow> v \<notin> range as_str"
  by (metis not_None_eq parse_iff rangeE rangeI)

end

interpretation reasoning_enum: wire_enum reasoning_as_str reasoning_parse
  by unfold_locales (case_tac x; auto simp: reasoning_parse_def)
interpretation approval_policy_enum: wire_enum approval_policy_as_str approval_policy_parse
  by unfold_locales (case_tac x; auto simp: approval_policy_parse_def)
interpretation thread_kind_enum: wire_enum thread_kind_as_str thread_kind_parse
  by unfold_locales (case_tac x; auto simp: thread_kind_parse_def)
interpretation confinement_enum: wire_enum confinement_as_str confinement_parse
  by unfold_locales (case_tac x; auto simp: confinement_parse_def)
interpretation legacy_reason_enum: wire_enum legacy_reason_as_str legacy_reason_parse
  by unfold_locales (case_tac x; auto simp: legacy_reason_parse_def)
interpretation decision_enum: wire_enum decision_as_str decision_parse
  by unfold_locales (case_tac x; auto simp: decision_parse_def)

lemma permits_refl [simp]: "permits p p"
  by (cases p) auto

lemma permits_trans: "permits a b \<Longrightarrow> permits b c \<Longrightarrow> permits a c"
  by (cases a; cases b) auto

text \<open>
  Every persisted enumeration round-trips: for reasoning effort, approval policy, thread kind,
  confinement, legacy reason and spawn decision, parsing accepts a string exactly when it is the
  rendering of a value, and then returns that value.
\<close>

theorem wire_enums_roundtrip:
  "(reasoning_parse v = Some a \<longleftrightarrow> v = reasoning_as_str a) \<and>
   (approval_policy_parse v = Some b \<longleftrightarrow> v = approval_policy_as_str b) \<and>
   (thread_kind_parse v = Some c \<longleftrightarrow> v = thread_kind_as_str c) \<and>
   (confinement_parse v = Some d \<longleftrightarrow> v = confinement_as_str d) \<and>
   (legacy_reason_parse v = Some e \<longleftrightarrow> v = legacy_reason_as_str e) \<and>
   (decision_parse v = Some f \<longleftrightarrow> v = decision_as_str f)"
  by (simp only: reasoning_enum.parse_iff approval_policy_enum.parse_iff thread_kind_enum.parse_iff
      confinement_enum.parse_iff legacy_reason_enum.parse_iff decision_enum.parse_iff)

end
