(* ===== verification/Readback.thy ===== *)
theory Readback
  imports Run_Properties
begin

text \<open>
  The readback projection of \<open>platonic-core/src/projection.rs\<close>: one pass over a ledger that
  validates every record with the run machine and collects the audit entries. It relies on the
  run machine only through replay, so its correctness is stated against \<open>run_replay\<close>.
\<close>

section \<open>Entries\<close>

datatype 'v ReadbackEntry =
    ContextCompacted TurnId u32 u32 u64 u64
  | ContextFragment TurnId ContextFragment
  | ModelMessage TurnId Message "ModelName option"
  | ModelFailed TurnId u32 rstr
  | ToolProposalsRejected TurnId rstr
  | ToolCall TurnId "'v ToolCall"
  | ToolResult "'v ToolResult"
  | PolicyDenied ToolCallId rstr
  | ApprovalGranted ToolCallId ActorId
  | ApprovalDenied ToolCallId ActorId rstr
  | ToolFailed ToolCallId rstr

record 'v RunReadback =
  rb_identity :: "RunIdentity option"
  rb_entries :: "'v ReadbackEntry list"
  rb_final_phase :: "'v RunPhase"
  rb_next_seq :: u64

fun collect_entry :: "'v HarnessEvent \<Rightarrow> 'v ReadbackEntry list \<Rightarrow> 'v ReadbackEntry list" where
  "collect_entry (HarnessEvent.ContextCompacted _ t b a from to) es =
     es @ [ReadbackEntry.ContextCompacted t b a from to]"
| "collect_entry (ContextBuilt _ t c) es = es @ map (ReadbackEntry.ContextFragment t) (cp_fragments c)"
| "collect_entry (ModelResponded _ t _ out _ served _) es = es @ [ModelMessage t out served]"
| "collect_entry (HarnessEvent.ModelFailed _ t n why) es = es @ [ReadbackEntry.ModelFailed t n why]"
| "collect_entry (HarnessEvent.ToolProposalsRejected _ t why) es =
     es @ [ReadbackEntry.ToolProposalsRejected t why]"
| "collect_entry (ToolCallProposed _ t call) es = es @ [ReadbackEntry.ToolCall t call]"
| "collect_entry (ToolFinished _ res) es = es @ [ReadbackEntry.ToolResult res]"
| "collect_entry (PolicyEvaluated _ c d) es =
     (case d of Deny why \<Rightarrow> es @ [ReadbackEntry.PolicyDenied c why] | _ \<Rightarrow> es)"
| "collect_entry (HarnessEvent.ApprovalGranted _ c a) es = es @ [ReadbackEntry.ApprovalGranted c a]"
| "collect_entry (HarnessEvent.ApprovalDenied _ c a why) es =
     es @ [ReadbackEntry.ApprovalDenied c a why]"
| "collect_entry (HarnessEvent.ToolFailed _ c why) es = es @ [ReadbackEntry.ToolFailed c why]"
| "collect_entry (RunStarted _) es = es"
| "collect_entry (ModelRequested _ _ _ _) es = es"
| "collect_entry (ToolStarted _ _) es = es"
| "collect_entry (RunFinished _) es = es"
| "collect_entry (RunFailed _ _) es = es"

section \<open>The projection loop\<close>

fun from_events_loop :: "'v RunState \<Rightarrow> RunIdentity option \<Rightarrow> 'v ReadbackEntry list \<Rightarrow>
    'v RecordedEvent list \<Rightarrow> (Error, 'v RunReadback) result" where
  "from_events_loop s ident es [] =
     Inr \<lparr>rb_identity = ident, rb_entries = es, rb_final_phase = rs_phase s, rb_next_seq = rs_next_seq s\<rparr>"
| "from_events_loop s ident es (rec # recs) =
     (case run_apply s rec of
        (s', Inl e) \<Rightarrow> Inl e
      | (s', Inr _) \<Rightarrow>
          from_events_loop s'
            (case re_event rec of RunStarted e \<Rightarrow> Some (rse_identity e) | _ \<Rightarrow> ident)
            (collect_entry (re_event rec) es) recs)"

definition from_events :: "'v RecordedEvent list \<Rightarrow> (Error, 'v RunReadback) result" where
  "from_events recs = from_events_loop RunState_new None [] recs"

section \<open>The projection as a function of the accepted events\<close>

abbreviation event_entries :: "'v HarnessEvent \<Rightarrow> 'v ReadbackEntry list" where
  "event_entries ev \<equiv> collect_entry ev []"

definition ledger_entries :: "'v HarnessEvent list \<Rightarrow> 'v ReadbackEntry list" where
  "ledger_entries evs = concat (map event_entries evs)"

fun last_identity :: "RunIdentity option \<Rightarrow> 'v HarnessEvent list \<Rightarrow> RunIdentity option" where
  "last_identity ident [] = ident"
| "last_identity ident (ev # evs) =
     last_identity (case ev of RunStarted e \<Rightarrow> Some (rse_identity e) | _ \<Rightarrow> ident) evs"

lemma collect_entry_appends: "collect_entry ev es = es @ event_entries ev"
  by (cases ev) (auto split: PolicyDecision.splits)

lemma from_events_loop_replay:
  "from_events_loop s ident es recs =
     (case replay_loop run_apply s recs of
        (t, Inl e) \<Rightarrow> Inl e
      | (t, Inr _) \<Rightarrow>
          Inr \<lparr>rb_identity = last_identity ident (events recs), rb_entries = es @ ledger_entries (events recs),
               rb_final_phase = rs_phase t, rb_next_seq = rs_next_seq t\<rparr>)"
proof (induction recs arbitrary: s ident es)
  case Nil
  then show ?case by (simp add: ledger_entries_def)
next
  case (Cons rec recs)
  have "collect_entry (re_event rec) es @ ledger_entries (events recs) =
      es @ ledger_entries (events (rec # recs))"
    by (subst collect_entry_appends) (simp add: ledger_entries_def)
  with Cons.IH show ?case
    by (simp split: prod.splits sum.splits)
qed

lemma last_identity_not_started:
  "\<forall>e\<in>set evs. \<not> is_run_started e \<Longrightarrow> last_identity ident evs = ident"
  by (induction evs arbitrary: ident) (auto split: HarnessEvent.splits)

text \<open>Entries keep the order of the events that produced them.\<close>

lemma concat_map_split:
  assumes "concat (map f evs) = xs @ y # ys"
  shows "\<exists>evs1 ev evs2 pre post. evs = evs1 @ ev # evs2 \<and> f ev = pre @ y # post \<and>
    xs = concat (map f evs1) @ pre"
  using assms
proof (induction evs arbitrary: xs)
  case (Cons ev evs)
  then consider
      (here) post where "f ev = xs @ y # post"
    | (later) zs where "xs = f ev @ zs" "concat (map f evs) = zs @ y # ys"
    by (auto simp: append_eq_append_conv2 append_eq_Cons_conv)
  then show ?case
  proof cases
    case here
    then show ?thesis
      by (intro exI [of _ "[]"]) auto
  next
    case later
    with Cons.IH obtain evs1 e evs2 pre post where
      "evs = evs1 @ e # evs2" "f e = pre @ y # post" "zs = concat (map f evs1) @ pre"
      by blast
    with later(1) show ?thesis
      by (intro exI [of _ "ev # evs1"]) auto
  qed
qed simp

section \<open>Tool results in the audit view\<close>

lemma call_run_Running:
  assumes "call_run Unseen h = Some Running"
  shows "\<exists>r t call h'. h = ToolCallProposed r t call # h' \<and>
    (\<forall>ev\<in>set h. event_entries ev \<in> {[ReadbackEntry.ToolCall t call], []} \<or>
       (\<exists>r c a. ev = HarnessEvent.ApprovalGranted r c a))"
proof -
  from assms obtain h' ev st where h: "h = h' @ [ev]" "call_run Unseen h' = Some st" "call_step st ev = Some Running"
    by (subst (asm) call_run_to) auto
  then have "st = Permitted" and "\<exists>r c. ev = ToolStarted r c"
    by (cases st; cases ev; auto split: PolicyDecision.splits)+
  with h show ?thesis
    by (auto simp: call_run_Permitted)
qed

lemma call_run_after_settled: "call_run Settled h = Some st \<Longrightarrow> h = []"
  by (cases h) auto

lemma call_history_append: "call_history c (xs @ ys) = call_history c xs @ call_history c ys"
  by (simp add: call_history_def)

text \<open>
  The history of a call that has a recorded result: proposed before, executed, and nothing about
  it afterwards.
\<close>

lemma result_history:
  assumes "run_replay rs = (s, Inr ())" and "events rs = evs1 @ ToolFinished r res # evs2"
  shows "call_run Unseen (call_history (tr_call_id res) evs1) = Some Running \<and>
    call_history (tr_call_id res) evs2 = []"
proof -
  let ?c = "tr_call_id res"
  obtain st where "call_run Unseen (call_history ?c (events rs)) = Some st"
    using replay_stage [OF assms(1), of ?c] by blast
  moreover have "call_history ?c (events rs) = call_history ?c evs1 @ ToolFinished r res # call_history ?c evs2"
    by (simp add: assms(2) call_history_append) (simp add: call_history_def)
  ultimately obtain st1 st2 where "call_run Unseen (call_history ?c evs1) = Some st1"
    and fin: "call_step st1 (ToolFinished r res) = Some st2"
    and rest: "call_run st2 (call_history ?c evs2) = Some st"
    by (auto simp: call_run_append bind_eq_Some_conv)
  moreover from fin have "st1 = Running \<and> st2 = Settled"
    by (cases st1) auto
  ultimately show ?thesis
    by (auto dest: call_run_after_settled)
qed

text \<open>The call an entry reports as denied or failed.\<close>

fun failed_call :: "'v ReadbackEntry \<Rightarrow> ToolCallId option" where
  "failed_call (ReadbackEntry.PolicyDenied c _) = Some c"
| "failed_call (ReadbackEntry.ApprovalDenied c _ _) = Some c"
| "failed_call (ReadbackEntry.ToolFailed c _) = Some c"
| "failed_call _ = None"

lemma result_entry_event:
  "ReadbackEntry.ToolResult res \<in> set (event_entries ev) \<longleftrightarrow> (\<exists>r. ev = ToolFinished r res)"
  by (cases ev) (auto split: PolicyDecision.splits)

lemma failed_entry_event:
  "e \<in> set (event_entries ev) \<Longrightarrow> failed_call e = Some c \<Longrightarrow> event_call ev = Some c"
  by (cases ev) (auto split: PolicyDecision.splits)

section \<open>Properties\<close>


lemma settled_call_not_failed:
  assumes evs: "all_evs = evs1 @ ToolFinished r res # evs2" and after: "call_history (tr_call_id res) evs2 = []"
    and quiet: "\<forall>e\<in>set (call_history (tr_call_id res) evs1). event_entries e \<in> {[ReadbackEntry.ToolCall t' call], []} \<or>
       (\<exists>r c a. e = HarnessEvent.ApprovalGranted r c a)"
    and "e \<in> set (ledger_entries all_evs)"
  shows "failed_call e \<noteq> Some (tr_call_id res)"
proof
  let ?c = "tr_call_id res"
  assume fail: "failed_call e = Some ?c"
  from assms(4) obtain q where q: "q \<in> set all_evs" "e \<in> set (event_entries q)"
    by (auto simp: ledger_entries_def)
  with fail have "q \<in> set (call_history ?c all_evs)"
    by (auto simp: call_history_def dest: failed_entry_event)
  then have "q \<in> set (call_history ?c evs1) \<or> q = ToolFinished r res"
    using after by (auto simp: evs call_history_def filter_empty_conv split: if_splits)
  then show False
  proof
    assume "q \<in> set (call_history ?c evs1)"
    with quiet q(2) fail show False by fastforce
  qed (use q(2) fail in simp)
qed

text \<open>
  The audit view is coherent: a tool result in the readback is preceded by the entry of the
  validated call it answers, and no entry of the same readback says that call was denied by
  policy, denied by an approver, or failed.
\<close>

theorem readback_results_sound:
  assumes "from_events recs = Inr rb" and "rb_entries rb = xs @ ReadbackEntry.ToolResult res # ys"
  shows "(\<exists>t call. ReadbackEntry.ToolCall t call \<in> set xs \<and> tc_id call = tr_call_id res) \<and>
    tr_call_id res \<notin> set (List.map_filter failed_call (rb_entries rb))"
proof -
  let ?c = "tr_call_id res" and ?evs = "events recs"
  obtain t where ok: "run_replay recs = (t, Inr ())" and es: "rb_entries rb = ledger_entries ?evs"
    using assms(1) by (auto simp: from_events_def from_events_loop_replay split: prod.splits sum.splits)
  then obtain evs1 ev evs2 pre post where evs: "?evs = evs1 @ ev # evs2"
    and ev: "event_entries ev = pre @ ReadbackEntry.ToolResult res # post"
    and xs: "xs = ledger_entries evs1 @ pre"
    using assms(2) concat_map_split [of event_entries ?evs xs] unfolding ledger_entries_def by metis
  then obtain r where "ev = ToolFinished r res"
    using result_entry_event [of res ev] by auto
  with result_history [OF ok] evs have run: "call_run Unseen (call_history ?c evs1) = Some Running"
    and after: "call_history ?c evs2 = []" by blast+
  from call_run_Running [OF run] obtain r' t' call h where h: "call_history ?c evs1 = ToolCallProposed r' t' call # h"
    and quiet: "\<forall>e\<in>set (call_history ?c evs1). event_entries e \<in> {[ReadbackEntry.ToolCall t' call], []} \<or>
       (\<exists>r c a. e = HarnessEvent.ApprovalGranted r c a)"
    by blast
  have "ToolCallProposed r' t' call \<in> set (call_history ?c evs1)"
    using h by simp
  then have "ToolCallProposed r' t' call \<in> set evs1" and "tc_id call = ?c"
    by (auto simp: call_history_def)
  then have "ReadbackEntry.ToolCall t' call \<in> set xs"
    by (auto simp: xs ledger_entries_def intro!: bexI [of _ "ToolCallProposed r' t' call"])
  moreover have "failed_call e \<noteq> Some ?c" if "e \<in> set (ledger_entries ?evs)" for e
    using settled_call_not_failed [OF _ after quiet that] evs \<open>ev = ToolFinished r res\<close> by blast
  ultimately show ?thesis
    using \<open>tc_id call = ?c\<close> by (auto simp: es map_filter_def)
qed

definition sample_readback :: "nat RunReadback" where
  "sample_readback = projr (from_events (sample_ledger 16))"

fun is_tool_result :: "'v ReadbackEntry \<Rightarrow> bool" where
  "is_tool_result (ReadbackEntry.ToolResult _) = True"
| "is_tool_result _ = False"

theorem readback_results_sound_witness:
  "from_events (sample_ledger 16) = Inr sample_readback \<and>
   (\<exists>xs res ys. rb_entries sample_readback = xs @ ReadbackEntry.ToolResult res # ys \<and>
      (\<exists>t call. ReadbackEntry.ToolCall t call \<in> set xs \<and> tc_id call = tr_call_id res))"
proof -
  have ok: "from_events (sample_ledger 16) = Inr sample_readback"
    by (simp add: sample_readback_def from_events_def from_events_loop_replay sample_ok)
  have "list_ex is_tool_result (rb_entries sample_readback)"
    by code_simp
  then obtain res where "ReadbackEntry.ToolResult res \<in> set (rb_entries sample_readback)"
    by (auto simp: list_ex_iff elim!: is_tool_result.elims(2))
  then obtain xs ys where "rb_entries sample_readback = xs @ ReadbackEntry.ToolResult res # ys"
    by (meson split_list)
  with readback_results_sound [OF ok this] ok show ?thesis by blast
qed

end
