(* ===== verification/Session_Status.thy ===== *)
theory Session_Status
  imports Ledger_Records Run_Properties
begin

text \<open>
  What the session status projection reports: totals over all records of the session.
\<close>

section \<open>Totals over records\<close>

definition responses :: "'v RecordedEvent list \<Rightarrow> (ModelName option \<times> ModelUsage option) list" where
  "responses recs = List.map_filter
     (\<lambda>rec. case re_event rec of ModelResponded _ _ _ _ _ served usage \<Rightarrow> Some (served, usage) | _ \<Rightarrow> None) recs"

fun is_granted :: "'v HarnessEvent \<Rightarrow> bool" where
  "is_granted (HarnessEvent.ApprovalGranted _ _ _) = True"
| "is_granted _ = False"

fun is_refused :: "'v HarnessEvent \<Rightarrow> bool" where
  "is_refused (HarnessEvent.ApprovalDenied _ _ _ _) = True"
| "is_refused _ = False"

abbreviation count_events :: "('v HarnessEvent \<Rightarrow> bool) \<Rightarrow> 'v RecordedEvent list \<Rightarrow> u64" where
  "count_events P recs \<equiv> of_nat (length (filter (\<lambda>rec. P (re_event rec)) recs))"

definition session_log :: "'v SessionRunRecords list \<Rightarrow> 'v RecordedEvent list" where
  "session_log runs = concat (map srr_records runs)"

lemma responses_simps [simp]:
  "responses [] = []"
  "responses (xs @ ys) = responses xs @ responses ys"
  by (simp_all add: responses_def map_filter_def)

lemma responses_Cons:
  "responses (rec # recs) =
     (case re_event rec of ModelResponded _ _ _ _ _ served usage \<Rightarrow> (served, usage) # responses recs
      | _ \<Rightarrow> responses recs)"
  by (simp add: responses_def map_filter_def split: HarnessEvent.splits)

lemma session_log_simps [simp]:
  "session_log [] = []" "session_log (run # runs) = srr_records run @ session_log runs"
  by (simp_all add: session_log_def)

lemma observe_records:
  fixes st :: PersistedSessionStatus and latest :: bool
  defines "st' recs \<equiv> foldl (observe_record latest) st recs"
  shows "ps_core_event_count (st' recs) = ps_core_event_count st"
    and "ps_approval_granted_count (st' recs) = ps_approval_granted_count st + count_events is_granted recs"
    and "ps_approval_denied_count (st' recs) = ps_approval_denied_count st + count_events is_refused recs"
    and "ps_session_usage (st' recs) = foldl observe_usage (ps_session_usage st) (map snd (responses recs))"
    and "ps_last_run_usage (st' recs) =
      (if latest then foldl observe_usage (ps_last_run_usage st) (map snd (responses recs)) else ps_last_run_usage st)"
    and "ps_served_model (st' recs) =
      (if responses recs = [] then ps_served_model st
       else map_option model_name_str (fst (last (responses recs))))"
    and "ps_session_id (st' recs) = ps_session_id st \<and> ps_latest_run_id (st' recs) = ps_latest_run_id st \<and>
      ps_human_turn_count (st' recs) = ps_human_turn_count st"
  unfolding st'_def
  by (induction recs arbitrary: st)
    (auto simp: observe_record_def responses_Cons Let_def split: HarnessEvent.splits)

lemma observe_runs:
  fixes st :: PersistedSessionStatus and l :: rstr
  defines "st' runs \<equiv> foldl (observe_run l) st runs"
  shows "ps_core_event_count (st' runs) = ps_core_event_count st + of_nat (length (session_log runs))"
    and "ps_approval_granted_count (st' runs) =
      ps_approval_granted_count st + count_events is_granted (session_log runs)"
    and "ps_approval_denied_count (st' runs) =
      ps_approval_denied_count st + count_events is_refused (session_log runs)"
    and "ps_session_usage (st' runs) =
      foldl observe_usage (ps_session_usage st) (map snd (responses (session_log runs)))"
    and "ps_last_run_usage (st' runs) =
      foldl observe_usage (ps_last_run_usage st)
        (map snd (responses (session_log (filter (\<lambda>run. srr_run_id run = l) runs))))"
    and "ps_served_model (st' runs) =
      (if responses (session_log runs) = [] then ps_served_model st
       else map_option model_name_str (fst (last (responses (session_log runs)))))"
    and "ps_session_id (st' runs) = ps_session_id st \<and> ps_latest_run_id (st' runs) = ps_latest_run_id st \<and>
      ps_human_turn_count (st' runs) = ps_human_turn_count st"
  unfolding st'_def
  by (induction runs arbitrary: st) (simp_all add: observe_run_def observe_records)

text \<open>Input and output tokens are summed at 64 bits; the sums are exact while they fit.\<close>

definition usage_total :: "(ModelUsage \<Rightarrow> u32) \<Rightarrow> ModelUsage option list \<Rightarrow> nat" where
  "usage_total f us = sum_list (map (\<lambda>u. case u of Some m \<Rightarrow> unat (f m) | None \<Rightarrow> 0) us)"

lemma observe_usage_total:
  "unat (pu_input_tokens agg) + usage_total mu_input_tokens us < 2 ^ 64 \<Longrightarrow>
     unat (pu_input_tokens (foldl observe_usage agg us)) = unat (pu_input_tokens agg) + usage_total mu_input_tokens us"
  "unat (pu_output_tokens agg) + usage_total mu_output_tokens us < 2 ^ 64 \<Longrightarrow>
     unat (pu_output_tokens (foldl observe_usage agg us)) = unat (pu_output_tokens agg) + usage_total mu_output_tokens us"
  by (induction us arbitrary: agg)
    (auto simp: observe_usage_def usage_total_def unat_add_no_overflow split: option.splits)

lemma usage_total_bound: "usage_total f us \<le> length us * (2 ^ 32 - 1)"
proof (induction us)
  case (Cons u us)
  have "unat (f m) \<le> 2 ^ 32 - 1" for m
    using unat_bounded [of "f m"] by simp
  with Cons show ?case
    by (simp add: usage_total_def add_mono split: option.splits)
qed (simp add: usage_total_def)

lemma length_responses_le: "length (responses recs) \<le> length recs"
  by (induction recs) (auto simp: responses_Cons split: HarnessEvent.splits)

text \<open>
  A session status is the exact summary of the session's records: event, approval and denial
  counts over all runs, the served model of the last response, and token totals that are the true
  sums of the reported usages (for sessions of at most \<open>2 ^ 32\<close> records, where no 64-bit sum can
  wrap), with the latest run's usage summed over that run's records alone.
\<close>

theorem session_status_totals:
  assumes "project_session_status session = Inr st" and "length (session_log (ss_runs session)) \<le> 2 ^ 32"
  defines "log \<equiv> session_log (ss_runs session)"
    and "latest_log \<equiv> session_log (filter (\<lambda>run. srr_run_id run = srr_run_id (last (ss_runs session))) (ss_runs session))"
  shows "ps_core_event_count st = of_nat (length log) \<and>
    ps_approval_granted_count st = count_events is_granted log \<and>
    ps_approval_denied_count st = count_events is_refused log \<and>
    unat (pu_input_tokens (ps_session_usage st)) = usage_total mu_input_tokens (map snd (responses log)) \<and>
    unat (pu_output_tokens (ps_session_usage st)) = usage_total mu_output_tokens (map snd (responses log)) \<and>
    ps_last_run_usage st = foldl observe_usage usage_default (map snd (responses latest_log)) \<and>
    ps_served_model st =
      (if responses log = [] then None else map_option model_name_str (fst (last (responses log))))"
proof -
  have "usage_total f (map snd (responses log)) < 2 ^ 64" for f
  proof -
    have "usage_total f (map snd (responses log)) \<le> length (responses log) * (2 ^ 32 - 1)"
      using usage_total_bound [of f "map snd (responses log)"] by simp
    also have "\<dots> \<le> 2 ^ 32 * (2 ^ 32 - 1)"
      using length_responses_le [of log] assms(2) unfolding log_def by (intro mult_le_mono1) linarith
    finally show ?thesis by simp
  qed
  then have "unat (pu_input_tokens (foldl observe_usage usage_default (map snd (responses log)))) =
      usage_total mu_input_tokens (map snd (responses log))"
    and "unat (pu_output_tokens (foldl observe_usage usage_default (map snd (responses log)))) =
      usage_total mu_output_tokens (map snd (responses log))"
    using observe_usage_total [of usage_default "map snd (responses log)"] by (simp_all add: usage_default_def)
  moreover have "ss_runs session \<noteq> []"
    using assms(1) by (auto simp: project_session_status_def)
  ultimately show ?thesis
    using assms(1) unfolding log_def latest_log_def
    by (auto simp: project_session_status_def Let_def observe_runs)
qed

definition sample_session :: "nat SessionRecords" where
  "sample_session = \<lparr>ss_session_id = lit ''s'', ss_runs =
     [\<lparr>srr_run_id = lit ''run-1'', srr_session_index = 0, srr_question = lit ''hi'',
       srr_status = RunStateName.Finished, srr_final_answer = Some (lit ''done''),
       srr_records = sample_ledger 16\<rparr>]\<rparr>"

theorem session_status_totals_witness:
  "\<exists>st. project_session_status sample_session = Inr st \<and> ps_core_event_count st = 16 \<and>
     ps_approval_granted_count st = 1"
proof -
  have "is_ok (project_session_status sample_session)"
    by (simp add: project_session_status_def sample_session_def Let_def)
  then obtain st where st: "project_session_status sample_session = Inr st"
    by (auto simp: result_simps)
  moreover have "length (session_log (ss_runs sample_session)) = 16"
    "length (filter (\<lambda>rec. is_granted (re_event rec)) (session_log (ss_runs sample_session))) = 1"
    by code_simp+
  ultimately show ?thesis
    using session_status_totals [OF st] by simp
qed

end
