(* ===== verification/Ledger_Recovery.thy ===== *)
theory Ledger_Recovery
  imports Sqlite_Recorder Jsonl_Ledger "HOL-Library.List_Lexorder"
begin

text \<open>
  Orphan recovery of \<open>ledger/sqlite.rs\<close>: when the daemon restarts it closes every session run that
  is still marked running, from the truth in the run's own log (a JSONL file or SQLite rows). A
  workspace is its SQLite ledger and the run logs by run identifier.
\<close>

section \<open>Reading a run\<close>

record Workspace =
  ws_ledger :: SqliteLedger
  ws_runs :: "rstr \<Rightarrow> u8 list option"

definition run_log :: "Workspace \<Rightarrow> rstr \<Rightarrow> (AppError, u8 list option) result" where
  "run_log ws run_id =
     (case RunId_new run_id of Inl _ \<Rightarrow> Inl (RunNotFound run_id) | Inr _ \<Rightarrow> Inr (ws_runs ws run_id))"

definition read_run_from ::
  "'v event_json \<Rightarrow> 'v line_json \<Rightarrow> Workspace \<Rightarrow> rstr \<Rightarrow> (AppError, 'v RecordedEvent list) result" where
  "read_run_from js lj ws run_id =
     and_then (run_log ws run_id) (\<lambda>log.
     and_then (case log of
        Some bytes \<Rightarrow>
          and_then (read_records lj bytes) (\<lambda>records.
          and_then (validate_record_run_ids records run_id) (\<lambda>_. Inr records))
      | None \<Rightarrow> read_run_records_from js (ws_ledger ws) run_id) (\<lambda>records.
       if records = [] then Inl (RunNotFound run_id) else Inr records))"

fun assistant_answer :: "'v HarnessEvent \<Rightarrow> rstr option" where
  "assistant_answer (ModelResponded _ _ _ out _ _ _) =
     (if msg_role out = Assistant then Some (msg_content out) else None)"
| "assistant_answer _ = None"

definition final_answer_from_records_str :: "rstr \<Rightarrow> 'v RecordedEvent list \<Rightarrow> (AppError, rstr) result" where
  "final_answer_from_records_str run_id records =
     (case List.map_filter (\<lambda>rec. assistant_answer (re_event rec)) (rev records) of
        answer # _ \<Rightarrow> Inr answer
      | [] \<Rightarrow> Inl (Config (lit ''finished session run '' @ run_id @ lit '' has no final assistant answer'')))"

definition failure_status :: "rstr \<Rightarrow> RunStateName" where
  "failure_status why = (if why = RUN_CANCELED_REASON then RunStateName.Canceled else RunStateName.Failed)"

section \<open>Closing a run from its ledger\<close>

definition replay_run_state ::
  "'v event_json \<Rightarrow> 'v line_json \<Rightarrow> Workspace \<Rightarrow> RunId \<Rightarrow> (AppError, 'v RecordedEvent list \<times> 'v RunState) result" where
  "replay_run_state js lj ws r =
     and_then (read_run_from js lj ws (run_id_str r)) (\<lambda>records.
     and_then (replay_records records) (\<lambda>state. Inr (records, state)))"

definition finish_session_run ::
  "bool \<Rightarrow> u64 \<Rightarrow> u64 \<Rightarrow> 'v event_json \<Rightarrow> 'v line_json \<Rightarrow> Workspace \<Rightarrow> RunId \<Rightarrow> rstr \<Rightarrow> Workspace \<times> (AppError, unit) result" where
  "finish_session_run db now1 now2 js lj ws r answer =
     (case and_then (replay_run_state js lj ws r) (\<lambda>(records, state).
             case rs_phase state of
               RunPhase.Finished \<Rightarrow>
                 and_then (final_answer_from_records_str (run_id_str r) records) (\<lambda>durable.
                   if durable \<noteq> answer
                   then Inl (Config (lit ''finished session run '' @ run_id_str r @ lit '' answer does not match its ledger''))
                   else Inr (last records))
             | _ \<Rightarrow> snd (next_record now1 state (RunFinished r))) of
        Inl e \<Rightarrow> (ws, Inl e)
      | Inr rec \<Rightarrow>
          (case commit_session_terminal db now2 js (ws_ledger ws) r rec RunStateName.Finished (Some answer) None of
             (l, res) \<Rightarrow> (ws\<lparr>ws_ledger := l\<rparr>, res)))"

definition fail_session_run ::
  "bool \<Rightarrow> u64 \<Rightarrow> u64 \<Rightarrow> 'v event_json \<Rightarrow> 'v line_json \<Rightarrow> Workspace \<Rightarrow> RunId \<Rightarrow> rstr \<Rightarrow> bool \<Rightarrow>
     Workspace \<times> (AppError, unit) result" where
  "fail_session_run db now1 now2 js lj ws r error canceled =
     (case and_then (replay_run_state js lj ws r) (\<lambda>(records, state).
             case rs_phase state of
               RunPhase.Failed why \<Rightarrow>
                 if why \<noteq> error
                 then Inl (Config (lit ''failed session run '' @ run_id_str r @ lit '' error does not match its ledger''))
                 else Inr (last records)
             | _ \<Rightarrow> snd (next_record now1 state (RunFailed r error))) of
        Inl e \<Rightarrow> (ws, Inl e)
      | Inr rec \<Rightarrow>
          (case commit_session_terminal db now2 js (ws_ledger ws) r rec
                  (if canceled then RunStateName.Canceled else RunStateName.Failed) None (Some error) of
             (l, res) \<Rightarrow> (ws\<lparr>ws_ledger := l\<rparr>, res)))"

section \<open>Recovering one run\<close>

text \<open>Clock readings, database health and write outcomes met while one run is recovered.\<close>

record RecoveryEnv =
  en_db :: bool
  en_now1 :: u64
  en_now2 :: u64
  en_io1 :: WriteOutcome
  en_io2 :: WriteOutcome

text \<open>The outcome the stored records imply; an unfinished run is failed with the given error first.\<close>

definition sqlite_outcome ::
  "RecoveryEnv \<Rightarrow> 'v event_json \<Rightarrow> SqliteLedger \<Rightarrow> rstr \<Rightarrow> 'v RecordedEvent list \<Rightarrow> 'v RunState \<Rightarrow> rstr \<Rightarrow>
     (AppError, SqliteLedger \<times> RunStateName \<times> rstr option \<times> rstr option) result" where
  "sqlite_outcome en js l run_id records state error =
     (case rs_phase state of
        RunPhase.Finished \<Rightarrow>
          and_then (final_answer_from_records_str run_id records) (\<lambda>answer.
            Inr (l, RunStateName.Finished, Some answer, None))
      | RunPhase.Failed why \<Rightarrow> Inr (l, failure_status why, None, Some why)
      | _ \<Rightarrow>
          and_then (case RunId_new run_id of Inl e \<Rightarrow> Inl (Core e) | Inr r \<Rightarrow> Inr r) (\<lambda>r.
          and_then (snd (next_record (en_now2 en) state (RunFailed r error))) (\<lambda>rec.
          and_then (append_record_in js l run_id rec) (\<lambda>l1.
            Inr (l1, RunStateName.Interrupted, None, Some error)))))"

definition recover_sqlite_session_run ::
  "RecoveryEnv \<Rightarrow> 'v event_json \<Rightarrow> SqliteLedger \<Rightarrow> rstr \<Rightarrow> rstr \<Rightarrow> rstr \<Rightarrow> SqliteLedger \<times> (AppError, unit) result" where
  "recover_sqlite_session_run en js l sid run_id error =
     (case and_then (sqlite_i64 (en_now1 en) ''occurred_at_ms'') (\<lambda>now.
           and_then (read_run_records_from js l run_id) (\<lambda>records.
             if records = []
             then Inl (Config (lit ''running session run '' @ run_id @ lit '' has no ledger events''))
             else
           and_then (replay_records records) (\<lambda>state.
           and_then (sqlite_outcome en js l run_id records state error) (\<lambda>(l1, status, answer, stored).
           and_then (update_running_session_outcome l1 run_id status answer stored now) (\<lambda>l2.
             if en_db en then Inr (touch_session l2 sid now) else Inl Sqlite))))) of
        Inl e \<Rightarrow> (l, Inl e)
      | Inr l' \<Rightarrow> (l', Inr ()))"

text \<open>The rest of the JSONL recovery once the log holds at least the start of the run.\<close>

definition close_from_log ::
  "RecoveryEnv \<Rightarrow> 'v line_json \<Rightarrow> Workspace \<Rightarrow> 'v JsonlEventRecorder \<Rightarrow> RunId \<Rightarrow> 'v RecordedEvent list \<Rightarrow> rstr \<Rightarrow>
     Workspace \<times> (AppError, unit) result" where
  "close_from_log en lj ws recorder r records error =
     (let put = (\<lambda>recorder. ws\<lparr>ws_runs := (ws_runs ws)(run_id_str r := Some (je_file recorder))\<rparr>)
      in case and_then (replay_records records) (\<lambda>state.
           case rs_phase state of
             RunPhase.Finished \<Rightarrow>
               and_then (final_answer_from_records_str (run_id_str r) records) (\<lambda>answer.
                 Inr (RunStateName.Finished, Some answer, None, False))
           | RunPhase.Failed why \<Rightarrow> Inr (failure_status why, None, Some why, False)
           | _ \<Rightarrow> Inr (RunStateName.Interrupted, None, Some error, True)) of
           Inl e \<Rightarrow> (put recorder, Inl e)
         | Inr (status, answer, stored, write) \<Rightarrow>
             (case (if write then no_value (jsonl_record (en_now2 en) (en_io2 en) lj recorder (RunFailed r error))
                    else (recorder, Inr ())) of
                (recorder', Inl e) \<Rightarrow> (put recorder', Inl e)
              | (recorder', Inr _) \<Rightarrow>
                  (case complete_session_terminal (en_db en) (en_now1 en) (ws_ledger ws) r status answer stored of
                     (l, res) \<Rightarrow> ((put recorder')\<lparr>ws_ledger := l\<rparr>, res))))"

definition recover_jsonl_session_run ::
  "RecoveryEnv \<Rightarrow> 'v line_json \<Rightarrow> Workspace \<Rightarrow> u8 list \<Rightarrow> rstr \<Rightarrow> rstr \<Rightarrow> Workspace \<times> (AppError, unit) result" where
  "recover_jsonl_session_run en lj ws bytes run_id error =
     (case RunId_new run_id of
        Inl e \<Rightarrow> (ws, Inl (Core e))
      | Inr r \<Rightarrow>
          (case jsonl_open lj bytes of
             Inl e \<Rightarrow> (ws, Inl e)
           | Inr recorder \<Rightarrow>
               let put = (\<lambda>recorder. ws\<lparr>ws_runs := (ws_runs ws)(run_id := Some (je_file recorder))\<rparr>)
               in case read_records lj (je_file recorder) of
                    Inl e \<Rightarrow> (put recorder, Inl e)
                  | Inr records \<Rightarrow>
                      if records \<noteq> [] then close_from_log en lj ws recorder r records error
                      else
                        (case jsonl_record (en_now1 en) (en_io1 en) lj recorder
                                (RunStarted \<lparr>rse_run_id = r, rse_identity = LegacyAgent (AgentId (lit ''plato''))\<rparr>) of
                           (recorder', Inl e) \<Rightarrow> (put recorder', Inl e)
                         | (recorder', Inr _) \<Rightarrow>
                             (case read_records lj (je_file recorder') of
                                Inl e \<Rightarrow> (put recorder', Inl e)
                              | Inr records' \<Rightarrow> close_from_log en lj ws recorder' r records' error))))"

section \<open>Recovering all running runs\<close>

text \<open>\<open>ORDER BY session_id, session_index\<close> over the running rows.\<close>

definition running_runs :: "SqliteLedger \<Rightarrow> (rstr \<times> rstr) list" where
  "running_runs l =
     map (\<lambda>row. (sr_session_id row, sr_run_id row))
       (sort_key sr_session_id (sort_key sr_session_index
          (filter (\<lambda>row. sr_status row = RunStateName.Running) (lg_session_runs l))))"

fun recover_loop ::
  "(rstr \<Rightarrow> RecoveryEnv) \<Rightarrow> 'v event_json \<Rightarrow> 'v line_json \<Rightarrow> rstr \<Rightarrow> Workspace \<Rightarrow> (rstr \<times> rstr) list \<Rightarrow>
     Workspace \<times> (AppError, unit) result" where
  "recover_loop en js lj error ws [] = (ws, Inr ())"
| "recover_loop en js lj error ws ((sid, run_id) # rest) =
     (case run_log ws run_id of
        Inl e \<Rightarrow> (ws, Inl e)
      | Inr log \<Rightarrow>
          (case (case log of
                   Some bytes \<Rightarrow> recover_jsonl_session_run (en run_id) lj ws bytes run_id error
                 | None \<Rightarrow>
                     (case recover_sqlite_session_run (en run_id) js (ws_ledger ws) sid run_id error of
                        (l, res) \<Rightarrow> (ws\<lparr>ws_ledger := l\<rparr>, res))) of
             (ws', Inl e) \<Rightarrow> (ws', Inl e)
           | (ws', Inr _) \<Rightarrow> recover_loop en js lj error ws' rest))"

definition recover_running_session_runs ::
  "(rstr \<Rightarrow> RecoveryEnv) \<Rightarrow> 'v event_json \<Rightarrow> 'v line_json \<Rightarrow> Workspace \<Rightarrow> rstr \<Rightarrow> Workspace \<times> (AppError, nat) result" where
  "recover_running_session_runs en js lj ws error =
     (let running = running_runs (ws_ledger ws)
      in case recover_loop en js lj error ws running of
           (ws', Inl e) \<Rightarrow> (ws', Inl e)
         | (ws', Inr _) \<Rightarrow> (ws', Inr (length running)))"

section \<open>What recovery does to the session rows\<close>

text \<open>The rows of one run are closed with an outcome, every other row is untouched.\<close>

definition close_row :: "rstr \<Rightarrow> RunStateName \<Rightarrow> rstr option \<Rightarrow> rstr option \<Rightarrow> int \<Rightarrow> SessionRunRow \<Rightarrow> SessionRunRow" where
  "close_row run_id status answer err now row =
     (if is_running_row run_id row
      then row\<lparr>sr_status := status, sr_final_answer := answer, sr_error := err, sr_updated_at_ms := now\<rparr> else row)"

definition closes :: "rstr \<Rightarrow> SqliteLedger \<Rightarrow> SqliteLedger \<Rightarrow> bool" where
  "closes run_id l l' \<longleftrightarrow>
     (\<exists>status answer err now. status \<noteq> RunStateName.Running \<and>
        lg_session_runs l' = map (close_row run_id status answer err now) (lg_session_runs l))"

lemma update_closes:
  assumes "update_running_session_outcome l run_id status answer err now = Inr l'"
  shows "lg_session_runs l' = map (close_row run_id status answer err now) (lg_session_runs l)"
  using assms by (auto simp: update_running_session_outcome_def close_row_def split: if_splits)

lemma failure_status_not_running [simp]: "failure_status why \<noteq> RunStateName.Running"
  by (simp add: failure_status_def)

lemma closesI:
  "lg_session_runs l' = map (close_row run_id status answer err now) (lg_session_runs l) \<Longrightarrow>
     status \<noteq> RunStateName.Running \<Longrightarrow> closes run_id l l'"
  unfolding closes_def by blast

lemma complete_closes:
  assumes "complete_session_terminal db now l r status answer err = (l', Inr u)" and "status \<noteq> RunStateName.Running"
  shows "closes (run_id_str r) l l'"
  using assms
  by (auto simp: complete_session_terminal_def split: sum.splits option.splits if_splits
      dest!: update_closes intro: closesI)

lemma close_from_log_closes:
  assumes "close_from_log en lj ws recorder r records error = (ws', Inr u)"
  shows "closes (run_id_str r) (ws_ledger ws) (ws_ledger ws')"
  using assms
  by (auto simp: close_from_log_def Let_def result_simps split: sum.splits prod.splits if_splits RunPhase.splits
      intro!: complete_closes)

lemma recover_jsonl_closes:
  assumes "recover_jsonl_session_run en lj ws bytes run_id error = (ws', Inr u)"
  shows "closes run_id (ws_ledger ws) (ws_ledger ws')"
proof -
  from assms obtain r recorder records where r: "RunId_new run_id = Inr r"
    and close: "close_from_log en lj ws recorder r records error = (ws', Inr u)"
    by (auto simp: recover_jsonl_session_run_def Let_def split: sum.splits prod.splits if_splits)
  from close_from_log_closes [OF close] run_id.new_as_str [OF r] show ?thesis by simp
qed

lemma sqlite_outcome_status:
  "sqlite_outcome en js l run_id records state error = Inr (l1, status, answer, stored) \<Longrightarrow>
     status \<noteq> RunStateName.Running \<and> lg_session_runs l1 = lg_session_runs l"
  by (auto simp: sqlite_outcome_def result_simps split: RunPhase.splits dest: append_record_runs)

lemma recover_sqlite_ok:
  assumes "recover_sqlite_session_run en js l sid run_id error = (l', Inr u)"
  shows "\<exists>records state l1 l2 status answer stored now.
    read_run_records_from js l run_id = Inr records \<and> replay_records records = Inr state \<and>
    sqlite_outcome en js l run_id records state error = Inr (l1, status, answer, stored) \<and>
    update_running_session_outcome l1 run_id status answer stored now = Inr l2 \<and> l' = touch_session l2 sid now"
  using assms
  by (auto simp: recover_sqlite_session_run_def result_simps split: sum.splits prod.splits if_splits) blast

lemma recover_sqlite_closes:
  assumes "recover_sqlite_session_run en js l sid run_id error = (l', Inr u)"
  shows "closes run_id l l'"
proof -
  obtain records state l1 l2 status answer stored now where
    out: "sqlite_outcome en js l run_id records state error = Inr (l1, status, answer, stored)"
    and up: "update_running_session_outcome l1 run_id status answer stored now = Inr l2"
    and l': "l' = touch_session l2 sid now"
    using recover_sqlite_ok [OF assms] by blast
  from update_closes [OF up] sqlite_outcome_status [OF out] l' show ?thesis
    by (auto intro: closesI)
qed

text \<open>
  A row after recovery of the runs \<open>S\<close>: a running row of one of them has a terminal status and is
  otherwise the same run, any other row is unchanged.
\<close>

definition row_recovered :: "rstr set \<Rightarrow> SessionRunRow \<Rightarrow> SessionRunRow \<Rightarrow> bool" where
  "row_recovered S row row' \<longleftrightarrow>
     (if sr_status row = RunStateName.Running \<and> sr_run_id row \<in> S
      then sr_status row' \<noteq> RunStateName.Running \<and>
           row' = row\<lparr>sr_status := sr_status row', sr_final_answer := sr_final_answer row',
                      sr_error := sr_error row', sr_updated_at_ms := sr_updated_at_ms row'\<rparr>
      else row' = row)"

lemma closes_recovered:
  assumes "closes run_id l l'"
  shows "list_all2 (row_recovered {run_id}) (lg_session_runs l) (lg_session_runs l')"
  using assms by (auto simp: closes_def list_all2_map2 row_recovered_def close_row_def is_running_row_def
      intro!: list_all2_refl)

lemma row_recovered_trans:
  "row_recovered S a b \<Longrightarrow> row_recovered T b c \<Longrightarrow> row_recovered (S \<union> T) a c"
  by (auto simp: row_recovered_def split: if_splits)

lemma recover_loop_rows:
  "recover_loop en js lj error ws runs = (ws', Inr u) \<Longrightarrow>
     list_all2 (row_recovered (snd ` set runs)) (lg_session_runs (ws_ledger ws)) (lg_session_runs (ws_ledger ws'))"
proof (induction runs arbitrary: ws)
  case Nil
  then show ?case
    by (auto simp: row_recovered_def intro!: list_all2_refl)
next
  case (Cons p runs)
  obtain sid run_id where p: "p = (sid, run_id)" by fastforce
  from Cons.prems consider
      (log) bytes ws1 where "recover_jsonl_session_run (en run_id) lj ws bytes run_id error = (ws1, Inr ())"
        "recover_loop en js lj error ws1 runs = (ws', Inr u)"
    | (rows) l where "recover_sqlite_session_run (en run_id) js (ws_ledger ws) sid run_id error = (l, Inr ())"
        "recover_loop en js lj error (ws\<lparr>ws_ledger := l\<rparr>) runs = (ws', Inr u)"
    by (auto simp: p split: sum.splits prod.splits option.splits)
  then obtain ws1 where close: "closes run_id (ws_ledger ws) (ws_ledger ws1)"
    and rest: "recover_loop en js lj error ws1 runs = (ws', Inr u)"
  proof cases
    case log
    then show ?thesis using recover_jsonl_closes that by blast
  next
    case rows
    from recover_sqlite_closes [OF rows(1)] rows(2) show ?thesis
      by (intro that [of "ws\<lparr>ws_ledger := l\<rparr>"]) simp_all
  qed
  have "list_all2 (row_recovered ({run_id} \<union> snd ` set runs))
      (lg_session_runs (ws_ledger ws)) (lg_session_runs (ws_ledger ws'))"
    by (rule list_all2_trans [OF _ closes_recovered [OF close] Cons.IH [OF rest]]) (rule row_recovered_trans)
  then show ?case by (simp add: p)
qed

lemma running_runs_all:
  "snd ` set (running_runs l) = sr_run_id ` {row \<in> set (lg_session_runs l). sr_status row = RunStateName.Running}"
  by (auto simp: running_runs_def image_image)

text \<open>
  C31. Orphan recovery is complete and touches nothing else: when it reports success no session run
  is left running, it reports how many it closed, each of them keeps its identity, session,
  position and question, and every row that was not running is unchanged.
\<close>

theorem recovery_closes_all:
  assumes "recover_running_session_runs en js lj ws error = (ws', Inr n)"
  shows "n = length (filter (\<lambda>row. sr_status row = RunStateName.Running) (lg_session_runs (ws_ledger ws))) \<and>
    list_all (\<lambda>row. sr_status row \<noteq> RunStateName.Running) (lg_session_runs (ws_ledger ws')) \<and>
    list_all2 (row_recovered UNIV) (lg_session_runs (ws_ledger ws)) (lg_session_runs (ws_ledger ws'))"
proof -
  let ?S = "snd ` set (running_runs (ws_ledger ws))"
  from assms have loop: "recover_loop en js lj error ws (running_runs (ws_ledger ws)) = (ws', Inr ())"
    and n: "n = length (running_runs (ws_ledger ws))"
    by (auto simp: recover_running_session_runs_def Let_def split: prod.splits sum.splits)
  have rows: "list_all2 (row_recovered UNIV) (lg_session_runs (ws_ledger ws)) (lg_session_runs (ws_ledger ws'))"
  proof (rule list_all2_all_nthI)
    note all = recover_loop_rows [OF loop]
    show "length (lg_session_runs (ws_ledger ws)) = length (lg_session_runs (ws_ledger ws'))"
      using all by (rule list_all2_lengthD)
    fix i assume i: "i < length (lg_session_runs (ws_ledger ws))"
    let ?row = "lg_session_runs (ws_ledger ws) ! i"
    have "row_recovered ?S ?row (lg_session_runs (ws_ledger ws') ! i)"
      using all i by (rule list_all2_nthD)
    moreover have "sr_run_id ?row \<in> ?S" if "sr_status ?row = RunStateName.Running"
      unfolding running_runs_all using i that by auto
    ultimately show "row_recovered UNIV ?row (lg_session_runs (ws_ledger ws') ! i)"
      by (auto simp: row_recovered_def split: if_splits)
  qed
  then have "list_all (\<lambda>row. sr_status row \<noteq> RunStateName.Running) (lg_session_runs (ws_ledger ws'))"
    by (auto simp: list_all_length list_all2_conv_all_nth row_recovered_def split: if_splits)
  with rows show ?thesis
    by (simp add: n running_runs_def)
qed

text \<open>
  Recovery tells the truth of the run's ledger: a run closed from its SQLite rows is marked
  finished only when its records replay to a finished run, with the last assistant message as its
  answer; a failed ledger gives its recorded reason and the canceled status exactly for the
  cancellation reason; anything else is marked interrupted with the given error.
\<close>

theorem recovered_outcome_true:
  assumes "recover_sqlite_session_run en js l sid run_id error = (l', Inr ())"
  shows "\<exists>records state status answer stored now. read_run_records_from js l run_id = Inr records \<and>
    replay_records records = Inr state \<and>
    lg_session_runs l' = map (close_row run_id status answer stored now) (lg_session_runs l) \<and>
    (case rs_phase state of
       RunPhase.Finished \<Rightarrow> status = RunStateName.Finished \<and> stored = None \<and>
         answer = Some (last (List.map_filter (\<lambda>rec. assistant_answer (re_event rec)) records)) \<and>
         List.map_filter (\<lambda>rec. assistant_answer (re_event rec)) records \<noteq> []
     | RunPhase.Failed why \<Rightarrow> stored = Some why \<and> answer = None \<and>
         status = (if why = lit ''run canceled'' then RunStateName.Canceled else RunStateName.Failed)
     | _ \<Rightarrow> status = RunStateName.Interrupted \<and> answer = None \<and> stored = Some error)"
proof -
  obtain records state l1 l2 status answer stored now where
    rd: "read_run_records_from js l run_id = Inr records" and rp: "replay_records records = Inr state"
    and out: "sqlite_outcome en js l run_id records state error = Inr (l1, status, answer, stored)"
    and up: "update_running_session_outcome l1 run_id status answer stored now = Inr l2"
    and l': "l' = touch_session l2 sid now"
    using recover_sqlite_ok [OF assms] by blast
  have rows: "lg_session_runs l' = map (close_row run_id status answer stored now) (lg_session_runs l)"
    using update_closes [OF up] sqlite_outcome_status [OF out] l' by simp
  have rev: "List.map_filter f (rev xs) = rev (List.map_filter f xs)" for f :: "'a RecordedEvent \<Rightarrow> rstr option" and xs
    by (simp add: map_filter_def rev_map rev_filter)
  have "case rs_phase state of
       RunPhase.Finished \<Rightarrow> status = RunStateName.Finished \<and> stored = None \<and>
         answer = Some (last (List.map_filter (\<lambda>rec. assistant_answer (re_event rec)) records)) \<and>
         List.map_filter (\<lambda>rec. assistant_answer (re_event rec)) records \<noteq> []
     | RunPhase.Failed why \<Rightarrow> stored = Some why \<and> answer = None \<and>
         status = (if why = lit ''run canceled'' then RunStateName.Canceled else RunStateName.Failed)
     | _ \<Rightarrow> status = RunStateName.Interrupted \<and> answer = None \<and> stored = Some error"
    using out
    by (auto simp: sqlite_outcome_def result_simps final_answer_from_records_str_def failure_status_def
        RUN_CANCELED_REASON_def rev Cons_eq_rev_iff rev_eq_Cons_iff split: RunPhase.splits list.splits)
  with rd rp rows show ?thesis by blast
qed

definition orphan_store :: SqliteLedger where
  "orphan_store = store_run name_js ledger_empty
     [Begin True 5 (lit ''s'') run1 (lit ''hi'') True, Append (lit ''run-1'') (hd (sample_ledger 1))]"

definition orphan_ws :: Workspace where
  "orphan_ws = \<lparr>ws_ledger = orphan_store, ws_runs = (\<lambda>_. None)\<rparr>"

definition calm :: RecoveryEnv where
  "calm = \<lparr>en_db = True, en_now1 = 9, en_now2 = 8, en_io1 = Written, en_io2 = Written\<rparr>"

theorem recovery_closes_all_witness:
  "\<exists>ws'. recover_running_session_runs (\<lambda>_. calm) name_js sample_lj orphan_ws (lit ''restart'') = (ws', Inr 1) \<and>
     list_all (\<lambda>row. sr_status row \<noteq> RunStateName.Running) (lg_session_runs (ws_ledger ws'))"
proof -
  let ?p = "recover_running_session_runs (\<lambda>_. calm) name_js sample_lj orphan_ws (lit ''restart'')"
  have "snd ?p = Inr 1"
    by code_simp
  then have "?p = (fst ?p, Inr 1)" by (metis prod.collapse)
  from recovery_closes_all [OF this] this show ?thesis by blast
qed

theorem recovered_outcome_true_witness:
  "\<exists>l'. recover_sqlite_session_run calm name_js orphan_store (lit ''s'') (lit ''run-1'') (lit ''restart'') = (l', Inr ()) \<and>
     (\<exists>records. read_run_records_from name_js orphan_store (lit ''run-1'') = Inr records)"
proof -
  let ?p = "recover_sqlite_session_run calm name_js orphan_store (lit ''s'') (lit ''run-1'') (lit ''restart'')"
  have "is_ok (snd ?p)"
    by code_simp
  then have "?p = (fst ?p, Inr ())" by (rule is_ok_unit)
  from recovered_outcome_true [OF this] this show ?thesis by blast
qed

end
