(* ===== verification/Thread_Authority.thy ===== *)
theory Thread_Authority
  imports Voice_Stream Unix_Path Wire_Enums
begin

text \<open>
  Thread authority (\<open>thread_authority.rs\<close>, \<open>platonic-protocol/src/lib.rs\<close>): the immutable record
  of what a thread may do, the draft a spawn request builds, and the checks that keep a child's
  authority within its parent's. Canonicalisation and directory tests of the file system are
  parameters.
\<close>

section \<open>Records\<close>

record ThreadWorktree =
  tw_repo :: rstr
  tw_branch :: rstr
  tw_path :: rstr

record ThreadGrantedPath =
  gp_path :: rstr
  gp_writable :: bool

record ThreadRepositoryDraft =
  rd_repo :: rstr
  rd_source_path :: rstr
  rd_branch :: rstr
  rd_source_ref :: rstr

record ThreadAuthorityRecord =
  ta_thread_id :: rstr
  ta_parent_thread_id :: "rstr option"
  ta_spawning_actor :: rstr
  ta_cwd :: "rstr option"
  ta_agent_id :: "AgentId option"
  ta_profile_id :: "ProfileId option"
  ta_profile_revision :: "u64 option"
  ta_thread_kind :: ThreadKind
  ta_model :: rstr
  ta_reasoning_effort :: ReasoningEffort
  ta_approval_policy :: ThreadApprovalPolicy
  ta_toolset :: "rstr list"
  ta_worktrees :: "ThreadWorktree list"
  ta_granted_paths :: "ThreadGrantedPath list"
  ta_network :: bool
  ta_created_at_ms :: u64

record ThreadAuthorityDraft =
  td_thread_id :: rstr
  td_parent_thread_id :: "rstr option"
  td_cwd :: rstr
  td_agent_id :: "AgentId option"
  td_profile_id :: ProfileId
  td_profile_revision :: u64
  td_thread_kind :: ThreadKind
  td_model :: rstr
  td_reasoning_effort :: ReasoningEffort
  td_approval_policy :: ThreadApprovalPolicy
  td_toolset :: "rstr list"
  td_worktrees :: "ThreadWorktree list"
  td_repositories :: "ThreadRepositoryDraft list"
  td_granted_paths :: "ThreadGrantedPath list"
  td_network :: bool

record ThreadAuthorityDraftParams =
  dp_parent_thread_id :: "rstr option"
  dp_cwd :: rstr
  dp_model :: rstr
  dp_reasoning_effort :: ReasoningEffort
  dp_approval_policy :: ThreadApprovalPolicy
  dp_agent_id :: "AgentId option"
  dp_profile_id :: ProfileId
  dp_profile_revision :: u64
  dp_thread_kind :: ThreadKind
  dp_toolset :: "rstr list"
  dp_writable :: bool
  dp_network :: bool

datatype ThreadAuthorityError =
    ParentRequired
  | SameProfileParent
  | InvalidLineage
  | StoppedParent
  | ApprovalPolicy ThreadApprovalPolicy ThreadApprovalPolicy
  | WorkingDirectory rstr rstr
  | WritablePath rstr
  | Repository rstr
  | Toolset "rstr list"
  | NetworkExceeded
  | SpawnDepth u32

text \<open>\<open>canon p\<close> is \<open>Path::canonicalize\<close> (\<open>None\<close> on an I/O error), \<open>is_dir\<close> is \<open>Path::is_dir\<close>.\<close>

record file_system =
  canon :: "rstr \<Rightarrow> rstr option"
  is_dir :: "rstr \<Rightarrow> bool"

definition canonical_directory :: "file_system \<Rightarrow> rstr \<Rightarrow> (AppError, rstr) result" where
  "canonical_directory fs p =
     (case canon fs p of
        None \<Rightarrow> Inl Io
      | Some c \<Rightarrow>
          if \<not> is_dir fs c then Inl (Config (lit ''thread cwd is not a directory: '' @ c)) else Inr c)"

definition validate_authority_path :: "file_system \<Rightarrow> rstr \<Rightarrow> (AppError, unit) result" where
  "validate_authority_path fs p =
     and_then (canonical_directory fs p) (\<lambda>c.
       if c \<noteq> p then Inl (Config (lit ''thread authority paths must be canonical'')) else Inr ())"

definition core_result :: "(Error, 'a) result \<Rightarrow> (AppError, unit) result" where
  "core_result r = (case r of Inl e \<Rightarrow> Inl (Core e) | Inr _ \<Rightarrow> Inr ())"

section \<open>Drafts\<close>

text \<open>\<open>generated_id\<close> with the clock, the process and the value of the process-wide counter.\<close>

definition generated_id :: "string \<Rightarrow> u64 \<Rightarrow> u32 \<Rightarrow> u64 \<Rightarrow> rstr" where
  "generated_id pre millis pid seq =
     lit pre @ lit ''_'' @ decimal (unat millis) @ lit ''_'' @ decimal (unat pid) @ lit ''_'' @ decimal (unat seq)"

definition draft_new ::
  "file_system \<Rightarrow> rstr \<Rightarrow> ThreadAuthorityDraftParams \<Rightarrow> (AppError, ThreadAuthorityDraft) result" where
  "draft_new fs thread_id ps =
     and_then (core_result (ModelName_new (dp_model ps))) (\<lambda>_.
     and_then (for_each (\<lambda>tool. core_result (ToolName_new tool)) (dp_toolset ps)) (\<lambda>_.
     and_then (canonical_directory fs (dp_cwd ps)) (\<lambda>cwd.
       Inr \<lparr>td_thread_id = thread_id, td_parent_thread_id = dp_parent_thread_id ps, td_cwd = cwd,
            td_agent_id = dp_agent_id ps, td_profile_id = dp_profile_id ps,
            td_profile_revision = dp_profile_revision ps, td_thread_kind = dp_thread_kind ps,
            td_model = dp_model ps, td_reasoning_effort = dp_reasoning_effort ps,
            td_approval_policy = dp_approval_policy ps, td_toolset = dp_toolset ps, td_worktrees = [],
            td_repositories = [],
            td_granted_paths = [\<lparr>gp_path = cwd, gp_writable = dp_writable ps\<rparr>], td_network = dp_network ps\<rparr>)))"

definition draft_complete ::
  "ThreadAuthorityDraft \<Rightarrow> rstr \<Rightarrow> u64 \<Rightarrow> (AppError, ThreadAuthorityRecord) result" where
  "draft_complete d actor created =
     and_then (core_result (ActorId_new actor)) (\<lambda>_.
       Inr \<lparr>ta_thread_id = td_thread_id d, ta_parent_thread_id = td_parent_thread_id d,
            ta_spawning_actor = actor, ta_cwd = Some (td_cwd d), ta_agent_id = td_agent_id d,
            ta_profile_id = Some (td_profile_id d), ta_profile_revision = Some (td_profile_revision d),
            ta_thread_kind = td_thread_kind d, ta_model = td_model d,
            ta_reasoning_effort = td_reasoning_effort d, ta_approval_policy = td_approval_policy d,
            ta_toolset = td_toolset d, ta_worktrees = td_worktrees d,
            ta_granted_paths = td_granted_paths d, ta_network = td_network d, ta_created_at_ms = created\<rparr>)"

section \<open>A child within its parent\<close>

definition authority_working_directory :: "ThreadAuthorityRecord \<Rightarrow> rstr option" where
  "authority_working_directory a =
     (case ta_cwd a of
        Some p \<Rightarrow> Some p
      | None \<Rightarrow>
          (case ta_worktrees a of
             w # _ \<Rightarrow> Some (tw_path w)
           | [] \<Rightarrow> (case ta_granted_paths a of g # _ \<Rightarrow> Some (gp_path g) | [] \<Rightarrow> None)))"

definition path_within :: "rstr \<Rightarrow> rstr \<Rightarrow> bool" where
  "path_within p base = starts_with (path_components p) (path_components base)"

definition validate_child_path :: "ThreadAuthorityRecord \<Rightarrow> rstr \<Rightarrow> bool \<Rightarrow> (ThreadAuthorityError, unit) result" where
  "validate_child_path parent child_path writable =
     (let worktree_match = list_ex (\<lambda>w. path_within child_path (tw_path w)) (ta_worktrees parent);
          grant_matches = filter (\<lambda>g. path_within child_path (gp_path g)) (ta_granted_paths parent)
      in if \<not> worktree_match \<and> grant_matches = []
         then Inl (WorkingDirectory
                (case authority_working_directory parent of Some p \<Rightarrow> p | None \<Rightarrow> lit ''<no granted path>'') child_path)
         else if writable \<and> \<not> worktree_match \<and> \<not> list_ex gp_writable grant_matches
         then Inl (WritablePath child_path)
         else Inr ())"

definition child_owned_path :: "ThreadAuthorityDraft \<Rightarrow> PathComponent list \<Rightarrow> bool" where
  "child_owned_path child p =
     list_ex (\<lambda>w.
       case path_parent (path_components (tw_path w)) of
         None \<Rightarrow> False
       | Some repos_root \<Rightarrow>
           if file_name repos_root \<noteq> Some (lit ''repos'') then False
           else (case path_parent repos_root of
                   None \<Rightarrow> False
                 | Some thread_root \<Rightarrow>
                     file_name thread_root = Some (td_thread_id child) \<and>
                     p = thread_root @ [Normal (lit ''scratch'')])) (td_worktrees child)"

definition validate_child_authority ::
  "ThreadAuthorityRecord \<Rightarrow> ThreadAuthorityDraft \<Rightarrow> (ThreadAuthorityError, unit) result" where
  "validate_child_authority parent child =
     (let excess = filter (\<lambda>tool. tool \<notin> set (ta_toolset parent)) (td_toolset child);
          parent_has_repo = (\<lambda>repo. list_ex (\<lambda>w. tw_repo w = repo) (ta_worktrees parent))
      in if \<not> permits (ta_approval_policy parent) (td_approval_policy child)
         then Inl (ApprovalPolicy (ta_approval_policy parent) (td_approval_policy child))
         else if excess \<noteq> [] then Inl (Toolset excess)
         else if td_network child \<and> \<not> ta_network parent then Inl NetworkExceeded
         else
           and_then (for_each (\<lambda>r. if parent_has_repo (rd_repo r) then Inr () else Inl (Repository (rd_repo r)))
                       (td_repositories child)) (\<lambda>_.
           if td_worktrees child = []
           then and_then (validate_child_path parent (td_cwd child) False) (\<lambda>_.
                  for_each (\<lambda>g. validate_child_path parent (gp_path g) (gp_writable g)) (td_granted_paths child))
           else
             and_then (for_each (\<lambda>w. if parent_has_repo (tw_repo w) then Inr () else Inl (Repository (tw_repo w)))
                         (td_worktrees child)) (\<lambda>_.
             if \<not> list_ex (\<lambda>w. path_within (td_cwd child) (tw_path w)) (td_worktrees child)
             then Inl (WorkingDirectory (lit ''server-created child repositories'') (td_cwd child))
             else for_each (\<lambda>g.
                    if \<not> child_owned_path child (path_components (gp_path g))
                    then validate_child_path parent (gp_path g) (gp_writable g) else Inr ()) (td_granted_paths child))))"

section \<open>Completeness of a stored record\<close>

definition config_err :: "string \<Rightarrow> (AppError, unit) result" where
  "config_err msg = Inl (Config (lit msg))"

definition validate_complete_authority :: "file_system \<Rightarrow> ThreadAuthorityRecord \<Rightarrow> (AppError, unit) result" where
  "validate_complete_authority fs a =
     and_then (core_result (ActorId_new (ta_thread_id a))) (\<lambda>_.
     and_then (case ta_parent_thread_id a of
         None \<Rightarrow> Inr ()
       | Some parent \<Rightarrow>
           and_then (core_result (ActorId_new parent)) (\<lambda>_.
             if parent = ta_thread_id a then config_err ''thread authority cannot name itself as parent'' else Inr ())) (\<lambda>_.
     and_then (core_result (ActorId_new (ta_spawning_actor a))) (\<lambda>_.
     and_then (case ta_thread_kind a of
         Home \<Rightarrow>
           if ta_parent_thread_id a \<noteq> None then config_err ''home thread authority cannot have a parent''
           else if ta_agent_id a \<noteq> None then config_err ''profile thread authority cannot carry a legacy agent id''
           else Inr ()
       | Child \<Rightarrow>
           if ta_parent_thread_id a = None then config_err ''child thread authority requires a parent''
           else if ta_agent_id a \<noteq> None then config_err ''profile thread authority cannot carry a legacy agent id''
           else Inr ()
       | Legacy \<Rightarrow>
           if ta_agent_id a = None then config_err ''legacy thread authority requires an agent id'' else Inr ()) (\<lambda>_.
     and_then (if ta_thread_kind a \<noteq> Legacy \<and>
                  (ta_profile_id a = None \<or> (case ta_profile_revision a of None \<Rightarrow> True | Some r \<Rightarrow> r = 0))
               then config_err ''profile thread authority requires a profile and positive revision''
               else Inr ()) (\<lambda>_.
     and_then (core_result (ModelName_new (ta_model a))) (\<lambda>_.
     and_then (case ta_cwd a of None \<Rightarrow> Inr () | Some cwd \<Rightarrow> validate_authority_path fs cwd) (\<lambda>_.
     and_then (for_each (\<lambda>tool. core_result (ToolName_new tool)) (ta_toolset a)) (\<lambda>_.
     and_then (if ta_worktrees a = [] \<and> ta_granted_paths a = []
               then config_err ''thread authority requires a worktree or granted path'' else Inr ()) (\<lambda>_.
     and_then (for_each (\<lambda>w.
         if trim (tw_repo w) = [] \<or> trim (tw_branch w) = []
         then config_err ''thread authority worktree repo and branch must not be empty''
         else validate_authority_path fs (tw_path w)) (ta_worktrees a)) (\<lambda>_.
       for_each (\<lambda>g. validate_authority_path fs (gp_path g)) (ta_granted_paths a)))))))))))"


section \<open>Spawn decisions and stops\<close>

datatype ThreadSpawnDecision =
    Grant (decision_actor: rstr)
  | DenySpawn (decision_actor: rstr) rstr
  | CancelSpawn (decision_actor: rstr)

record ThreadSpawnApprovalRecord =
  sa_spawn_id :: rstr
  sa_thread_id :: rstr
  sa_decision :: ThreadSpawnDecisionName
  sa_actor :: rstr
  sa_reason :: "rstr option"
  sa_occurred_at_ms :: u64

record ThreadStopRecord =
  ts_thread_id :: rstr
  ts_actor :: rstr
  ts_stopped_turn_id :: "rstr option"
  ts_occurred_at_ms :: u64

definition from_decision ::
  "rstr \<Rightarrow> rstr \<Rightarrow> ThreadSpawnDecision \<Rightarrow> u64 \<Rightarrow> (AppError, ThreadSpawnApprovalRecord) result" where
  "from_decision spawn_id thread_id d occurred =
     (let (name, actor, reason) =
        (case d of
           Grant actor \<Rightarrow> (Granted, actor, None)
         | DenySpawn actor reason \<Rightarrow> (Denied, actor, Some reason)
         | CancelSpawn actor \<Rightarrow> (Canceled', actor, None))
      in and_then (core_result (ActorId_new actor)) (\<lambda>_.
           if (case reason of None \<Rightarrow> False | Some r \<Rightarrow> trim r = [])
           then Inl (Config (lit ''thread.spawn denial reason cannot be empty''))
           else Inr \<lparr>sa_spawn_id = spawn_id, sa_thread_id = thread_id, sa_decision = name,
                     sa_actor = actor, sa_reason = reason, sa_occurred_at_ms = occurred\<rparr>))"

fun decision_matches :: "ThreadSpawnApprovalRecord \<Rightarrow> ThreadSpawnDecision \<Rightarrow> bool" where
  "decision_matches r (Grant actor) \<longleftrightarrow>
     sa_decision r = Granted \<and> sa_actor r = actor \<and> sa_reason r = None"
| "decision_matches r (DenySpawn actor reason) \<longleftrightarrow>
     sa_decision r = Denied \<and> sa_actor r = actor \<and> sa_reason r = Some reason"
| "decision_matches r (CancelSpawn actor) \<longleftrightarrow>
     sa_decision r = Canceled' \<and> sa_actor r = actor \<and> sa_reason r = None"

definition stop_new ::
  "rstr \<Rightarrow> rstr \<Rightarrow> rstr option \<Rightarrow> u64 \<Rightarrow> (AppError, ThreadStopRecord) result" where
  "stop_new thread_id actor stopped_turn_id occurred =
     and_then (core_result (ActorId_new thread_id)) (\<lambda>_.
     and_then (core_result (ActorId_new actor)) (\<lambda>_.
     and_then (case stopped_turn_id of None \<Rightarrow> Inr () | Some t \<Rightarrow> core_result (ActorId_new t)) (\<lambda>_.
       Inr \<lparr>ts_thread_id = thread_id, ts_actor = actor, ts_stopped_turn_id = stopped_turn_id,
            ts_occurred_at_ms = occurred\<rparr>)))"

record ThreadStatusAuthority =
  st_thread_id :: rstr
  st_parent_thread_id :: "rstr option"
  st_spawning_actor :: rstr
  st_profile_id :: "ProfileId option"
  st_profile_revision :: "u64 option"
  st_thread_kind :: ThreadKind
  st_home_thread_id :: "rstr option"
  st_cwd :: rstr
  st_model :: rstr
  st_reasoning_effort :: ReasoningEffort
  st_approval_policy :: ThreadApprovalPolicy
  st_created_at_ms :: u64

definition legacy_status_authority :: "ThreadAuthorityRecord \<Rightarrow> (AppError, ThreadStatusAuthority) result" where
  "legacy_status_authority a =
     (case authority_working_directory a of
        None \<Rightarrow> Inl (Config (lit ''thread authority has no compatibility cwd''))
      | Some cwd \<Rightarrow>
          Inr \<lparr>st_thread_id = ta_thread_id a, st_parent_thread_id = ta_parent_thread_id a,
               st_spawning_actor = ta_spawning_actor a, st_profile_id = ta_profile_id a,
               st_profile_revision = ta_profile_revision a, st_thread_kind = ta_thread_kind a,
               st_home_thread_id = None, st_cwd = cwd, st_model = ta_model a,
               st_reasoning_effort = ta_reasoning_effort a, st_approval_policy = ta_approval_policy a,
               st_created_at_ms = ta_created_at_ms a\<rparr>)"

section \<open>The specification: what an authority covers\<close>

text \<open>
  \<open>covers a p w\<close>: the authority \<open>a\<close> lets its thread reach the path \<open>p\<close>, for writing when \<open>w\<close>.
  \<open>within_authority\<close> is the contract of a spawn.
\<close>

definition covers :: "ThreadAuthorityRecord \<Rightarrow> rstr \<Rightarrow> bool \<Rightarrow> bool" where
  "covers a p w \<longleftrightarrow>
     (\<exists>t\<in>set (ta_worktrees a). path_within p (tw_path t)) \<or>
     (\<exists>g\<in>set (ta_granted_paths a). path_within p (gp_path g) \<and> (w \<longrightarrow> gp_writable g))"

definition repos_of :: "ThreadAuthorityRecord \<Rightarrow> rstr set" where
  "repos_of a = tw_repo ` set (ta_worktrees a)"

definition within_authority :: "ThreadAuthorityRecord \<Rightarrow> ThreadAuthorityDraft \<Rightarrow> bool" where
  "within_authority parent child \<longleftrightarrow>
     permits (ta_approval_policy parent) (td_approval_policy child) \<and>
     set (td_toolset child) \<subseteq> set (ta_toolset parent) \<and>
     (td_network child \<longrightarrow> ta_network parent) \<and>
     rd_repo ` set (td_repositories child) \<subseteq> repos_of parent \<and>
     tw_repo ` set (td_worktrees child) \<subseteq> repos_of parent \<and>
     (if td_worktrees child = [] then covers parent (td_cwd child) False
      else \<exists>t\<in>set (td_worktrees child). path_within (td_cwd child) (tw_path t)) \<and>
     (\<forall>g\<in>set (td_granted_paths child).
        covers parent (gp_path g) (gp_writable g) \<or>
        (td_worktrees child \<noteq> [] \<and> child_owned_path child (path_components (gp_path g))))"

lemma path_within_refl [simp]: "path_within p p"
  by (simp add: path_within_def)

lemma path_within_trans: "path_within p q \<Longrightarrow> path_within q r \<Longrightarrow> path_within p r"
  by (auto simp: path_within_def intro: starts_with_trans)

lemma core_result_ok [result_simps]: "core_result r = Inr u \<longleftrightarrow> is_ok r"
  by (cases r) (auto simp: core_result_def)

lemma validate_child_path_ok [result_simps]:
  "validate_child_path parent p w = Inr u \<longleftrightarrow> covers parent p w"
  by (auto simp: validate_child_path_def Let_def covers_def list_ex_iff filter_empty_conv)

lemma if_ok [result_simps]: "(if b then Inr () else Inl e) = Inr () \<longleftrightarrow> b" "(if b then Inl e else r) = Inr u \<longleftrightarrow> \<not> b \<and> r = Inr u"
  by auto

lemma validate_authority_path_ok:
  "validate_authority_path fs p = Inr u \<longleftrightarrow> canon fs p = Some p \<and> is_dir fs p"
  by (auto simp: validate_authority_path_def canonical_directory_def result_simps split: option.splits if_splits)

lemma for_each_never: "(\<And>x. f x \<noteq> Inl e) \<Longrightarrow> for_each f xs \<noteq> Inl e"
  by (induction xs) (auto simp: and_then_Inl)

lemma has_repo: "list_ex (\<lambda>w. tw_repo w = r) ws \<longleftrightarrow> r \<in> tw_repo ` set ws"
  by (auto simp: list_ex_iff)

lemma validate_child_authority_ok:
  "validate_child_authority parent child = Inr () \<longleftrightarrow> within_authority parent child"
  unfolding validate_child_authority_def Let_def within_authority_def repos_of_def has_repo
  by (cases "td_worktrees child = []")
     (simp_all add: list_ex_iff result_simps filter_empty_conv image_subset_iff subset_iff disj_commute conj_ac
        cong: conj_cong, blast+)

lemma config_err_ok [result_simps]: "(if b then config_err m else r) = Inr u \<longleftrightarrow> \<not> b \<and> r = Inr u"
  by (simp add: config_err_def)

lemma validate_complete_authority_ok:
  "validate_complete_authority fs a = Inr () \<longleftrightarrow>
     is_ok (ActorId_new (ta_thread_id a)) \<and>
     (\<forall>p\<in>set_option (ta_parent_thread_id a). is_ok (ActorId_new p) \<and> p \<noteq> ta_thread_id a) \<and>
     is_ok (ActorId_new (ta_spawning_actor a)) \<and>
     (case ta_thread_kind a of
       Home \<Rightarrow> ta_parent_thread_id a = None \<and> ta_agent_id a = None
     | Child \<Rightarrow> ta_parent_thread_id a \<noteq> None \<and> ta_agent_id a = None
     | Legacy \<Rightarrow> ta_agent_id a \<noteq> None) \<and>
     (ta_thread_kind a = Legacy \<or>
       ta_profile_id a \<noteq> None \<and> (\<exists>r. ta_profile_revision a = Some r \<and> r \<noteq> 0)) \<and>
     is_ok (ModelName_new (ta_model a)) \<and>
     (\<forall>p\<in>set_option (ta_cwd a). canon fs p = Some p \<and> is_dir fs p) \<and>
     (\<forall>t\<in>set (ta_toolset a). is_ok (ToolName_new t)) \<and>
     (ta_worktrees a \<noteq> [] \<or> ta_granted_paths a \<noteq> []) \<and>
     (\<forall>w\<in>set (ta_worktrees a). (trim (tw_repo w) \<noteq> [] \<and> trim (tw_branch w) \<noteq> []) \<and>
        canon fs (tw_path w) = Some (tw_path w) \<and> is_dir fs (tw_path w)) \<and>
     (\<forall>g\<in>set (ta_granted_paths a). canon fs (gp_path g) = Some (gp_path g) \<and> is_dir fs (gp_path g))"
proof -
  have parent: "(case ta_parent_thread_id a of None \<Rightarrow> Inr ()
      | Some parent \<Rightarrow> and_then (core_result (ActorId_new parent)) (\<lambda>_.
          if parent = ta_thread_id a then config_err m else Inr ())) = Inr u \<longleftrightarrow>
      (\<forall>p\<in>set_option (ta_parent_thread_id a). is_ok (ActorId_new p) \<and> p \<noteq> ta_thread_id a)" for m u
    by (cases "ta_parent_thread_id a") (simp_all add: result_simps)
  have kind: "(case ta_thread_kind a of
       Home \<Rightarrow> if ta_parent_thread_id a \<noteq> None then config_err m1
               else if ta_agent_id a \<noteq> None then config_err m2 else Inr ()
     | Child \<Rightarrow> if ta_parent_thread_id a = None then config_err m3
               else if ta_agent_id a \<noteq> None then config_err m2 else Inr ()
     | Legacy \<Rightarrow> if ta_agent_id a = None then config_err m4 else Inr ()) = Inr u \<longleftrightarrow>
     (case ta_thread_kind a of
       Home \<Rightarrow> ta_parent_thread_id a = None \<and> ta_agent_id a = None
     | Child \<Rightarrow> ta_parent_thread_id a \<noteq> None \<and> ta_agent_id a = None
     | Legacy \<Rightarrow> ta_agent_id a \<noteq> None)" for m1 m2 m3 m4 u
    by (cases "ta_thread_kind a") (simp_all add: result_simps)
  have cwd: "(case ta_cwd a of None \<Rightarrow> Inr () | Some c \<Rightarrow> validate_authority_path fs c) = Inr u \<longleftrightarrow>
      (\<forall>p\<in>set_option (ta_cwd a). canon fs p = Some p \<and> is_dir fs p)" for u
    by (cases "ta_cwd a") (simp_all add: validate_authority_path_ok)
  have rev: "(case ta_profile_revision a of None \<Rightarrow> True | Some r \<Rightarrow> r = 0) \<longleftrightarrow>
      \<not> (\<exists>r. ta_profile_revision a = Some r \<and> r \<noteq> 0)"
    by (cases "ta_profile_revision a") simp_all
  show ?thesis
    unfolding validate_complete_authority_def and_then_Inr parent kind cwd rev core_result_ok config_err_ok
      for_each_ok validate_authority_path_ok
    by (simp add: for_each_ok config_err_ok validate_authority_path_ok core_result_ok)
qed

section \<open>Lineages\<close>

text \<open>
  \<open>spawned parent child\<close>: the server completed a draft that passed the check against \<open>parent\<close>.
  \<open>descends root d\<close>: \<open>d\<close> was reached from \<open>root\<close> by any number of such spawns.
\<close>

definition spawned :: "ThreadAuthorityRecord \<Rightarrow> ThreadAuthorityRecord \<Rightarrow> bool" where
  "spawned parent child \<longleftrightarrow>
     (\<exists>d actor created. validate_child_authority parent d = Inr () \<and> draft_complete d actor created = Inr child)"

inductive descends :: "ThreadAuthorityRecord \<Rightarrow> ThreadAuthorityRecord \<Rightarrow> bool" where
  descends_refl: "descends a a"
| descends_spawn: "descends a b \<Longrightarrow> spawned b c \<Longrightarrow> descends a c"

lemma draft_complete_ok:
  "draft_complete d actor created = Inr a \<Longrightarrow>
     ta_approval_policy a = td_approval_policy d \<and> ta_toolset a = td_toolset d \<and>
     ta_network a = td_network d \<and> ta_worktrees a = td_worktrees d \<and>
     ta_granted_paths a = td_granted_paths d \<and> ta_cwd a = Some (td_cwd d) \<and> ta_thread_id a = td_thread_id d"
  by (auto simp: draft_complete_def result_simps)

lemma covers_within: "covers a q w \<Longrightarrow> path_within p q \<Longrightarrow> covers a p w"
  unfolding covers_def by (meson path_within_trans)

lemma covers_weaken: "covers a p True \<Longrightarrow> covers a p w"
  by (auto simp: covers_def)

lemma covers_mono:
  assumes "spawned a b" and "ta_worktrees b = []" and "covers b p w"
  shows "covers a p w"
proof -
  from assms(1) obtain d where d: "within_authority a d" "ta_worktrees b = td_worktrees d"
      "ta_granted_paths b = td_granted_paths d"
    by (auto simp: spawned_def validate_child_authority_ok dest!: draft_complete_ok)
  obtain g where "g \<in> set (td_granted_paths d)" "path_within p (gp_path g)" "w \<longrightarrow> gp_writable g"
    using assms(2,3) d by (auto simp: covers_def)
  moreover from this have "covers a (gp_path g) (gp_writable g)"
    using d assms(2) by (auto simp: within_authority_def)
  ultimately have "covers a p (gp_writable g)"
    by (blast intro: covers_within)
  with \<open>w \<longrightarrow> gp_writable g\<close> show ?thesis
    by (cases w; cases "gp_writable g") (auto intro: covers_weaken)
qed

lemma spawned_attenuates:
  assumes "spawned a b"
  shows "permits (ta_approval_policy a) (ta_approval_policy b)"
    and "set (ta_toolset b) \<subseteq> set (ta_toolset a)"
    and "ta_network b \<longrightarrow> ta_network a"
    and "repos_of b \<subseteq> repos_of a"
  using assms
  by (auto simp: spawned_def validate_child_authority_ok within_authority_def repos_of_def
      dest!: draft_complete_ok)


lemma descends_attenuates:
  "descends a b \<Longrightarrow>
     permits (ta_approval_policy a) (ta_approval_policy b) \<and>
     set (ta_toolset b) \<subseteq> set (ta_toolset a) \<and>
     (ta_network b \<longrightarrow> ta_network a) \<and> repos_of b \<subseteq> repos_of a"
proof (induction rule: descends.induct)
  case (descends_spawn a b c)
  with spawned_attenuates [of b c] show ?case
    using permits_trans by blast
qed simp

section \<open>Properties\<close>


definition home_authority :: ThreadAuthorityRecord where
  "home_authority =
     \<lparr>ta_thread_id = lit ''h'', ta_parent_thread_id = None, ta_spawning_actor = lit ''stdin'',
      ta_cwd = Some (lit ''/w''), ta_agent_id = None, ta_profile_id = Some (ProfileId (lit ''p'')),
      ta_profile_revision = Some 1, ta_thread_kind = Home, ta_model = lit ''m'',
      ta_reasoning_effort = High, ta_approval_policy = Yolo, ta_toolset = [lit ''file.read'', lit ''file.write''],
      ta_worktrees = [], ta_granted_paths = [\<lparr>gp_path = lit ''/w'', gp_writable = True\<rparr>],
      ta_network = True, ta_created_at_ms = 1\<rparr>"

definition child_draft :: ThreadAuthorityDraft where
  "child_draft =
     \<lparr>td_thread_id = lit ''c'', td_parent_thread_id = Some (lit ''h''), td_cwd = lit ''/w/a'',
      td_agent_id = None, td_profile_id = ProfileId (lit ''p''), td_profile_revision = 1,
      td_thread_kind = Child, td_model = lit ''m'', td_reasoning_effort = Low,
      td_approval_policy = Prompt, td_toolset = [lit ''file.read''], td_worktrees = [],
      td_repositories = [], td_granted_paths = [\<lparr>gp_path = lit ''/w/a'', gp_writable = True\<rparr>],
      td_network = False\<rparr>"

definition child_authority :: ThreadAuthorityRecord where
  "child_authority =
     home_authority\<lparr>ta_thread_id := lit ''c'', ta_parent_thread_id := Some (lit ''h''),
       ta_cwd := Some (lit ''/w/a''), ta_thread_kind := Child, ta_reasoning_effort := Low,
       ta_approval_policy := Prompt, ta_toolset := [lit ''file.read''],
       ta_granted_paths := [\<lparr>gp_path = lit ''/w/a'', gp_writable = True\<rparr>],
       ta_network := False, ta_created_at_ms := 2\<rparr>"

lemma child_draft_spawns:
  "validate_child_authority home_authority child_draft = Inr ()"
  "draft_complete child_draft (lit ''stdin'') 2 = Inr child_authority"
  by code_simp+


lemma home_spawns_child: "spawned home_authority child_authority"
  unfolding spawned_def using child_draft_spawns by blast



definition every_directory :: file_system where
  "every_directory = \<lparr>canon = Some, is_dir = (\<lambda>_. True)\<rparr>"

lemma sample_names_ok:
  "is_ok (ActorId_new (lit ''c''))" "is_ok (ActorId_new (lit ''h''))" "is_ok (ActorId_new (lit ''stdin''))"
  "is_ok (ModelName_new (lit ''m''))" "is_ok (ToolName_new (lit ''file.read''))" "lit ''h'' \<noteq> lit ''c''"
  by (simp_all add: ActorId_new_def ModelName_new_def ToolName_new_def id_new_def trim_eq_Nil lit_def is_whitespace_def)

lemma child_authority_complete: "validate_complete_authority every_directory child_authority = Inr ()"
  unfolding validate_complete_authority_ok
  by (simp add: child_authority_def home_authority_def every_directory_def sample_names_ok)


text \<open>
  A recorded spawn decision identifies the decision it was built from: the record matches a
  decision if and only if it is the same decision by the same actor with the same reason, the actor is a
  valid identifier, and a denial never has a blank reason.
\<close>

lemma spawn_decision_recorded:
  assumes "from_decision spawn thread d t = Inr r"
  shows "(decision_matches r d' \<longleftrightarrow> d' = d) \<and> sa_spawn_id r = spawn \<and> sa_thread_id r = thread \<and>
    is_ok (ActorId_new (decision_actor d)) \<and> (\<forall>a s. d = DenySpawn a s \<longrightarrow> trim s \<noteq> [])"
  using assms
  by (cases d; cases d') (auto simp: from_decision_def result_simps split: if_splits)

end
