(* ===== verification/Sentence_Cutter.thy ===== *)
theory Sentence_Cutter
  imports Rust_Prelude "HOL-Library.Monad_Syntax"
begin

text \<open>
  The sentence cutter of speech output (\<open>plato-audio/src/core/sentence.rs\<close>): streamed assistant text
  is buffered and cut into sentences. Offsets are UTF-8 byte offsets, as in the source. The loop of
  \<open>cut_ready\<close> is a partial function: \<open>None\<close> stands for a slice that panics or a loop that does not
  end, and the properties show that neither happens.
\<close>

definition MIN_SENTENCE_CHARS :: nat where
  "MIN_SENTENCE_CHARS = 20"

datatype Sentence = Sentence (as_str: rstr)

datatype SentenceError = EmptySentence

definition sentence_new :: "rstr \<Rightarrow> (SentenceError, Sentence) result" where
  "sentence_new text = (let trimmed = trim text in if trimmed = [] then Inl EmptySentence else Inr (Sentence trimmed))"

record SentenceCutter =
  buffer :: rstr

definition cutter_new :: SentenceCutter where
  "cutter_new = \<lparr>buffer = []\<rparr>"

text \<open>\<open>&text[..offset]\<close> together with the rest; \<open>None\<close> when the offset is no character boundary.\<close>

fun split_at_byte :: "nat \<Rightarrow> rstr \<Rightarrow> (rstr \<times> rstr) option" where
  "split_at_byte n s =
     (if n = 0 then Some ([], s)
      else case s of
             [] \<Rightarrow> None
           | c # cs \<Rightarrow>
               if n < len_utf8 c then None
               else map_option (\<lambda>(a, b). (c # a, b)) (split_at_byte (n - len_utf8 c) cs))"

declare split_at_byte.simps [simp del]

definition ends_with :: "rstr \<Rightarrow> rstr \<Rightarrow> bool" where
  "ends_with s suffix \<longleftrightarrow> drop (length s - length suffix) s = suffix"

text \<open>
  The loop of \<open>next_boundary\<close> over \<open>char_indices\<close>: \<open>before\<close> is \<open>text[..offset]\<close>, the rest of the
  text is still to be visited.
\<close>

fun boundary_loop :: "nat \<Rightarrow> rchar option \<Rightarrow> rstr \<Rightarrow> rstr \<Rightarrow> nat option" where
  "boundary_loop search_from previous before [] = None"
| "boundary_loop search_from previous before (current # rest) =
     (let offset = str_len before in
      if offset < search_from then boundary_loop search_from (Some current) (before @ [current]) rest
      else
        let punctuation_boundary =
              is_whitespace current \<and>
              (case previous of None \<Rightarrow> False | Some ch \<Rightarrow> ch = 46 \<or> ch = 33 \<or> ch = 63);
            blank_line = (current = 10 \<and> (ends_with before [10] \<or> ends_with before [10, 13]))
        in if punctuation_boundary \<or> blank_line then Some (offset + len_utf8 current)
           else boundary_loop search_from (Some current) (before @ [current]) rest)"

definition next_boundary :: "rstr \<Rightarrow> nat \<Rightarrow> nat option" where
  "next_boundary text search_from = boundary_loop search_from None [] text"

partial_function (option) cut_loop :: "rstr \<Rightarrow> Sentence list \<Rightarrow> nat \<Rightarrow> (rstr \<times> Sentence list) option" where
  "cut_loop buf sentences search_from =
     (case next_boundary buf search_from of
        None \<Rightarrow> Some (buf, sentences)
      | Some boundary_end \<Rightarrow>
          do {
            (head, tail) \<leftarrow> split_at_byte boundary_end buf;
            if length (trim head) < MIN_SENTENCE_CHARS then cut_loop buf sentences boundary_end
            else cut_loop tail
                   (case sentence_new head of Inr sentence \<Rightarrow> sentences @ [sentence] | Inl _ \<Rightarrow> sentences) 0
          })"

definition cut_ready :: "SentenceCutter \<Rightarrow> (SentenceCutter \<times> Sentence list) option" where
  "cut_ready c = map_option (\<lambda>(buf, ss). (c\<lparr>buffer := buf\<rparr>, ss)) (cut_loop (buffer c) [] 0)"

definition cutter_push :: "SentenceCutter \<Rightarrow> rstr \<Rightarrow> (SentenceCutter \<times> Sentence list) option" where
  "cutter_push c fragment = cut_ready (c\<lparr>buffer := buffer c @ fragment\<rparr>)"

definition cutter_finish :: "SentenceCutter \<Rightarrow> SentenceCutter \<times> Sentence option" where
  "cutter_finish c =
     (c\<lparr>buffer := []\<rparr>, case sentence_new (buffer c) of Inr s \<Rightarrow> Some s | Inl _ \<Rightarrow> None)"

definition has_pending_text :: "SentenceCutter \<Rightarrow> bool" where
  "has_pending_text c \<longleftrightarrow> trim (buffer c) \<noteq> []"

text \<open>A caller that pushes the fragments of a stream one after the other.\<close>

fun push_all :: "SentenceCutter \<Rightarrow> rstr list \<Rightarrow> (SentenceCutter \<times> Sentence list) option" where
  "push_all c [] = Some (c, [])"
| "push_all c (f # fs) =
     do { (c1, ss) \<leftarrow> cutter_push c f; (c2, ts) \<leftarrow> push_all c1 fs; Some (c2, ss @ ts) }"

section \<open>The reference: cutting character by character\<close>

definition boundary_at :: "rstr \<Rightarrow> rchar \<Rightarrow> bool" where
  "boundary_at before c \<longleftrightarrow>
     (is_whitespace c \<and> before \<noteq> [] \<and> last before \<in> {46, 33, 63}) \<or>
     (c = 10 \<and> (ends_with before [10] \<or> ends_with before [10, 13]))"

fun feed :: "rstr \<Rightarrow> rstr \<Rightarrow> rstr \<times> rstr list" where
  "feed buf [] = (buf, [])"
| "feed buf (c # cs) =
     (if boundary_at buf c \<and> MIN_SENTENCE_CHARS \<le> length (trim (buf @ [c]))
      then (let (rest, heads) = feed [] cs in (rest, (buf @ [c]) # heads))
      else feed (buf @ [c]) cs)"

lemma split_at_byte_prefix: "split_at_byte (str_len a) (a @ b) = Some (a, b)"
proof (induction a)
  case (Cons c a)
  have "len_utf8 c + str_len a \<noteq> 0" using len_utf8_pos [of c] by simp
  with Cons show ?case by (subst split_at_byte.simps) simp
qed (simp add: split_at_byte.simps)

lemma boundary_loop_skip:
  "str_len (before @ pre) = n \<Longrightarrow>
   boundary_loop n prev before (pre @ rest) =
   boundary_loop n (if pre = [] then prev else Some (last pre)) (before @ pre) rest"
proof (induction pre arbitrary: before prev)
  case (Cons c pre)
  have "str_len before < n"
    using Cons.prems len_utf8_pos [of c] by (simp del: len_utf8_pos)
  then show ?case
    using Cons.IH [of "before @ [c]" "Some c"] Cons.prems by (auto simp: Let_def)
qed simp

lemma boundary_loop_feed:
  assumes "n \<le> str_len before" and "prev = (if before = [] then None else Some (last before))"
  shows "(boundary_loop n prev before rest = None \<and> feed before rest = (before @ rest, [])) \<or>
     (\<exists>mid c post. rest = mid @ c # post \<and> boundary_at (before @ mid) c \<and>
        feed before rest = feed (before @ mid) (c # post) \<and>
        boundary_loop n prev before rest = Some (str_len (before @ mid @ [c])))"
  using assms
proof (induction rest arbitrary: before prev)
  case (Cons c rest)
  have loop: "boundary_loop n prev before (c # rest) =
      (if boundary_at before c then Some (str_len before + len_utf8 c)
       else boundary_loop n (Some c) (before @ [c]) rest)"
    using Cons.prems by (auto simp: boundary_at_def Let_def)
  show ?case
  proof (cases "boundary_at before c")
    case True
    then show ?thesis using loop by (intro disjI2 exI [of _ "[]"] exI [of _ c] exI [of _ rest]) simp
  next
    case False
    then have "feed before (c # rest) = feed (before @ [c]) rest" by simp
    moreover have "n \<le> str_len (before @ [c])" using Cons.prems by simp
    ultimately consider "boundary_loop n prev before (c # rest) = None" "feed before (c # rest) = (before @ c # rest, [])"
      | mid d post where "rest = mid @ d # post" "boundary_at (before @ c # mid) d"
          "feed before (c # rest) = feed (before @ c # mid) (d # post)"
          "boundary_loop n prev before (c # rest) = Some (str_len (before @ (c # mid) @ [d]))"
      using Cons.IH [of "before @ [c]" "Some c"] False loop by fastforce
    then show ?thesis
    proof cases
      case (2 mid d post)
      then show ?thesis by (intro disjI2 exI [of _ "c # mid"] exI [of _ d] exI [of _ post]) simp
    qed simp
  qed
qed simp

lemma next_boundary_skip:
  "next_boundary (pre @ rest) (str_len pre) =
   boundary_loop (str_len pre) (if pre = [] then None else Some (last pre)) pre rest"
  using boundary_loop_skip [of "[]" pre "str_len pre" None rest] by (simp add: next_boundary_def)

lemma sentence_new_long:
  "MIN_SENTENCE_CHARS \<le> length (trim head) \<Longrightarrow> sentence_new head = Inr (Sentence (trim head))"
  by (cases "trim head = []") (simp_all add: sentence_new_def MIN_SENTENCE_CHARS_def Let_def)

text \<open>The loop from any search position computes the reference from there on, and always returns.\<close>

lemma cut_loop_feed:
  "cut_loop (pre @ rest) out (str_len pre) =
   Some (fst (feed pre rest), out @ map (\<lambda>h. Sentence (trim h)) (snd (feed pre rest)))"
proof (induction "length rest" arbitrary: pre rest out rule: less_induct)
  case less
  note unfold = cut_loop.simps [of "pre @ rest" out "str_len pre"]
  from boundary_loop_feed [OF order_refl refl, of pre rest]
  consider "next_boundary (pre @ rest) (str_len pre) = None" "feed pre rest = (pre @ rest, [])"
    | mid c post where "rest = mid @ c # post" "boundary_at (pre @ mid) c"
        "feed pre rest = feed (pre @ mid) (c # post)"
        "next_boundary (pre @ rest) (str_len pre) = Some (str_len (pre @ mid @ [c]))"
    unfolding next_boundary_skip by metis
  then show ?case
  proof cases
    case 1
    then show ?thesis using unfold by simp
  next
    case (2 mid c post)
    let ?head = "pre @ mid @ [c]"
    have split: "split_at_byte (str_len ?head) (pre @ rest) = Some (?head, post)"
      using split_at_byte_prefix [of ?head post] 2(1) by simp
    have less_post: "length post < length rest" using 2(1) by simp
    show ?thesis
    proof (cases "length (trim ?head) < MIN_SENTENCE_CHARS")
      case True
      have "cut_loop (pre @ rest) out (str_len pre) = cut_loop (?head @ post) out (str_len ?head)"
        using unfold 2 split True by simp
      also have "\<dots> = Some (fst (feed ?head post), out @ map (\<lambda>h. Sentence (trim h)) (snd (feed ?head post)))"
        by (rule less.hyps [OF less_post])
      finally show ?thesis using 2 True by simp
    next
      case False
      have "cut_loop (pre @ rest) out (str_len pre) = cut_loop ([] @ post) (out @ [Sentence (trim ?head)]) (str_len [])"
        using unfold 2 split False sentence_new_long [of ?head] by simp
      also note less.hyps [OF less_post]
      finally show ?thesis using 2 False by (simp add: case_prod_beta Let_def)
    qed
  qed
qed

lemma feed_append:
  "feed buf (xs @ ys) =
   (fst (feed (fst (feed buf xs)) ys), snd (feed buf xs) @ snd (feed (fst (feed buf xs)) ys))"
  by (induction buf xs rule: feed.induct) (simp_all add: case_prod_beta Let_def)

lemma feed_concat: "concat (snd (feed buf xs)) @ fst (feed buf xs) = buf @ xs"
  by (induction buf xs rule: feed.induct) (simp_all add: case_prod_beta Let_def)

lemma feed_heads: "list_all (\<lambda>h. MIN_SENTENCE_CHARS \<le> length (trim h)) (snd (feed buf xs))"
  by (induction buf xs rule: feed.induct) (simp_all add: case_prod_beta Let_def)

text \<open>A buffer is quiet when nothing in it is ready to be cut; every buffer the cutter leaves is quiet.\<close>

definition quiet :: "rstr \<Rightarrow> bool" where
  "quiet buf \<longleftrightarrow> feed [] buf = (buf, [])"

lemma feed_quiet: "quiet buf \<Longrightarrow> quiet (fst (feed buf xs))"
proof (induction buf xs rule: feed.induct)
  case (2 buf c cs)
  show ?case
  proof (cases "boundary_at buf c \<and> MIN_SENTENCE_CHARS \<le> length (trim (buf @ [c]))")
    case True
    then show ?thesis using 2(1) by (simp add: case_prod_beta Let_def quiet_def)
  next
    case False
    then have "quiet (buf @ [c])"
      using 2(3) feed_append [of "[]" buf "[c]"] by (auto simp: quiet_def)
    with False 2(2) show ?thesis by auto
  qed
qed simp

lemma cutter_push_feed:
  "cutter_push c fragment =
   Some (c\<lparr>buffer := fst (feed [] (buffer c @ fragment))\<rparr>,
         map (\<lambda>h. Sentence (trim h)) (snd (feed [] (buffer c @ fragment))))"
  using cut_loop_feed [of "[]" "buffer c @ fragment" "[]"]
  by (simp add: cutter_push_def cut_ready_def)

lemma push_all_feed:
  "quiet (buffer c) \<Longrightarrow>
   push_all c fs =
   Some (c\<lparr>buffer := fst (feed (buffer c) (concat fs))\<rparr>,
         map (\<lambda>h. Sentence (trim h)) (snd (feed (buffer c) (concat fs))))"
proof (induction fs arbitrary: c)
  case (Cons f fs)
  have first: "feed [] (buffer c @ f) = feed (buffer c) f"
    using Cons.prems feed_append [of "[]" "buffer c" f] by (simp add: quiet_def)
  have "quiet (fst (feed (buffer c) f))"
    using Cons.prems by (rule feed_quiet)
  then show ?case
    by (simp add: cutter_push_feed first Cons.IH feed_append [of "buffer c" f])
qed simp

lemma quiet_Nil [simp]: "quiet []"
  by (simp add: quiet_def)

abbreviation visible :: "rstr \<Rightarrow> rstr" where
  "visible \<equiv> filter (\<lambda>ch. \<not> is_whitespace ch)"

lemma visible_dropWhile: "visible (dropWhile is_whitespace s) = visible s"
  by (induction s) auto

lemma visible_trim [simp]: "visible (trim s) = visible s"
  by (metis rev_filter rev_swap trim_def trim_end_def trim_start_def visible_dropWhile)

lemma visible_heads: "visible (concat (map (\<lambda>h. trim h) heads)) = visible (concat heads)"
  by (induction heads) simp_all

section \<open>Properties\<close>

text \<open>
  C37. Pushing a fragment always returns: the cutting loop ends and no slice is out of bounds. What it
  returns partitions the text: buffer and fragment are the cut heads followed by the new buffer, each
  sentence is its trimmed head, no shorter than the minimum, and nothing ready is left behind, so a
  further empty push returns no sentence.
\<close>

theorem cutter_push_terminates:
  "\<exists>c' heads. cutter_push c fragment = Some (c', map (\<lambda>h. Sentence (trim h)) heads) \<and>
     buffer c @ fragment = concat heads @ buffer c' \<and>
     list_all (\<lambda>h. MIN_SENTENCE_CHARS \<le> length (trim h)) heads \<and>
     cutter_push c' [] = Some (c', [])"
proof -
  let ?r = "feed [] (buffer c @ fragment)"
  have "quiet (fst ?r)"
    by (rule feed_quiet) simp
  then have "cutter_push (c\<lparr>buffer := fst ?r\<rparr>) [] = Some (c\<lparr>buffer := fst ?r\<rparr>, [])"
    by (simp add: cutter_push_feed quiet_def)
  then show ?thesis
    using cutter_push_feed [of c fragment] feed_concat [of "[]" "buffer c @ fragment"] feed_heads
    by (intro exI [of _ "c\<lparr>buffer := fst ?r\<rparr>"] exI [of _ "snd ?r"]) simp
qed

text \<open>
  C38. Speech does not depend on how the text was streamed: pushing a text in any fragments yields the
  same sentences and the same remaining buffer as pushing it at once, and the sentences followed by the
  flushed tail carry every non-whitespace character of the text exactly once and in order.
\<close>

theorem cutter_fragmentation_invariant:
  "push_all cutter_new fragments = push_all cutter_new [concat fragments] \<and>
   (\<exists>c ss. push_all cutter_new fragments = Some (c, ss) \<and>
      visible (concat (map as_str ss) @ (case snd (cutter_finish c) of None \<Rightarrow> [] | Some t \<Rightarrow> as_str t)) =
      visible (concat fragments) \<and>
      cutter_finish (fst (cutter_finish c)) = (cutter_new, None))"
proof -
  let ?r = "feed [] (concat fragments)"
  have all: "push_all cutter_new fs = Some (\<lparr>buffer = fst (feed [] (concat fs))\<rparr>,
      map (\<lambda>h. Sentence (trim h)) (snd (feed [] (concat fs))))" for fs
    using push_all_feed [of cutter_new fs] by (simp add: cutter_new_def)
  have tail: "visible (case snd (cutter_finish c) of None \<Rightarrow> [] | Some t \<Rightarrow> as_str t) = visible (buffer c)" for c
    by (cases "trim (buffer c) = []")
       (simp_all add: cutter_finish_def sentence_new_def Let_def, metis filter.simps(1) visible_trim)
  have whole: "visible (concat (snd ?r)) @ visible (fst ?r) = visible (concat fragments)"
    using feed_concat [of "[]" "concat fragments"] by (metis append_Nil filter_append)
  show ?thesis
    using all [of fragments] all [of "[concat fragments]"] tail [of "\<lparr>buffer = fst ?r\<rparr>"] whole
    by (simp add: o_def visible_heads cutter_finish_def cutter_new_def sentence_new_def)
qed

end
