(* ===== verification/Prefetch_Window.thy ===== *)
theory Prefetch_Window
  imports Rust_Prelude
begin

text \<open>
  The fixed window of accepted but unfinished sentence jobs of speech synthesis
  (\<open>plato-audio/src/core/prefetch.rs\<close>). A \<open>usize\<close> frame count is a natural number.
\<close>

definition SENTENCE_PREFETCH_CAPACITY :: nat where
  "SENTENCE_PREFETCH_CAPACITY = 4"

datatype SentenceQueueError = Full nat | Closed

datatype SentenceJobStage = Accepted | Synthesizing | Buffered nat | Failed

record SentenceJob =
  sj_sequence :: u64
  sj_stage :: SentenceJobStage

record PrefetchWindow =
  pw_jobs :: "SentenceJob list"
  pw_next_sequence :: u64
  pw_closed :: bool

definition window_new :: PrefetchWindow where
  "window_new = \<lparr>pw_jobs = [], pw_next_sequence = 0, pw_closed = False\<rparr>"

definition try_accept :: "PrefetchWindow \<Rightarrow> PrefetchWindow \<times> (SentenceQueueError, u64) result" where
  "try_accept w =
     (if pw_closed w then (w, Inl Closed)
      else if length (pw_jobs w) = SENTENCE_PREFETCH_CAPACITY then (w, Inl (Full SENTENCE_PREFETCH_CAPACITY))
      else let sequence = pw_next_sequence w in
           (w\<lparr>pw_next_sequence := saturating_add (pw_next_sequence w) 1,
              pw_jobs := pw_jobs w @ [\<lparr>sj_sequence = sequence, sj_stage = Accepted\<rparr>]\<rparr>, Inr sequence))"

text \<open>\<open>iter_mut().find(p)\<close> followed by an assignment to the stage of the job found.\<close>

definition set_stage :: "nat \<Rightarrow> SentenceJobStage \<Rightarrow> PrefetchWindow \<Rightarrow> PrefetchWindow" where
  "set_stage i stage w = w\<lparr>pw_jobs := (pw_jobs w)[i := (pw_jobs w ! i)\<lparr>sj_stage := stage\<rparr>]\<rparr>"

definition next_accepted :: "PrefetchWindow \<Rightarrow> PrefetchWindow \<times> u64 option" where
  "next_accepted w =
     (case position (\<lambda>j. sj_stage j = Accepted) (pw_jobs w) of
        None \<Rightarrow> (w, None)
      | Some i \<Rightarrow> (set_stage i Synthesizing w, Some (sj_sequence (pw_jobs w ! i))))"

definition job_mut :: "PrefetchWindow \<Rightarrow> u64 \<Rightarrow> (string, nat) result" where
  "job_mut w sequence =
     (case position (\<lambda>j. sj_sequence j = sequence) (pw_jobs w) of
        None \<Rightarrow> Inl ''sentence sequence is not in the accepted window''
      | Some i \<Rightarrow> Inr i)"

definition mark_buffered :: "PrefetchWindow \<Rightarrow> u64 \<Rightarrow> nat \<Rightarrow> PrefetchWindow \<times> (string, unit) result" where
  "mark_buffered w sequence device_frames =
     (case job_mut w sequence of
        Inl e \<Rightarrow> (w, Inl e)
      | Inr i \<Rightarrow>
          if sj_stage (pw_jobs w ! i) \<noteq> Synthesizing
          then (w, Inl ''only a synthesizing sentence can become buffered'')
          else (set_stage i (Buffered device_frames) w, Inr ()))"

definition finish_front :: "PrefetchWindow \<Rightarrow> u64 \<Rightarrow> PrefetchWindow \<times> (string, unit) result" where
  "finish_front w sequence =
     (case pw_jobs w of
        [] \<Rightarrow> (w, Inl ''cannot finish a sentence from an empty window'')
      | job # rest \<Rightarrow>
          if sj_sequence job \<noteq> sequence then (w, Inl ''sentences must finish in accepted order'')
          else if \<not> (case sj_stage job of Buffered _ \<Rightarrow> True | _ \<Rightarrow> False)
          then (w, Inl ''only a buffered sentence can finish playback'')
          else (w\<lparr>pw_jobs := rest\<rparr>, Inr ()))"

definition window_fail :: "PrefetchWindow \<Rightarrow> u64 \<Rightarrow> PrefetchWindow \<times> (string, unit) result" where
  "window_fail w sequence =
     (case job_mut w sequence of
        Inl e \<Rightarrow> (w, Inl e)
      | Inr i \<Rightarrow>
          if sj_stage (pw_jobs w ! i) = Failed then (w, Inl ''sentence already failed'')
          else ((set_stage i Failed w)\<lparr>pw_closed := True\<rparr>, Inr ()))"

definition window_close :: "PrefetchWindow \<Rightarrow> PrefetchWindow" where
  "window_close w = w\<lparr>pw_closed := True\<rparr>"

definition window_interrupt :: "PrefetchWindow \<Rightarrow> PrefetchWindow \<times> u64 list" where
  "window_interrupt w = (w\<lparr>pw_jobs := []\<rparr>, map sj_sequence (pw_jobs w))"

definition window_front :: "PrefetchWindow \<Rightarrow> (u64 \<times> SentenceJobStage) option" where
  "window_front w = (case pw_jobs w of [] \<Rightarrow> None | job # _ \<Rightarrow> Some (sj_sequence job, sj_stage job))"

section \<open>Calls on the window\<close>

datatype window_call =
    TryAccept
  | NextAccepted
  | MarkBuffered u64 nat
  | FinishFront u64
  | FailJob u64
  | CloseWindow
  | Interrupt

text \<open>One call, with the sequences that leave the window and whether they finished playback.\<close>

fun window_step :: "PrefetchWindow \<Rightarrow> window_call \<Rightarrow> PrefetchWindow \<times> u64 list" where
  "window_step w TryAccept = (fst (try_accept w), [])"
| "window_step w NextAccepted = (fst (next_accepted w), [])"
| "window_step w (MarkBuffered s n) = (fst (mark_buffered w s n), [])"
| "window_step w (FinishFront s) =
     (let (w', r) = finish_front w s in (w', if is_ok r then [s] else []))"
| "window_step w (FailJob s) = (fst (window_fail w s), [])"
| "window_step w CloseWindow = (window_close w, [])"
| "window_step w Interrupt = window_interrupt w"

section \<open>An accountable queue\<close>

fun run_calls :: "('s \<Rightarrow> 'c \<Rightarrow> 's \<times> 't list) \<Rightarrow> 's \<Rightarrow> 'c list \<Rightarrow> 's \<times> 't list" where
  "run_calls step s [] = (s, [])"
| "run_calls step s (c # cs) = (let (s1, out) = step s c; (s2, rest) = run_calls step s1 cs in (s2, out @ rest))"

text \<open>
  The contract: a queue issues tickets \<open>0, 1, 2, \<dots>\<close> and every step releases tickets from its front,
  so that what it released followed by what it still holds is what it held followed by what it issued.
\<close>

locale ticket_queue =
  fixes step :: "'s \<Rightarrow> 'c \<Rightarrow> 's \<times> 't list"
    and held :: "'s \<Rightarrow> nat list"
    and issued :: "'s \<Rightarrow> nat"
    and ticket :: "'t \<Rightarrow> nat"
    and legal :: "'s \<Rightarrow> bool"
  assumes issued_mono: "legal (fst (step s c)) \<Longrightarrow> legal s \<and> issued s \<le> issued (fst (step s c))"
    and step_account: "legal (fst (step s c)) \<Longrightarrow>
      map ticket (snd (step s c)) @ held (fst (step s c)) = held s @ [issued s ..< issued (fst (step s c))]"
begin

abbreviation run :: "'s \<Rightarrow> 'c list \<Rightarrow> 's \<times> 't list" where
  "run \<equiv> run_calls step"

lemma run_legal: "legal (fst (run s cs)) \<Longrightarrow> legal s \<and> issued s \<le> issued (fst (run s cs))"
proof (induction cs arbitrary: s)
  case (Cons c cs)
  then have "legal (fst (step s c)) \<and> issued (fst (step s c)) \<le> issued (fst (run (fst (step s c)) cs))"
    by (simp add: case_prod_beta Let_def)
  with issued_mono [of s c] show ?case
    by (auto simp: case_prod_beta Let_def)
qed simp

theorem run_account:
  "legal (fst (run s cs)) \<Longrightarrow>
   map ticket (snd (run s cs)) @ held (fst (run s cs)) = held s @ [issued s ..< issued (fst (run s cs))]"
proof (induction cs arbitrary: s)
  case (Cons c cs)
  let ?s1 = "fst (step s c)"
  have legal: "legal (fst (run ?s1 cs))"
    using Cons.prems by (simp add: case_prod_beta Let_def)
  then have le: "legal ?s1" "issued ?s1 \<le> issued (fst (run ?s1 cs))"
    using run_legal by blast+
  then have "[issued s ..< issued (fst (run ?s1 cs))] =
      [issued s ..< issued ?s1] @ [issued ?s1 ..< issued (fst (run ?s1 cs))]"
    using issued_mono [OF le(1)] le(2) by (metis le_add_diff_inverse upt_add_eq_append)
  moreover have "map ticket (snd (step s c)) @ held ?s1 @ us = held s @ [issued s ..< issued ?s1] @ us" for us
    using step_account [OF le(1)] by (metis append.assoc)
  ultimately show ?case
    using Cons.IH [OF legal] by (simp add: case_prod_beta Let_def)
qed simp

end

section \<open>The window is an accountable queue\<close>

definition sequences :: "PrefetchWindow \<Rightarrow> nat list" where
  "sequences w = map (\<lambda>j. unat (sj_sequence j)) (pw_jobs w)"

lemma set_stage_simps [simp]:
  "sequences (set_stage i st w) = sequences w"
  "pw_next_sequence (set_stage i st w) = pw_next_sequence w"
  "pw_closed (set_stage i st w) = pw_closed w"
  "length (pw_jobs (set_stage i st w)) = length (pw_jobs w)"
  by (cases "i < length (pw_jobs w)")
     (simp_all add: set_stage_def sequences_def map_update list_update_same_conv list_update_beyond)

lemma sequences_closed [simp]: "sequences (w\<lparr>pw_closed := b\<rparr>) = sequences w"
  by (simp add: sequences_def)

lemmas window_defs = try_accept_def next_accepted_def mark_buffered_def finish_front_def window_fail_def
  window_close_def window_interrupt_def

lemma window_step_quiet:
  assumes "c \<noteq> TryAccept"
  shows "pw_next_sequence (fst (window_step w c)) = pw_next_sequence w \<and>
    map unat (snd (window_step w c)) @ sequences (fst (window_step w c)) = sequences w \<and>
    length (pw_jobs (fst (window_step w c))) \<le> length (pw_jobs w) \<and>
    (pw_closed w \<longrightarrow> pw_closed (fst (window_step w c)))"
proof (cases c)
  case (FinishFront s)
  then show ?thesis
    by (cases "pw_jobs w") (auto simp: finish_front_def sequences_def Let_def)
next
  case Interrupt
  then show ?thesis by (auto simp: window_interrupt_def sequences_def)
qed (use assms in \<open>auto simp: window_defs split: option.splits sum.splits\<close>)

lemma window_accept:
  assumes "pw_next_sequence (fst (window_step w TryAccept)) \<noteq> max_of"
  shows "pw_next_sequence w \<noteq> max_of \<and>
    (\<exists>n. unat (pw_next_sequence (fst (window_step w TryAccept))) = unat (pw_next_sequence w) + n \<and>
       sequences (fst (window_step w TryAccept)) =
       sequences w @ [unat (pw_next_sequence w) ..< unat (pw_next_sequence w) + n])"
proof -
  have "saturating_add max_of 1 = (max_of :: u64)"
    using saturating_add_mono [of "max_of :: u64" 1] by (simp add: order_antisym)
  then have ne: "pw_next_sequence w \<noteq> max_of"
    using assms by (auto simp: try_accept_def Let_def split: if_splits)
  then have "pw_next_sequence w < max_of"
    by (simp add: order_less_le)
  then have "unat (saturating_add (pw_next_sequence w) 1) = unat (pw_next_sequence w) + 1"
    by (simp add: unat_saturating_add word_less_nat_alt unat_max_of)
  then have "\<exists>n. unat (pw_next_sequence (fst (window_step w TryAccept))) = unat (pw_next_sequence w) + n \<and>
       sequences (fst (window_step w TryAccept)) =
       sequences w @ [unat (pw_next_sequence w) ..< unat (pw_next_sequence w) + n]"
    by (cases "pw_closed w \<or> length (pw_jobs w) = SENTENCE_PREFETCH_CAPACITY")
       (auto intro: exI [of _ 0] exI [of _ 1] simp: try_accept_def sequences_def Let_def)
  with ne show ?thesis by blast
qed

interpretation prefetch: ticket_queue window_step sequences "\<lambda>w. unat (pw_next_sequence w)" unat
  "\<lambda>w. pw_next_sequence w \<noteq> max_of"
proof unfold_locales
  fix w c
  assume "pw_next_sequence (fst (window_step w c)) \<noteq> max_of"
  with window_accept [of w] window_step_quiet [of c w]
  show "pw_next_sequence w \<noteq> max_of \<and>
      unat (pw_next_sequence w) \<le> unat (pw_next_sequence (fst (window_step w c)))"
    and "map unat (snd (window_step w c)) @ sequences (fst (window_step w c)) =
      sequences w @ [unat (pw_next_sequence w) ..< unat (pw_next_sequence (fst (window_step w c)))]"
    by (cases "c = TryAccept"; force)+
qed

lemma window_step_bounded:
  "length (pw_jobs w) \<le> SENTENCE_PREFETCH_CAPACITY \<Longrightarrow>
   length (pw_jobs (fst (window_step w c))) \<le> SENTENCE_PREFETCH_CAPACITY"
  using window_step_quiet [of c w]
  by (cases "c = TryAccept") (auto simp: try_accept_def Let_def)

lemma run_bounded:
  "length (pw_jobs w) \<le> SENTENCE_PREFETCH_CAPACITY \<Longrightarrow>
   length (pw_jobs (fst (run_calls window_step w cs))) \<le> SENTENCE_PREFETCH_CAPACITY"
  by (induction cs arbitrary: w) (simp_all add: case_prod_beta Let_def window_step_bounded)

text \<open>
  C39. The prefetch window is a bounded first-in first-out queue: after any calls on a new window it
  holds at most four jobs, and the sequences that left it (finished or interrupted) followed by the ones
  it still holds are exactly the sequences it accepted, each once and in the order of acceptance, as
  long as the 64-bit sequence counter has not saturated.
\<close>

theorem prefetch_window_fifo:
  assumes "run_calls window_step window_new calls = (w, gone)" and "pw_next_sequence w \<noteq> max_of"
  shows "map unat gone @ map (\<lambda>j. unat (sj_sequence j)) (pw_jobs w) = [0 ..< unat (pw_next_sequence w)] \<and>
    length (pw_jobs w) \<le> SENTENCE_PREFETCH_CAPACITY"
  using prefetch.run_account [of window_new calls] run_bounded [of window_new calls] assms
  by (simp add: window_new_def sequences_def)

theorem prefetch_window_fifo_witness:
  "(let (w, gone) = run_calls window_step window_new
      [TryAccept, TryAccept, NextAccepted, MarkBuffered 0 480, FinishFront 1, FinishFront 0, TryAccept]
    in gone = [0] \<and> map unat gone @ map (\<lambda>j. unat (sj_sequence j)) (pw_jobs w) = [0, 1, 2])"
proof -
  let ?r = "run_calls window_step window_new
      [TryAccept, TryAccept, NextAccepted, MarkBuffered 0 480, FinishFront 1, FinishFront 0, TryAccept]"
  have r: "snd ?r = [0]" "pw_next_sequence (fst ?r) = 3" "pw_next_sequence (fst ?r) \<noteq> max_of"
    by code_simp (code_simp, code_simp)
  have "?r = (fst ?r, snd ?r)" by simp
  from prefetch_window_fifo [OF this r(3)] r(1,2) show ?thesis
    by (simp only: case_prod_beta Let_def) (simp add: upt_rec)
qed

end
