(* ===== verification/Interruption_Latch.thy ===== *)
theory Interruption_Latch
  imports Rust_Prelude "HOL-Library.Sublist"
begin

text \<open>
  The interruption latch of speech playback (\<open>plato-audio/src/core/latch.rs\<close>): which words of the
  assistant's text were audible when the user barged in. A \<open>usize\<close> is 64 bits wide.
\<close>

record SpeechSource =
  ss_sentence_index :: u64
  ss_assistant_delta_index :: u64

record SpokenInterruption =
  si_played_samples :: u64
  si_sentence_index :: u64
  si_assistant_delta_index :: u64
  si_spoken_prefix :: rstr

record SentenceSpan =
  sp_source :: SpeechSource
  sp_text :: rstr
  sp_start :: u64
  sp_end :: u64

record InterruptionLatch =
  il_run_start :: u64
  il_spans :: "SentenceSpan list"
  il_interruption :: "SpokenInterruption option"

definition latch_default :: InterruptionLatch where
  "latch_default = \<lparr>il_run_start = 0, il_spans = [], il_interruption = None\<rparr>"

definition normalize_whitespace :: "rstr \<Rightarrow> rstr" where
  "normalize_whitespace t = join (lit '' '') (split_whitespace t)"

definition proportional_end :: "u64 \<Rightarrow> u64 \<Rightarrow> u64 \<Rightarrow> u64 \<Rightarrow> u64" where
  "proportional_end start frames completed count =
     (let count' = max count 1;
          numerator = saturating_mul frames completed
      in saturating_add start (saturating_add numerator (count' - 1) div count'))"

definition latch_begin :: "InterruptionLatch \<Rightarrow> u64 \<Rightarrow> InterruptionLatch" where
  "latch_begin l run_start = l\<lparr>il_run_start := run_start, il_spans := [], il_interruption := None\<rparr>"

definition record_sentence ::
  "InterruptionLatch \<Rightarrow> SpeechSource \<Rightarrow> rstr \<Rightarrow> u64 \<Rightarrow> u64 \<Rightarrow> InterruptionLatch \<times> (unit, unit) result" where
  "record_sentence l source t start_sample end_sample =
     (let t' = normalize_whitespace t in
      if t' = [] \<or> end_sample \<le> start_sample \<or> start_sample < il_run_start l \<or>
         (il_spans l \<noteq> [] \<and> start_sample < sp_end (last (il_spans l)))
      then (l, Inl ())
      else (l\<lparr>il_spans := il_spans l @ [\<lparr>sp_source = source, sp_text = t', sp_start = start_sample, sp_end = end_sample\<rparr>]\<rparr>,
            Inr ()))"

text \<open>The loop over the words of one span, from word \<open>index\<close> on; it stops at the first word not yet spoken.\<close>

fun word_loop :: "u64 \<Rightarrow> SentenceSpan \<Rightarrow> u64 \<Rightarrow> u64 \<Rightarrow> rstr list \<Rightarrow> rstr list" where
  "word_loop played span count index [] = []"
| "word_loop played span count index (word # rest) =
     (let span_frames = saturating_sub (sp_end span) (sp_start span);
          emitted_frames = saturating_sub (min played (sp_end span)) (sp_start span);
          word_end = proportional_end (sp_start span) span_frames (saturating_add index 1) count
      in if emitted_frames = span_frames \<or> word_end \<le> played
         then word # word_loop played span count (index + 1) rest else [])"

definition spoken_words :: "u64 \<Rightarrow> SentenceSpan \<Rightarrow> rstr list" where
  "spoken_words played span =
     (let ws = split_whitespace (sp_text span) in word_loop played span (of_nat (length ws)) 0 ws)"

fun span_loop :: "u64 \<Rightarrow> rstr list \<Rightarrow> SpeechSource option \<Rightarrow> SentenceSpan list \<Rightarrow> rstr list \<times> SpeechSource option" where
  "span_loop played ws final_source [] = (ws, final_source)"
| "span_loop played ws final_source (span # spans) =
     (if played \<le> sp_start span then (ws, final_source)
      else let ws' = ws @ spoken_words played span
           in if played < sp_end span then (ws', Some (sp_source span))
              else span_loop played ws' (Some (sp_source span)) spans)"

definition latch_interrupt :: "InterruptionLatch \<Rightarrow> u64 \<Rightarrow> InterruptionLatch" where
  "latch_interrupt l played =
     (if il_interruption l \<noteq> None \<or> played \<le> il_run_start l then l
      else case span_loop played [] None (il_spans l) of
             (_, None) \<Rightarrow> l
           | (ws, Some source) \<Rightarrow>
               l\<lparr>il_interruption := Some
                   \<lparr>si_played_samples = saturating_sub played (il_run_start l),
                    si_sentence_index = ss_sentence_index source,
                    si_assistant_delta_index = ss_assistant_delta_index source,
                    si_spoken_prefix = join (lit '' '') ws\<rparr>\<rparr>)"

definition latch_take :: "InterruptionLatch \<Rightarrow> InterruptionLatch \<times> SpokenInterruption option" where
  "latch_take l = (l\<lparr>il_interruption := None\<rparr>, il_interruption l)"

section \<open>The invariant of the spans\<close>

datatype latch_call =
  BeginRun u64 | RecordSentence SpeechSource rstr u64 u64 | InterruptAt u64 | TakeInterruption

fun latch_step :: "InterruptionLatch \<Rightarrow> latch_call \<Rightarrow> InterruptionLatch" where
  "latch_step l (BeginRun n) = latch_begin l n"
| "latch_step l (RecordSentence s t a b) = fst (record_sentence l s t a b)"
| "latch_step l (InterruptAt n) = latch_interrupt l n"
| "latch_step l TakeInterruption = fst (latch_take l)"

fun ordered_from :: "u64 \<Rightarrow> SentenceSpan list \<Rightarrow> bool" where
  "ordered_from n [] = True"
| "ordered_from n (s # ss) \<longleftrightarrow> n \<le> sp_start s \<and> sp_start s < sp_end s \<and> ordered_from (sp_end s) ss"

definition latch_inv :: "InterruptionLatch \<Rightarrow> bool" where
  "latch_inv l \<longleftrightarrow> ordered_from (il_run_start l) (il_spans l)"

lemma ordered_from_snoc:
  "ordered_from n (ss @ [s]) \<longleftrightarrow>
     ordered_from n ss \<and> (if ss = [] then n else sp_end (last ss)) \<le> sp_start s \<and> sp_start s < sp_end s"
  by (induction ss arbitrary: n) auto

lemma latch_step_inv: "latch_inv l \<Longrightarrow> latch_inv (latch_step l c)"
  by (cases c)
     (auto simp: latch_inv_def latch_begin_def record_sentence_def Let_def ordered_from_snoc
       latch_interrupt_def latch_take_def split: option.splits prod.splits)

lemma foldl_latch_inv: "latch_inv l \<Longrightarrow> latch_inv (foldl latch_step l calls)"
  by (induction calls arbitrary: l) (simp_all add: latch_step_inv)

lemma latch_inv_default: "latch_inv latch_default"
  by (simp add: latch_inv_def latch_default_def)

section \<open>What was spoken\<close>

abbreviation span_words :: "SentenceSpan \<Rightarrow> rstr list" where
  "span_words s \<equiv> split_whitespace (sp_text s)"

lemma word_loop_prefix: "prefix (word_loop played s count i ws) ws"
  by (induction ws arbitrary: i) (auto simp: Let_def)

lemma spoken_words_prefix: "prefix (spoken_words played s) (span_words s)"
  by (simp add: spoken_words_def Let_def word_loop_prefix)

lemma word_loop_all: "sp_end s \<le> played \<Longrightarrow> word_loop played s count i ws = ws"
  by (induction ws arbitrary: i) (auto simp: Let_def min_def)

lemma spoken_words_all: "sp_end s \<le> played \<Longrightarrow> spoken_words played s = span_words s"
  by (simp add: spoken_words_def Let_def word_loop_all)

abbreviation started :: "u64 \<Rightarrow> SentenceSpan list \<Rightarrow> SentenceSpan list" where
  "started played ss \<equiv> filter (\<lambda>s. sp_start s < played) ss"

abbreviation ended :: "u64 \<Rightarrow> SentenceSpan list \<Rightarrow> SentenceSpan list" where
  "ended played ss \<equiv> filter (\<lambda>s. sp_end s \<le> played) ss"

lemma ordered_from_later:
  "ordered_from n ss \<Longrightarrow> played \<le> n \<Longrightarrow> started played ss = [] \<and> ended played ss = []"
proof (induction ss arbitrary: n)
  case (Cons s ss)
  then have "played \<le> sp_start s" "played < sp_end s" by auto
  then have "\<not> sp_start s < played" "\<not> sp_end s \<le> played" "played \<le> sp_end s" by auto
  with Cons show ?case by auto
qed simp

lemma span_loop_spoken:
  assumes "ordered_from n ss"
  shows "\<exists>vs. fst (span_loop played ws src ss) = ws @ vs \<and>
    prefix (concat (map span_words (ended played ss))) vs \<and>
    prefix vs (concat (map span_words (started played ss))) \<and>
    snd (span_loop played ws src ss) =
      (if started played ss = [] then src else Some (sp_source (last (started played ss))))"
  using assms
proof (induction ss arbitrary: n ws src)
  case (Cons s ss)
  have ord: "ordered_from (sp_end s) ss" "sp_start s < sp_end s" using Cons.prems by auto
  consider "played \<le> sp_start s" | "sp_start s < played" "played < sp_end s" | "sp_end s \<le> played"
    by (meson not_less)
  then show ?case
  proof cases
    case 1
    then have "started played (s # ss) = []" "ended played (s # ss) = []"
      using ordered_from_later [OF ord(1)] ord(2) by (auto simp: not_le)
    with 1 show ?thesis by simp
  next
    case 2
    then have "started played (s # ss) = [s]" "ended played (s # ss) = []"
      using ordered_from_later [OF ord(1)] by (auto simp: not_le)
    moreover from 2 have "\<not> played \<le> sp_start s" by simp
    ultimately show ?thesis using 2 spoken_words_prefix [of played s] by (simp add: Let_def)
  next
    case 3
    then have st: "sp_start s < played" using ord(2) by simp
    then have "\<not> played \<le> sp_start s" by simp
    then have step: "span_loop played ws src (s # ss) = span_loop played (ws @ span_words s) (Some (sp_source s)) ss"
      using 3 by (simp add: Let_def spoken_words_all leD)
    from Cons.IH [OF ord(1), of "ws @ span_words s" "Some (sp_source s)"] obtain vs where
      "fst (span_loop played (ws @ span_words s) (Some (sp_source s)) ss) = (ws @ span_words s) @ vs"
      "prefix (concat (map span_words (ended played ss))) vs"
      "prefix vs (concat (map span_words (started played ss)))"
      "snd (span_loop played (ws @ span_words s) (Some (sp_source s)) ss) =
        (if started played ss = [] then Some (sp_source s) else Some (sp_source (last (started played ss))))"
      by blast
    with 3 st show ?thesis
      unfolding step by (intro exI [of _ "span_words s @ vs"]) simp
  qed
qed simp


section \<open>Properties\<close>

text \<open>
  A barge-in reports what was actually audible. After any calls on the latch, interrupting a run
  with no interruption recorded yet, at a position past its start, records one exactly when some
  sentence had started. It names the last started sentence, and its spoken prefix is a list of words
  that contains every word of every sentence whose audio had ended and is an initial part of the words
  of the started sentences.
\<close>

theorem latch_reports_spoken:
  assumes "l = foldl latch_step latch_default calls"
    and "il_interruption l = None" and "il_run_start l < played"
  shows "case il_interruption (latch_interrupt l played) of
      None \<Rightarrow> started played (il_spans l) = []
    | Some i \<Rightarrow>
        started played (il_spans l) \<noteq> [] \<and>
        si_sentence_index i = ss_sentence_index (sp_source (last (started played (il_spans l)))) \<and>
        si_assistant_delta_index i = ss_assistant_delta_index (sp_source (last (started played (il_spans l)))) \<and>
        unat (si_played_samples i) = unat played - unat (il_run_start l) \<and>
        (\<exists>ws. si_spoken_prefix i = join (lit '' '') ws \<and>
           prefix (concat (map span_words (ended played (il_spans l)))) ws \<and>
           prefix ws (concat (map span_words (started played (il_spans l)))))"
proof -
  have "ordered_from (il_run_start l) (il_spans l)"
    using foldl_latch_inv [OF latch_inv_default] assms(1) by (simp add: latch_inv_def)
  from span_loop_spoken [OF this, of played "[]" None] obtain vs where vs:
    "fst (span_loop played [] None (il_spans l)) = [] @ vs"
    "prefix (concat (map span_words (ended played (il_spans l)))) vs"
    "prefix vs (concat (map span_words (started played (il_spans l))))"
    "snd (span_loop played [] None (il_spans l)) =
       (if started played (il_spans l) = [] then None else Some (sp_source (last (started played (il_spans l)))))"
    by blast
  show ?thesis
  proof (cases "started played (il_spans l) = []")
    case True
    then have "span_loop played [] None (il_spans l) = (vs, None)"
      using vs(1,4) by (simp add: prod_eq_iff)
    with True assms(2) show ?thesis by (simp add: latch_interrupt_def)
  next
    case False
    then have "span_loop played [] None (il_spans l) = (vs, Some (sp_source (last (started played (il_spans l)))))"
      using vs(1,4) by (simp add: prod_eq_iff)
    then show ?thesis
      using False assms(2,3) vs(2,3) by (auto simp: latch_interrupt_def unat_saturating_sub)
  qed
qed

definition sample_calls :: "latch_call list" where
  "sample_calls =
     [BeginRun 100,
      RecordSentence \<lparr>ss_sentence_index = 0, ss_assistant_delta_index = 3\<rparr> (lit ''one two'') 100 200,
      RecordSentence \<lparr>ss_sentence_index = 1, ss_assistant_delta_index = 5\<rparr> (lit ''three  four'') 200 300]"

lemma split_whitespace_case:
  "split_whitespace s =
     (case trim_start s of
        [] \<Rightarrow> []
      | c # cs \<Rightarrow> takeWhile (\<lambda>ch. \<not> is_whitespace ch) (c # cs) #
                  split_whitespace (dropWhile (\<lambda>ch. \<not> is_whitespace ch) (c # cs)))"
  by (subst split_whitespace.simps) (simp split: list.split)

lemma sample_words:
  "split_whitespace (lit ''one two'') = [lit ''one'', lit ''two'']"
  "split_whitespace (lit ''three  four'') = [lit ''three'', lit ''four'']"
  "split_whitespace (lit ''three four'') = [lit ''three'', lit ''four'']"
  "normalize_whitespace (lit ''one two'') = lit ''one two''"
  "normalize_whitespace (lit ''three  four'') = lit ''three four''"
  "lit ''one two'' \<noteq> []" "lit ''three four'' \<noteq> []"
  by (simp_all add: split_whitespace_case normalize_whitespace_def lit_def trim_start_def is_whitespace_def)

definition sample_latch :: InterruptionLatch where
  "sample_latch =
     \<lparr>il_run_start = 100,
      il_spans =
        [\<lparr>sp_source = \<lparr>ss_sentence_index = 0, ss_assistant_delta_index = 3\<rparr>, sp_text = lit ''one two'', sp_start = 100, sp_end = 200\<rparr>,
         \<lparr>sp_source = \<lparr>ss_sentence_index = 1, ss_assistant_delta_index = 5\<rparr>, sp_text = lit ''three four'', sp_start = 200, sp_end = 300\<rparr>],
      il_interruption = None\<rparr>"

lemma sample_latch_reached: "sample_latch = foldl latch_step latch_default sample_calls"
  by (simp add: sample_calls_def sample_latch_def latch_default_def latch_begin_def record_sentence_def sample_words)

theorem latch_reports_spoken_witness:
  "case il_interruption (latch_interrupt sample_latch 260) of
     None \<Rightarrow> False
   | Some i \<Rightarrow> si_spoken_prefix i = join (lit '' '') [lit ''one'', lit ''two'', lit ''three''] \<and>
       si_sentence_index i = 1 \<and> unat (si_played_samples i) = 160"
proof -
  have hyps: "il_interruption sample_latch = None" "il_run_start sample_latch < 260" "unat (il_run_start sample_latch) = 100"
    by (simp_all add: sample_latch_def)
  have "proportional_end 200 100 1 2 = 250" "proportional_end 200 100 2 2 = 300"
      "saturating_add 0 1 = (1 :: u64)" "saturating_add 1 1 = (2 :: u64)"
    by (code_simp, code_simp, code_simp, code_simp)
  then have "case il_interruption (latch_interrupt sample_latch 260) of
      None \<Rightarrow> False | Some i \<Rightarrow> si_spoken_prefix i = join (lit '' '') [lit ''one'', lit ''two'', lit ''three'']"
    by (simp add: sample_latch_def latch_interrupt_def spoken_words_def sample_words Let_def
        saturating_sub_def)
  with latch_reports_spoken [OF sample_latch_reached hyps(1,2)] hyps(3) show ?thesis
    by (auto simp: sample_latch_def split: option.splits)
qed

end
