(* ===== verification/Neural_Vad.thy ===== *)
theory Neural_Vad
  imports Rust_Prelude Complex_Main
begin

text \<open>
  Neural speech endpointing (\<open>plato-audio/src/core/vad/neural.rs\<close>): microphone samples are grouped in
  frames, a detector gives each frame a speech probability, and a state machine turns the decisions into
  onset, rolling-sample, segment and rejection events. The detector (a neural network) is a parameter
  with its own state. A panic, here an index out of bounds, is \<open>None\<close>.
\<close>

datatype f32 = Finite rat | Infinite bool | NaN

definition f32_is_finite :: "f32 \<Rightarrow> bool" where
  "f32_is_finite x = (case x of Finite _ \<Rightarrow> True | _ \<Rightarrow> False)"

fun f32_le :: "f32 \<Rightarrow> f32 \<Rightarrow> bool" where
  "f32_le (Finite a) (Finite b) = (a \<le> b)"
| "f32_le (Infinite neg) (Finite b) = neg"
| "f32_le (Finite a) (Infinite neg) = (\<not> neg)"
| "f32_le (Infinite n) (Infinite m) = (m \<longrightarrow> n)"
| "f32_le NaN y = False"
| "f32_le x NaN = False"

definition SILERO_WINDOW_SAMPLES :: nat where "SILERO_WINDOW_SAMPLES = 512"
definition SILERO_SPEECH_THRESHOLD :: f32 where "SILERO_SPEECH_THRESHOLD = Finite (1 / 2)"
definition SILERO_ONSET_FRAMES :: u16 where "SILERO_ONSET_FRAMES = 1"
definition SILERO_MINIMUM_SPEECH_FRAMES :: u16 where "SILERO_MINIMUM_SPEECH_FRAMES = 4"
definition SILERO_HANGOVER_FRAMES :: u16 where "SILERO_HANGOVER_FRAMES = 8"
definition CAPTURE_SAMPLE_RATE :: u32 where "CAPTURE_SAMPLE_RATE = 16000"
definition MAX_UTTERANCE_MS :: u64 where "MAX_UTTERANCE_MS = 30000"
definition MAX_UTTERANCE_SAMPLES :: nat where
  "MAX_UTTERANCE_SAMPLES = unat CAPTURE_SAMPLE_RATE * unat MAX_UTTERANCE_MS div 1000"

text \<open>The errors of endpointing and warm inference; the variants of model loading do not occur here.\<close>

datatype InferenceBackend = Cuda | Cpu

datatype VadError =
    FrameLength nat nat
  | InvalidProbability f32
  | UtteranceTooLong u64
  | Inference InferenceBackend rstr
  | OutputContract rstr

record VadEndpoint =
  ve_start_sample :: u64
  ve_speech_end_sample :: u64
  ve_close_sample :: u64

record VoiceSegment =
  vs_samples :: "f32 list"
  vs_endpoint :: VadEndpoint

datatype NeuralVadEvent =
    SpeechOnset u64 u64
  | SpeechSamples "f32 list"
  | Segment VoiceSegment
  | RejectedTransient VadEndpoint

datatype EndpointState =
    Silence
  | Candidate u64 u16
  | Speech (sp_start_sample: u64) (sp_voiced: u16) (sp_quiet: u16) (sp_end_sample: u64) (sp_announced: bool)

record NeuralVadState =
  nv_state :: EndpointState
  nv_frame :: "f32 list"
  nv_frame_len :: nat
  nv_segment :: "f32 list"
  nv_processed :: u64

definition span_ms :: "VoiceSegment \<Rightarrow> u64" where
  "span_ms s =
     saturating_mul (saturating_sub (ve_close_sample (vs_endpoint s)) (ve_start_sample (vs_endpoint s))) 1000
       div ucast CAPTURE_SAMPLE_RATE"

definition vad_new :: "nat \<Rightarrow> (VadError, NeuralVadState) result" where
  "vad_new detector_frame_samples =
     (if detector_frame_samples \<noteq> SILERO_WINDOW_SAMPLES
      then Inl (FrameLength SILERO_WINDOW_SAMPLES detector_frame_samples)
      else Inr \<lparr>nv_state = Silence, nv_frame = replicate SILERO_WINDOW_SAMPLES (Finite 0), nv_frame_len = 0,
                nv_segment = [], nv_processed = 0\<rparr>)"

definition append_frame :: "NeuralVadState \<Rightarrow> NeuralVadState \<times> (VadError, unit) result" where
  "append_frame v =
     (if MAX_UTTERANCE_SAMPLES < length (nv_segment v) + SILERO_WINDOW_SAMPLES
      then (v\<lparr>nv_segment := [], nv_state := Silence\<rparr>, Inl (UtteranceTooLong MAX_UTTERANCE_MS))
      else (v\<lparr>nv_segment := nv_segment v @ nv_frame v\<rparr>, Inr ()))"

definition emit_progress :: "NeuralVadState \<Rightarrow> u64 \<Rightarrow> u64 \<Rightarrow> bool \<Rightarrow> bool \<Rightarrow> NeuralVadEvent list" where
  "emit_progress v start_sample decision_sample was_announced now_announced =
     (if \<not> was_announced \<and> now_announced
      then [SpeechOnset start_sample decision_sample, SpeechSamples (nv_segment v)]
      else if was_announced then [SpeechSamples (nv_frame v)] else [])"

text \<open>\<open>process_frame\<close> returns the events it pushes; the caller appends them.\<close>

definition process_frame ::
  "NeuralVadState \<Rightarrow> bool \<Rightarrow> NeuralVadState \<times> (VadError, NeuralVadEvent list) result" where
  "process_frame v0 speech_positive =
     (let start = nv_processed v0;
          end' = saturating_add start (of_nat SILERO_WINDOW_SAMPLES);
          v = v0\<lparr>nv_processed := end'\<rparr>;
          appended = (\<lambda>w k. case append_frame w of (w', Inl e) \<Rightarrow> (w', Inl e) | (w', Inr _) \<Rightarrow> k w')
      in case nv_state v of
           Silence \<Rightarrow>
             if speech_positive then
               appended (v\<lparr>nv_segment := []\<rparr>) (\<lambda>w.
                 (w\<lparr>nv_state := if SILERO_ONSET_FRAMES = 1 then Speech start 1 0 end' False else Candidate start 1\<rparr>, Inr []))
             else (v, Inr [])
         | Candidate start_sample onset_frames \<Rightarrow>
             if speech_positive then
               appended v (\<lambda>w.
                 let onset = saturating_add onset_frames 1 in
                 (w\<lparr>nv_state := if SILERO_ONSET_FRAMES \<le> onset then Speech start_sample onset 0 end' False
                                else Candidate start_sample onset\<rparr>, Inr []))
             else (v\<lparr>nv_segment := [], nv_state := Silence\<rparr>, Inr [])
         | Speech start_sample voiced_frames quiet_frames speech_end_sample announced \<Rightarrow>
             if speech_positive then
               appended v (\<lambda>w.
                 let voiced = saturating_add voiced_frames 1;
                     now_announced = (announced \<or> SILERO_MINIMUM_SPEECH_FRAMES \<le> voiced)
                 in (w\<lparr>nv_state := Speech start_sample voiced 0 end' now_announced\<rparr>,
                     Inr (emit_progress w start_sample end' announced now_announced)))
             else
               appended v (\<lambda>w.
                 let quiet = saturating_add quiet_frames 1;
                     rolling = (if announced then [SpeechSamples (nv_frame w)] else [])
                 in if quiet < SILERO_HANGOVER_FRAMES
                    then (w\<lparr>nv_state := Speech start_sample voiced_frames quiet speech_end_sample announced\<rparr>, Inr rolling)
                    else
                      let endpoint = \<lparr>ve_start_sample = start_sample, ve_speech_end_sample = speech_end_sample,
                                      ve_close_sample = end'\<rparr>;
                          w' = w\<lparr>nv_state := Silence, nv_segment := []\<rparr>
                      in if \<not> announced then (w', Inr (rolling @ [RejectedTransient endpoint]))
                         else (w', Inr (rolling @ [Segment \<lparr>vs_samples = nv_segment w, vs_endpoint = endpoint\<rparr>]))))"

type_synonym 'd detector = "'d \<Rightarrow> f32 list \<Rightarrow> 'd \<times> (VadError, f32) result"

definition valid_probability :: "f32 \<Rightarrow> bool" where
  "valid_probability p \<longleftrightarrow> f32_is_finite p \<and> f32_le (Finite 0) p \<and> f32_le p (Finite 1)"

text \<open>The part of the loop body of \<open>push\<close> that runs when the frame is full, and the loop.\<close>

definition evaluate_frame ::
  "'d detector \<Rightarrow> 'd \<Rightarrow> NeuralVadState \<Rightarrow> 'd \<times> NeuralVadState \<times> (VadError, NeuralVadEvent list) result" where
  "evaluate_frame speech_probability d v =
     (case speech_probability d (nv_frame v) of
        (d', Inl e) \<Rightarrow> (d', v, Inl e)
      | (d', Inr probability) \<Rightarrow>
          if \<not> valid_probability probability then (d', v, Inl (InvalidProbability probability))
          else (case process_frame v (f32_le SILERO_SPEECH_THRESHOLD probability) of
                  (v', Inl e) \<Rightarrow> (d', v', Inl e)
                | (v', Inr new) \<Rightarrow> (d', v'\<lparr>nv_frame_len := 0\<rparr>, Inr new)))"

fun vad_push_loop ::
  "'d detector \<Rightarrow> 'd \<Rightarrow> NeuralVadState \<Rightarrow> NeuralVadEvent list \<Rightarrow> f32 list \<Rightarrow>
     ('d \<times> NeuralVadState \<times> (VadError, NeuralVadEvent list) result) option" where
  "vad_push_loop speech_probability d v events [] = Some (d, v, Inr events)"
| "vad_push_loop speech_probability d v events (sample # samples) =
     (if length (nv_frame v) \<le> nv_frame_len v then None
      else let v1 = v\<lparr>nv_frame := (nv_frame v)[nv_frame_len v := sample], nv_frame_len := nv_frame_len v + 1\<rparr> in
        if nv_frame_len v1 = SILERO_WINDOW_SAMPLES then
          (case evaluate_frame speech_probability d v1 of
             (d', v2, Inl e) \<Rightarrow> Some (d', v2, Inl e)
           | (d', v2, Inr new) \<Rightarrow> vad_push_loop speech_probability d' v2 (events @ new) samples)
        else vad_push_loop speech_probability d v1 events samples)"

declare vad_push_loop.simps(2) [simp del]

definition vad_push ::
  "'d detector \<Rightarrow> 'd \<Rightarrow> NeuralVadState \<Rightarrow> f32 list \<Rightarrow>
     ('d \<times> NeuralVadState \<times> (VadError, NeuralVadEvent list) result) option" where
  "vad_push speech_probability d v samples = vad_push_loop speech_probability d v [] samples"

text \<open>A caller that pushes the chunks of a capture until one fails.\<close>

fun vad_push_all ::
  "'d detector \<Rightarrow> 'd \<Rightarrow> NeuralVadState \<Rightarrow> f32 list list \<Rightarrow>
     ('d \<times> NeuralVadState \<times> (VadError, NeuralVadEvent list) result) option" where
  "vad_push_all det d v [] = Some (d, v, Inr [])"
| "vad_push_all det d v (chunk # chunks) =
     (case vad_push det d v chunk of
        None \<Rightarrow> None
      | Some (d1, v1, Inl e) \<Rightarrow> Some (d1, v1, Inl e)
      | Some (d1, v1, Inr events) \<Rightarrow>
          (case vad_push_all det d1 v1 chunks of
             Some (d2, v2, Inr more_events) \<Rightarrow> Some (d2, v2, Inr (events @ more_events))
           | r \<Rightarrow> r))"

section \<open>The frame buffer\<close>

definition frame_ok :: "NeuralVadState \<Rightarrow> bool" where
  "frame_ok v \<longleftrightarrow> length (nv_frame v) = SILERO_WINDOW_SAMPLES \<and> nv_frame_len v < SILERO_WINDOW_SAMPLES"

definition frame_stuck :: "NeuralVadState \<Rightarrow> bool" where
  "frame_stuck v \<longleftrightarrow> length (nv_frame v) = SILERO_WINDOW_SAMPLES \<and> nv_frame_len v = SILERO_WINDOW_SAMPLES"

lemma append_frame_frame [simp]:
  "nv_frame (fst (append_frame v)) = nv_frame v" "nv_frame_len (fst (append_frame v)) = nv_frame_len v"
  by (simp_all add: append_frame_def)

lemma process_frame_frame:
  "nv_frame (fst (process_frame v b)) = nv_frame v \<and> nv_frame_len (fst (process_frame v b)) = nv_frame_len v"
  by (cases "nv_state v")
     (auto simp: process_frame_def Let_def append_frame_def split: if_splits)

text \<open>Storing one sample.\<close>

definition store_sample :: "NeuralVadState \<Rightarrow> f32 \<Rightarrow> NeuralVadState" where
  "store_sample v sample =
     v\<lparr>nv_frame := (nv_frame v)[nv_frame_len v := sample], nv_frame_len := nv_frame_len v + 1\<rparr>"

lemma push_loop_Cons:
  "frame_ok v \<Longrightarrow>
   vad_push_loop det d v events (x # xs) =
     (if nv_frame_len (store_sample v x) = SILERO_WINDOW_SAMPLES
      then case evaluate_frame det d (store_sample v x) of
             (d', v2, Inl e) \<Rightarrow> Some (d', v2, Inl e)
           | (d', v2, Inr new) \<Rightarrow> vad_push_loop det d' v2 (events @ new) xs
      else vad_push_loop det d (store_sample v x) events xs)"
  by (simp add: vad_push_loop.simps(2) frame_ok_def store_sample_def Let_def)

lemma store_sample_frame:
  "frame_ok v \<Longrightarrow>
   (if nv_frame_len (store_sample v x) = SILERO_WINDOW_SAMPLES
    then frame_stuck (store_sample v x) else frame_ok (store_sample v x))"
  by (auto simp: frame_ok_def frame_stuck_def store_sample_def)

lemma evaluate_frame_frame:
  assumes "frame_stuck v" and "evaluate_frame det d v = (d', v', r)"
  shows "if is_ok r then frame_ok v' else frame_stuck v'"
proof -
  have "nv_frame (fst (process_frame v b)) = nv_frame v" "nv_frame_len (fst (process_frame v b)) = nv_frame_len v" for b
    using process_frame_frame by blast+
  with assms show ?thesis
    by (auto simp: evaluate_frame_def frame_stuck_def frame_ok_def SILERO_WINDOW_SAMPLES_def
        split: prod.splits sum.splits if_splits) (metis fst_conv)+
qed

lemma push_loop_frame:
  "frame_ok v \<Longrightarrow>
   \<exists>d' v' r. vad_push_loop det d v events samples = Some (d', v', r) \<and>
     (if is_ok r then frame_ok v' else frame_stuck v')"
proof (induction samples arbitrary: d v events)
  case (Cons x xs)
  let ?v1 = "store_sample v x"
  obtain d' v' r where ev: "evaluate_frame det d ?v1 = (d', v', r)"
    by (cases "evaluate_frame det d ?v1")
  show ?case
  proof (cases "nv_frame_len ?v1 = SILERO_WINDOW_SAMPLES")
    case True
    then have "if is_ok r then frame_ok v' else frame_stuck v'"
      using store_sample_frame [OF Cons.prems, of x] evaluate_frame_frame [OF _ ev] by simp
    with True Cons ev show ?thesis
      by (cases r) (auto simp: push_loop_Cons)
  next
    case False
    with Cons store_sample_frame [OF Cons.prems, of x] show ?thesis
      by (simp add: push_loop_Cons)
  qed
qed simp

lemma push_loop_stuck: "frame_stuck v \<Longrightarrow> vad_push_loop det d v events (x # xs) = None"
  by (simp add: vad_push_loop.simps(2) frame_stuck_def)

lemma push_loop_append:
  "frame_ok v \<Longrightarrow>
   vad_push_loop det d v events (xs @ ys) =
     (case vad_push_loop det d v events xs of
        Some (d', v', Inr out) \<Rightarrow> vad_push_loop det d' v' out ys
      | r \<Rightarrow> r)"
proof (induction xs arbitrary: d v events)
  case (Cons x xs)
  let ?v1 = "store_sample v x"
  obtain d' v' r where ev: "evaluate_frame det d ?v1 = (d', v', r)"
    by (cases "evaluate_frame det d ?v1")
  show ?case
  proof (cases "nv_frame_len ?v1 = SILERO_WINDOW_SAMPLES")
    case True
    then have "if is_ok r then frame_ok v' else frame_stuck v'"
      using store_sample_frame [OF Cons.prems, of x] evaluate_frame_frame [OF _ ev] by simp
    with True Cons ev show ?thesis
      by (cases r) (auto simp: push_loop_Cons)
  next
    case False
    with Cons store_sample_frame [OF Cons.prems, of x] show ?thesis
      by (simp add: push_loop_Cons)
  qed
qed simp

lemma push_loop_events:
  "frame_ok v \<Longrightarrow>
   vad_push_loop det d v events xs =
     map_option (\<lambda>(d', v', r). (d', v', case r of Inl e \<Rightarrow> Inl e | Inr out \<Rightarrow> Inr (events @ out)))
       (vad_push_loop det d v [] xs)"
proof (induction xs arbitrary: d v events)
  case (Cons x xs)
  let ?v1 = "store_sample v x"
  obtain d' v' r where ev: "evaluate_frame det d ?v1 = (d', v', r)"
    by (cases "evaluate_frame det d ?v1")
  show ?case
  proof (cases "nv_frame_len ?v1 = SILERO_WINDOW_SAMPLES")
    case True
    then have ok: "if is_ok r then frame_ok v' else frame_stuck v'"
      using store_sample_frame [OF Cons.prems, of x] evaluate_frame_frame [OF _ ev] by simp
    show ?thesis
    proof (cases r)
      case (Inr new)
      with ok have "frame_ok v'" by simp
      with True Cons.prems ev Inr Cons.IH [of v' d' "events @ new"] Cons.IH [of v' d' new] show ?thesis
        by (auto simp: push_loop_Cons option.map_comp o_def case_prod_beta split: sum.splits intro!: option.map_cong)
    qed (use True Cons.prems ev in \<open>simp add: push_loop_Cons\<close>)
  next
    case False
    with Cons.IH [of ?v1 d events] store_sample_frame [OF Cons.prems, of x] Cons.prems show ?thesis
      by (simp add: push_loop_Cons)
  qed
qed simp

section \<open>What a recogniser hears\<close>

text \<open>
  A rolling recogniser collects the samples it is handed after an onset; \<open>hears\<close> checks a sequence of
  events against that reading. It is \<open>None\<close> on a sequence that breaks the protocol, and a segment has to
  be exactly what was collected, with endpoints that agree with its length and the fixed hangover.
\<close>

definition endpoint_ok :: "VoiceSegment \<Rightarrow> bool" where
  "endpoint_ok s \<longleftrightarrow>
     unat (ve_start_sample (vs_endpoint s)) + length (vs_samples s) = unat (ve_close_sample (vs_endpoint s)) \<and>
     unat (ve_speech_end_sample (vs_endpoint s)) + unat SILERO_HANGOVER_FRAMES * SILERO_WINDOW_SAMPLES =
       unat (ve_close_sample (vs_endpoint s)) \<and>
     unat SILERO_MINIMUM_SPEECH_FRAMES * SILERO_WINDOW_SAMPLES \<le>
       unat (ve_speech_end_sample (vs_endpoint s)) - unat (ve_start_sample (vs_endpoint s)) \<and>
     length (vs_samples s) \<le> MAX_UTTERANCE_SAMPLES"

fun hears :: "f32 list option \<Rightarrow> NeuralVadEvent list \<Rightarrow> f32 list option option" where
  "hears st [] = Some st"
| "hears None (SpeechOnset a b # es) = hears (Some []) es"
| "hears (Some acc) (SpeechSamples xs # es) = hears (Some (acc @ xs)) es"
| "hears (Some acc) (Segment s # es) =
     (if vs_samples s = acc \<and> endpoint_ok s then hears None es else None)"
| "hears None (RejectedTransient e # es) = hears None es"
| "hears st (e # es) = None"

definition collected :: "NeuralVadState \<Rightarrow> f32 list option" where
  "collected v = (case nv_state v of Speech _ _ _ _ True \<Rightarrow> Some (nv_segment v) | _ \<Rightarrow> None)"

text \<open>The invariant of the endpoint state between frames.\<close>

definition vad_inv :: "NeuralVadState \<Rightarrow> bool" where
  "vad_inv v \<longleftrightarrow>
     (case nv_state v of
        Silence \<Rightarrow> True
      | Candidate _ _ \<Rightarrow> False
      | Speech start voiced quiet speech_end announced \<Rightarrow>
          unat start + length (nv_segment v) = unat (nv_processed v) \<and>
          unat speech_end + unat quiet * SILERO_WINDOW_SAMPLES = unat (nv_processed v) \<and>
          unat quiet < unat SILERO_HANGOVER_FRAMES \<and>
          unat start + min (unat voiced) 4 * SILERO_WINDOW_SAMPLES \<le> unat speech_end \<and>
          (announced \<longleftrightarrow> SILERO_MINIMUM_SPEECH_FRAMES \<le> voiced) \<and>
          length (nv_segment v) \<le> MAX_UTTERANCE_SAMPLES)"

lemma hears_append: "hears st (xs @ ys) = Option.bind (hears st xs) (\<lambda>st'. hears st' ys)"
  by (induction st xs rule: hears.induct) simp_all

lemmas silero_defs = SILERO_WINDOW_SAMPLES_def SILERO_ONSET_FRAMES_def SILERO_MINIMUM_SPEECH_FRAMES_def
  SILERO_HANGOVER_FRAMES_def

lemma advance:
  assumes "saturating_add (p :: u64) (of_nat SILERO_WINDOW_SAMPLES) \<noteq> max_of"
  shows "unat (saturating_add p (of_nat SILERO_WINDOW_SAMPLES)) = unat p + 512"
  using assms by (auto simp: saturating_add_def silero_defs unat_add_no_overflow split: if_splits)

lemma append_frame_cases:
  obtains "append_frame v = (v\<lparr>nv_segment := nv_segment v @ nv_frame v\<rparr>, Inr ())"
      "length (nv_segment v) + SILERO_WINDOW_SAMPLES \<le> MAX_UTTERANCE_SAMPLES"
    | "append_frame v = (v\<lparr>nv_segment := [], nv_state := Silence\<rparr>, Inl (UtteranceTooLong MAX_UTTERANCE_MS))"
  by (cases "MAX_UTTERANCE_SAMPLES < length (nv_segment v) + SILERO_WINDOW_SAMPLES")
     (auto simp: append_frame_def)

lemma process_frame_hears:
  assumes "vad_inv v" and "length (nv_frame v) = SILERO_WINDOW_SAMPLES"
    and "process_frame v b = (v', Inr new)" and "nv_processed v' \<noteq> max_of"
  shows "vad_inv v' \<and> hears (collected v) new = Some (collected v')"
proof -
  let ?e = "saturating_add (nv_processed v) (of_nat SILERO_WINDOW_SAMPLES)"
  have "nv_processed v' = ?e"
    using assms(3) by (cases "nv_state v")
      (auto simp: process_frame_def Let_def append_frame_def split: if_splits)
  then have e: "unat ?e = unat (nv_processed v) + 512"
    using assms(4) advance by simp
  show ?thesis
  proof (cases "nv_state v")
    case Silence
    then show ?thesis
      using assms(2,3) e
      by (cases b) (auto simp: process_frame_def Let_def append_frame_def vad_inv_def collected_def silero_defs
          word_le_nat_alt split: if_splits)
  next
    case (Candidate a n)
    with assms(1) show ?thesis by (simp add: vad_inv_def)
  next
    case (Speech start voiced quiet speech_end announced)
    have inv: "unat start + length (nv_segment v) = unat (nv_processed v)"
        "unat speech_end + unat quiet * 512 = unat (nv_processed v)" "unat quiet < 8"
        "unat start + min (unat voiced) 4 * 512 \<le> unat speech_end" "announced \<longleftrightarrow> 4 \<le> unat voiced"
      using assms(1) Speech by (auto simp: vad_inv_def silero_defs word_le_nat_alt)
    have len: "length (nv_frame v) = 512" using assms(2) by (simp add: silero_defs)
    have room: "length (nv_segment v) + 512 \<le> MAX_UTTERANCE_SAMPLES"
      using assms(3) Speech by (cases b) (auto simp: process_frame_def Let_def append_frame_def silero_defs split: if_splits)
    show ?thesis
    proof (cases b)
      case True
      have voiced: "unat (saturating_add voiced 1) = min (unat voiced + 1) 65535"
        by (simp add: unat_saturating_add)
      then have "4 \<le> unat (saturating_add voiced 1) \<longleftrightarrow> 3 \<le> unat voiced" by auto
      then show ?thesis
        using True Speech assms(3) inv len room e voiced
        by (auto simp: process_frame_def Let_def append_frame_def vad_inv_def collected_def silero_defs emit_progress_def
            word_le_nat_alt split: if_splits)
    next
      case False
      have quiet: "unat (saturating_add quiet 1) = unat quiet + 1"
        using inv(3) by (simp add: unat_saturating_add)
      show ?thesis
        using False Speech assms(3) inv len room e quiet
        by (auto simp: process_frame_def Let_def append_frame_def vad_inv_def collected_def silero_defs endpoint_ok_def
            word_le_nat_alt word_less_nat_alt split: if_splits)
    qed
  qed
qed

lemma process_frame_processed:
  "nv_processed (fst (process_frame v b)) = saturating_add (nv_processed v) (of_nat SILERO_WINDOW_SAMPLES)"
  by (cases "nv_state v") (auto simp: process_frame_def Let_def append_frame_def)

lemma evaluate_frame_ok:
  assumes "evaluate_frame det d v = (d', v', Inr new)"
  obtains b v2 where "process_frame v b = (v2, Inr new)" and "v' = v2\<lparr>nv_frame_len := 0\<rparr>"
  using assms by (auto simp: evaluate_frame_def split: prod.splits sum.splits if_splits)

lemma frame_len_irrelevant [simp]:
  "vad_inv (v\<lparr>nv_frame_len := n\<rparr>) = vad_inv v" "collected (v\<lparr>nv_frame_len := n\<rparr>) = collected v"
  by (cases "nv_state v"; simp add: vad_inv_def collected_def)+

lemma store_sample_simps [simp]:
  "vad_inv (store_sample v x) = vad_inv v" "collected (store_sample v x) = collected v"
  "nv_processed (store_sample v x) = nv_processed v"
  by (cases "nv_state v"; simp add: store_sample_def vad_inv_def collected_def)+

lemma evaluate_frame_processed:
  "evaluate_frame det d v = (d', v', Inr new) \<Longrightarrow> nv_processed v \<le> nv_processed v'"
proof (erule evaluate_frame_ok)
  fix b v2
  assume "process_frame v b = (v2, Inr new)" and "v' = v2\<lparr>nv_frame_len := 0\<rparr>"
  with process_frame_processed [of v b] show "nv_processed v \<le> nv_processed v'"
    by (simp add: saturating_add_mono)
qed

lemma evaluate_frame_hears:
  assumes "vad_inv v" and "frame_stuck v" and "evaluate_frame det d v = (d', v', Inr new)"
    and "nv_processed v' \<noteq> max_of"
  shows "vad_inv v' \<and> hears (collected v) new = Some (collected v')"
proof -
  from assms(3) obtain b v2 where pf: "process_frame v b = (v2, Inr new)" and v': "v' = v2\<lparr>nv_frame_len := 0\<rparr>"
    by (rule evaluate_frame_ok)
  with process_frame_hears [OF assms(1) _ pf] assms(2,4) show ?thesis
    by (simp add: frame_stuck_def)
qed

text \<open>One round of the loop that ends well: either the frame is not full yet, or it was evaluated.\<close>

lemma push_loop_ok_cases:
  assumes "frame_ok v" and "vad_push_loop det d v events (x # xs) = Some (d', v', Inr out)"
  obtains "frame_ok (store_sample v x)" "vad_push_loop det d (store_sample v x) events xs = Some (d', v', Inr out)"
  | d1 v1 new where "frame_stuck (store_sample v x)" "evaluate_frame det d (store_sample v x) = (d1, v1, Inr new)"
      "frame_ok v1" "vad_push_loop det d1 v1 (events @ new) xs = Some (d', v', Inr out)"
proof (cases "nv_frame_len (store_sample v x) = SILERO_WINDOW_SAMPLES")
  case True
  then have stuck: "frame_stuck (store_sample v x)"
    using store_sample_frame [OF assms(1), of x] by simp
  obtain d1 v1 r where ev: "evaluate_frame det d (store_sample v x) = (d1, v1, r)"
    by (cases "evaluate_frame det d (store_sample v x)")
  with assms True obtain new where r: "r = Inr new"
    by (cases r) (auto simp: push_loop_Cons)
  from stuck ev r evaluate_frame_frame [OF stuck ev] assms True show ?thesis
    by (intro that(2)) (auto simp: push_loop_Cons)
next
  case False
  with assms store_sample_frame [OF assms(1), of x] show ?thesis
    by (intro that(1)) (simp_all add: push_loop_Cons)
qed

lemma push_loop_processed:
  "frame_ok v \<Longrightarrow> vad_push_loop det d v events xs = Some (d', v', Inr out) \<Longrightarrow> nv_processed v \<le> nv_processed v'"
proof (induction xs arbitrary: d v events)
  case (Cons x xs)
  from Cons.prems show ?case
  proof (cases rule: push_loop_ok_cases)
    case 1
    with Cons.IH show ?thesis by fastforce
  next
    case (2 d1 v1 new)
    with Cons.IH [OF 2(3,4)] evaluate_frame_processed [OF 2(2)] show ?thesis by simp
  qed
qed simp

lemma push_loop_hears:
  assumes "frame_ok v" and "vad_inv v" and "vad_push_loop det d v events xs = Some (d', v', Inr out)"
    and "nv_processed v' \<noteq> max_of"
  shows "vad_inv v' \<and> (\<exists>new. out = events @ new \<and> hears (collected v) new = Some (collected v'))"
  using assms
proof (induction xs arbitrary: d v events)
  case (Cons x xs)
  from Cons.prems(1,3) show ?case
  proof (cases rule: push_loop_ok_cases)
    case 1
    with Cons.IH [OF 1(1) _ 1(2)] Cons.prems(2,4) show ?thesis by simp
  next
    case (2 d1 v1 new)
    have "nv_processed v1 \<noteq> max_of"
      using push_loop_processed [OF 2(3,4)] Cons.prems(4) by (metis le_max_of order_antisym)
    then have step: "vad_inv v1" "hears (collected v) new = Some (collected v1)"
      using evaluate_frame_hears [OF _ 2(1,2)] Cons.prems(2) by simp_all
    from Cons.IH [OF 2(3) step(1) 2(4) Cons.prems(4)] step(2) show ?thesis
      by (auto simp: hears_append)
  qed
qed simp

section \<open>Properties\<close>

lemma push_all_concat:
  assumes "frame_ok v"
  shows "vad_push_all det d v chunks = vad_push det d v (concat chunks)"
  using assms
proof (induction chunks arbitrary: d v)
  case (Cons c cs)
  obtain d1 v1 r where c: "vad_push_loop det d v [] c = Some (d1, v1, r)" "if is_ok r then frame_ok v1 else frame_stuck v1"
    using push_loop_frame [OF Cons.prems, of det d "[]" c] by auto
  show ?case
  proof (cases r)
    case (Inl e)
    with c Cons.prems show ?thesis
      by (simp add: vad_push_def push_loop_append)
  next
    case (Inr out)
    with c have ok: "frame_ok v1" by simp
    from Cons.IH [OF ok, of d1] c Inr Cons.prems push_loop_events [OF ok, of det d1 out "concat cs"] show ?thesis
      by (auto simp: vad_push_def push_loop_append split: option.splits sum.splits prod.splits)
  qed
qed (simp add: vad_push_def)


abbreviation fresh_vad :: NeuralVadState where
  "fresh_vad \<equiv> projr (vad_new SILERO_WINDOW_SAMPLES)"

lemma fresh_vad_ok: "frame_ok fresh_vad" "vad_inv fresh_vad" "collected fresh_vad = None"
  by (simp_all add: vad_new_def frame_ok_def vad_inv_def collected_def SILERO_WINDOW_SAMPLES_def)

text \<open>
  C40. Gated speech reaches rolling recognition exactly once. However a capture is chunked, when all
  chunks are accepted the events are those of pushing the samples at once, and they read as a protocol:
  after each onset the rolling samples, put together, are exactly the samples of the segment that closes
  it; a rejected transient releases no samples; every segment has endpoints that match its length, ends
  with the eight-frame hangover, has at least four frames of speech and is at most thirty seconds long.
  What has been released of an open segment is exactly what the state retains.
\<close>

theorem vad_rolling_exactly_once:
  assumes "vad_push_all det d fresh_vad chunks = Some (d', v', Inr events)" and "nv_processed v' \<noteq> max_of"
  shows "hears None events = Some (collected v') \<and>
    vad_push det d fresh_vad (concat chunks) = Some (d', v', Inr events)"
proof -
  have whole: "vad_push det d fresh_vad (concat chunks) = Some (d', v', Inr events)"
    using assms(1) push_all_concat [OF fresh_vad_ok(1)] by metis
  with push_loop_hears [OF fresh_vad_ok(1,2) _ assms(2)] fresh_vad_ok(3) show ?thesis
    by (fastforce simp: vad_push_def)
qed

text \<open>A full frame pushed into a state between frames is evaluated as it is.\<close>

lemma push_loop_partial:
  assumes "length (nv_frame v) = SILERO_WINDOW_SAMPLES" and "nv_frame_len v + length xs < SILERO_WINDOW_SAMPLES"
  shows "vad_push_loop det d v events (xs @ ys) =
    vad_push_loop det d (v\<lparr>nv_frame := take (nv_frame_len v) (nv_frame v) @ xs @ drop (nv_frame_len v + length xs) (nv_frame v),
      nv_frame_len := nv_frame_len v + length xs\<rparr>) events ys"
  using assms
proof (induction xs arbitrary: v)
  case (Cons x xs)
  have "vad_push_loop det d v events ((x # xs) @ ys) = vad_push_loop det d (store_sample v x) events (xs @ ys)"
    using Cons.prems push_loop_Cons [of v det d events x "xs @ ys"] by (simp add: frame_ok_def store_sample_def)
  also note Cons.IH [of "store_sample v x"]
  finally show ?case
    using Cons.prems by (simp add: store_sample_def take_Suc_conv_app_nth upd_conv_take_nth_drop add.commute)
qed simp

lemma push_full_frame:
  assumes "length (nv_frame v) = 512" and "nv_frame_len v = 0" and "length frame = 512"
  shows "vad_push_loop det d v events (frame @ rest) =
    (case evaluate_frame det d (v\<lparr>nv_frame := frame, nv_frame_len := 512\<rparr>) of
       (d', v', Inl e) \<Rightarrow> Some (d', v', Inl e)
     | (d', v', Inr new) \<Rightarrow> vad_push_loop det d' v' (events @ new) rest)"
proof -
  obtain xs x where frame: "frame = xs @ [x]" "length xs = 511"
    using assms(3) by (cases frame rule: rev_cases) auto
  let ?v = "v\<lparr>nv_frame := xs @ drop 511 (nv_frame v), nv_frame_len := 511\<rparr>"
  have "vad_push_loop det d v events (frame @ rest) = vad_push_loop det d ?v events (x # rest)"
    using push_loop_partial [of v xs det d events "x # rest"] assms frame by (simp add: SILERO_WINDOW_SAMPLES_def)
  moreover have "store_sample ?v x = v\<lparr>nv_frame := frame, nv_frame_len := 512\<rparr>"
  proof -
    have "length (drop 511 (nv_frame v)) = 1" using assms(1) by simp
    then obtain y where "drop 511 (nv_frame v) = [y]" by (metis One_nat_def length_0_conv length_Suc_conv)
    with frame show ?thesis by (simp add: store_sample_def list_update_append)
  qed
  ultimately show ?thesis
    using push_loop_Cons [of ?v det d events x rest] assms frame
    by (simp add: frame_ok_def SILERO_WINDOW_SAMPLES_def)
qed

definition voiced_frame :: "f32 list" where
  "voiced_frame = replicate 512 (Finite 1)"

definition always_speech :: "unit detector" where
  "always_speech d frame = (d, Inr (Finite 1))"

theorem vad_rolling_exactly_once_witness:
  "\<exists>v. vad_push_all always_speech () fresh_vad [voiced_frame, voiced_frame @ voiced_frame, voiced_frame] =
     Some ((), v, Inr [SpeechOnset 0 2048, SpeechSamples (voiced_frame @ voiced_frame @ voiced_frame @ voiced_frame)]) \<and>
     hears None [SpeechOnset 0 2048, SpeechSamples (voiced_frame @ voiced_frame @ voiced_frame @ voiced_frame)] =
       Some (collected v)"
proof -
  let ?chunks = "[voiced_frame, voiced_frame @ voiced_frame, voiced_frame]"
  let ?events = "[SpeechOnset 0 2048, SpeechSamples (voiced_frame @ voiced_frame @ voiced_frame @ voiced_frame)]"
  have len: "length voiced_frame = 512" by (simp add: voiced_frame_def)
  have "\<exists>v. vad_push always_speech () fresh_vad (voiced_frame @ voiced_frame @ voiced_frame @ voiced_frame @ []) =
      Some ((), v, Inr ?events) \<and> nv_processed v = 2048"
    unfolding vad_push_def
    by (simp add: push_full_frame push_full_frame [where rest = "[]", simplified] len vad_new_def evaluate_frame_def always_speech_def valid_probability_def
        f32_is_finite_def SILERO_SPEECH_THRESHOLD_def process_frame_def append_frame_def emit_progress_def
        silero_defs MAX_UTTERANCE_SAMPLES_def CAPTURE_SAMPLE_RATE_def MAX_UTTERANCE_MS_def saturating_add_def
        word_le_nat_alt)
  then obtain v where v: "vad_push_all always_speech () fresh_vad ?chunks = Some ((), v, Inr ?events)"
      "nv_processed v = 2048"
    using push_all_concat [OF fresh_vad_ok(1), of always_speech "()" ?chunks] by auto
  have "nv_processed v \<noteq> max_of"
    unfolding v(2) by code_simp
  from vad_rolling_exactly_once [OF v(1) this] v(1) show ?thesis by blast
qed

text \<open>
  Errors of the endpointer. Pushing samples into a fresh state never panics, but a push that fails
  (a detector error, a probability outside the unit interval, an utterance over the limit) leaves the
  frame buffer full: the next push of any sample indexes past the frame and panics, although the
  over-long utterance itself resets the state for the next one.
\<close>

theorem vad_error_poisons:
  "\<exists>d' v' r. vad_push_all det d fresh_vad chunks = Some (d', v', r) \<and>
     (if is_ok r then nv_frame_len v' < SILERO_WINDOW_SAMPLES
      else vad_push det2 d2 v' (sample # samples) = None)"
proof -
  obtain d' v' r where "vad_push det d fresh_vad (concat chunks) = Some (d', v', r)"
      "if is_ok r then frame_ok v' else frame_stuck v'"
    using push_loop_frame [OF fresh_vad_ok(1), of det d "[]" "concat chunks"] by (auto simp: vad_push_def)
  then show ?thesis
    using push_all_concat [OF fresh_vad_ok(1), of det d chunks] push_loop_stuck
    by (cases r) (auto simp: vad_push_def frame_ok_def)
qed

end
