(* ===== verification/Idempotency.thy ===== *)
theory Idempotency
  imports Rust_Prelude
begin

text \<open>
  The idempotency store of the HTTP gateway (\<open>gateway/http/idempotency.rs\<close>): which mutating requests
  may run, which are replayed, and which are refused. The table is a list of rows; a transaction that
  returns an error is rolled back. Errors of SQLite itself leave the table unchanged and are not modelled.
\<close>

definition COMPLETED_TTL_MS :: u64 where "COMPLETED_TTL_MS = 24 * 60 * 60 * 1000"
definition AMBIGUOUS_TTL_MS :: u64 where "AMBIGUOUS_TTL_MS = 7 * COMPLETED_TTL_MS"
definition MAX_ROWS :: nat where "MAX_ROWS = 100000"
definition MAX_REPLAY_BODY :: nat where "MAX_REPLAY_BODY = 1024 * 1024"

datatype IdempotencyError = Full | InvalidState string | ResponseTooLarge

record StoredResponse =
  sr_status :: u16
  sr_body :: "u8 list"

datatype Reservation = Fresh | InProgress | Replay StoredResponse | Conflict | Ambiguous

record request_row =
  rq_principal :: rstr
  rq_key_hash :: "u8 list"
  rq_fingerprint :: "u8 list"
  rq_state :: string
  rq_created_at_ms :: int
  rq_updated_at_ms :: int
  rq_expires_at_ms :: int
  rq_status :: "int option"
  rq_body :: "u8 list option"

record IdempotencyStore =
  is_rows :: "request_row list"
  is_max_rows :: nat

definition sqlite_i64 :: "u64 \<Rightarrow> (IdempotencyError, int) result" where
  "sqlite_i64 v =
     (if v \<le> 9223372036854775807 then Inr (uint v) else Inl (InvalidState ''timestamp exceeds SQLite range''))"

definition set_ambiguous :: "int \<Rightarrow> int \<Rightarrow> request_row \<Rightarrow> request_row" where
  "set_ambiguous now expires r =
     r\<lparr>rq_state := ''ambiguous'', rq_updated_at_ms := now, rq_expires_at_ms := expires,
       rq_status := None, rq_body := None\<rparr>"

text \<open>Opening the store over the rows the file already has.\<close>

definition open_with_max_rows :: "request_row list \<Rightarrow> u64 \<Rightarrow> nat \<Rightarrow> (IdempotencyError, IdempotencyStore) result" where
  "open_with_max_rows rows now_ms max_rows =
     and_then (sqlite_i64 now_ms) (\<lambda>now.
     and_then (sqlite_i64 (now_ms + AMBIGUOUS_TTL_MS)) (\<lambda>expires.
       Inr \<lparr>is_rows = map (\<lambda>r. if rq_state r = ''in_flight'' then set_ambiguous now expires r else r) rows,
            is_max_rows = max_rows\<rparr>))"

definition idempotency_open :: "request_row list \<Rightarrow> u64 \<Rightarrow> (IdempotencyError, IdempotencyStore) result" where
  "idempotency_open rows now_ms = open_with_max_rows rows now_ms MAX_ROWS"

definition stored_reservation :: "request_row \<Rightarrow> u8 list \<Rightarrow> (IdempotencyError, Reservation) result" where
  "stored_reservation r fingerprint =
     (if rq_fingerprint r \<noteq> fingerprint then Inr Conflict
      else if rq_state r = ''in_flight'' then Inr InProgress
      else if rq_state r = ''ambiguous'' then Inr Ambiguous
      else if rq_state r = ''completed'' \<or> rq_state r = ''known_error'' then
        (case rq_status r of
           None \<Rightarrow> Inl (InvalidState (rq_state r @ '' row has no HTTP status''))
         | Some status \<Rightarrow>
             if \<not> (0 \<le> status \<and> status < 65536)
             then Inl (InvalidState (rq_state r @ '' row has invalid HTTP status''))
             else (case rq_body r of
                     None \<Rightarrow> Inl (InvalidState (rq_state r @ '' row has no body''))
                   | Some body \<Rightarrow> Inr (Replay \<lparr>sr_status = word_of_int status, sr_body = body\<rparr>)))
      else Inl (InvalidState (rq_state r)))"

definition reserve ::
  "IdempotencyStore \<Rightarrow> rstr \<Rightarrow> u8 list \<Rightarrow> u8 list \<Rightarrow> u64 \<Rightarrow>
     IdempotencyStore \<times> (IdempotencyError, Reservation) result" where
  "reserve s princ key_hash fingerprint now_ms =
     (case sqlite_i64 now_ms of
        Inl e \<Rightarrow> (s, Inl e)
      | Inr now \<Rightarrow>
          let live = filter (\<lambda>r. \<not> rq_expires_at_ms r \<le> now) (is_rows s) in
          (case find (\<lambda>r. rq_principal r = princ \<and> rq_key_hash r = key_hash) live of
             Some r \<Rightarrow> (s\<lparr>is_rows := live\<rparr>, stored_reservation r fingerprint)
           | None \<Rightarrow>
               if is_max_rows s \<le> length live then (s, Inl Full)
               else (case sqlite_i64 (now_ms + AMBIGUOUS_TTL_MS) of
                       Inl e \<Rightarrow> (s, Inl e)
                     | Inr expires \<Rightarrow>
                         (s\<lparr>is_rows := live @
                              [\<lparr>rq_principal = princ, rq_key_hash = key_hash, rq_fingerprint = fingerprint,
                                rq_state = ''in_flight'', rq_created_at_ms = now, rq_updated_at_ms = now,
                                rq_expires_at_ms = expires, rq_status = None, rq_body = None\<rparr>]\<rparr>, Inr Fresh))))"

definition owns :: "rstr \<Rightarrow> u8 list \<Rightarrow> u8 list \<Rightarrow> request_row \<Rightarrow> bool" where
  "owns princ key_hash fingerprint r \<longleftrightarrow>
     rq_principal r = princ \<and> rq_key_hash r = key_hash \<and> rq_fingerprint r = fingerprint \<and>
     rq_state r = ''in_flight''"

text \<open>\<open>UPDATE \<dots> WHERE\<close> the row is owned, with the check that exactly one row changed.\<close>

definition update_owned ::
  "(request_row \<Rightarrow> bool) \<Rightarrow> (request_row \<Rightarrow> request_row) \<Rightarrow> string \<Rightarrow> IdempotencyStore \<Rightarrow>
     IdempotencyStore \<times> (IdempotencyError, unit) result" where
  "update_owned p f msg s =
     (s\<lparr>is_rows := map (\<lambda>r. if p r then f r else r) (is_rows s)\<rparr>,
      if length (filter p (is_rows s)) \<noteq> 1 then Inl (InvalidState msg) else Inr ())"

definition complete_request ::
  "IdempotencyStore \<Rightarrow> rstr \<Rightarrow> u8 list \<Rightarrow> u8 list \<Rightarrow> StoredResponse \<Rightarrow> bool \<Rightarrow> u64 \<Rightarrow>
     IdempotencyStore \<times> (IdempotencyError, unit) result" where
  "complete_request s princ key_hash fingerprint response known_error now_ms =
     (if MAX_REPLAY_BODY < length (sr_body response) then (s, Inl ResponseTooLarge)
      else case sqlite_i64 now_ms of
             Inl e \<Rightarrow> (s, Inl e)
           | Inr now \<Rightarrow>
               (case sqlite_i64 (now_ms + COMPLETED_TTL_MS) of
                  Inl e \<Rightarrow> (s, Inl e)
                | Inr expires \<Rightarrow>
                    update_owned (owns princ key_hash fingerprint)
                      (\<lambda>r. r\<lparr>rq_state := (if known_error then ''known_error'' else ''completed''),
                              rq_updated_at_ms := now, rq_expires_at_ms := expires,
                              rq_status := Some (uint (sr_status response)), rq_body := Some (sr_body response)\<rparr>)
                      ''completion did not own one in-flight row'' s))"

definition mark_ambiguous ::
  "IdempotencyStore \<Rightarrow> rstr \<Rightarrow> u8 list \<Rightarrow> u8 list \<Rightarrow> u64 \<Rightarrow>
     IdempotencyStore \<times> (IdempotencyError, unit) result" where
  "mark_ambiguous s princ key_hash fingerprint now_ms =
     (case sqlite_i64 now_ms of
        Inl e \<Rightarrow> (s, Inl e)
      | Inr now \<Rightarrow>
          (case sqlite_i64 (now_ms + AMBIGUOUS_TTL_MS) of
             Inl e \<Rightarrow> (s, Inl e)
           | Inr expires \<Rightarrow>
               update_owned (owns princ key_hash fingerprint) (set_ambiguous now expires)
                 ''ambiguity transition did not own one in-flight row'' s))"

section \<open>The gateway's calls\<close>

text \<open>The calls of a gateway over its life; \<open>Restart\<close> is a crash followed by a new open of the same file.\<close>

datatype idempotency_call =
    Restart (call_time: u64)
  | Reserve rstr "u8 list" "u8 list" (call_time: u64)
  | Complete rstr "u8 list" "u8 list" StoredResponse bool (call_time: u64)
  | MarkAmbiguous rstr "u8 list" "u8 list" (call_time: u64)

datatype idempotency_answer = Reserved Reservation | Done | Refused IdempotencyError

definition answer :: "('a \<Rightarrow> idempotency_answer) \<Rightarrow> (IdempotencyError, 'a) result \<Rightarrow> idempotency_answer" where
  "answer f r = (case r of Inl e \<Rightarrow> Refused e | Inr x \<Rightarrow> f x)"

fun idempotency_step :: "IdempotencyStore \<Rightarrow> idempotency_call \<Rightarrow> IdempotencyStore \<times> idempotency_answer" where
  "idempotency_step s (Restart t) =
     (case open_with_max_rows (is_rows s) t (is_max_rows s) of Inl e \<Rightarrow> (s, Refused e) | Inr s' \<Rightarrow> (s', Done))"
| "idempotency_step s (Reserve p k f t) = (let (s', r) = reserve s p k f t in (s', answer Reserved r))"
| "idempotency_step s (Complete p k f resp b t) =
     (let (s', r) = complete_request s p k f resp b t in (s', answer (\<lambda>_. Done) r))"
| "idempotency_step s (MarkAmbiguous p k f t) =
     (let (s', r) = mark_ambiguous s p k f t in (s', answer (\<lambda>_. Done) r))"

fun idempotency_run :: "IdempotencyStore \<Rightarrow> idempotency_call list \<Rightarrow> idempotency_answer list" where
  "idempotency_run s [] = []"
| "idempotency_run s (c # cs) = (let (s', a) = idempotency_step s c in a # idempotency_run s' cs)"

section \<open>Protection of a granted key\<close>

text \<open>\<open>protected p k T rows\<close>: a row of the key keeps it from being granted again before time \<open>T\<close>.\<close>

definition protected :: "rstr \<Rightarrow> u8 list \<Rightarrow> nat \<Rightarrow> request_row list \<Rightarrow> bool" where
  "protected p k T rows \<longleftrightarrow>
     (\<exists>r\<in>set rows. rq_principal r = p \<and> rq_key_hash r = k \<and> int T \<le> rq_expires_at_ms r)"

lemma sqlite_i64_ok: "sqlite_i64 v = Inr i \<longleftrightarrow> v \<le> 9223372036854775807 \<and> i = uint v"
  by (auto simp: sqlite_i64_def)

lemma uint_less: "uint (t :: u64) < int T \<longleftrightarrow> unat t < T"
  unfolding uint_nat by (simp only: of_nat_less_iff)

lemma ttl_values: "unat COMPLETED_TTL_MS = 86400000" "unat AMBIGUOUS_TTL_MS = 604800000"
  by (simp_all add: COMPLETED_TTL_MS_def AMBIGUOUS_TTL_MS_def)

lemma expiry_after:
  assumes "sqlite_i64 t = Inr now" and "sqlite_i64 (t + ttl) = Inr expires" and "unat ttl \<le> 604800000"
  shows "expires = uint t + int (unat ttl)"
proof -
  have "unat t \<le> 9223372036854775807"
    using assms(1) by (simp add: sqlite_i64_ok word_le_nat_alt)
  then have "unat (t + ttl) = unat t + unat ttl"
    using assms(3) by (intro unat_add_no_overflow) simp
  moreover have "expires = uint (t + ttl)"
    using assms(2) by (simp add: sqlite_i64_ok)
  ultimately show ?thesis by (simp only: uint_nat of_nat_add)
qed

lemma protected_map:
  assumes "protected p k T rows"
    and "\<And>r. rq_principal (f r) = rq_principal r \<and> rq_key_hash (f r) = rq_key_hash r \<and>
       (rq_expires_at_ms (f r) = rq_expires_at_ms r \<or> int T \<le> rq_expires_at_ms (f r))"
  shows "protected p k T (map f rows)"
proof -
  obtain r where "r \<in> set rows" "rq_principal r = p" "rq_key_hash r = k" "int T \<le> rq_expires_at_ms r"
    using assms(1) by (auto simp: protected_def)
  with assms(2) [of r] show ?thesis
    unfolding protected_def by (intro bexI [of _ "f r"]) auto
qed

lemma protected_filter:
  assumes "protected p k T rows" and "now < int T"
  shows "protected p k T (filter (\<lambda>r. \<not> rq_expires_at_ms r \<le> now) rows)"
  using assms unfolding protected_def by fastforce

lemma protected_append: "protected p k T rows \<Longrightarrow> protected p k T (rows @ more_rows)"
  by (auto simp: protected_def)

lemma update_owned_protected:
  assumes "protected p k T (is_rows s)"
    and "\<And>r. rq_principal (f r) = rq_principal r \<and> rq_key_hash (f r) = rq_key_hash r \<and> int T \<le> rq_expires_at_ms (f r)"
  shows "protected p k T (is_rows (fst (update_owned q f msg s)))"
  unfolding update_owned_def using assms by (auto intro!: protected_map)

lemma reserve_protected:
  assumes "protected p k T (is_rows s)" and "unat t < T"
  shows "protected p k T (is_rows (fst (reserve s p' k' f t)))"
proof -
  have "protected p k T (filter (\<lambda>r. \<not> rq_expires_at_ms r \<le> now) (is_rows s))" if "sqlite_i64 t = Inr now" for now
    using that assms by (intro protected_filter) (simp_all add: sqlite_i64_ok uint_less)
  then show ?thesis
    using assms(1) by (auto simp: reserve_def Let_def protected_append split: sum.splits option.splits)
qed

lemma reserve_fresh_absent:
  assumes "protected p k T (is_rows s)" and "snd (reserve s p k f t) = Inr Fresh"
  shows "T \<le> unat t"
proof (rule ccontr)
  assume "\<not> T \<le> unat t"
  obtain now where now: "sqlite_i64 t = Inr now"
    using assms(2) by (auto simp: reserve_def split: sum.splits)
  let ?live = "filter (\<lambda>r. \<not> rq_expires_at_ms r \<le> now) (is_rows s)"
  have "protected p k T ?live"
    using assms(1) now \<open>\<not> T \<le> unat t\<close> by (intro protected_filter) (simp_all add: sqlite_i64_ok uint_less)
  then have "find (\<lambda>r. rq_principal r = p \<and> rq_key_hash r = k) ?live \<noteq> None"
    unfolding find_None_iff protected_def by blast
  then obtain r where r: "find (\<lambda>r. rq_principal r = p \<and> rq_key_hash r = k) ?live = Some r" by blast
  have "stored_reservation r f \<noteq> Inr Fresh"
    by (auto simp: stored_reservation_def split: option.splits)
  with assms(2) now r show False by (simp add: reserve_def Let_def)
qed

lemma step_protected:
  assumes "protected p k T (is_rows s)" and "unat (call_time c) < T" and "T \<le> unat (call_time c) + 86400000"
  shows "protected p k T (is_rows (fst (idempotency_step s c)))"
proof -
  have bound: "int T \<le> uint (call_time c) + 86400000"
    using assms(3) unfolding uint_nat by linarith
  show ?thesis
  proof (cases c)
    case (Restart t)
    show ?thesis
    proof (cases "open_with_max_rows (is_rows s) t (is_max_rows s)")
      case (Inr s')
      then obtain now expires where e: "sqlite_i64 t = Inr now" "sqlite_i64 (t + AMBIGUOUS_TTL_MS) = Inr expires"
          "is_rows s' = map (\<lambda>r. if rq_state r = ''in_flight'' then set_ambiguous now expires r else r) (is_rows s)"
        by (auto simp: open_with_max_rows_def result_simps)
      with Inr Restart assms(1) bound expiry_after [OF e(1,2)] ttl_values show ?thesis
        by (auto simp: set_ambiguous_def intro!: protected_map)
    qed (use Restart assms in simp)
  next
    case (Reserve p' k' f t)
    with reserve_protected [OF assms(1), of t] assms(2) show ?thesis
      by (simp add: case_prod_beta Let_def)
  next
    case (Complete p' k' f resp b t)
    have "protected p k T (is_rows (fst (complete_request s p' k' f resp b t)))"
      using assms(1) bound Complete ttl_values
      by (auto simp: complete_request_def dest: expiry_after intro!: update_owned_protected split: sum.splits)
    with Complete show ?thesis by (simp add: case_prod_beta Let_def)
  next
    case (MarkAmbiguous p' k' f t)
    have "protected p k T (is_rows (fst (mark_ambiguous s p' k' f t)))"
      using assms(1) bound MarkAmbiguous ttl_values
      by (auto simp: mark_ambiguous_def set_ambiguous_def dest: expiry_after intro!: update_owned_protected split: sum.splits)
    with MarkAmbiguous show ?thesis by (simp add: case_prod_beta Let_def)
  qed
qed

section \<open>Runs\<close>

definition state_after :: "IdempotencyStore \<Rightarrow> idempotency_call list \<Rightarrow> IdempotencyStore" where
  "state_after s cs = foldl (\<lambda>s c. fst (idempotency_step s c)) s cs"

lemma state_after_simps [simp]:
  "state_after s [] = s" "state_after s (c # cs) = state_after (fst (idempotency_step s c)) cs"
  "state_after s (cs @ [c]) = fst (idempotency_step (state_after s cs) c)"
  by (simp_all add: state_after_def)

lemma run_nth:
  "j < length cs \<Longrightarrow> idempotency_run s cs ! j = snd (idempotency_step (state_after s (take j cs)) (cs ! j))"
proof (induction cs arbitrary: s j)
  case (Cons c cs)
  then show ?case by (cases j) (simp_all add: case_prod_beta Let_def)
qed simp

lemma idempotency_run_length: "length (idempotency_run s cs) = length cs"
  by (induction cs arbitrary: s) (simp_all add: case_prod_beta Let_def)

lemma reserve_fresh_protects:
  assumes "snd (reserve s p k f t) = Inr Fresh"
  shows "protected p k (unat t + 86400000) (is_rows (fst (reserve s p k f t)))"
proof -
  obtain now where now: "sqlite_i64 t = Inr now"
    using assms by (auto simp: reserve_def split: sum.splits)
  have stored: "stored_reservation r f \<noteq> Inr Fresh" for r
    by (auto simp: stored_reservation_def split: option.splits)
  obtain expires where e: "sqlite_i64 (t + AMBIGUOUS_TTL_MS) = Inr expires"
    using assms now stored by (auto simp: reserve_def Let_def split: sum.splits option.splits if_splits)
  have "int (unat t + 86400000) \<le> expires"
    using expiry_after [OF now e] ttl_values by (simp add: uint_nat del: of_nat_unat)
  then show ?thesis
    using assms now e stored
    by (auto simp: reserve_def Let_def protected_def split: option.splits if_splits)
qed

lemma protected_until:
  assumes "protected p k T (is_rows s) \<or> list_all (\<lambda>c. T \<le> unat (call_time c)) cs"
    and "list_all (\<lambda>c. T \<le> unat (call_time c) + 86400000) cs" and "sorted (map (\<lambda>c. unat (call_time c)) cs)"
    and "j < length cs" and "cs ! j = Reserve p k f t"
    and "snd (idempotency_step (state_after s (take j cs)) (cs ! j)) = Reserved Fresh"
  shows "T \<le> unat t"
  using assms
proof (induction cs arbitrary: s j)
  case (Cons c cs)
  show ?case
  proof (cases "T \<le> unat (call_time c)")
    case True
    then have "list_all (\<lambda>c. T \<le> unat (call_time c)) (c # cs)"
      using Cons.prems(3) by (force simp: list_all_iff)
    then show ?thesis
      using Cons.prems(4,5) by (metis idempotency_call.sel(2) list_all_length)
  next
    case False
    then have prot: "protected p k T (is_rows s)" using Cons.prems(1) by auto
    show ?thesis
    proof (cases j)
      case 0
      then have "snd (reserve s p k f t) = Inr Fresh"
        using Cons.prems(5,6) by (auto simp: case_prod_beta Let_def answer_def split: sum.splits)
      with reserve_fresh_absent [OF prot] show ?thesis .
    next
      case (Suc i)
      have "protected p k T (is_rows (fst (idempotency_step s c)))"
        using prot False Cons.prems(2) by (intro step_protected) auto
      with Cons Suc show ?thesis by auto
    qed
  qed
qed simp

text \<open>
  C32. A key runs at most once a day. In any history of reservations, completions, ambiguity marks and
  restarts whose clock does not go back, two reservations of the same principal and key that are both
  granted a fresh execution are at least the completed time-to-live (24 hours) apart, whatever
  fingerprints they carry and however the gateway crashed in between.
\<close>

theorem idempotency_at_most_once:
  assumes "sorted (map (\<lambda>c. unat (call_time c)) calls)" and "i < j" and "j < length calls"
    and "calls ! i = Reserve p k f t" and "idempotency_run s calls ! i = Reserved Fresh"
    and "calls ! j = Reserve p k f' t'" and "idempotency_run s calls ! j = Reserved Fresh"
  shows "unat t + unat COMPLETED_TTL_MS \<le> unat t'"
proof -
  let ?si = "state_after s (take i calls)" and ?rest = "drop (Suc i) calls"
  have split: "take j calls = take i calls @ calls ! i # take (j - Suc i) ?rest"
    using assms(2,3) by (metis Suc_leI add_diff_inverse_nat id_take_nth_drop le_add_diff_inverse leD
        less_trans take_Suc_conv_app_nth take_add append.assoc append_Cons append_Nil)
  have fresh: "snd (reserve ?si p k f t) = Inr Fresh"
    using assms run_nth [of i calls s] by (auto simp: case_prod_beta Let_def answer_def split: sum.splits)
  have "protected p k (unat t + 86400000) (is_rows (fst (idempotency_step ?si (calls ! i))))"
    using reserve_fresh_protects [OF fresh] assms(4) by (simp add: case_prod_beta Let_def)
  then have prot: "protected p k (unat t + 86400000) (is_rows (state_after s (take i calls @ [calls ! i])))"
    by simp
  have "unat t \<le> unat (call_time c)" if "c \<in> set ?rest" for c
  proof -
    obtain n where "n < length ?rest" "c = calls ! (Suc i + n)"
      using \<open>c \<in> set ?rest\<close> by (auto simp: in_set_conv_nth)
    then show ?thesis
      using assms(1,4) sorted_nth_mono [of "map (\<lambda>c. unat (call_time c)) calls" i "Suc i + n"] by simp
  qed
  then have times: "list_all (\<lambda>c. unat t + 86400000 \<le> unat (call_time c) + 86400000) ?rest"
    by (simp add: list_all_iff)
  have after: "state_after s (take j calls) =
      state_after (state_after s (take i calls @ [calls ! i])) (take (j - Suc i) ?rest)"
    unfolding split by (simp add: state_after_def)
  have "sorted (map (\<lambda>c. unat (call_time c)) ?rest)"
    using assms(1) by (simp add: sorted_wrt_drop flip: drop_map)
  from protected_until [OF disjI1 [OF prot] times this, of "j - Suc i" f' t'] assms(2,3,6,7) run_nth [of j calls s]
  show ?thesis by (simp add: after ttl_values)
qed

theorem idempotency_at_most_once_witness:
  "let calls = [Reserve (lit ''a'') [1] [2] 5, Restart 7, Reserve (lit ''a'') [1] [2] 9, Reserve (lit ''a'') [1] [3] 604800007]
   in idempotency_run \<lparr>is_rows = [], is_max_rows = MAX_ROWS\<rparr> calls =
        [Reserved Fresh, Done, Reserved Ambiguous, Reserved Fresh] \<and>
      unat (5 :: u64) + unat COMPLETED_TTL_MS \<le> unat (604800007 :: u64)"
proof -
  let ?calls = "[Reserve (lit ''a'') [1] [2] 5, Restart 7, Reserve (lit ''a'') [1] [2] 9, Reserve (lit ''a'') [1] [3] 604800007]"
  let ?s = "\<lparr>is_rows = [], is_max_rows = MAX_ROWS\<rparr>"
  have run: "idempotency_run ?s ?calls = [Reserved Fresh, Done, Reserved Ambiguous, Reserved Fresh]"
    by (simp add: reserve_def open_with_max_rows_def sqlite_i64_def stored_reservation_def set_ambiguous_def answer_def
        MAX_ROWS_def AMBIGUOUS_TTL_MS_def COMPLETED_TTL_MS_def)
  have "unat (5 :: u64) + unat COMPLETED_TTL_MS \<le> unat (604800007 :: u64)"
    by (rule idempotency_at_most_once [of ?calls 0 3 "lit ''a''" "[1]" "[2]" 5 ?s "[3]"]) (simp_all only: run, simp_all)
  with run show ?thesis by (simp only: Let_def simp_thms)
qed

section \<open>Replays\<close>

abbreviation row_key :: "request_row \<Rightarrow> rstr \<times> u8 list" where
  "row_key r \<equiv> (rq_principal r, rq_key_hash r)"

text \<open>
  \<open>acked\<close> is the set of completions acknowledged so far. Keys are unique, every row is in one of the four
  states of the table's check, and a finished row holds a response that was acknowledged for it.
\<close>

type_synonym completion = "rstr \<times> u8 list \<times> u8 list \<times> StoredResponse"

definition row_ok :: "completion set \<Rightarrow> request_row \<Rightarrow> bool" where
  "row_ok acked r \<longleftrightarrow>
     rq_state r \<in> {''in_flight'', ''ambiguous''} \<or>
     (rq_state r \<in> {''completed'', ''known_error''} \<and>
      (\<exists>resp. (rq_principal r, rq_key_hash r, rq_fingerprint r, resp) \<in> acked \<and>
         rq_status r = Some (uint (sr_status resp)) \<and> rq_body r = Some (sr_body resp)))"

definition store_ok :: "completion set \<Rightarrow> IdempotencyStore \<Rightarrow> bool" where
  "store_ok acked s \<longleftrightarrow> distinct (map row_key (is_rows s)) \<and> (\<forall>r\<in>set (is_rows s). row_ok acked r)"

fun completion_of :: "idempotency_call \<Rightarrow> idempotency_answer \<Rightarrow> completion set" where
  "completion_of (Complete p k f resp b t) Done = {(p, k, f, resp)}"
| "completion_of c a = {}"

lemma store_ok_mono: "store_ok A s \<Longrightarrow> A \<subseteq> B \<Longrightarrow> store_ok B s"
  unfolding store_ok_def row_ok_def by blast

lemma store_ok_map:
  assumes "store_ok A s" and "\<And>r. row_key (f r) = row_key r"
    and "\<And>r. r \<in> set (is_rows s) \<Longrightarrow> row_ok A r \<Longrightarrow> row_ok B (f r)"
  shows "store_ok B (s\<lparr>is_rows := map f (is_rows s)\<rparr>)"
  using assms by (auto simp: store_ok_def o_def)

lemma set_ambiguous_ok:
  "row_ok A (set_ambiguous now e r)" "rq_principal (set_ambiguous now e r) = rq_principal r"
  "rq_key_hash (set_ambiguous now e r) = rq_key_hash r"
  by (simp_all add: row_ok_def set_ambiguous_def)

lemma reserve_ok:
  assumes "store_ok A s"
  shows "store_ok A (fst (reserve s p k f t))"
proof -
  have live: "store_ok A (s\<lparr>is_rows := filter P (is_rows s)\<rparr>)" for P
    using assms by (auto simp: store_ok_def distinct_map_filter)
  have new: "store_ok A (s\<lparr>is_rows := filter P (is_rows s) @ [r]\<rparr>)"
    if "find (\<lambda>r. rq_principal r = p \<and> rq_key_hash r = k) (filter P (is_rows s)) = None"
      and "row_key r = (p, k)" and "rq_state r = ''in_flight''" for P r
    using live [of P] that unfolding store_ok_def
    by (auto simp: find_None_iff row_ok_def)
  show ?thesis
    using assms live by (auto simp: reserve_def Let_def intro!: new split: sum.splits option.splits)
qed

lemma count_key:
  assumes "distinct (map row_key rows)" and "r \<in> set rows" and "owns p k f r"
  shows "length (filter (owns p k f) rows) = 1"
  using assms
proof (induction rows)
  case (Cons a rows)
  have none: "filter (owns p k f) rows = []" if "owns p k f a"
  proof -
    have "\<not> owns p k f r" if "r \<in> set rows" for r
      using Cons.prems(1) \<open>owns p k f a\<close> that by (auto simp: owns_def image_iff)
    then show ?thesis by (simp add: filter_empty_conv)
  qed
  show ?case
  proof (cases "owns p k f a")
    case True
    with none show ?thesis by simp
  next
    case False
    with Cons show ?thesis by auto
  qed
qed simp

lemma owned_none:
  assumes "distinct (map row_key (is_rows s))" and "length (filter (owns p k f) (is_rows s)) \<noteq> 1"
  shows "s\<lparr>is_rows := map (\<lambda>r. if owns p k f r then g r else r) (is_rows s)\<rparr> = s"
proof -
  have "map (\<lambda>r. if owns p k f r then g r else r) (is_rows s) = is_rows s"
    using count_key [OF assms(1)] assms(2) by (intro map_idI) auto
  then show ?thesis by simp
qed

lemma step_store_ok:
  assumes "store_ok A s"
  shows "store_ok (A \<union> completion_of c (snd (idempotency_step s c))) (fst (idempotency_step s c))"
proof (cases c)
  case (Restart t)
  show ?thesis
  proof (cases "open_with_max_rows (is_rows s) t (is_max_rows s)")
    case (Inr s')
    then obtain now e where "is_rows s' = map (\<lambda>r. if rq_state r = ''in_flight'' then set_ambiguous now e r else r) (is_rows s)"
      by (auto simp: open_with_max_rows_def result_simps simp del: map_eq_conv)
    then have "store_ok A (s\<lparr>is_rows := is_rows s'\<rparr>)"
      by (auto intro!: store_ok_map [OF assms] simp: set_ambiguous_ok)
    with Inr Restart show ?thesis by (simp add: store_ok_def)
  qed (use Restart assms in simp)
next
  case (Reserve p k f t)
  with reserve_ok [OF assms] show ?thesis
    by (simp add: case_prod_beta Let_def)
next
  case (Complete p k f resp b t)
  show ?thesis
  proof (cases "snd (complete_request s p k f resp b t)")
    case (Inl e)
    then have "fst (complete_request s p k f resp b t) = s"
      using assms owned_none
      by (auto simp: complete_request_def update_owned_def store_ok_def split: sum.splits if_splits)
    with Inl Complete assms show ?thesis
      by (simp add: case_prod_beta Let_def answer_def)
  next
    case (Inr u)
    then have "store_ok (A \<union> {(p, k, f, resp)}) (fst (complete_request s p k f resp b t))"
      unfolding complete_request_def update_owned_def
      by (auto intro!: store_ok_map [OF assms] simp: row_ok_def owns_def split: sum.splits if_splits)
    with Inr Complete show ?thesis
      by (simp add: case_prod_beta Let_def answer_def)
  qed
next
  case (MarkAmbiguous p k f t)
  have "store_ok A (fst (mark_ambiguous s p k f t))"
    unfolding mark_ambiguous_def update_owned_def
    using assms by (auto intro!: store_ok_map simp: set_ambiguous_ok split: sum.splits)
  with MarkAmbiguous show ?thesis by (simp add: case_prod_beta Let_def)
qed


lemma store_ok_after:
  assumes "is_rows s = []"
  shows "store_ok {(p, k, f, resp). \<exists>i b t. i < length cs \<and> cs ! i = Complete p k f resp b t \<and>
    idempotency_run s cs ! i = Done} (state_after s cs)"
proof (induction cs rule: rev_induct)
  case Nil
  with assms show ?case by (simp add: store_ok_def)
next
  case (snoc c cs)
  have run: "idempotency_run s (cs @ [c]) = idempotency_run s cs @ [snd (idempotency_step (state_after s cs) c)]" for c
    by (rule nth_equalityI) (auto simp: idempotency_run_length run_nth nth_append)
  let ?acked = "\<lambda>cs. {(p, k, f, resp). \<exists>i b t. i < length cs \<and> cs ! i = Complete p k f resp b t \<and>
    idempotency_run s cs ! i = Done}"
  have new: "completion_of c (snd (idempotency_step (state_after s cs) c)) \<subseteq> ?acked (cs @ [c])"
    by (cases c; cases "snd (idempotency_step (state_after s cs) c)")
       (auto simp: run nth_append idempotency_run_length intro!: exI [of _ "length cs"])
  have old: "?acked cs \<subseteq> ?acked (cs @ [c])"
  proof clarify
    fix p k f resp i b t
    assume "i < length cs" "cs ! i = Complete p k f resp b t" "idempotency_run s cs ! i = Done"
    then show "\<exists>i b t. i < length (cs @ [c]) \<and> (cs @ [c]) ! i = Complete p k f resp b t \<and>
        idempotency_run s (cs @ [c]) ! i = Done"
      by (intro exI [of _ i] exI [of _ b] exI [of _ t]) (simp add: run nth_append idempotency_run_length)
  qed
  show ?case
    unfolding state_after_simps(3)
    by (rule store_ok_mono [OF step_store_ok [OF snoc]]) (use old new in blast)
qed

text \<open>
  A replay is the response that was stored: when a reservation on a store that began empty answers
  with a replay, an earlier acknowledged completion by the same principal, for the same key and the same
  request fingerprint, recorded exactly that status and body.
\<close>

theorem idempotency_replay_exact:
  assumes "is_rows s = []" and "j < length calls" and "calls ! j = Reserve p k f t"
    and "idempotency_run s calls ! j = Reserved (Replay resp)"
  shows "\<exists>i < j. \<exists>known_error t'. calls ! i = Complete p k f resp known_error t' \<and>
    idempotency_run s calls ! i = Done"
proof -
  let ?s = "state_after s (take j calls)"
  have "snd (reserve ?s p k f t) = Inr (Replay resp)"
    using assms(2-4) run_nth [of j calls s] by (auto simp: case_prod_beta Let_def answer_def split: sum.splits)
  then obtain rows r where "find (\<lambda>r. rq_principal r = p \<and> rq_key_hash r = k) rows = Some r"
      "set rows \<subseteq> set (is_rows ?s)" and replay: "stored_reservation r f = Inr (Replay resp)"
    by (auto simp: reserve_def Let_def split: sum.splits option.splits if_splits)
  then have r: "r \<in> set (is_rows ?s)" "rq_principal r = p" "rq_key_hash r = k" "rq_fingerprint r = f"
    by (auto simp: find_Some_iff stored_reservation_def split: if_splits)
  obtain resp' i b t' where "i < length (take j calls)" "take j calls ! i = Complete p k f resp' b t'"
      "idempotency_run s (take j calls) ! i = Done" "rq_status r = Some (uint (sr_status resp'))" "rq_body r = Some (sr_body resp')"
    using store_ok_after [OF assms(1), of "take j calls"] r replay
    by (fastforce simp: store_ok_def row_ok_def stored_reservation_def split: if_splits)
  moreover from this replay have "resp' = resp"
    by (auto simp: stored_reservation_def split: if_splits)
  ultimately show ?thesis
    using assms(2) run_nth [of i calls s] run_nth [of i "take j calls" s] by (auto simp: min_def)
qed


theorem idempotency_replay_exact_witness:
  "let calls = [Reserve (lit ''a'') [1] [2] 5, Complete (lit ''a'') [1] [2] \<lparr>sr_status = 201, sr_body = [7]\<rparr> False 6,
       Reserve (lit ''a'') [1] [2] 9]
   in idempotency_run \<lparr>is_rows = [], is_max_rows = MAX_ROWS\<rparr> calls =
        [Reserved Fresh, Done, Reserved (Replay \<lparr>sr_status = 201, sr_body = [7]\<rparr>)] \<and>
      (\<exists>i < 2. \<exists>b t. calls ! i = Complete (lit ''a'') [1] [2] \<lparr>sr_status = 201, sr_body = [7]\<rparr> b t)"
proof -
  let ?calls = "[Reserve (lit ''a'') [1] [2] 5, Complete (lit ''a'') [1] [2] \<lparr>sr_status = 201, sr_body = [7]\<rparr> False 6,
       Reserve (lit ''a'') [1] [2] 9]"
  let ?s = "\<lparr>is_rows = [], is_max_rows = MAX_ROWS\<rparr>"
  have run: "idempotency_run ?s ?calls = [Reserved Fresh, Done, Reserved (Replay \<lparr>sr_status = 201, sr_body = [7]\<rparr>)]"
    by (simp add: reserve_def complete_request_def update_owned_def owns_def sqlite_i64_def stored_reservation_def answer_def
        MAX_ROWS_def MAX_REPLAY_BODY_def AMBIGUOUS_TTL_MS_def COMPLETED_TTL_MS_def)
  have "\<exists>i < 2. \<exists>b t. ?calls ! i = Complete (lit ''a'') [1] [2] \<lparr>sr_status = 201, sr_body = [7]\<rparr> b t \<and>
      idempotency_run ?s ?calls ! i = Done"
    by (rule idempotency_replay_exact [of _ _ _ _ _ _ 9]) (simp_all only: run, simp_all)
  with run show ?thesis unfolding Let_def by blast
qed

end
