(* ===== verification/Event_Window.thy ===== *)
theory Event_Window
  imports Rust_Prelude
begin

text \<open>
  The bounded event buffers of the daemon: the newest \<open>cap\<close> entries of a sequence, each under its
  offset in the whole sequence, with the offsets of the first retained and of the next entry. The
  locale is their contract; a run's and a live thread's buffer interpret it. A buffer \<open>stores\<close> a
  history when it is the suffix of that history the bound leaves.
\<close>

locale event_window =
  fixes cap :: nat
    and first_offset :: "'b \<Rightarrow> u64"
    and next_offset :: "'b \<Rightarrow> u64"
    and entries :: "'b \<Rightarrow> 'e list"
    and entry :: "u64 \<Rightarrow> 'x \<Rightarrow> 'e"
    and accepting :: "'b \<Rightarrow> bool"
    and push :: "'x \<Rightarrow> 'b \<Rightarrow> 'b"
  assumes cap_pos: "0 < cap"
    and push_first: "accepting b \<Longrightarrow>
      first_offset (push x b) = (if length (entries b) = cap then first_offset b + 1 else first_offset b)"
    and push_next: "accepting b \<Longrightarrow> next_offset (push x b) = next_offset b + 1"
    and push_entries: "accepting b \<Longrightarrow>
      entries (push x b) =
        (if length (entries b) = cap then drop 1 (entries b) else entries b) @ [entry (next_offset b) x]"
begin

definition numbered :: "'x list \<Rightarrow> 'e list" where
  "numbered h = map (\<lambda>(i, x). entry (of_nat i) x) (enumerate 0 h)"

definition stores :: "'x list \<Rightarrow> 'b \<Rightarrow> bool" where
  "stores h b \<longleftrightarrow>
     next_offset b = of_nat (length h) \<and> first_offset b = of_nat (length h - cap) \<and>
     entries b = drop (length h - cap) (numbered h)"

lemma length_numbered [simp]: "length (numbered h) = length h"
  by (simp add: numbered_def)

lemma numbered_snoc: "numbered (h @ [x]) = numbered h @ [entry (of_nat (length h)) x]"
  by (simp add: numbered_def enumerate_append_eq)

lemma stores_push:
  assumes "stores h b" and "accepting b"
  shows "stores (h @ [x]) (push x b)"
proof -
  have n: "length (entries b) = min cap (length h)" using assms(1) by (auto simp: stores_def)
  show ?thesis
  proof (cases "length h < cap")
    case True
    then show ?thesis using assms n
      by (simp add: stores_def push_first push_next push_entries numbered_snoc)
  next
    case False
    then have "length (h @ [x]) - cap = Suc (length h - cap)" by (simp add: Suc_diff_le)
    then show ?thesis using assms n False cap_pos
      by (simp add: stores_def push_first push_next push_entries numbered_snoc add.commute drop_Suc [symmetric] drop_drop)
  qed
qed

lemma stores_bound: "stores h b \<Longrightarrow> length (entries b) \<le> cap"
  by (auto simp: stores_def)

text \<open>An offset is still retained exactly when fewer than \<open>cap\<close> entries came after it.\<close>

lemma retained_iff:
  assumes "stores h b" and "length h < 2 ^ 64"
  shows "from < first_offset b \<longleftrightarrow> unat from < length h - cap"
  using assms by (simp add: stores_def word_less_nat_alt unat_of_nat take_bit_nat_eq_self_iff)

lemma page_exact:
  assumes "stores h b" and "length h < 2 ^ 64" and "\<not> from < first_offset b"
  shows "take limit (drop (unat (from - first_offset b)) (entries b)) =
         take limit (drop (unat from) (numbered h))"
proof -
  have f: "unat (first_offset b) = length h - cap"
    using assms(1,2) by (simp add: stores_def unat_of_nat take_bit_nat_eq_self_iff)
  have "first_offset b \<le> from" using assms(3) by simp
  then have "unat (from - first_offset b) = unat from - (length h - cap)" and "length h - cap \<le> unat from"
    by (simp_all add: unat_sub f word_le_nat_alt)
  then show ?thesis using assms(1) by (simp add: stores_def)
qed

end

end
