(* ===== verification/Live_Thread.thy ===== *)
theory Live_Thread
  imports Event_Window Ledger_Records
begin

text \<open>
  A live thread of the daemon (\<open>LiveThread\<close> of \<open>daemon/runtime/thread.rs\<close>): its lifecycle, the turn
  a controller holds with the messages steered into it, and the bounded buffer of the events it
  published. Every operation holds the thread's lock from its first to its last access, so each is
  one function on the state the lock guards; an operation that waits on the condition variable is
  \<open>Waits\<close> in the states it goes on waiting in. Clock readings are arguments.
\<close>

section \<open>Messages of the protocol\<close>

datatype CompletionOutcome = Done | Blocked rstr

record CompletionClaim =
  cc_outcome :: CompletionOutcome
  cc_base :: "rstr option"
  cc_head :: "rstr option"
  cc_changed_paths :: "rstr list"
  cc_pr :: "rstr option"
  cc_checks :: "rstr list"

datatype 'v StreamEvent =
    Ledger "'v RecordedEvent"
  | AssistantDelta rstr rstr u32 u64 rstr
  | ApprovalRequested rstr rstr rstr EffectClass rstr "rstr option" "rstr option" bool
  | CanceledEvent rstr
  | CompletionClaimed rstr CompletionClaim
  | UnknownEvent 'v

record 'v BufferedThreadEvent =
  bt_offset :: u64
  bt_turn_id :: rstr
  bt_event :: "'v StreamEvent"

datatype ThreadSendRejectedReason = ControllerOwned | TurnMismatch | QueueFull

datatype ThreadSendResult =
    StartedResult rstr rstr
  | SteeredResult rstr rstr
  | RejectedResult rstr "rstr option" ThreadSendRejectedReason

datatype ThreadEventsResetReason = EpochChanged | Lagged

record 'v ThreadEventsResult =
  te_thread_id :: rstr
  te_live_epoch_id :: rstr
  te_reset :: "ThreadEventsResetReason option"
  te_from_offset :: u64
  te_next_offset :: u64
  te_current_turn_id :: "rstr option"
  te_events :: "'v BufferedThreadEvent list"

section \<open>State\<close>

definition MAX_THREAD_EVENT_BUFFER :: nat where "MAX_THREAD_EVENT_BUFFER = 256"

definition MAX_PENDING_THREAD_STEERS :: nat where "MAX_PENDING_THREAD_STEERS = 32"

datatype LiveThreadLifecycle = Running | Stopping | Stopped

record ActiveThreadTurn =
  at_turn_id :: rstr
  at_controller_id :: rstr
  at_pending_messages :: "rstr list"

record 'v LiveThread =
  lt_workspace_id :: rstr
  lt_lifecycle :: LiveThreadLifecycle
  lt_current_turn :: "ActiveThreadTurn option"
  lt_last_activity_at_ms :: u64
  lt_first_offset :: u64
  lt_next_offset :: u64
  lt_events :: "'v BufferedThreadEvent list"
  lt_observers :: nat

text \<open>A binding names the thread object itself, by the reference an \<open>Arc\<close> is.\<close>

record ThreadTurnBinding =
  tb_thread_id :: rstr
  tb_turn_id :: rstr
  tb_thread :: nat

datatype ThreadSendAdmission =
    ShuttingDown
  | AdmissionStopped
  | Started ThreadSendResult ThreadTurnBinding
  | Steered ThreadSendResult
  | Rejected ThreadSendResult

datatype ThreadRunBindError = NotLoaded | BindStopping | RunActive

datatype 'a Blocking = Waits | Returns 'a

section \<open>Operations\<close>

definition LiveThread_new :: "rstr \<Rightarrow> u64 \<Rightarrow> 'v LiveThread" where
  "LiveThread_new workspace_id last_activity_at_ms =
     \<lparr>lt_workspace_id = workspace_id, lt_lifecycle = LiveThreadLifecycle.Running, lt_current_turn = None,
      lt_last_activity_at_ms = last_activity_at_ms, lt_first_offset = 0, lt_next_offset = 0,
      lt_events = [], lt_observers = 0\<rparr>"

definition current_turn_id :: "'v LiveThread \<Rightarrow> rstr option" where
  "current_turn_id t = map_option at_turn_id (lt_current_turn t)"

definition live_snapshot :: "'v LiveThread \<Rightarrow> rstr option \<times> u64" where
  "live_snapshot t = (map_option at_turn_id (lt_current_turn t), lt_last_activity_at_ms t)"

definition touch :: "u64 \<Rightarrow> 'v LiveThread \<Rightarrow> 'v LiveThread" where
  "touch now t = t\<lparr>lt_last_activity_at_ms := max (lt_last_activity_at_ms t) now\<rparr>"

definition bind_run :: "u64 \<Rightarrow> rstr \<Rightarrow> 'v LiveThread \<Rightarrow> 'v LiveThread \<times> (ThreadRunBindError, unit) result" where
  "bind_run now turn_id t =
     (if lt_lifecycle t \<noteq> LiveThreadLifecycle.Running then (t, Inl BindStopping)
      else if current_turn_id t \<noteq> Some turn_id then (t, Inl NotLoaded)
      else (touch now t, Inr ()))"

definition send :: "u64 \<Rightarrow> nat \<Rightarrow> rstr \<Rightarrow> rstr \<Rightarrow> rstr option \<Rightarrow> rstr \<Rightarrow> rstr \<Rightarrow>
    'v LiveThread \<Rightarrow> 'v LiveThread \<times> ThreadSendAdmission" where
  "send now self thread_id controller_id expected_turn_id message new_turn_id t =
     (if lt_lifecycle t \<noteq> LiveThreadLifecycle.Running then (t, AdmissionStopped)
      else case lt_current_turn t of
        Some active \<Rightarrow>
          if at_controller_id active \<noteq> controller_id
          then (t, Rejected (RejectedResult thread_id (Some (at_turn_id active)) ControllerOwned))
          else if expected_turn_id \<noteq> Some (at_turn_id active)
          then (t, Rejected (RejectedResult thread_id (Some (at_turn_id active)) TurnMismatch))
          else if MAX_PENDING_THREAD_STEERS \<le> length (at_pending_messages active)
          then (t, Rejected (RejectedResult thread_id (Some (at_turn_id active)) QueueFull))
          else (touch now (t\<lparr>lt_current_turn :=
                  Some (active\<lparr>at_pending_messages := at_pending_messages active @ [message]\<rparr>)\<rparr>),
                Steered (SteeredResult thread_id (at_turn_id active)))
      | None \<Rightarrow>
          if expected_turn_id \<noteq> None
          then (t, Rejected (RejectedResult thread_id None TurnMismatch))
          else (touch now (t\<lparr>lt_current_turn :=
                  Some \<lparr>at_turn_id = new_turn_id, at_controller_id = controller_id, at_pending_messages = []\<rparr>\<rparr>),
                Started (StartedResult thread_id new_turn_id)
                  \<lparr>tb_thread_id = thread_id, tb_turn_id = new_turn_id, tb_thread = self\<rparr>))"

definition publish :: "u64 \<Rightarrow> rstr \<Rightarrow> 'v StreamEvent \<Rightarrow> 'v LiveThread \<Rightarrow> 'v LiveThread" where
  "publish now turn_id event t =
     (if lt_lifecycle t = LiveThreadLifecycle.Stopped then t
      else let t = (if length (lt_events t) = MAX_THREAD_EVENT_BUFFER
                    then t\<lparr>lt_events := drop 1 (lt_events t), lt_first_offset := lt_first_offset t + 1\<rparr>
                    else t)
           in touch now (t\<lparr>lt_next_offset := lt_next_offset t + 1,
                lt_events := lt_events t @
                  [\<lparr>bt_offset = lt_next_offset t, bt_turn_id = turn_id, bt_event = event\<rparr>]\<rparr>))"

text \<open>
  Reading events. While an observer waits, others hold the lock: \<open>woken\<close> is the state it finds when
  it holds the lock again, as a function of the state it released it in.
\<close>

definition events_page :: "rstr \<Rightarrow> rstr \<Rightarrow> ThreadEventsResetReason option \<Rightarrow> u64 \<Rightarrow> u64 \<Rightarrow>
    'v BufferedThreadEvent list \<Rightarrow> 'v LiveThread \<Rightarrow> 'v LiveThread \<times> 'v ThreadEventsResult" where
  "events_page thread_id live_epoch_id reset from next_at evs t =
     (t\<lparr>lt_observers := lt_observers t - 1\<rparr>,
      \<lparr>te_thread_id = thread_id, te_live_epoch_id = live_epoch_id, te_reset = reset, te_from_offset = from,
       te_next_offset = next_at, te_current_turn_id = current_turn_id t, te_events = evs\<rparr>)"

definition events :: "rstr \<Rightarrow> rstr \<Rightarrow> rstr option \<Rightarrow> u64 option \<Rightarrow> nat \<Rightarrow> nat \<Rightarrow>
    ('v LiveThread \<Rightarrow> 'v LiveThread) \<Rightarrow> 'v LiveThread \<Rightarrow> 'v LiveThread \<times> 'v ThreadEventsResult" where
  "events thread_id live_epoch_id expected_live_epoch_id from_offset limit wait woken t0 =
     (let t = t0\<lparr>lt_observers := lt_observers t0 + 1\<rparr>; page = events_page thread_id live_epoch_id in
      if expected_live_epoch_id \<noteq> None \<and> expected_live_epoch_id \<noteq> Some live_epoch_id
      then page (Some EpochChanged) (lt_next_offset t) (lt_next_offset t) [] t
      else let from = (case from_offset of None \<Rightarrow> lt_next_offset t | Some offset \<Rightarrow> offset) in
        if from < lt_first_offset t
        then page (Some Lagged) (lt_first_offset t) (lt_first_offset t) [] t
        else let t = (if lt_next_offset t \<le> from \<and> 0 < wait then woken t else t) in
          if from < lt_first_offset t
          then page (Some Lagged) (lt_first_offset t) (lt_first_offset t) [] t
          else let evs = take limit (drop (unat (from - lt_first_offset t)) (lt_events t)) in
            page None from (from + of_nat (length evs)) evs t)"

definition next_message_or_finish :: "rstr \<Rightarrow> 'v LiveThread \<Rightarrow> ('v LiveThread \<times> rstr option) Blocking" where
  "next_message_or_finish turn_id t =
     (case lt_lifecycle t of
        LiveThreadLifecycle.Stopping \<Rightarrow> Waits
      | LiveThreadLifecycle.Stopped \<Rightarrow> Returns (t, None)
      | LiveThreadLifecycle.Running \<Rightarrow> Returns
          (case lt_current_turn t of
             None \<Rightarrow> (t, None)
           | Some active \<Rightarrow>
               if at_turn_id active \<noteq> turn_id then (t, None)
               else case at_pending_messages active of
                 message # rest \<Rightarrow>
                   (t\<lparr>lt_current_turn := Some (active\<lparr>at_pending_messages := rest\<rparr>)\<rparr>, Some message)
               | [] \<Rightarrow> (t\<lparr>lt_current_turn := None\<rparr>, None)))"

definition begin_stop :: "'v LiveThread \<Rightarrow> 'v LiveThread \<times> rstr option" where
  "begin_stop t = (t\<lparr>lt_lifecycle := LiveThreadLifecycle.Stopping\<rparr>, current_turn_id t)"

definition complete_stop :: "'v LiveThread \<Rightarrow> 'v LiveThread" where
  "complete_stop t = t\<lparr>lt_lifecycle := LiveThreadLifecycle.Stopped, lt_current_turn := None\<rparr>"

definition abort_stop :: "'v LiveThread \<Rightarrow> 'v LiveThread" where
  "abort_stop t =
     (if lt_lifecycle t = LiveThreadLifecycle.Stopping
      then t\<lparr>lt_lifecycle := LiveThreadLifecycle.Running\<rparr> else t)"

definition wait_for_stop_resolution :: "'v LiveThread \<Rightarrow> LiveThreadLifecycle Blocking" where
  "wait_for_stop_resolution t =
     (if lt_lifecycle t = LiveThreadLifecycle.Stopping then Waits else Returns (lt_lifecycle t))"

definition abort :: "rstr \<Rightarrow> 'v LiveThread \<Rightarrow> 'v LiveThread" where
  "abort turn_id t =
     (if lt_lifecycle t = LiveThreadLifecycle.Running \<and> current_turn_id t = Some turn_id
      then t\<lparr>lt_current_turn := None\<rparr> else t)"

section \<open>The event buffer\<close>

interpretation tw: event_window MAX_THREAD_EVENT_BUFFER lt_first_offset lt_next_offset lt_events
    "\<lambda>offset (turn_id, event). \<lparr>bt_offset = offset, bt_turn_id = turn_id, bt_event = event\<rparr>"
    "\<lambda>t. lt_lifecycle t \<noteq> LiveThreadLifecycle.Stopped" "\<lambda>(turn_id, event). publish now turn_id event"
  for now
  by unfold_locales (auto simp: publish_def touch_def MAX_THREAD_EVENT_BUFFER_def Let_def split: prod.splits)


section \<open>Sequences of operations\<close>

text \<open>
  The calls on one thread, in the order they take its lock. A \<open>next_message_or_finish\<close> that waits
  has not returned and changes nothing.
\<close>

datatype 'v ThreadCall =
    CallBindRun u64 rstr
  | CallSend u64 nat rstr rstr "rstr option" rstr rstr
  | CallPublish u64 rstr "'v StreamEvent"
  | CallNextMessage rstr
  | CallBeginStop
  | CallCompleteStop
  | CallAbortStop
  | CallAbort rstr

fun thread_call :: "'v ThreadCall \<Rightarrow> 'v LiveThread \<Rightarrow> 'v LiveThread" where
  "thread_call (CallBindRun now turn_id) t = fst (bind_run now turn_id t)"
| "thread_call (CallSend now self tid c e m n) t = fst (send now self tid c e m n t)"
| "thread_call (CallPublish now turn_id event) t = publish now turn_id event t"
| "thread_call (CallNextMessage turn_id) t =
     (case next_message_or_finish turn_id t of Waits \<Rightarrow> t | Returns (t', _) \<Rightarrow> t')"
| "thread_call CallBeginStop t = fst (begin_stop t)"
| "thread_call CallCompleteStop t = complete_stop t"
| "thread_call CallAbortStop t = abort_stop t"
| "thread_call (CallAbort turn_id) t = abort turn_id t"

text \<open>The messages steered into the thread, and the queue that holds those not yet settled.\<close>

definition pending_messages :: "'v LiveThread \<Rightarrow> rstr list" where
  "pending_messages t = (case lt_current_turn t of None \<Rightarrow> [] | Some active \<Rightarrow> at_pending_messages active)"

fun accepted_message :: "'v ThreadCall \<Rightarrow> 'v LiveThread \<Rightarrow> rstr list" where
  "accepted_message (CallSend now self tid c e m n) t =
     (case snd (send now self tid c e m n t) of Steered _ \<Rightarrow> [m] | _ \<Rightarrow> [])"
| "accepted_message _ t = []"

text \<open>
  A steered message is settled when the turn's driver takes it, or when the turn is aborted or the
  thread's stop completes while it is queued.
\<close>

fun delivered_message :: "'v ThreadCall \<Rightarrow> 'v LiveThread \<Rightarrow> rstr list" where
  "delivered_message (CallNextMessage turn_id) t =
     (case next_message_or_finish turn_id t of Returns (_, Some m) \<Rightarrow> [m] | _ \<Rightarrow> [])"
| "delivered_message _ t = []"

fun discarded_messages :: "'v ThreadCall \<Rightarrow> 'v LiveThread \<Rightarrow> rstr list" where
  "discarded_messages CallCompleteStop t = pending_messages t"
| "discarded_messages (CallAbort turn_id) t =
     (if lt_lifecycle t = LiveThreadLifecycle.Running \<and> current_turn_id t = Some turn_id
      then pending_messages t else [])"
| "discarded_messages _ t = []"

definition settled_messages :: "'v ThreadCall \<Rightarrow> 'v LiveThread \<Rightarrow> rstr list" where
  "settled_messages c t = delivered_message c t @ discarded_messages c t"

fun published_event :: "'v ThreadCall \<Rightarrow> 'v LiveThread \<Rightarrow> (rstr \<times> 'v StreamEvent) list" where
  "published_event (CallPublish now turn_id event) t =
     (if lt_lifecycle t = LiveThreadLifecycle.Stopped then [] else [(turn_id, event)])"
| "published_event _ t = []"

text \<open>What a sequence of calls does, and the concatenation of what each call contributes.\<close>

definition thread_calls :: "'v ThreadCall list \<Rightarrow> 'v LiveThread \<Rightarrow> 'v LiveThread" where
  "thread_calls cs t = fold thread_call cs t"

fun along :: "('v ThreadCall \<Rightarrow> 'v LiveThread \<Rightarrow> 'a list) \<Rightarrow> 'v ThreadCall list \<Rightarrow> 'v LiveThread \<Rightarrow> 'a list" where
  "along f [] t = []"
| "along f (c # cs) t = f c t @ along f cs (thread_call c t)"

lemma thread_calls_simps [simp]:
  "thread_calls [] t = t" "thread_calls (c # cs) t = thread_calls cs (thread_call c t)"
  by (simp_all add: thread_calls_def)

lemma along_append: "along f (cs @ ds) t = along f cs t @ along f ds (thread_calls cs t)"
  by (induction cs arbitrary: t) auto

named_theorems thread_ops \<open>definitions of the operations of a live thread\<close>

lemmas thread_op_defs [thread_ops] = bind_run_def send_def publish_def next_message_or_finish_def
  begin_stop_def complete_stop_def abort_stop_def abort_def touch_def Let_def

lemma thread_call_queue:
  "pending_messages t @ accepted_message c t = settled_messages c t @ pending_messages (thread_call c t)"
  by (cases c) (auto simp: thread_ops pending_messages_def settled_messages_def current_turn_id_def
      split: option.splits list.splits LiveThreadLifecycle.splits)

lemma thread_calls_queue:
  "pending_messages t @ along accepted_message cs t =
   along settled_messages cs t @ pending_messages (thread_calls cs t)"
proof (induction cs arbitrary: t)
  case (Cons c cs)
  have "pending_messages t @ along accepted_message (c # cs) t =
      settled_messages c t @ (pending_messages (thread_call c t) @ along accepted_message cs (thread_call c t))"
    using thread_call_queue [of t c] by simp
  then show ?case by (simp add: Cons.IH)
qed simp

lemma thread_call_queue_bound:
  "length (pending_messages t) \<le> MAX_PENDING_THREAD_STEERS \<Longrightarrow>
   length (pending_messages (thread_call c t)) \<le> MAX_PENDING_THREAD_STEERS"
  by (cases c) (auto simp: thread_ops pending_messages_def current_turn_id_def
      split: option.splits list.splits LiveThreadLifecycle.splits)

lemma thread_calls_queue_bound:
  "length (pending_messages t) \<le> MAX_PENDING_THREAD_STEERS \<Longrightarrow>
   length (pending_messages (thread_calls cs t)) \<le> MAX_PENDING_THREAD_STEERS"
  by (induction cs arbitrary: t) (auto intro: thread_call_queue_bound)


lemma new_thread_queue [simp]: "pending_messages (LiveThread_new ws now) = []"
  by (simp add: LiveThread_new_def pending_messages_def)

section \<open>What observers read\<close>

text \<open>The events in the form observers read them, numbered from the first one published.\<close>

definition numbered_events :: "(rstr \<times> 'v StreamEvent) list \<Rightarrow> 'v BufferedThreadEvent list" where
  "numbered_events h =
     map (\<lambda>(i, turn_id, event). \<lparr>bt_offset = of_nat i, bt_turn_id = turn_id, bt_event = event\<rparr>) (enumerate 0 h)"

lemma tw_numbered: "tw.numbered h = numbered_events h"
  by (simp add: tw.numbered_def numbered_events_def)

lemma length_numbered_events [simp]: "length (numbered_events h) = length h"
  by (simp add: numbered_events_def)

lemma thread_call_window:
  assumes "tw.stores h t"
  shows "tw.stores (h @ published_event c t) (thread_call c t)"
proof (cases c)
  case (CallPublish now turn_id event)
  then show ?thesis using assms tw.stores_push [OF assms, of "(turn_id, event)" now]
    by (auto simp: publish_def)
qed (use assms in \<open>auto simp: thread_ops tw.stores_def
      split: option.splits list.splits LiveThreadLifecycle.splits\<close>)

lemma thread_calls_window:
  "tw.stores h t \<Longrightarrow> tw.stores (h @ along published_event cs t) (thread_calls cs t)"
proof (induction cs arbitrary: h t)
  case (Cons c cs)
  then show ?case using Cons.IH [OF thread_call_window [OF Cons.prems], of c] by simp
qed simp

lemma new_thread_window: "tw.stores [] (LiveThread_new ws now)"
  by (simp add: tw.stores_def LiveThread_new_def tw.numbered_def)

lemma observers_window [simp]: "tw.stores h (t\<lparr>lt_observers := n\<rparr>) = tw.stores h t"
  by (simp add: tw.stores_def)

text \<open>
  One read at an offset: a page of the published history from that offset on, or a reset when the
  buffer no longer reaches back to it.
\<close>

definition history_after_read :: "u64 \<Rightarrow> nat \<Rightarrow> 'v ThreadCall list \<Rightarrow> (rstr \<times> 'v StreamEvent) list \<Rightarrow>
    'v LiveThread \<Rightarrow> (rstr \<times> 'v StreamEvent) list" where
  "history_after_read from wait cs h t =
     (let t = t\<lparr>lt_observers := lt_observers t + 1\<rparr> in
      if \<not> from < lt_first_offset t \<and> lt_next_offset t \<le> from \<and> 0 < wait
      then h @ along published_event cs t else h)"

lemma events_exact:
  assumes h: "tw.stores h t"
    and g: "g = history_after_read from wait cs h t"
    and small: "length g < 2 ^ 64"
    and ev: "events tid ep (Some ep) (Some from) limit wait (thread_calls cs) t = (t', r)"
  shows "tw.stores g t' \<and>
    (te_reset r = None \<longrightarrow>
       te_events r = take limit (drop (unat from) (numbered_events g)) \<and>
       te_next_offset r = from + of_nat (length (te_events r))) \<and>
    (te_reset r \<noteq> None \<longrightarrow> unat from + MAX_THREAD_EVENT_BUFFER < length g)"
proof -
  define t1 where "t1 = t\<lparr>lt_observers := lt_observers t + 1\<rparr>"
  define t2 where "t2 = (if lt_next_offset t1 \<le> from \<and> 0 < wait then thread_calls cs t1 else t1)"
  have h1: "tw.stores h t1" by (simp add: t1_def h)
  have gdef: "g = (if \<not> from < lt_first_offset t1 \<and> lt_next_offset t1 \<le> from \<and> 0 < wait
      then h @ along published_event cs t1 else h)"
    using g unfolding history_after_read_def t1_def [symmetric] Let_def .
  have ev1: "(t', r) = (if from < lt_first_offset t1
      then events_page tid ep (Some Lagged) (lt_first_offset t1) (lt_first_offset t1) [] t1
      else if from < lt_first_offset t2
      then events_page tid ep (Some Lagged) (lt_first_offset t2) (lt_first_offset t2) [] t2
      else let evs = take limit (drop (unat (from - lt_first_offset t2)) (lt_events t2)) in
          events_page tid ep None from (from + of_nat (length evs)) evs t2)"
    using ev unfolding events_def t2_def t1_def [symmetric] Let_def by (simp only: option.case simp_thms if_False)
  show ?thesis
  proof (cases "from < lt_first_offset t1")
    case True
    then have "g = h" and "unat from < length h - MAX_THREAD_EVENT_BUFFER"
      using gdef tw.retained_iff [OF h1] small by simp_all
    then show ?thesis using ev1 True h1 by (auto simp: events_page_def)
  next
    case False
    then have st: "tw.stores g t2"
      using h1 thread_calls_window [OF h1, of cs] gdef by (auto simp: t2_def)
    show ?thesis
      using ev1 False st tw.retained_iff [OF st small, of "from"] tw.page_exact [OF st small, of "from" limit]
      by (auto simp: events_page_def Let_def tw_numbered split: if_splits)
  qed
qed

text \<open>
  An observer that starts at offset zero and hands each page's \<open>next_offset\<close> to its next read, while
  other calls are made between its reads and while it waits inside one. The result is the history the
  thread published so far, the thread, the events the observer got and its cursor; \<open>Inl\<close> when a read
  answered with a reset.
\<close>

datatype 'v ObserverStep = Meanwhile "'v ThreadCall list" | Read nat nat "'v ThreadCall list"

fun observe :: "rstr \<Rightarrow> rstr \<Rightarrow> (rstr \<times> 'v StreamEvent) list \<Rightarrow> 'v LiveThread \<Rightarrow> 'v BufferedThreadEvent list \<Rightarrow> u64 \<Rightarrow>
    'v ObserverStep list \<Rightarrow> ((rstr \<times> 'v StreamEvent) list \<times> u64,
      (rstr \<times> 'v StreamEvent) list \<times> 'v LiveThread \<times> 'v BufferedThreadEvent list \<times> u64) result" where
  "observe tid ep h t evs from [] = Inr (h, t, evs, from)"
| "observe tid ep h t evs from (Meanwhile cs # steps) =
     observe tid ep (h @ along published_event cs t) (thread_calls cs t) evs from steps"
| "observe tid ep h t evs from (Read limit wait cs # steps) =
     (let h' = history_after_read from wait cs h t;
          (t', r) = events tid ep (Some ep) (Some from) limit wait (thread_calls cs) t
      in if te_reset r \<noteq> None then Inl (h', from)
         else observe tid ep h' t' (evs @ te_events r) (te_next_offset r) steps)"

lemma observe_extends:
  "observe tid ep h t evs from steps = Inr (g, t', evs', from') \<Longrightarrow> \<exists>k. g = h @ k"
  "observe tid ep h t evs from steps = Inl (g, from') \<Longrightarrow> \<exists>k. g = h @ k"
  by (induction tid ep h t evs "from" steps rule: observe.induct)
    (auto simp: history_after_read_def Let_def split: prod.splits if_splits, metis+)

lemma take_numbered_append:
  "n \<le> length h \<Longrightarrow> take n (numbered_events (h @ k)) = take n (numbered_events h)"
  by (simp add: numbered_events_def enumerate_append_eq)

text \<open>The observer's state: it has exactly the history before its cursor.\<close>

definition caught_up :: "(rstr \<times> 'v StreamEvent) list \<Rightarrow> 'v BufferedThreadEvent list \<Rightarrow> u64 \<Rightarrow> bool" where
  "caught_up h evs from \<longleftrightarrow> evs = take (unat from) (numbered_events h) \<and> unat from \<le> length h"

lemma caught_up_append: "caught_up h evs from \<Longrightarrow> caught_up (h @ k) evs from"
  by (simp add: caught_up_def take_numbered_append)

lemma caught_up_page:
  assumes "caught_up h evs from" and "page = take limit (drop (unat from) (numbered_events h))"
    and "length h < 2 ^ 64"
  shows "caught_up h (evs @ page) (from + of_nat (length page))"
proof -
  have le: "unat from + length page \<le> length h" using assms(1,2) by (auto simp: caught_up_def min_def)
  then have un: "unat (from + of_nat (length page)) = unat from + length page"
    using assms(3) by (simp add: unat_word_ariths unat_of_nat take_bit_nat_eq_self_iff)
  have "take (unat from + length page) (numbered_events h) = evs @ page"
    using assms(1,2) by (auto simp: caught_up_def take_add min_def)
  then show ?thesis using le by (simp add: caught_up_def un)
qed

lemma observe_exact:
  assumes "tw.stores h t" and "caught_up h evs from"
  shows "case observe tid ep h t evs from steps of
      Inr (g, t', evs', from') \<Rightarrow> length g < 2 ^ 64 \<longrightarrow> tw.stores g t' \<and> caught_up g evs' from'
    | Inl (g, from') \<Rightarrow> length g < 2 ^ 64 \<longrightarrow> unat from' + MAX_THREAD_EVENT_BUFFER < length g"
  using assms
proof (induction tid ep h t evs "from" steps rule: observe.induct)
  case (2 tid ep h t evs "from" cs steps)
  then show ?case by (simp add: thread_calls_window caught_up_append)
next
  case (3 tid ep h t evs "from" limit wait cs steps)
  define g where "g = history_after_read from wait cs h t"
  obtain t' r where ev: "events tid ep (Some ep) (Some from) limit wait (thread_calls cs) t = (t', r)"
    by fastforce
  have gh: "\<exists>k. g = h @ k" by (simp add: g_def history_after_read_def Let_def)
  show ?case
  proof (cases "length g < 2 ^ 64")
    case True
    note ex = events_exact [OF "3.prems"(1) g_def True ev]
    show ?thesis
    proof (cases "te_reset r = None")
      case None: True
      have "caught_up g evs from" using "3.prems"(2) gh caught_up_append by blast
      then have "caught_up g (evs @ te_events r) (te_next_offset r)"
        using caught_up_page [OF _ _ True] ex None by auto
      then show ?thesis using "3.IH" [OF g_def ev [symmetric] refl] ex None
        by (simp add: ev g_def [symmetric])
    next
      case False
      then show ?thesis using ex by (simp add: ev g_def [symmetric])
    qed
  next
    case False
    moreover have "case observe tid ep h t evs from (Read limit wait cs # steps) of
        Inr (x, _) \<Rightarrow> length g \<le> length x | Inl (x, _) \<Rightarrow> length g \<le> length x"
      by (auto simp: ev g_def [symmetric] split: sum.splits prod.splits dest!: observe_extends)
    ultimately show ?thesis by (auto split: sum.splits prod.splits)
  qed
qed simp

section \<open>Properties\<close>

text \<open>
  C16. Messages steered into a thread are settled in the order they were accepted. Over any sequence of
  calls on a new thread, the messages whose send answered \<open>Steered\<close> are those handed to the turn's
  driver or discarded by an abort or a completed stop, in this order, followed by the queue; the
  queue never exceeds its bound.
\<close>

theorem steering_fifo:
  "along accepted_message cs (LiveThread_new ws now) =
     along settled_messages cs (LiveThread_new ws now) @
     pending_messages (thread_calls cs (LiveThread_new ws now)) \<and>
   length (pending_messages (thread_calls cs (LiveThread_new ws now))) \<le> MAX_PENDING_THREAD_STEERS"
  using thread_calls_queue [of "LiveThread_new ws now" cs] thread_calls_queue_bound [of "LiveThread_new ws now" cs]
  by simp

text \<open>
  C15. An observer that follows the cursor reads the published history without a gap, a duplicate or a
  reordering, whatever other calls happen between its reads and while it waits: its events are the
  history up to its cursor, with the offsets of the history. A read answers with a reset only when
  more than the buffer's bound of events were published from the cursor on.
\<close>

theorem observer_gets_history:
  assumes "length (case observe tid ep [] (LiveThread_new ws now) [] 0 steps of
      Inr (h, _) \<Rightarrow> h | Inl (h, _) \<Rightarrow> h) < 2 ^ 64"
  shows "case observe tid ep [] (LiveThread_new ws now) [] 0 steps of
      Inr (h, t, evs, from) \<Rightarrow> evs = take (unat from) (numbered_events h) \<and> unat from \<le> length h
    | Inl (h, from) \<Rightarrow> unat from + MAX_THREAD_EVENT_BUFFER < length h"
  using assms observe_exact [OF new_thread_window [of ws now], of "[]" 0 tid ep steps]
  by (auto simp: caught_up_def split: sum.splits prod.splits)

text \<open>
  Two events published before a read that takes one, and a third while the observer waits for it.
\<close>

definition sample_steps :: "int ObserverStep list" where
  "sample_steps =
     [Meanwhile [CallPublish 1 [7] (UnknownEvent 10), CallPublish 2 [7] (UnknownEvent 20)],
      Read 1 0 [], Read 5 0 [], Read 5 100 [CallPublish 3 [8] (UnknownEvent 30)]]"

lemma sample_observation:
  "observe [11] [12] [] (LiveThread_new [13] 0) [] 0 sample_steps =
   (let h = [([7], UnknownEvent 10), ([7], UnknownEvent 20), ([8], UnknownEvent 30)] in
    Inr (h, thread_calls [CallPublish 1 [7] (UnknownEvent 10),
      CallPublish 2 [7] (UnknownEvent 20), CallPublish 3 [8] (UnknownEvent 30)] (LiveThread_new [13] 0),
      numbered_events h, 3))"
  by (simp add: sample_steps_def history_after_read_def events_def events_page_def publish_def touch_def
      LiveThread_new_def numbered_events_def current_turn_id_def Let_def MAX_THREAD_EVENT_BUFFER_def)

theorem observer_gets_history_witness:
  "case observe [11] [12] [] (LiveThread_new [13] 0) [] 0 sample_steps of
      Inr (h, t, evs, from) \<Rightarrow> evs = take (unat from) (numbered_events h) \<and> length evs = 3
    | Inl (h, from) \<Rightarrow> False"
proof -
  have "length (case observe [11] [12] [] (LiveThread_new [13] 0) [] 0 sample_steps of
      Inr (h, _) \<Rightarrow> h | Inl (h, _) \<Rightarrow> h) < 2 ^ 64"
    by (simp add: sample_observation Let_def)
  from observer_gets_history [OF this] show ?thesis by (simp add: sample_observation Let_def)
qed

end
