(* ===== verification/Daemon_Runtime.thy ===== *)
theory Daemon_Runtime
  imports Live_Thread Run_Loop Thread_Authority "HOL-Library.AList"
begin

text \<open>
  The daemon's shared runtime (\<open>daemon/runtime/mod.rs\<close>, \<open>run.rs\<close>, \<open>session.rs\<close> and \<open>thread.rs\<close>):
  the run records and live threads every workspace's runtime shares, and the admission, completion,
  cancellation, stop and shutdown operations on them. A record or thread is shared through \<open>Arc\<close>s and
  compared by pointer, so both live in a heap and a reference is an index into it. A \<open>HashMap\<close> is an
  association list in its iteration order. An operation is one function where it holds one lock from
  its first to its last access; one that releases a lock in between is the composition of the parts.
\<close>

section \<open>Run records\<close>

definition MAX_EVENT_BUFFER :: nat where "MAX_EVENT_BUFFER = 256"

definition MAX_TERMINAL_RUNS :: nat where "MAX_TERMINAL_RUNS = 32"

datatype ApprovalProfile = Prompt | Yolo

datatype ApprovalDecision = Grant | GrantSession | DenyDecision

record 'v BufferedStreamEvent =
  bs_offset :: u64
  bs_event :: "'v StreamEvent"

record 'v EventBuffer =
  eb_first_offset :: u64
  eb_next_offset :: u64
  eb_events :: "'v BufferedStreamEvent list"

record RunStatus =
  ru_state :: RunStateName
  ru_final_answer :: "rstr option"
  ru_error :: "rstr option"
  ru_completion_claim :: "CompletionClaim option"

record ApprovalRequest =
  aq_run_id :: RunId
  aq_call_id :: ToolCallId
  aq_tool_name :: rstr
  aq_effect :: EffectClass
  aq_reason :: rstr
  aq_input_preview :: "rstr option"
  aq_approval_preview :: "rstr option"
  aq_diff_preview :: "rstr option"
  aq_yolo_eligible :: bool

record PendingApprovalDecision =
  pd_decision :: ApprovalDecision
  pd_outcome :: ExternalApprovalOutcome

record PendingApproval =
  pa_session_id :: rstr
  pa_request :: ApprovalRequest
  pa_decision :: "PendingApprovalDecision option"

record PendingApprovalSnapshot =
  sn_run_id :: rstr
  sn_tool_call_id :: rstr
  sn_tool_name :: rstr
  sn_effect :: EffectClass
  sn_reason :: "rstr option"
  sn_input_preview :: "rstr option"
  sn_approval_preview :: "rstr option"
  sn_diff_preview :: "rstr option"

record 'v RunRecord =
  rc_run_id :: rstr
  rc_session_id :: rstr
  rc_ledger_path :: rstr
  rc_cancel :: bool
  rc_status :: RunStatus
  rc_events :: "'v EventBuffer"
  rc_approvals :: "(rstr \<times> PendingApproval) list"
  rc_thread_turn :: "ThreadTurnBinding option"

datatype RunAdmissionError = AdmissionShuttingDown | SessionActive rstr

section \<open>The shared state\<close>

record PendingThreadSpawn =
  sw_spawn_id :: rstr
  sw_workspace_id :: rstr
  sw_draft :: ThreadAuthorityDraft
  sw_max_spawn_depth :: u32
  sw_decision_in_progress :: bool

record RuntimeState =
  dm_runs :: "(rstr \<times> nat) list"
  dm_live_threads :: "(rstr \<times> nat) list"
  dm_active_thread_runs :: "(rstr \<times> nat) list"
  dm_stopping_threads :: "rstr set"
  dm_stopped_threads :: "rstr set"
  dm_pending_thread_spawns :: "(rstr \<times> PendingThreadSpawn) list"
  dm_terminal_runs :: "rstr list"
  dm_shutdown_accepted :: bool
  dm_issue_prep_active :: bool
  dm_approval_profiles :: "(rstr \<times> ApprovalProfile) list"
  dm_live_epoch_id :: rstr
  dm_deciding_home_reservations :: "rstr set"

definition RuntimeState_default :: "rstr \<Rightarrow> RuntimeState" where
  "RuntimeState_default live_epoch_id =
     \<lparr>dm_runs = [], dm_live_threads = [], dm_active_thread_runs = [], dm_stopping_threads = {},
      dm_stopped_threads = {}, dm_pending_thread_spawns = [], dm_terminal_runs = [],
      dm_shutdown_accepted = False, dm_issue_prep_active = False, dm_approval_profiles = [],
      dm_live_epoch_id = live_epoch_id, dm_deciding_home_reservations = {}\<rparr>"

text \<open>The shared state with the heaps of the objects it refers to.\<close>

record 'v Daemon =
  d_state :: RuntimeState
  d_records :: "'v RunRecord list"
  d_threads :: "'v LiveThread list"

definition Daemon_new :: "rstr \<Rightarrow> 'v Daemon" where
  "Daemon_new live_epoch_id =
     \<lparr>d_state = RuntimeState_default live_epoch_id, d_records = [], d_threads = []\<rparr>"

text \<open>One workspace's runtime over the shared state: its paths and the server's policy.\<close>

datatype ConfinementSupport = SupportsLandlock | NoSupport

record DaemonRuntime =
  dr_workspace_id :: rstr
  dr_max_spawn_depth :: u32
  dr_require_confinement :: bool
  dr_confinement_support :: ConfinementSupport

definition on_record :: "nat \<Rightarrow> ('v RunRecord \<Rightarrow> 'v RunRecord) \<Rightarrow> 'v Daemon \<Rightarrow> 'v Daemon" where
  "on_record r f d = d\<lparr>d_records := (d_records d)[r := f (d_records d ! r)]\<rparr>"

definition on_thread :: "nat \<Rightarrow> ('v LiveThread \<Rightarrow> 'v LiveThread) \<Rightarrow> 'v Daemon \<Rightarrow> 'v Daemon" where
  "on_thread r f d = d\<lparr>d_threads := (d_threads d)[r := f (d_threads d ! r)]\<rparr>"

definition on_state :: "(RuntimeState \<Rightarrow> RuntimeState) \<Rightarrow> 'v Daemon \<Rightarrow> 'v Daemon" where
  "on_state f d = d\<lparr>d_state := f (d_state d)\<rparr>"

text \<open>\<open>Arc::new\<close>: the next free reference.\<close>

definition new_record :: "'v RunRecord \<Rightarrow> 'v Daemon \<Rightarrow> 'v Daemon \<times> nat" where
  "new_record rec d = (d\<lparr>d_records := d_records d @ [rec]\<rparr>, length (d_records d))"

definition new_thread :: "'v LiveThread \<Rightarrow> 'v Daemon \<Rightarrow> 'v Daemon \<times> nat" where
  "new_thread t d = (d\<lparr>d_threads := d_threads d @ [t]\<rparr>, length (d_threads d))"

fun active_state :: "RunStateName \<Rightarrow> bool" where
  "active_state RunStateName.Running = True"
| "active_state RunStateName.CancelRequested = True"
| "active_state _ = False"

definition run_state :: "'v Daemon \<Rightarrow> nat \<Rightarrow> RunStateName" where
  "run_state d r = ru_state (rc_status (d_records d ! r))"

abbreviation active_run :: "'v Daemon \<Rightarrow> nat \<Rightarrow> bool" where
  "active_run d r \<equiv> active_state (run_state d r)"

section \<open>Operations on one run record\<close>

definition RunRecord_new_inner :: "rstr \<Rightarrow> rstr \<Rightarrow> rstr \<Rightarrow> ThreadTurnBinding option \<Rightarrow> 'v RunRecord" where
  "RunRecord_new_inner run_id session_id ledger_path thread_turn =
     \<lparr>rc_run_id = run_id, rc_session_id = session_id, rc_ledger_path = ledger_path, rc_cancel = False,
      rc_status = \<lparr>ru_state = RunStateName.Running, ru_final_answer = None, ru_error = None,
                   ru_completion_claim = None\<rparr>,
      rc_events = \<lparr>eb_first_offset = 0, eb_next_offset = 0, eb_events = []\<rparr>,
      rc_approvals = [], rc_thread_turn = thread_turn\<rparr>"

definition PendingApproval_new :: "rstr \<Rightarrow> ApprovalRequest \<Rightarrow> PendingApproval" where
  "PendingApproval_new session_id request =
     \<lparr>pa_session_id = session_id, pa_request = request, pa_decision = None\<rparr>"

definition approval_snapshot :: "PendingApproval \<Rightarrow> PendingApprovalSnapshot" where
  "approval_snapshot p = (let q = pa_request p in
     \<lparr>sn_run_id = run_id_str (aq_run_id q), sn_tool_call_id = tool_call_id_str (aq_call_id q),
      sn_tool_name = aq_tool_name q, sn_effect = aq_effect q, sn_reason = Some (aq_reason q),
      sn_input_preview = aq_input_preview q, sn_approval_preview = aq_approval_preview q,
      sn_diff_preview = aq_diff_preview q\<rparr>)"

definition push_buffer :: "'v StreamEvent \<Rightarrow> 'v RunRecord \<Rightarrow> 'v RunRecord" where
  "push_buffer event rec = (let
       b = rc_events rec;
       b = (if length (eb_events b) = MAX_EVENT_BUFFER
            then b\<lparr>eb_events := drop 1 (eb_events b), eb_first_offset := eb_first_offset b + 1\<rparr> else b)
     in rec\<lparr>rc_events := b\<lparr>eb_next_offset := eb_next_offset b + 1,
          eb_events := eb_events b @ [\<lparr>bs_offset = eb_next_offset b, bs_event = event\<rparr>]\<rparr>\<rparr>)"

text \<open>The record's buffer first, then, with its lock released, the turn's thread.\<close>

definition publish_turn :: "u64 \<Rightarrow> ThreadTurnBinding \<Rightarrow> 'v StreamEvent \<Rightarrow> 'v Daemon \<Rightarrow> 'v Daemon" where
  "publish_turn now turn event d = on_thread (tb_thread turn) (publish now (tb_turn_id turn) event) d"

definition push_event :: "u64 \<Rightarrow> nat \<Rightarrow> 'v StreamEvent \<Rightarrow> 'v Daemon \<Rightarrow> 'v Daemon" where
  "push_event now r event d =
     (let d = on_record r (push_buffer event) d in
      case rc_thread_turn (d_records d ! r) of None \<Rightarrow> d | Some turn \<Rightarrow> publish_turn now turn event d)"

definition push_recorded_event :: "u64 \<Rightarrow> nat \<Rightarrow> 'v RecordedEvent \<Rightarrow> 'v Daemon \<Rightarrow> 'v Daemon" where
  "push_recorded_event now r rec d = push_event now r (StreamEvent.Ledger rec) d"

definition keep_decided :: "'v RunRecord \<Rightarrow> 'v RunRecord" where
  "keep_decided rec = rec\<lparr>rc_approvals := filter (\<lambda>(_, p). pa_decision p \<noteq> None) (rc_approvals rec)\<rparr>"

text \<open>
  Cancellation. The callback runs at most once, before a running run's first accepted cancellation;
  its error leaves the record as it was.
\<close>

definition request_cancel_after :: "u64 \<Rightarrow> ('s \<Rightarrow> 's \<times> (AppError, unit) result) \<Rightarrow> nat \<Rightarrow> 's \<Rightarrow> 'v Daemon \<Rightarrow>
    's \<times> 'v Daemon \<times> (AppError, RunStateName option) result" where
  "request_cancel_after now before_first_accept r store d =
     (case run_state d r of
        RunStateName.Running \<Rightarrow>
          (case before_first_accept store of
             (store, Inl e) \<Rightarrow> (store, d, Inl e)
           | (store, Inr _) \<Rightarrow>
               (let d = on_record r (\<lambda>rec. rec\<lparr>rc_status := (rc_status rec)\<lparr>ru_state := RunStateName.CancelRequested\<rparr>,
                                        rc_cancel := True\<rparr>) d;
                    d = push_event now r (CanceledEvent (rc_run_id (d_records d ! r))) d;
                    d = on_record r keep_decided d
                in (store, d, Inr (Some RunStateName.CancelRequested))))
      | RunStateName.CancelRequested \<Rightarrow> (store, d, Inr (Some RunStateName.CancelRequested))
      | _ \<Rightarrow> (store, d, Inr None))"

definition request_cancel :: "u64 \<Rightarrow> nat \<Rightarrow> 'v Daemon \<Rightarrow> 'v Daemon \<times> RunStateName option" where
  "request_cancel now r d =
     (case request_cancel_after now (\<lambda>u. (u, Inr ())) r () d of
        (_, d, Inr s) \<Rightarrow> (d, s) | (_, d, Inl _) \<Rightarrow> (d, None))"

text \<open>\<open>wait_for_terminal\<close> answers in a state of the record, or goes on waiting until its deadline.\<close>

definition wait_for_terminal :: "bool \<Rightarrow> nat \<Rightarrow> 'v Daemon \<Rightarrow> bool Blocking" where
  "wait_for_terminal expired r d =
     (if \<not> active_run d r then Returns True else if expired then Returns False else Waits)"

definition pending_approval :: "nat \<Rightarrow> 'v Daemon \<Rightarrow> PendingApprovalSnapshot option" where
  "pending_approval r d = (let rec = d_records d ! r in
     if rc_cancel rec \<or> run_state d r \<noteq> RunStateName.Running then None
     else map_option approval_snapshot (find (\<lambda>p. pa_decision p = None) (map snd (rc_approvals rec))))"

section \<open>Admission and completion of runs\<close>

definition reserve_run_with_profile :: "nat \<Rightarrow> ApprovalProfile option \<Rightarrow> 'v Daemon \<Rightarrow>
    'v Daemon \<times> (RunAdmissionError, unit) result" where
  "reserve_run_with_profile r profile d = (let
       st = d_state d; session_id = rc_session_id (d_records d ! r)
     in
       if dm_shutdown_accepted st then (d, Inl AdmissionShuttingDown)
       else case find (\<lambda>a. rc_session_id (d_records d ! a) = session_id \<and> active_run d a) (map snd (dm_runs st)) of
         Some a \<Rightarrow> (d, Inl (SessionActive (rc_run_id (d_records d ! a))))
       | None \<Rightarrow> (on_state (\<lambda>st.
             let st = (case profile of None \<Rightarrow> st
                       | Some p \<Rightarrow> st\<lparr>dm_approval_profiles := AList.update session_id p (dm_approval_profiles st)\<rparr>)
             in st\<lparr>dm_runs := AList.update (rc_run_id (d_records d ! r)) r (dm_runs st)\<rparr>) d, Inr ()))"

definition release_run_reservation :: "nat \<Rightarrow> 'v Daemon \<Rightarrow> 'v Daemon" where
  "release_run_reservation r d = (let run_id = rc_run_id (d_records d ! r) in
     on_state (\<lambda>st. st\<lparr>dm_active_thread_runs := filter (\<lambda>(_, a). a \<noteq> r) (dm_active_thread_runs st),
        dm_runs := (if map_of (dm_runs st) run_id = Some r then AList.delete run_id (dm_runs st) else dm_runs st)\<rparr>) d)"

text \<open>The loop that keeps the newest terminal runs.\<close>

function evict_terminal :: "rstr list \<Rightarrow> (rstr \<times> nat) list \<Rightarrow> rstr list \<times> (rstr \<times> nat) list" where
  "evict_terminal terminal runs =
     (if MAX_TERMINAL_RUNS < length terminal
      then evict_terminal (tl terminal) (AList.delete (hd terminal) runs) else (terminal, runs))"
  by pat_completeness auto
termination by (relation "measure (\<lambda>(terminal, _). length terminal)") (auto simp: MAX_TERMINAL_RUNS_def)

declare evict_terminal.simps [simp del]

text \<open>\<open>complete_run\<close>: the record under its own locks, then the shared state under its lock.\<close>

definition complete_record :: "nat \<Rightarrow> RunStatus \<Rightarrow> 'v Daemon \<Rightarrow> 'v Daemon" where
  "complete_record r status d = on_record r (\<lambda>rec. keep_decided (rec\<lparr>rc_status := status\<rparr>)) d"

definition complete_state :: "nat \<Rightarrow> 'v Daemon \<Rightarrow> 'v Daemon" where
  "complete_state r d =
     on_state (\<lambda>st.
       let (terminal, runs) = evict_terminal (dm_terminal_runs st @ [rc_run_id (d_records d ! r)]) (dm_runs st)
       in st\<lparr>dm_active_thread_runs := filter (\<lambda>(_, a). a \<noteq> r) (dm_active_thread_runs st),
             dm_terminal_runs := terminal, dm_runs := runs\<rparr>) d"

definition complete_run :: "nat \<Rightarrow> RunStatus \<Rightarrow> 'v Daemon \<Rightarrow> 'v Daemon" where
  "complete_run r status d = complete_state r (complete_record r status d)"

definition finish_run :: "nat \<Rightarrow> rstr \<Rightarrow> CompletionClaim option \<Rightarrow> 'v Daemon \<Rightarrow> 'v Daemon" where
  "finish_run r final_answer completion_claim d = complete_run r
     \<lparr>ru_state = RunStateName.Finished, ru_final_answer = Some final_answer, ru_error = None,
      ru_completion_claim = completion_claim\<rparr> d"

definition finish_run_with_error :: "(AppError \<Rightarrow> rstr) \<Rightarrow> nat \<Rightarrow> AppError \<Rightarrow> 'v Daemon \<Rightarrow> 'v Daemon" where
  "finish_run_with_error display r e d = complete_run r
     \<lparr>ru_state = (if e = RunCanceled then RunStateName.Canceled else RunStateName.Failed),
      ru_final_answer = None, ru_error = Some (display e), ru_completion_claim = None\<rparr> d"

section \<open>Sessions\<close>

definition SHELL_EXEC :: rstr where "SHELL_EXEC = lit ''shell.exec''"

text \<open>Shell grants belong to one runtime: its set is an argument.\<close>

definition has_shell_session_grant :: "(rstr \<times> rstr) set \<Rightarrow> rstr \<Rightarrow> bool" where
  "has_shell_session_grant grants session_id \<longleftrightarrow> (session_id, SHELL_EXEC) \<in> grants"

definition install_shell_session_grant :: "(rstr \<times> rstr) set \<Rightarrow> rstr \<Rightarrow> (rstr \<times> rstr) set \<times> bool" where
  "install_shell_session_grant grants session_id =
     (insert (session_id, SHELL_EXEC) grants, (session_id, SHELL_EXEC) \<notin> grants)"

definition approval_profile :: "rstr \<Rightarrow> 'v Daemon \<Rightarrow> ApprovalProfile" where
  "approval_profile session_id d =
     (case map_of (dm_approval_profiles (d_state d)) session_id of None \<Rightarrow> ApprovalProfile.Prompt | Some p \<Rightarrow> p)"

definition set_approval_profile :: "rstr \<Rightarrow> ApprovalProfile \<Rightarrow> 'v Daemon \<Rightarrow> 'v Daemon" where
  "set_approval_profile session_id profile d =
     on_state (\<lambda>st. st\<lparr>dm_approval_profiles := AList.update session_id profile (dm_approval_profiles st)\<rparr>) d"

definition has_runtime_session :: "rstr \<Rightarrow> 'v Daemon \<Rightarrow> bool" where
  "has_runtime_session session_id d \<longleftrightarrow>
     list_ex (\<lambda>(_, r). rc_session_id (d_records d ! r) = session_id) (dm_runs (d_state d)) \<or>
     list_ex (\<lambda>(thread_id, _). session_id = lit ''session_'' @ thread_id) (dm_live_threads (d_state d))"

definition session_yolo_enabled_for_decision :: "rstr \<Rightarrow> 'v Daemon \<Rightarrow> bool" where
  "session_yolo_enabled_for_decision session_id d \<longleftrightarrow> approval_profile session_id d = ApprovalProfile.Yolo"

section \<open>Runtime\<close>

definition claim_home_reservation_decision :: "rstr \<Rightarrow> 'v Daemon \<Rightarrow> 'v Daemon \<times> bool" where
  "claim_home_reservation_decision reservation_id d =
     (on_state (\<lambda>st. st\<lparr>dm_deciding_home_reservations := insert reservation_id (dm_deciding_home_reservations st)\<rparr>) d,
      reservation_id \<notin> dm_deciding_home_reservations (d_state d))"

definition release_home_reservation_decision :: "rstr \<Rightarrow> 'v Daemon \<Rightarrow> 'v Daemon" where
  "release_home_reservation_decision reservation_id d =
     on_state (\<lambda>st. st\<lparr>dm_deciding_home_reservations := dm_deciding_home_reservations st - {reservation_id}\<rparr>) d"

definition thread_confinement :: "DaemonRuntime \<Rightarrow> (unit, ThreadConfinement) result" where
  "thread_confinement rt =
     (case dr_confinement_support rt of
        SupportsLandlock \<Rightarrow> Inr ThreadConfinement.Landlock
      | NoSupport \<Rightarrow> if dr_require_confinement rt then Inl () else Inr ThreadConfinement.Unconfined)"

datatype IssuePrepAdmissionError = IssuePrepShuttingDown | IssuePrepActive

definition reserve_issue_prep :: "'v Daemon \<Rightarrow> 'v Daemon \<times> (IssuePrepAdmissionError, unit) result" where
  "reserve_issue_prep d =
     (if dm_shutdown_accepted (d_state d) then (d, Inl IssuePrepShuttingDown)
      else if dm_issue_prep_active (d_state d) then (d, Inl IssuePrepActive)
      else (on_state (\<lambda>st. st\<lparr>dm_issue_prep_active := True\<rparr>) d, Inr ()))"

definition drop_issue_prep :: "'v Daemon \<Rightarrow> 'v Daemon" where
  "drop_issue_prep d = on_state (\<lambda>st. st\<lparr>dm_issue_prep_active := False\<rparr>) d"

datatype ShutdownIfIdleDecision = Shutdown | RefusedActive | AlreadyShuttingDown

definition shutdown_if_idle :: "DaemonRuntime \<Rightarrow> 'v Daemon \<Rightarrow> 'v Daemon \<times> ShutdownIfIdleDecision" where
  "shutdown_if_idle rt d = (let st = d_state d in
     if dm_shutdown_accepted st then (d, AlreadyShuttingDown)
     else if dm_issue_prep_active st \<or> dm_pending_thread_spawns st \<noteq> [] \<or> dm_stopping_threads st \<noteq> {} \<or>
         list_ex (\<lambda>(_, t). lt_workspace_id (d_threads d ! t) = dr_workspace_id rt \<and>
                     current_turn_id (d_threads d ! t) \<noteq> None) (dm_live_threads st) \<or>
         list_ex (\<lambda>(_, r). active_run d r) (dm_runs st)
     then (d, RefusedActive)
     else (on_state (\<lambda>st. st\<lparr>dm_shutdown_accepted := True\<rparr>) d, Shutdown))"

section \<open>Threads\<close>

datatype ThreadSpawnAdmissionError = SpawnShuttingDown | Duplicate

datatype ThreadSpawnClaimError = SpawnNotFound | WrongWorkspace | DecisionInProgress

definition reserve_thread_spawn :: "DaemonRuntime \<Rightarrow> rstr \<Rightarrow> ThreadAuthorityDraft \<Rightarrow> u32 \<Rightarrow> 'v Daemon \<Rightarrow>
    'v Daemon \<times> (ThreadSpawnAdmissionError, unit) result" where
  "reserve_thread_spawn rt spawn_id draft max_spawn_depth d = (let st = d_state d in
     if dm_shutdown_accepted st then (d, Inl SpawnShuttingDown)
     else if map_of (dm_pending_thread_spawns st) spawn_id \<noteq> None \<or>
         map_of (dm_live_threads st) (td_thread_id draft) \<noteq> None \<or>
         list_ex (\<lambda>(_, p). td_thread_id (sw_draft p) = td_thread_id draft) (dm_pending_thread_spawns st)
     then (d, Inl Duplicate)
     else (on_state (\<lambda>st. st\<lparr>dm_pending_thread_spawns := AList.update spawn_id
              \<lparr>sw_spawn_id = spawn_id, sw_workspace_id = dr_workspace_id rt, sw_draft = draft,
               sw_max_spawn_depth = max_spawn_depth, sw_decision_in_progress = False\<rparr>
              (dm_pending_thread_spawns st)\<rparr>) d, Inr ()))"

definition set_decision_in_progress :: "bool \<Rightarrow> rstr \<Rightarrow> PendingThreadSpawn \<Rightarrow> 'v Daemon \<Rightarrow> 'v Daemon" where
  "set_decision_in_progress b spawn_id p d =
     on_state (\<lambda>st. st\<lparr>dm_pending_thread_spawns :=
       AList.update spawn_id (p\<lparr>sw_decision_in_progress := b\<rparr>) (dm_pending_thread_spawns st)\<rparr>) d"

definition claim_thread_spawn :: "DaemonRuntime \<Rightarrow> rstr \<Rightarrow> 'v Daemon \<Rightarrow>
    'v Daemon \<times> (ThreadSpawnClaimError, PendingThreadSpawn) result" where
  "claim_thread_spawn rt spawn_id d =
     (case map_of (dm_pending_thread_spawns (d_state d)) spawn_id of
        None \<Rightarrow> (d, Inl SpawnNotFound)
      | Some p \<Rightarrow>
          if sw_workspace_id p \<noteq> dr_workspace_id rt then (d, Inl WrongWorkspace)
          else if sw_decision_in_progress p then (d, Inl DecisionInProgress)
          else (set_decision_in_progress True spawn_id p d, Inr (p\<lparr>sw_decision_in_progress := True\<rparr>)))"

definition release_thread_spawn_claim :: "rstr \<Rightarrow> 'v Daemon \<Rightarrow> 'v Daemon" where
  "release_thread_spawn_claim spawn_id d =
     (case map_of (dm_pending_thread_spawns (d_state d)) spawn_id of
        None \<Rightarrow> d
      | Some p \<Rightarrow> set_decision_in_progress False spawn_id p d)"

definition insert_live_thread :: "rstr \<Rightarrow> rstr \<Rightarrow> u64 \<Rightarrow> 'v Daemon \<Rightarrow> 'v Daemon \<times> nat" where
  "insert_live_thread thread_id workspace_id now d =
     (let (d, t) = new_thread (LiveThread_new workspace_id now) d in
      (on_state (\<lambda>st. st\<lparr>dm_live_threads := AList.update thread_id t (dm_live_threads st)\<rparr>) d, t))"

text \<open>The reservation of a durable spawn is expected to be there; without it the daemon panics.\<close>

definition complete_thread_spawn :: "DaemonRuntime \<Rightarrow> rstr \<Rightarrow> ThreadAuthorityRecord \<Rightarrow> 'v Daemon \<Rightarrow> 'v Daemon option" where
  "complete_thread_spawn rt spawn_id durable d =
     (if map_of (dm_pending_thread_spawns (d_state d)) spawn_id = None then None
      else Some (fst (insert_live_thread (ta_thread_id durable) (dr_workspace_id rt) (ta_created_at_ms durable)
        (on_state (\<lambda>st. st\<lparr>dm_pending_thread_spawns := AList.delete spawn_id (dm_pending_thread_spawns st)\<rparr>) d))))"

definition complete_thread_spawn_without_authority :: "rstr \<Rightarrow> 'v Daemon \<Rightarrow> 'v Daemon" where
  "complete_thread_spawn_without_authority spawn_id d =
     on_state (\<lambda>st. st\<lparr>dm_pending_thread_spawns := AList.delete spawn_id (dm_pending_thread_spawns st)\<rparr>) d"

text \<open>\<open>live_threads.get(thread_id).filter(...)\<close>: the live thread of this runtime's workspace.\<close>

definition live_thread :: "DaemonRuntime \<Rightarrow> rstr \<Rightarrow> 'v Daemon \<Rightarrow> nat option" where
  "live_thread rt thread_id d =
     (case map_of (dm_live_threads (d_state d)) thread_id of
        None \<Rightarrow> None
      | Some t \<Rightarrow> if lt_workspace_id (d_threads d ! t) = dr_workspace_id rt then Some t else None)"

definition thread_is_loaded :: "DaemonRuntime \<Rightarrow> rstr \<Rightarrow> 'v Daemon \<Rightarrow> bool" where
  "thread_is_loaded rt thread_id d \<longleftrightarrow>
     thread_id \<notin> dm_stopping_threads (d_state d) \<and> thread_id \<notin> dm_stopped_threads (d_state d) \<and>
     live_thread rt thread_id d \<noteq> None"

datatype ThreadEventsError = EventsStopped

definition load_thread :: "DaemonRuntime \<Rightarrow> u64 \<Rightarrow> rstr \<Rightarrow> 'v Daemon \<Rightarrow> 'v Daemon \<times> (ThreadEventsError, nat) result" where
  "load_thread rt now thread_id d =
     (if thread_id \<in> dm_stopped_threads (d_state d) then (d, Inl EventsStopped)
      else case live_thread rt thread_id d of
        Some t \<Rightarrow> (d, Inr t)
      | None \<Rightarrow>
          if thread_id \<in> dm_stopping_threads (d_state d) then (d, Inl EventsStopped)
          else map_prod id Inr (insert_live_thread thread_id (dr_workspace_id rt) now d))"

definition send_thread :: "DaemonRuntime \<Rightarrow> u64 \<Rightarrow> rstr \<Rightarrow> rstr \<Rightarrow> rstr option \<Rightarrow> rstr \<Rightarrow> rstr \<Rightarrow> 'v Daemon \<Rightarrow>
    'v Daemon \<times> ThreadSendAdmission" where
  "send_thread rt now thread_id controller_id expected_turn_id message new_turn_id d =
     (if dm_shutdown_accepted (d_state d) then (d, ThreadSendAdmission.ShuttingDown)
      else if thread_id \<in> dm_stopping_threads (d_state d) \<or> thread_id \<in> dm_stopped_threads (d_state d)
      then (d, AdmissionStopped)
      else if live_thread rt thread_id d = None \<and> expected_turn_id \<noteq> None
      then (d, Rejected (RejectedResult thread_id None TurnMismatch))
      else let (d, t) = (case live_thread rt thread_id d of
               Some t \<Rightarrow> (d, t)
             | None \<Rightarrow> insert_live_thread thread_id (dr_workspace_id rt) now d);
             (thread, admission) = send now t thread_id controller_id expected_turn_id message new_turn_id (d_threads d ! t)
        in (on_thread t (\<lambda>_. thread) d, admission))"

definition thread_events :: "DaemonRuntime \<Rightarrow> u64 \<Rightarrow> rstr \<Rightarrow> rstr option \<Rightarrow> u64 option \<Rightarrow> nat \<Rightarrow> nat \<Rightarrow>
    ('v LiveThread \<Rightarrow> 'v LiveThread) \<Rightarrow> 'v Daemon \<Rightarrow> 'v Daemon \<times> (ThreadEventsError, 'v ThreadEventsResult) result" where
  "thread_events rt now thread_id live_epoch_id from_offset limit wait woken d =
     (let epoch = dm_live_epoch_id (d_state d) in
      case load_thread rt now thread_id d of
        (d, Inl e) \<Rightarrow> (d, Inl e)
      | (d, Inr t) \<Rightarrow>
          let (thread, page) = events thread_id epoch live_epoch_id from_offset limit wait woken (d_threads d ! t)
          in (on_thread t (\<lambda>_. thread) d, Inr page))"

text \<open>
  One pass of \<open>bind_thread_run\<close>'s loop under the state lock: an answer, or the thread whose stop it has
  to wait for. It then waits on that thread alone, and passes again if the stop was aborted.
\<close>

datatype BindPass = AwaitStop nat | Bound "(ThreadRunBindError, unit) result"

definition bind_thread_run_pass :: "DaemonRuntime \<Rightarrow> u64 \<Rightarrow> ThreadTurnBinding \<Rightarrow> nat \<Rightarrow> 'v Daemon \<Rightarrow> 'v Daemon \<times> BindPass" where
  "bind_thread_run_pass rt now turn r d = (let thread_id = tb_thread_id turn in
     if thread_id \<in> dm_stopped_threads (d_state d) then (d, Bound (Inl BindStopping))
     else if live_thread rt thread_id d \<noteq> Some (tb_thread turn) then (d, Bound (Inl NotLoaded))
     else if thread_id \<in> dm_stopping_threads (d_state d) then (d, AwaitStop (tb_thread turn))
     else if (case map_of (dm_active_thread_runs (d_state d)) thread_id of None \<Rightarrow> False | Some a \<Rightarrow> active_run d a)
     then (d, Bound (Inl RunActive))
     else case bind_run now (tb_turn_id turn) (d_threads d ! tb_thread turn) of
       (thread, Inl e) \<Rightarrow> (on_thread (tb_thread turn) (\<lambda>_. thread) d, Bound (Inl e))
     | (thread, Inr _) \<Rightarrow>
         (on_state (\<lambda>st. st\<lparr>dm_active_thread_runs := AList.update thread_id r (dm_active_thread_runs st)\<rparr>)
            (on_thread (tb_thread turn) (\<lambda>_. thread) d), Bound (Inr ())))"

definition await_stop :: "nat \<Rightarrow> 'v Daemon \<Rightarrow> (ThreadRunBindError, unit) result option Blocking" where
  "await_stop t d =
     (case wait_for_stop_resolution (d_threads d ! t) of
        Waits \<Rightarrow> Waits
      | Returns lifecycle \<Rightarrow>
          Returns (if lifecycle = LiveThreadLifecycle.Running then None else Some (Inl BindStopping)))"

datatype ThreadStopError = InProgress | AlreadyStopped

record ThreadStopTarget =
  ts_turn_id :: "rstr option"
  ts_run :: "nat option"

definition begin_thread_stop :: "DaemonRuntime \<Rightarrow> rstr \<Rightarrow> 'v Daemon \<Rightarrow> 'v Daemon \<times> (ThreadStopError, ThreadStopTarget) result" where
  "begin_thread_stop rt thread_id d =
     (if thread_id \<in> dm_stopped_threads (d_state d) then (d, Inl AlreadyStopped)
      else if thread_id \<in> dm_stopping_threads (d_state d) then (d, Inl InProgress)
      else let
        d = on_state (\<lambda>st. st\<lparr>dm_stopping_threads := insert thread_id (dm_stopping_threads st)\<rparr>) d;
        (d, turn_id) = (case live_thread rt thread_id d of
            None \<Rightarrow> (d, None)
          | Some t \<Rightarrow> (on_thread t (fst \<circ> begin_stop) d, snd (begin_stop (d_threads d ! t))))
      in (d, Inr \<lparr>ts_turn_id = turn_id, ts_run = map_of (dm_active_thread_runs (d_state d)) thread_id\<rparr>))"

definition on_live_thread :: "rstr \<Rightarrow> ('v LiveThread \<Rightarrow> 'v LiveThread) \<Rightarrow> 'v Daemon \<Rightarrow> 'v Daemon" where
  "on_live_thread thread_id f d =
     (case map_of (dm_live_threads (d_state d)) thread_id of None \<Rightarrow> d | Some t \<Rightarrow> on_thread t f d)"

definition complete_thread_stop :: "rstr \<Rightarrow> 'v Daemon \<Rightarrow> 'v Daemon" where
  "complete_thread_stop thread_id d =
     on_state (\<lambda>st. st\<lparr>dm_live_threads := AList.delete thread_id (dm_live_threads st),
        dm_active_thread_runs := AList.delete thread_id (dm_active_thread_runs st),
        dm_stopping_threads := dm_stopping_threads st - {thread_id},
        dm_stopped_threads := insert thread_id (dm_stopped_threads st)\<rparr>)
       (on_live_thread thread_id complete_stop d)"

definition abort_thread_stop :: "rstr \<Rightarrow> 'v Daemon \<Rightarrow> 'v Daemon" where
  "abort_thread_stop thread_id d =
     on_state (\<lambda>st. st\<lparr>dm_stopping_threads := dm_stopping_threads st - {thread_id}\<rparr>)
       (on_live_thread thread_id abort_stop d)"

definition next_thread_message :: "ThreadTurnBinding \<Rightarrow> 'v Daemon \<Rightarrow> ('v Daemon \<times> rstr option) Blocking" where
  "next_thread_message turn d =
     (case next_message_or_finish (tb_turn_id turn) (d_threads d ! tb_thread turn) of
        Waits \<Rightarrow> Waits
      | Returns (thread, message) \<Rightarrow> Returns (on_thread (tb_thread turn) (\<lambda>_. thread) d, message))"

definition abort_thread_turn :: "ThreadTurnBinding \<Rightarrow> 'v Daemon \<Rightarrow> 'v Daemon" where
  "abort_thread_turn turn d = on_thread (tb_thread turn) (abort (tb_turn_id turn)) d"

record ThreadLiveState =
  tl_live_epoch_id :: rstr
  tl_loaded :: bool
  tl_current_turn_id :: "rstr option"
  tl_last_activity_at_ms :: "u64 option"

definition thread_live_state :: "DaemonRuntime \<Rightarrow> rstr \<Rightarrow> 'v Daemon \<Rightarrow> ThreadLiveState" where
  "thread_live_state rt thread_id d = (let epoch = dm_live_epoch_id (d_state d) in
     case live_thread rt thread_id d of
       Some t \<Rightarrow> (let (turn_id, activity) = live_snapshot (d_threads d ! t) in
          \<lparr>tl_live_epoch_id = epoch, tl_loaded = True, tl_current_turn_id = turn_id,
           tl_last_activity_at_ms = Some activity\<rparr>)
     | None \<Rightarrow> \<lparr>tl_live_epoch_id = epoch, tl_loaded = False, tl_current_turn_id = None,
                tl_last_activity_at_ms = None\<rparr>)"

end
