(* ===== verification/Daemon_Steps.thy ===== *)
theory Daemon_Steps
  imports Daemon_Runtime
begin

text \<open>
  The daemon as a transition system: one label per critical section of the operations of
  \<open>Daemon_Runtime\<close>, in any interleaving the threads of the daemon produce. A label is admissible
  where the code that takes it is: a run's identifier is minted for it, a run's shared completion
  comes after its own record is terminal, references are those handed out.
\<close>

section \<open>Labels and traces\<close>

datatype 'v DaemonOp =
    ReserveRun rstr rstr rstr "ThreadTurnBinding option" "ApprovalProfile option"
  | ReleaseRun nat
  | CompleteRecord nat RunStatus
  | CompleteState nat
  | PushBuffer nat "'v StreamEvent"
  | PublishTurn u64 ThreadTurnBinding "'v StreamEvent"
  | RequestCancel u64 nat "(AppError, unit) result"
  | EditApprovals nat "(rstr \<times> PendingApproval) list"
  | SetProfile rstr ApprovalProfile
  | ClaimHome rstr
  | ReleaseHome rstr
  | ReserveIssuePrep
  | DropIssuePrep
  | ShutdownIfIdle DaemonRuntime
  | ReserveSpawn DaemonRuntime rstr ThreadAuthorityDraft u32
  | ClaimSpawn DaemonRuntime rstr
  | ReleaseClaim rstr
  | CompleteSpawn DaemonRuntime rstr ThreadAuthorityRecord
  | CompleteSpawnWithoutAuthority rstr
  | LoadThread DaemonRuntime u64 rstr
  | Observe nat nat
  | SendThread DaemonRuntime u64 rstr rstr "rstr option" rstr rstr
  | BindRun DaemonRuntime u64 ThreadTurnBinding nat
  | BeginStop DaemonRuntime rstr
  | CompleteStop rstr
  | AbortStop rstr
  | NextMessage ThreadTurnBinding
  | AbortTurn ThreadTurnBinding

fun daemon_op :: "'v DaemonOp \<Rightarrow> 'v Daemon \<Rightarrow> 'v Daemon" where
  "daemon_op (ReserveRun run_id session_id path turn profile) d =
     (let (d, r) = new_record (RunRecord_new_inner run_id session_id path turn) d
      in fst (reserve_run_with_profile r profile d))"
| "daemon_op (ReleaseRun r) d = release_run_reservation r d"
| "daemon_op (CompleteRecord r status) d = complete_record r status d"
| "daemon_op (CompleteState r) d = complete_state r d"
| "daemon_op (PushBuffer r event) d = on_record r (push_buffer event) d"
| "daemon_op (PublishTurn now turn event) d = publish_turn now turn event d"
| "daemon_op (RequestCancel now r before) d = fst (snd (request_cancel_after now (\<lambda>u. (u, before)) r () d))"
| "daemon_op (EditApprovals r approvals) d = on_record r (\<lambda>rec. rec\<lparr>rc_approvals := approvals\<rparr>) d"
| "daemon_op (SetProfile session_id profile) d = set_approval_profile session_id profile d"
| "daemon_op (ClaimHome reservation_id) d = fst (claim_home_reservation_decision reservation_id d)"
| "daemon_op (ReleaseHome reservation_id) d = release_home_reservation_decision reservation_id d"
| "daemon_op ReserveIssuePrep d = fst (reserve_issue_prep d)"
| "daemon_op DropIssuePrep d = drop_issue_prep d"
| "daemon_op (ShutdownIfIdle rt) d = fst (shutdown_if_idle rt d)"
| "daemon_op (ReserveSpawn rt spawn_id draft depth) d = fst (reserve_thread_spawn rt spawn_id draft depth d)"
| "daemon_op (ClaimSpawn rt spawn_id) d = fst (claim_thread_spawn rt spawn_id d)"
| "daemon_op (ReleaseClaim spawn_id) d = release_thread_spawn_claim spawn_id d"
| "daemon_op (CompleteSpawn rt spawn_id durable) d =
     (case complete_thread_spawn rt spawn_id durable d of None \<Rightarrow> d | Some d' \<Rightarrow> d')"
| "daemon_op (CompleteSpawnWithoutAuthority spawn_id) d = complete_thread_spawn_without_authority spawn_id d"
| "daemon_op (LoadThread rt now thread_id) d = fst (load_thread rt now thread_id d)"
| "daemon_op (Observe t n) d = on_thread t (\<lambda>thread. thread\<lparr>lt_observers := n\<rparr>) d"
| "daemon_op (SendThread rt now thread_id controller_id expected message new_turn_id) d =
     fst (send_thread rt now thread_id controller_id expected message new_turn_id d)"
| "daemon_op (BindRun rt now turn r) d = fst (bind_thread_run_pass rt now turn r d)"
| "daemon_op (BeginStop rt thread_id) d = fst (begin_thread_stop rt thread_id d)"
| "daemon_op (CompleteStop thread_id) d = complete_thread_stop thread_id d"
| "daemon_op (AbortStop thread_id) d = abort_thread_stop thread_id d"
| "daemon_op (NextMessage turn) d =
     (case next_thread_message turn d of Waits \<Rightarrow> d | Returns (d', _) \<Rightarrow> d')"
| "daemon_op (AbortTurn turn) d = abort_thread_turn turn d"

fun admissible :: "'v DaemonOp \<Rightarrow> 'v Daemon \<Rightarrow> bool" where
  "admissible (ReserveRun run_id _ _ _ _) d \<longleftrightarrow> run_id \<notin> rc_run_id ` set (d_records d)"
| "admissible (CompleteRecord _ status) d \<longleftrightarrow> \<not> active_state (ru_state status)"
| "admissible (CompleteState r) d \<longleftrightarrow> r < length (d_records d) \<and> \<not> active_run d r"
| "admissible _ d \<longleftrightarrow> True"

inductive daemon_trace :: "('v DaemonOp \<Rightarrow> 'v Daemon \<Rightarrow> bool) \<Rightarrow> 'v Daemon \<Rightarrow> 'v DaemonOp list \<Rightarrow> 'v Daemon \<Rightarrow> bool"
  for guard d where
  start: "daemon_trace guard d [] d"
| step: "\<lbrakk> daemon_trace guard d ops d'; guard op d' \<rbrakk> \<Longrightarrow> daemon_trace guard d (ops @ [op]) (daemon_op op d')"

text \<open>What an invariant is owed, and what it then gives along every trace.\<close>

locale daemon_invariant =
  fixes guard :: "'v DaemonOp \<Rightarrow> 'v Daemon \<Rightarrow> bool" and inv :: "'v Daemon \<Rightarrow> bool"
  assumes keeps: "\<lbrakk> inv d; guard op d \<rbrakk> \<Longrightarrow> inv (daemon_op op d)"
begin

lemma along_trace: "daemon_trace guard d ops d' \<Longrightarrow> inv d \<Longrightarrow> inv d'"
  by (induction rule: daemon_trace.induct) (auto intro: keeps)

end

section \<open>Frames\<close>

lemma on_simps [simp]:
  "d_state (on_record r f d) = d_state d" "d_threads (on_record r f d) = d_threads d"
  "length (d_records (on_record r f d)) = length (d_records d)"
  "d_state (on_thread t g d) = d_state d" "d_records (on_thread t g d) = d_records d"
  "length (d_threads (on_thread t g d)) = length (d_threads d)"
  "d_records (on_state h d) = d_records d" "d_threads (on_state h d) = d_threads d"
  "d_state (on_state h d) = h (d_state d)" "run_state (on_state h d) = run_state d"
  "run_state (on_thread t g d) = run_state d"
  by (auto simp: on_record_def on_thread_def on_state_def run_state_def fun_eq_iff)

lemma on_record_at:
  "x < length (d_records d) \<Longrightarrow>
   d_records (on_record r f d) ! x = (if x = r then f (d_records d ! r) else d_records d ! x)"
  by (simp add: on_record_def nth_list_update)

lemma on_thread_at:
  "x < length (d_threads d) \<Longrightarrow>
   d_threads (on_thread t f d) ! x = (if x = t then f (d_threads d ! t) else d_threads d ! x)"
  by (simp add: on_thread_def nth_list_update)

lemma evict_terminal_eq:
  "evict_terminal terminal runs =
   (let n = length terminal - MAX_TERMINAL_RUNS in (drop n terminal, fold AList.delete (take n terminal) runs))"
proof (induction terminal runs rule: evict_terminal.induct)
  case (1 terminal runs)
  show ?case
  proof (cases "MAX_TERMINAL_RUNS < length terminal")
    case True
    then obtain x xs where t: "terminal = x # xs" by (cases terminal) auto
    then have "length terminal - MAX_TERMINAL_RUNS = Suc (length xs - MAX_TERMINAL_RUNS)"
      using True by (simp add: Suc_diff_le less_Suc_eq_le)
    then show ?thesis using 1 True t by (subst evict_terminal.simps) (simp add: Let_def)
  qed (simp add: evict_terminal.simps [of terminal] Let_def)
qed

lemma map_of_fold_delete: "map_of (fold AList.delete ks m) k = (if k \<in> set ks then None else map_of m k)"
  by (induction ks arbitrary: m) (auto simp: delete_conv')

section \<open>Runs\<close>

text \<open>
  Every run the shared state knows is in the heap under its own identifier, identifiers are not shared,
  a terminal entry is of a run that ended, and no session has two active runs.
\<close>

definition runs_inv :: "'v Daemon \<Rightarrow> bool" where
  "runs_inv d \<longleftrightarrow>
     (\<forall>k r. map_of (dm_runs (d_state d)) k = Some r \<longrightarrow> r < length (d_records d) \<and> rc_run_id (d_records d ! r) = k) \<and>
     distinct (map rc_run_id (d_records d)) \<and>
     set (dm_terminal_runs (d_state d)) \<subseteq> {rc_run_id (d_records d ! r) |r. r < length (d_records d) \<and> \<not> active_run d r} \<and>
     length (dm_terminal_runs (d_state d)) \<le> MAX_TERMINAL_RUNS \<and>
     (\<forall>j k a b. map_of (dm_runs (d_state d)) j = Some a \<longrightarrow> map_of (dm_runs (d_state d)) k = Some b \<longrightarrow> a \<noteq> b \<longrightarrow>
        rc_session_id (d_records d ! a) = rc_session_id (d_records d ! b) \<longrightarrow> \<not> (active_run d a \<and> active_run d b))"

lemma runs_invI:
  assumes "\<And>k r. map_of (dm_runs (d_state d)) k = Some r \<Longrightarrow> r < length (d_records d) \<and> rc_run_id (d_records d ! r) = k"
    and "distinct (map rc_run_id (d_records d))"
    and "\<And>x. x \<in> set (dm_terminal_runs (d_state d)) \<Longrightarrow>
           \<exists>r < length (d_records d). rc_run_id (d_records d ! r) = x \<and> \<not> active_run d r"
    and "length (dm_terminal_runs (d_state d)) \<le> MAX_TERMINAL_RUNS"
    and "\<And>j k a b. \<lbrakk> map_of (dm_runs (d_state d)) j = Some a; map_of (dm_runs (d_state d)) k = Some b; a \<noteq> b;
           rc_session_id (d_records d ! a) = rc_session_id (d_records d ! b); active_run d a; active_run d b \<rbrakk> \<Longrightarrow> False"
  shows "runs_inv d"
  unfolding runs_inv_def using assms by blast

lemma runs_invD:
  assumes "runs_inv d"
  shows "map_of (dm_runs (d_state d)) k = Some r \<Longrightarrow> r < length (d_records d)"
    and "map_of (dm_runs (d_state d)) k = Some r \<Longrightarrow> rc_run_id (d_records d ! r) = k"
    and "distinct (map rc_run_id (d_records d))"
    and "x \<in> set (dm_terminal_runs (d_state d)) \<Longrightarrow>
           \<exists>r < length (d_records d). rc_run_id (d_records d ! r) = x \<and> \<not> active_run d r"
    and "length (dm_terminal_runs (d_state d)) \<le> MAX_TERMINAL_RUNS"
    and "\<lbrakk> map_of (dm_runs (d_state d)) j = Some a; map_of (dm_runs (d_state d)) l = Some b; a \<noteq> b;
           rc_session_id (d_records d ! a) = rc_session_id (d_records d ! b); active_run d a; active_run d b \<rbrakk> \<Longrightarrow> False"
  using assms unfolding runs_inv_def by blast+

lemma run_ids_distinct:
  "\<lbrakk> runs_inv d; a < length (d_records d); b < length (d_records d);
     rc_run_id (d_records d ! a) = rc_run_id (d_records d ! b) \<rbrakk> \<Longrightarrow> a = b"
  by (drule runs_invD(3)) (simp add: distinct_conv_nth, metis)

text \<open>
  A step is quiet for runs when it leaves the two tables, the identifiers and sessions alone and
  activates no run.
\<close>

definition quiet :: "'v Daemon \<Rightarrow> 'v Daemon \<Rightarrow> bool" where
  "quiet d d' \<longleftrightarrow>
     dm_runs (d_state d') = dm_runs (d_state d) \<and> dm_terminal_runs (d_state d') = dm_terminal_runs (d_state d) \<and>
     length (d_records d') = length (d_records d) \<and>
     (\<forall>r < length (d_records d). rc_run_id (d_records d' ! r) = rc_run_id (d_records d ! r) \<and>
        rc_session_id (d_records d' ! r) = rc_session_id (d_records d ! r) \<and>
        (active_run d' r \<longrightarrow> active_run d r))"

lemma quiet_refl [simp]: "quiet d d"
  by (simp add: quiet_def)

lemma quiet_trans: "quiet d d' \<Longrightarrow> quiet d' d'' \<Longrightarrow> quiet d d''"
  by (auto simp: quiet_def)

lemma quiet_ids: "quiet d d' \<Longrightarrow> map rc_run_id (d_records d') = map rc_run_id (d_records d)"
  by (simp add: quiet_def list_eq_iff_nth_eq)

lemma quiet_runs_inv:
  assumes q: "quiet d d'" and i: "runs_inv d"
  shows "runs_inv d'"
proof (rule runs_invI)
  have eqs: "dm_runs (d_state d') = dm_runs (d_state d)" "dm_terminal_runs (d_state d') = dm_terminal_runs (d_state d)"
      "length (d_records d') = length (d_records d)"
    using q by (simp_all add: quiet_def)
  have at: "r < length (d_records d) \<Longrightarrow> rc_run_id (d_records d' ! r) = rc_run_id (d_records d ! r)"
    "r < length (d_records d) \<Longrightarrow> rc_session_id (d_records d' ! r) = rc_session_id (d_records d ! r)"
    "r < length (d_records d) \<Longrightarrow> active_run d' r \<Longrightarrow> active_run d r" for r
    using q by (auto simp: quiet_def)
  note D = runs_invD [OF i]
  show "map_of (dm_runs (d_state d')) k = Some r \<Longrightarrow> r < length (d_records d') \<and> rc_run_id (d_records d' ! r) = k" for k r
    using D(1,2) at(1) by (simp add: eqs)
  show "distinct (map rc_run_id (d_records d'))" using D(3) by (simp add: quiet_ids [OF q])
  show "\<exists>r < length (d_records d'). rc_run_id (d_records d' ! r) = x \<and> \<not> active_run d' r"
    if "x \<in> set (dm_terminal_runs (d_state d'))" for x
    using D(4) [of x] that at by (auto simp: eqs)
  show "length (dm_terminal_runs (d_state d')) \<le> MAX_TERMINAL_RUNS" using D(5) by (simp add: eqs)
  show False if "map_of (dm_runs (d_state d')) j = Some a" "map_of (dm_runs (d_state d')) k = Some b" "a \<noteq> b"
    "rc_session_id (d_records d' ! a) = rc_session_id (d_records d' ! b)" "active_run d' a" "active_run d' b" for j k a b
    using D(6) [of j a k b] that D(1) at(2,3) by (metis eqs(1))
qed

lemma quiet_on_record:
  assumes "\<And>rec. rc_run_id (f rec) = rc_run_id rec" and "\<And>rec. rc_session_id (f rec) = rc_session_id rec"
    and "\<And>rec. active_state (ru_state (rc_status (f rec))) \<Longrightarrow> active_state (ru_state (rc_status rec))"
  shows "quiet d (on_record r f d)"
  using assms by (auto simp: quiet_def on_record_at run_state_def)

lemma quiet_on_thread [simp]: "quiet d (on_thread t f d)"
  by (simp add: quiet_def)

lemma quiet_on_state:
  "dm_runs (f (d_state d)) = dm_runs (d_state d) \<Longrightarrow> dm_terminal_runs (f (d_state d)) = dm_terminal_runs (d_state d) \<Longrightarrow>
   quiet d (on_state f d)"
  by (simp add: quiet_def)

lemma quiet_insert_live_thread [simp]: "quiet d (fst (insert_live_thread tid ws now d))"
  by (simp add: quiet_def insert_live_thread_def new_thread_def run_state_def)

lemma quiet_push_event [simp]: "quiet d (push_event now r event d)"
proof -
  have "quiet d (on_record r (push_buffer event) d)"
    by (rule quiet_on_record) (auto simp: push_buffer_def Let_def)
  then show ?thesis unfolding push_event_def Let_def
    by (auto split: option.split simp: publish_turn_def intro: quiet_trans)
qed

lemma quiet_request_cancel_after:
  "quiet d (fst (snd (request_cancel_after now before r store d)))"
proof -
  let ?c = "\<lambda>rec. rec\<lparr>rc_status := (rc_status rec)\<lparr>ru_state := RunStateName.CancelRequested\<rparr>, rc_cancel := True\<rparr>"
  have "quiet d (on_record r ?c d)" if "run_state d r = RunStateName.Running"
    using that by (auto simp: quiet_def on_record_at run_state_def)
  moreover have "quiet d (on_record r keep_decided (push_event now r event e))" if "quiet d e" for event e
  proof -
    have "quiet e' (on_record r keep_decided e')" for e' :: "'a Daemon"
      by (rule quiet_on_record) (auto simp: keep_decided_def)
    then show ?thesis using that quiet_push_event quiet_trans by blast
  qed
  ultimately show ?thesis
    by (auto simp: request_cancel_after_def Let_def split: RunStateName.split prod.split sum.split)
qed

lemma runs_inv_new: "runs_inv (Daemon_new epoch)"
  by (simp add: runs_inv_def Daemon_new_def RuntimeState_default_def)

lemma runs_inv_fewer:
  assumes i: "runs_inv d" and "\<And>k r. map_of (dm_runs (f (d_state d))) k = Some r \<Longrightarrow> map_of (dm_runs (d_state d)) k = Some r"
    and "set (dm_terminal_runs (f (d_state d))) \<subseteq> set (dm_terminal_runs (d_state d)) \<union>
           {rc_run_id (d_records d ! r) |r. r < length (d_records d) \<and> \<not> active_run d r}"
    and "length (dm_terminal_runs (f (d_state d))) \<le> MAX_TERMINAL_RUNS"
  shows "runs_inv (on_state f d)"
  by (rule runs_invI) (use assms runs_invD [OF i] in \<open>auto dest!: assms(2)\<close>)

lemma runs_inv_complete_state:
  assumes "runs_inv d" and "r < length (d_records d)" and "\<not> active_run d r"
  shows "runs_inv (complete_state r d)"
  unfolding complete_state_def
proof (rule runs_inv_fewer [OF assms(1)])
  let ?q = "dm_terminal_runs (d_state d) @ [rc_run_id (d_records d ! r)]"
  show "set (dm_terminal_runs (let (terminal, runs) = evict_terminal ?q (dm_runs (d_state d)) in
      (d_state d)\<lparr>dm_active_thread_runs := filter (\<lambda>(_, a). a \<noteq> r) (dm_active_thread_runs (d_state d)),
        dm_terminal_runs := terminal, dm_runs := runs\<rparr>))
    \<subseteq> set (dm_terminal_runs (d_state d)) \<union> {rc_run_id (d_records d ! r) |r. r < length (d_records d) \<and> \<not> active_run d r}"
    using assms(2,3) set_drop_subset [of "length ?q - MAX_TERMINAL_RUNS" ?q]
    by (auto simp: evict_terminal_eq Let_def)
qed (auto simp: evict_terminal_eq Let_def map_of_fold_delete split: if_splits)

lemma runs_inv_new_record:
  assumes i: "runs_inv d" and fresh: "rc_run_id rec \<notin> rc_run_id ` set (d_records d)"
  shows "runs_inv (fst (new_record rec d))"
proof (rule runs_invI)
  let ?d = "fst (new_record rec d)"
  have old: "d_records ?d ! r = d_records d ! r" "run_state ?d r = run_state d r" if "r < length (d_records d)" for r
    using that by (simp_all add: new_record_def nth_append run_state_def)
  note D = runs_invD [OF i]
  show "map_of (dm_runs (d_state ?d)) k = Some r \<Longrightarrow> r < length (d_records ?d) \<and> rc_run_id (d_records ?d ! r) = k" for k r
    using D(1,2) [of k r] by (auto simp: new_record_def nth_append)
  show "distinct (map rc_run_id (d_records ?d))" using D(3) fresh by (simp add: new_record_def)
  show "\<exists>r < length (d_records ?d). rc_run_id (d_records ?d ! r) = x \<and> \<not> active_run ?d r"
    if "x \<in> set (dm_terminal_runs (d_state ?d))" for x
    using D(4) [of x] that old by (auto simp: new_record_def) (metis less_Suc_eq)
  show "length (dm_terminal_runs (d_state ?d)) \<le> MAX_TERMINAL_RUNS" using D(5) by (simp add: new_record_def)
  show False if "map_of (dm_runs (d_state ?d)) j = Some a" "map_of (dm_runs (d_state ?d)) k = Some b" "a \<noteq> b"
    "rc_session_id (d_records ?d ! a) = rc_session_id (d_records ?d ! b)" "active_run ?d a" "active_run ?d b" for j k a b
    using D(6) [of j a k b] that D(1) [of j a] D(1) [of k b] old by (simp add: new_record_def)
qed

lemma runs_inv_reserve_run:
  assumes i: "runs_inv d" and r: "r < length (d_records d)"
  shows "runs_inv (fst (reserve_run_with_profile r profile d))"
proof -
  define s where "s = rc_session_id (d_records d ! r)"
  define k0 where "k0 = rc_run_id (d_records d ! r)"
  note D = runs_invD [OF i]
  let ?P = "\<lambda>a. rc_session_id (d_records d ! a) = s \<and> active_run d a"
  show ?thesis
  proof (cases "dm_shutdown_accepted (d_state d) \<or> find ?P (map snd (dm_runs (d_state d))) \<noteq> None")
    case True
    then show ?thesis using i by (auto simp: reserve_run_with_profile_def s_def Let_def)
  next
    case False
    then have free: "\<not> ?P a" if "map_of (dm_runs (d_state d)) k = Some a" for k a
      using map_of_SomeD [OF that] by (force simp: find_None_iff)
    let ?d = "fst (reserve_run_with_profile r profile d)"
    have runs: "map_of (dm_runs (d_state ?d)) = (map_of (dm_runs (d_state d)))(k0 \<mapsto> r)"
      and terminal: "dm_terminal_runs (d_state ?d) = dm_terminal_runs (d_state d)"
      and recs: "d_records ?d = d_records d" and state: "run_state ?d = run_state d"
      using False by (auto simp: reserve_run_with_profile_def s_def k0_def Let_def update_conv' split: option.split)
    show ?thesis
    proof (rule runs_invI, unfold runs terminal recs state)
      show False if "((map_of (dm_runs (d_state d)))(k0 \<mapsto> r)) j = Some a"
        "((map_of (dm_runs (d_state d)))(k0 \<mapsto> r)) k = Some b" "a \<noteq> b"
        "rc_session_id (d_records d ! a) = rc_session_id (d_records d ! b)" "active_run d a" "active_run d b" for j k a b
        using that free D(6) [of j a k b] by (auto simp: s_def split: if_splits)
    qed (use D r in \<open>auto simp: k0_def split: if_splits\<close>)
  qed
qed

lemma quiet_send_thread: "quiet d (fst (send_thread rt now tid c e m n d))"
  by (auto simp: send_thread_def Let_def split: option.split prod.split
      intro: quiet_trans [OF quiet_insert_live_thread quiet_on_thread] dest: arg_cong [of _ _ fst])
    (metis fst_conv quiet_insert_live_thread quiet_on_thread quiet_trans)

lemma quiet_complete_record:
  "\<not> active_state (ru_state status) \<Longrightarrow> quiet d (complete_record r status d)"
  unfolding complete_record_def by (rule quiet_on_record) (auto simp: keep_decided_def)

lemma quiet_begin_thread_stop: "quiet d (fst (begin_thread_stop rt tid d))"
  by (auto simp: begin_thread_stop_def Let_def live_thread_def split: option.split prod.split
      intro: quiet_trans [OF quiet_on_state quiet_on_thread] quiet_on_state)

lemma quiet_bind_thread_run_pass: "quiet d (fst (bind_thread_run_pass rt now turn r d))"
  by (auto simp: bind_thread_run_pass_def Let_def split: option.split prod.split sum.split
      intro: quiet_trans [OF quiet_on_thread quiet_on_state])

lemma quiet_on_live_thread [simp]: "quiet d (on_live_thread tid f d)"
  by (auto simp: on_live_thread_def split: option.split)

lemma quiet_complete_thread_spawn:
  "quiet d (case complete_thread_spawn rt spawn durable d of None \<Rightarrow> d | Some d' \<Rightarrow> d')"
  by (auto simp: complete_thread_spawn_def intro: quiet_trans [OF quiet_on_state quiet_insert_live_thread])

text \<open>Every other operation touches neither the runs nor their records.\<close>

lemmas quiet_defs = set_approval_profile_def claim_home_reservation_decision_def release_home_reservation_decision_def
  reserve_issue_prep_def drop_issue_prep_def shutdown_if_idle_def reserve_thread_spawn_def claim_thread_spawn_def
  release_thread_spawn_claim_def set_decision_in_progress_def complete_thread_spawn_without_authority_def
  load_thread_def next_thread_message_def abort_thread_turn_def publish_turn_def

fun run_op :: "'v DaemonOp \<Rightarrow> bool" where
  "run_op (ReserveRun _ _ _ _ _) = True"
| "run_op (ReleaseRun _) = True"
| "run_op (CompleteState _) = True"
| "run_op _ = False"

lemma quiet_other:
  assumes "\<not> run_op op" and "admissible op d"
  shows "quiet d (daemon_op op d)"
proof (cases op)
  case (PushBuffer r event)
  then show ?thesis by (auto intro: quiet_on_record simp: push_buffer_def Let_def)
next
  case (EditApprovals r approvals)
  then show ?thesis by (auto intro: quiet_on_record)
next
  case (CompleteStop tid)
  then show ?thesis by (auto simp: complete_thread_stop_def intro: quiet_trans [OF quiet_on_live_thread quiet_on_state])
next
  case (AbortStop tid)
  then show ?thesis by (auto simp: abort_thread_stop_def intro: quiet_trans [OF quiet_on_live_thread quiet_on_state])
qed (use assms in \<open>auto simp: quiet_complete_record quiet_request_cancel_after quiet_send_thread
      quiet_begin_thread_stop quiet_bind_thread_run_pass quiet_complete_thread_spawn quiet_defs Let_def
      intro!: quiet_on_state split: option.split prod.split Blocking.split\<close>)

interpretation runs_kept: daemon_invariant admissible runs_inv
proof
  fix d and op :: "'a DaemonOp"
  assume i: "runs_inv d" and a: "admissible op d"
  show "runs_inv (daemon_op op d)"
  proof (cases op rule: run_op.cases)
    case (1 run_id session_id path turn profile)
    have "runs_inv (fst (new_record (RunRecord_new_inner run_id session_id path turn) d))"
      using runs_inv_new_record [OF i] a by (simp add: 1 RunRecord_new_inner_def)
    then show ?thesis
      using runs_inv_reserve_run [of "fst (new_record (RunRecord_new_inner run_id session_id path turn) d)"]
      by (simp add: 1 new_record_def)
  next
    case (2 r)
    then show ?thesis using runs_invD(5) [OF i]
      by (auto simp: release_run_reservation_def Let_def delete_conv' intro!: runs_inv_fewer [OF i] split: if_splits)
  next
    case (3 r)
    then show ?thesis using runs_inv_complete_state [OF i] a by simp
  qed (use quiet_runs_inv [OF quiet_other [OF _ a] i] in simp_all)
qed

text \<open>An active run stays in the table until it is released, whatever else happens.\<close>

lemma reserve_run_effect:
  "d_records (fst (reserve_run_with_profile r p d)) = d_records d"
  "map_of (dm_runs (d_state (fst (reserve_run_with_profile r p d)))) = map_of (dm_runs (d_state d)) \<or>
   map_of (dm_runs (d_state (fst (reserve_run_with_profile r p d)))) =
     (map_of (dm_runs (d_state d)))(rc_run_id (d_records d ! r) \<mapsto> r)"
  by (auto simp: reserve_run_with_profile_def Let_def update_conv' split: option.split)

lemma reserve_op_effect:
  fixes d :: "'v Daemon"
  defines "rec \<equiv> \<lambda>run_id session_id path turn. RunRecord_new_inner run_id session_id path turn :: 'v RunRecord"
  shows "d_records (daemon_op (ReserveRun run_id session_id path turn p) d) = d_records d @ [rec run_id session_id path turn]"
    and "k \<noteq> run_id \<Longrightarrow> map_of (dm_runs (d_state (daemon_op (ReserveRun run_id session_id path turn p) d))) k =
      map_of (dm_runs (d_state d)) k"
  using reserve_run_effect(2) [of "length (d_records d)" p "d\<lparr>d_records := d_records d @ [rec run_id session_id path turn]\<rparr>"]
  by (auto simp: new_record_def reserve_run_effect(1) rec_def RunRecord_new_inner_def)

lemma step_active_before:
  assumes a: "admissible op d" and r: "r < length (d_records d)"
  shows "r < length (d_records (daemon_op op d)) \<and> (active_run (daemon_op op d) r \<longrightarrow> active_run d r)"
proof (cases op rule: run_op.cases)
  case (1 run_id session_id path turn profile)
  then show ?thesis using r by (simp only: reserve_op_effect(1)) (simp add: run_state_def reserve_op_effect(1) nth_append del: daemon_op.simps)
qed (use quiet_other [OF _ a] r in \<open>simp_all add: quiet_def release_run_reservation_def complete_state_def Let_def\<close>)

lemma step_keeps_active:
  assumes i: "runs_inv d" and a: "admissible op d" and k: "map_of (dm_runs (d_state d)) k = Some r"
    and act: "active_run d r" and rel: "op \<noteq> ReleaseRun r"
  shows "map_of (dm_runs (d_state (daemon_op op d))) k = Some r"
proof -
  note D = runs_invD [OF i]
  have r: "r < length (d_records d)" and id: "rc_run_id (d_records d ! r) = k" using D(1,2) k by auto
  show ?thesis
  proof (cases op rule: run_op.cases)
    case (1 run_id session_id path turn profile)
    then have "k \<noteq> run_id" using a r id by (auto simp: image_iff)
    then show ?thesis using k by (simp add: 1 reserve_op_effect(2) del: daemon_op.simps)
  next
    case (2 x)
    then show ?thesis using k rel by (auto simp: release_run_reservation_def Let_def delete_conv')
  next
    case (3 x)
    have "active_run d y" if "y < length (d_records d)" "rc_run_id (d_records d ! y) = k" for y
      using run_ids_distinct [OF i that(1) r] that(2) id act by metis
    then have "k \<notin> set (dm_terminal_runs (d_state d) @ [rc_run_id (d_records d ! x)])"
      using D(4) [of k] a unfolding 3 admissible.simps by auto
    then show ?thesis using k
      by (auto simp: 3 complete_state_def evict_terminal_eq Let_def map_of_fold_delete dest!: in_set_takeD)
  qed (use quiet_other [OF _ a] k in \<open>simp_all add: quiet_def\<close>)
qed

lemma trace_keeps_active:
  assumes "daemon_trace admissible d ops d'" and i: "runs_inv d" and k: "map_of (dm_runs (d_state d)) k = Some r"
    and "ReleaseRun r \<notin> set ops"
  shows "r < length (d_records d') \<and> (active_run d' r \<longrightarrow> map_of (dm_runs (d_state d')) k = Some r)"
  using assms(1,4)
proof (induction rule: daemon_trace.induct)
  case (step ops d' op)
  then have "runs_inv d'" and "r < length (d_records d')"
    and "active_run d' r \<Longrightarrow> map_of (dm_runs (d_state d')) k = Some r"
    using runs_kept.along_trace [OF step.hyps(1) i] by auto
  then show ?case
    using step_active_before [OF step.hyps(2)] step_keeps_active [OF _ step.hyps(2)] step.prems by auto
qed (use k runs_invD(1) [OF i] in simp)

end
