(* ===== verification/Daemon_Threads.thy ===== *)
theory Daemon_Threads
  imports Daemon_Steps
begin

text \<open>
  The threads of the daemon along its traces: a completed stop is final for the thread's identifier and
  for the thread object itself, an accepted shutdown stays quiet, and a run that binds to a stopping
  thread waits on that thread until the stop is resolved.
\<close>

section \<open>Steps that keep the threads\<close>

definition calm :: "'v Daemon \<Rightarrow> 'v Daemon \<Rightarrow> bool" where
  "calm d d' \<longleftrightarrow>
     dm_live_threads (d_state d') = dm_live_threads (d_state d) \<and>
     dm_stopping_threads (d_state d') = dm_stopping_threads (d_state d) \<and>
     dm_stopped_threads (d_state d') = dm_stopped_threads (d_state d) \<and>
     length (d_threads d') = length (d_threads d) \<and>
     (\<forall>t < length (d_threads d). lt_lifecycle (d_threads d' ! t) = lt_lifecycle (d_threads d ! t) \<and>
        lt_workspace_id (d_threads d' ! t) = lt_workspace_id (d_threads d ! t) \<and>
        (lt_current_turn (d_threads d ! t) = None \<longrightarrow> lt_current_turn (d_threads d' ! t) = None))"

lemma calm_refl [simp]: "calm d d"
  by (simp add: calm_def)

lemma calm_trans: "calm d d' \<Longrightarrow> calm d' d'' \<Longrightarrow> calm d d''"
  by (auto simp: calm_def)

lemma calm_on_record [simp]: "calm d (on_record r f d)"
  by (simp add: calm_def)

lemma calm_on_state:
  "dm_live_threads (f (d_state d)) = dm_live_threads (d_state d) \<Longrightarrow>
   dm_stopping_threads (f (d_state d)) = dm_stopping_threads (d_state d) \<Longrightarrow>
   dm_stopped_threads (f (d_state d)) = dm_stopped_threads (d_state d) \<Longrightarrow> calm d (on_state f d)"
  by (simp add: calm_def)

text \<open>The operations on one thread that keep its lifecycle and start no turn.\<close>

definition calm_thread :: "'v LiveThread \<Rightarrow> 'v LiveThread \<Rightarrow> bool" where
  "calm_thread t t' \<longleftrightarrow> lt_lifecycle t' = lt_lifecycle t \<and> lt_workspace_id t' = lt_workspace_id t \<and>
     (lt_current_turn t = None \<longrightarrow> lt_current_turn t' = None)"

lemma calm_on_thread: "calm_thread (d_threads d ! t) (f (d_threads d ! t)) \<Longrightarrow> calm d (on_thread t f d)"
  by (auto simp: calm_def calm_thread_def on_thread_at)

lemma calm_thread_ops:
  "calm_thread t (publish now turn event t)"
  "calm_thread t (fst (bind_run now turn t))"
  "calm_thread t (abort turn t)"
  "calm_thread t (t\<lparr>lt_observers := n\<rparr>)"
  "next_message_or_finish turn t = Returns (t', m) \<Longrightarrow> calm_thread t t'"
  by (auto simp: calm_thread_def thread_ops current_turn_id_def
      split: option.splits list.splits LiveThreadLifecycle.splits if_splits)

lemma calm_publish_turn [simp]: "calm d (publish_turn now turn event d)"
  unfolding publish_turn_def by (rule calm_on_thread) (rule calm_thread_ops)

lemma calm_push_event [simp]: "calm d (push_event now r event d)"
  by (auto simp: push_event_def Let_def split: option.split intro!: calm_trans [OF calm_on_record calm_publish_turn])

lemma calm_request_cancel_after: "calm d (fst (snd (request_cancel_after now before r store d)))"
  by (auto simp: request_cancel_after_def Let_def split: RunStateName.split prod.split sum.split
      intro: calm_trans calm_push_event)
   (meson calm_on_record calm_push_event calm_trans)

lemma calm_bind_thread_run_pass: "calm d (fst (bind_thread_run_pass rt now turn r d))"
proof -
  have "calm d (on_thread (tb_thread turn) (\<lambda>_. t) d)"
    if "bind_run now (tb_turn_id turn) (d_threads d ! tb_thread turn) = (t, res)" for t res
    using calm_thread_ops(2) [of "d_threads d ! tb_thread turn" now "tb_turn_id turn"] that
    by (auto intro: calm_on_thread)
  then show ?thesis
    by (auto simp: bind_thread_run_pass_def Let_def split: option.split prod.split sum.split
        intro: calm_trans [OF _ calm_on_state])
qed

lemma calm_next_message:
  "calm d (case next_thread_message turn d of Waits \<Rightarrow> d | Returns (d', _) \<Rightarrow> d')"
  by (auto simp: next_thread_message_def split: Blocking.split prod.split
      intro!: calm_on_thread dest: calm_thread_ops(5))

fun thread_op :: "'v DaemonOp \<Rightarrow> bool" where
  "thread_op (CompleteSpawn _ _ _) = True"
| "thread_op (LoadThread _ _ _) = True"
| "thread_op (SendThread _ _ _ _ _ _ _) = True"
| "thread_op (BeginStop _ _) = True"
| "thread_op (CompleteStop _) = True"
| "thread_op (AbortStop _) = True"
| "thread_op _ = False"

lemma calm_other: "\<not> thread_op op \<Longrightarrow> calm d (daemon_op op d)"
proof (cases op)
  case (ReserveRun run_id session_id path turn profile)
  have "calm d (fst (new_record rec d))" for rec by (simp add: new_record_def calm_def)
  moreover have "calm e (fst (reserve_run_with_profile r p e))" for r p and e :: "'a Daemon"
    by (cases p) (auto simp: reserve_run_with_profile_def Let_def intro!: calm_on_state split: option.split)
  ultimately show ?thesis using calm_trans by (simp add: ReserveRun new_record_def) blast
next
  case (CompleteState r)
  then show ?thesis by (simp add: complete_state_def calm_on_state case_prod_unfold Let_def)
next
  case (AbortTurn turn)
  then show ?thesis by (auto simp: abort_thread_turn_def intro: calm_on_thread calm_thread_ops)
next
  case (Observe t n)
  then show ?thesis by (auto intro: calm_on_thread calm_thread_ops)
next
  case (NextMessage turn)
  then show ?thesis using calm_next_message by simp
qed (auto simp: calm_request_cancel_after calm_bind_thread_run_pass release_run_reservation_def complete_record_def
     set_approval_profile_def claim_home_reservation_decision_def release_home_reservation_decision_def
     reserve_issue_prep_def drop_issue_prep_def shutdown_if_idle_def reserve_thread_spawn_def claim_thread_spawn_def
     release_thread_spawn_claim_def set_decision_in_progress_def complete_thread_spawn_without_authority_def Let_def
     intro!: calm_on_state split: option.split)

section \<open>Live threads\<close>

text \<open>A live thread's reference is in the heap and belongs to one identifier.\<close>

definition threads_inv :: "'v Daemon \<Rightarrow> bool" where
  "threads_inv d \<longleftrightarrow>
     (\<forall>k t. map_of (dm_live_threads (d_state d)) k = Some t \<longrightarrow> t < length (d_threads d)) \<and>
     (\<forall>j k t. map_of (dm_live_threads (d_state d)) j = Some t \<longrightarrow> map_of (dm_live_threads (d_state d)) k = Some t \<longrightarrow> j = k)"

lemma threads_inv_new: "threads_inv (Daemon_new epoch)"
  by (simp add: threads_inv_def Daemon_new_def RuntimeState_default_def)

lemma calm_threads_inv: "calm d d' \<Longrightarrow> threads_inv d \<Longrightarrow> threads_inv d'"
  by (auto simp: calm_def threads_inv_def)

text \<open>A new live thread gets a reference no one holds.\<close>

lemma insert_live_thread_effect:
  fixes d :: "'v Daemon"
  defines "e \<equiv> \<lambda>k ws now. fst (insert_live_thread k ws now d)"
  shows "map_of (dm_live_threads (d_state (e k ws now))) = (map_of (dm_live_threads (d_state d)))(k \<mapsto> length (d_threads d))"
    and "d_threads (e k ws now) = d_threads d @ [LiveThread_new ws now]"
    and "dm_stopping_threads (d_state (e k ws now)) = dm_stopping_threads (d_state d)"
    and "dm_stopped_threads (d_state (e k ws now)) = dm_stopped_threads (d_state d)"
    and "snd (insert_live_thread k ws now d) = length (d_threads d)"
  by (simp_all add: e_def insert_live_thread_def new_thread_def update_conv')

text \<open>
  An operation is steady when it keeps the table, the stops and every thread's lifecycle and workspace;
  unlike a calm one it may start a turn.
\<close>

definition steady :: "'v Daemon \<Rightarrow> 'v Daemon \<Rightarrow> bool" where
  "steady d d' \<longleftrightarrow>
     dm_live_threads (d_state d') = dm_live_threads (d_state d) \<and>
     dm_stopping_threads (d_state d') = dm_stopping_threads (d_state d) \<and>
     dm_stopped_threads (d_state d') = dm_stopped_threads (d_state d) \<and>
     length (d_threads d') = length (d_threads d) \<and>
     (\<forall>t < length (d_threads d). lt_lifecycle (d_threads d' ! t) = lt_lifecycle (d_threads d ! t) \<and>
        lt_workspace_id (d_threads d' ! t) = lt_workspace_id (d_threads d ! t))"

lemma calm_steady: "calm d d' \<Longrightarrow> steady d d'"
  by (simp add: calm_def steady_def)

lemma steady_send:
  "steady d (on_thread t (\<lambda>_. fst (send now self tid c e m n (d_threads d ! t))) d)"
  by (auto simp: steady_def on_thread_at send_def touch_def Let_def split: option.split)

lemma steady_pending: "steady d (on_state (\<lambda>st. st\<lparr>dm_pending_thread_spawns := f st\<rparr>) d)"
  by (simp add: steady_def)

text \<open>
  What a predicate on the threads is owed to be an invariant of the daemon: \<open>may_insert\<close> says what the
  inserting operations guarantee about the identifier and the workspace of the new thread.
\<close>

locale thread_invariant =
  fixes guard :: "'v DaemonOp \<Rightarrow> 'v Daemon \<Rightarrow> bool" and may_insert :: "rstr \<Rightarrow> rstr \<Rightarrow> 'v Daemon \<Rightarrow> bool"
    and inv :: "'v Daemon \<Rightarrow> bool"
  assumes steadily: "\<lbrakk> inv d; steady d d' \<rbrakk> \<Longrightarrow> inv d'"
    and may_steadily: "\<lbrakk> may_insert k ws d; steady d d' \<rbrakk> \<Longrightarrow> may_insert k ws d'"
    and inserts: "\<lbrakk> inv d; may_insert k ws d \<rbrakk> \<Longrightarrow> inv (fst (insert_live_thread k ws now d))"
    and on_load: "\<lbrakk> inv d; guard (LoadThread rt now k) d; k \<notin> dm_stopped_threads (d_state d);
        k \<notin> dm_stopping_threads (d_state d); live_thread rt k d = None \<rbrakk> \<Longrightarrow> may_insert k (dr_workspace_id rt) d"
    and on_send: "\<lbrakk> inv d; guard (SendThread rt now k c e m n) d; k \<notin> dm_stopped_threads (d_state d);
        k \<notin> dm_stopping_threads (d_state d); live_thread rt k d = None \<rbrakk> \<Longrightarrow> may_insert k (dr_workspace_id rt) d"
    and on_spawn: "\<lbrakk> inv d; guard (CompleteSpawn rt spawn durable) d \<rbrakk> \<Longrightarrow>
        may_insert (ta_thread_id durable) (dr_workspace_id rt) d"
    and begins: "\<lbrakk> inv d; guard (BeginStop rt k) d \<rbrakk> \<Longrightarrow> inv (fst (begin_thread_stop rt k d))"
    and completes: "\<lbrakk> inv d; guard (CompleteStop k) d \<rbrakk> \<Longrightarrow> inv (complete_thread_stop k d)"
    and aborts: "\<lbrakk> inv d; guard (AbortStop k) d \<rbrakk> \<Longrightarrow> inv (abort_thread_stop k d)"
begin

lemma load_keeps: "inv d \<Longrightarrow> guard (LoadThread rt now k) d \<Longrightarrow> inv (fst (load_thread rt now k d))"
  using inserts [OF _ on_load] by (auto simp: load_thread_def split: option.split)

lemma send_keeps:
  assumes "inv d" and "guard (SendThread rt now k c e m n) d"
  shows "inv (fst (send_thread rt now k c e m n d))"
proof -
  let ?S = "\<lambda>t x. on_thread t (\<lambda>_. fst (send now t k c e m n (d_threads x ! t))) x"
  have "inv (?S t x)" if "inv x" for t x
    using steadily [OF that steady_send] .
  moreover have "inv (fst (insert_live_thread k (dr_workspace_id rt) now d))"
    if "k \<notin> dm_stopped_threads (d_state d)" "k \<notin> dm_stopping_threads (d_state d)" "live_thread rt k d = None"
    using inserts [OF assms(1) on_send [OF assms that]] .
  ultimately show ?thesis using assms(1)
    by (auto simp: send_thread_def case_prod_unfold Let_def split: option.split)
qed

lemma spawn_keeps:
  assumes "inv d" and "guard (CompleteSpawn rt spawn durable) d"
  shows "inv (case complete_thread_spawn rt spawn durable d of None \<Rightarrow> d | Some d' \<Rightarrow> d')"
proof (cases "complete_thread_spawn rt spawn durable d")
  case (Some d')
  then show ?thesis
    using inserts [OF steadily [OF assms(1) steady_pending] may_steadily [OF on_spawn [OF assms] steady_pending]]
    by (auto simp: complete_thread_spawn_def split: if_splits)
qed (simp add: assms)

end

sublocale thread_invariant \<subseteq> daemon_invariant guard inv
proof
  fix d op
  assume "inv d" and "guard op d"
  then show "inv (daemon_op op d)"
  proof (cases "thread_op op")
    case True
    then show ?thesis using \<open>inv d\<close> \<open>guard op d\<close> load_keeps send_keeps spawn_keeps begins completes aborts
      by (cases op rule: thread_op.cases) simp_all
  qed (use steadily calm_steady calm_other in blast)
qed

section \<open>Stops\<close>

lemma begin_stop_effect:
  fixes d :: "'v Daemon"
  defines "d' \<equiv> \<lambda>rt k. fst (begin_thread_stop rt k d)"
  shows "dm_live_threads (d_state (d' rt k)) = dm_live_threads (d_state d)"
    and "dm_stopped_threads (d_state (d' rt k)) = dm_stopped_threads (d_state d)"
    and "length (d_threads (d' rt k)) = length (d_threads d)"
    and "d' rt k = d \<or> k \<notin> dm_stopped_threads (d_state d) \<and> k \<notin> dm_stopping_threads (d_state d) \<and>
      dm_stopping_threads (d_state (d' rt k)) = insert k (dm_stopping_threads (d_state d))"
    and "t < length (d_threads d) \<Longrightarrow> lt_workspace_id (d_threads (d' rt k) ! t) = lt_workspace_id (d_threads d ! t)"
    and "t < length (d_threads d) \<Longrightarrow> d' rt k \<noteq> d \<Longrightarrow> lt_lifecycle (d_threads (d' rt k) ! t) =
      (if live_thread rt k d = Some t then LiveThreadLifecycle.Stopping else lt_lifecycle (d_threads d ! t))"
  by (auto simp: d'_def begin_thread_stop_def Let_def live_thread_def on_thread_at begin_stop_def case_prod_unfold
      split: option.split)

lemma complete_stop_effect:
  "map_of (dm_live_threads (d_state (complete_thread_stop k d))) = (map_of (dm_live_threads (d_state d)))(k := None)"
  "dm_stopping_threads (d_state (complete_thread_stop k d)) = dm_stopping_threads (d_state d) - {k}"
  "dm_stopped_threads (d_state (complete_thread_stop k d)) = insert k (dm_stopped_threads (d_state d))"
  "length (d_threads (complete_thread_stop k d)) = length (d_threads d)"
  "t < length (d_threads d) \<Longrightarrow> lt_workspace_id (d_threads (complete_thread_stop k d) ! t) = lt_workspace_id (d_threads d ! t)"
  "t < length (d_threads d) \<Longrightarrow> lt_lifecycle (d_threads (complete_thread_stop k d) ! t) =
     (if map_of (dm_live_threads (d_state d)) k = Some t then LiveThreadLifecycle.Stopped else lt_lifecycle (d_threads d ! t))"
  by (auto simp: complete_thread_stop_def on_live_thread_def on_thread_at complete_stop_def delete_conv' split: option.split)

lemma abort_stop_effect:
  "dm_live_threads (d_state (abort_thread_stop k d)) = dm_live_threads (d_state d)"
  "dm_stopping_threads (d_state (abort_thread_stop k d)) = dm_stopping_threads (d_state d) - {k}"
  "dm_stopped_threads (d_state (abort_thread_stop k d)) = dm_stopped_threads (d_state d)"
  "length (d_threads (abort_thread_stop k d)) = length (d_threads d)"
  "t < length (d_threads d) \<Longrightarrow> lt_workspace_id (d_threads (abort_thread_stop k d) ! t) = lt_workspace_id (d_threads d ! t)"
  "t < length (d_threads d) \<Longrightarrow> lt_lifecycle (d_threads (abort_thread_stop k d) ! t) =
     (if map_of (dm_live_threads (d_state d)) k = Some t \<and> lt_lifecycle (d_threads d ! t) = LiveThreadLifecycle.Stopping
      then LiveThreadLifecycle.Running else lt_lifecycle (d_threads d ! t))"
  by (auto simp: abort_thread_stop_def on_live_thread_def on_thread_at abort_stop_def split: option.split)

lemmas stop_effects = begin_stop_effect(1-3,5) complete_stop_effect abort_stop_effect

interpretation threads_kept: thread_invariant admissible "\<lambda>_ _ _. True" threads_inv
  by unfold_locales (auto simp: threads_inv_def steady_def insert_live_thread_effect stop_effects less_SucI split: if_splits)

text \<open>A stopped thread: its identifier is marked, its object is closed and no identifier leads to it.\<close>

definition stopped_for_good :: "rstr \<Rightarrow> nat \<Rightarrow> 'v Daemon \<Rightarrow> bool" where
  "stopped_for_good k t d \<longleftrightarrow>
     k \<in> dm_stopped_threads (d_state d) \<and> t < length (d_threads d) \<and>
     lt_lifecycle (d_threads d ! t) = LiveThreadLifecycle.Stopped \<and>
     (\<forall>j. map_of (dm_live_threads (d_state d)) j \<noteq> Some t)"

lemma live_thread_SomeD: "live_thread rt k d = Some t \<Longrightarrow> map_of (dm_live_threads (d_state d)) k = Some t"
  by (auto simp: live_thread_def split: option.splits if_splits)

interpretation stop_kept: thread_invariant admissible "\<lambda>_ _ _. True" "stopped_for_good k t" for k t
proof
  fix d :: "'a Daemon" and rt j
  assume "stopped_for_good k t d"
  then show "stopped_for_good k t (fst (begin_thread_stop rt j d))"
    using begin_stop_effect(6) [of t d rt j] live_thread_SomeD [of rt j d t]
    by (cases "fst (begin_thread_stop rt j d) = d") (auto simp: stopped_for_good_def stop_effects)
qed (auto simp: stopped_for_good_def steady_def insert_live_thread_effect stop_effects nth_append)

lemma complete_stop_final:
  assumes "threads_inv d" and "map_of (dm_live_threads (d_state d)) k = Some t"
  shows "stopped_for_good k t (complete_thread_stop k d)"
  using assms by (auto simp: stopped_for_good_def threads_inv_def complete_stop_effect)

lemma stopped_refuses:
  assumes "stopped_for_good k t d"
  shows "snd (send_thread rt now k c e m n d) \<in> {ThreadSendAdmission.ShuttingDown, AdmissionStopped}"
    and "load_thread rt now k d = (d, Inl EventsStopped)"
    and "tb_thread_id turn = k \<Longrightarrow> bind_thread_run_pass rt now turn r d = (d, Bound (Inl BindStopping))"
    and "begin_thread_stop rt k d = (d, Inl AlreadyStopped)"
    and "tb_thread turn = t \<Longrightarrow> next_thread_message turn d = Returns (d, None)"
    and "tb_thread turn = t \<Longrightarrow> publish_turn now turn event d = d"
  using assms
  by (auto simp: stopped_for_good_def send_thread_def load_thread_def bind_thread_run_pass_def begin_thread_stop_def
      next_thread_message_def next_message_or_finish_def publish_turn_def publish_def on_thread_def Let_def)

section \<open>Binding while a thread stops\<close>

text \<open>
  The discipline under which a bind waits rather than polls: an identifier belongs to one workspace and
  is only used through that workspace's runtime, and a spawned thread enters under an identifier that is
  neither stopping nor stopped.
\<close>

fun disciplined :: "(rstr \<Rightarrow> rstr) \<Rightarrow> 'v DaemonOp \<Rightarrow> 'v Daemon \<Rightarrow> bool" where
  "disciplined owner (LoadThread rt _ k) d \<longleftrightarrow> owner k = dr_workspace_id rt"
| "disciplined owner (SendThread rt _ k _ _ _ _) d \<longleftrightarrow> owner k = dr_workspace_id rt"
| "disciplined owner (BeginStop rt k) d \<longleftrightarrow> owner k = dr_workspace_id rt"
| "disciplined owner (CompleteSpawn rt _ durable) d \<longleftrightarrow> (let k = ta_thread_id durable in
     owner k = dr_workspace_id rt \<and> k \<notin> dm_stopping_threads (d_state d) \<and> k \<notin> dm_stopped_threads (d_state d))"
| "disciplined owner op d \<longleftrightarrow> admissible op d"

definition stops_inv :: "(rstr \<Rightarrow> rstr) \<Rightarrow> 'v Daemon \<Rightarrow> bool" where
  "stops_inv owner d \<longleftrightarrow> threads_inv d \<and>
     (\<forall>k t. map_of (dm_live_threads (d_state d)) k = Some t \<longrightarrow>
        lt_workspace_id (d_threads d ! t) = owner k \<and>
        lt_lifecycle (d_threads d ! t) =
          (if k \<in> dm_stopping_threads (d_state d) then LiveThreadLifecycle.Stopping else LiveThreadLifecycle.Running))"

lemma stops_inv_new: "stops_inv owner (Daemon_new epoch)"
  by (simp add: stops_inv_def threads_inv_new) (simp add: Daemon_new_def RuntimeState_default_def)

lemma stops_inv_live_thread:
  "stops_inv owner d \<Longrightarrow> owner k = dr_workspace_id rt \<Longrightarrow> live_thread rt k d = map_of (dm_live_threads (d_state d)) k"
  by (auto simp: stops_inv_def live_thread_def split: option.split)

interpretation stops_kept: thread_invariant "disciplined owner"
  "\<lambda>k ws d. owner k = ws \<and> k \<notin> dm_stopping_threads (d_state d)" "stops_inv owner" for owner
proof
  fix d :: "'a Daemon" and rt k
  assume i: "stops_inv owner d" and g: "disciplined owner (BeginStop rt k) d"
  have lt: "t < length (d_threads d)" if "map_of (dm_live_threads (d_state d)) j = Some t" for j t
    using i that by (simp add: stops_inv_def threads_inv_def)
  have one: "j = k" if "map_of (dm_live_threads (d_state d)) j = Some t" "map_of (dm_live_threads (d_state d)) k = Some t" for j t
    using i that by (auto simp: stops_inv_def threads_inv_def)
  have "threads_inv (fst (begin_thread_stop rt k d))" using i threads_kept.begins by (auto simp: stops_inv_def)
  then show "stops_inv owner (fst (begin_thread_stop rt k d))"
    using i g lt one begin_stop_effect(4) [of rt k d] begin_stop_effect(6) [of _ d rt k]
    by (cases "fst (begin_thread_stop rt k d) = d")
      (auto simp: stops_inv_def stop_effects stops_inv_live_thread [OF i])
next
  fix d :: "'a Daemon" and k
  assume i: "stops_inv owner d"
  have lt: "t < length (d_threads d)" if "map_of (dm_live_threads (d_state d)) j = Some t" for j t
    using i that by (simp add: stops_inv_def threads_inv_def)
  have one: "j = l" if "map_of (dm_live_threads (d_state d)) j = Some t" "map_of (dm_live_threads (d_state d)) l = Some t" for j l t
    using i that by (auto simp: stops_inv_def threads_inv_def)
  show "stops_inv owner (complete_thread_stop k d)"
    using i lt one threads_kept.completes [of d k] by (auto simp: stops_inv_def stop_effects)
  show "stops_inv owner (abort_thread_stop k d)"
    using i lt one threads_kept.aborts [of d k] by (auto simp: stops_inv_def stop_effects)
next
  fix d :: "'a Daemon" and k ws now
  assume i: "stops_inv owner d" and k: "owner k = ws \<and> k \<notin> dm_stopping_threads (d_state d)"
  have "t < length (d_threads d)" if "map_of (dm_live_threads (d_state d)) j = Some t" for j t
    using i that by (simp add: stops_inv_def threads_inv_def)
  moreover have "threads_inv (fst (insert_live_thread k ws now d))"
    using threads_kept.inserts i by (auto simp: stops_inv_def)
  ultimately show "stops_inv owner (fst (insert_live_thread k ws now d))"
    using i k by (simp add: stops_inv_def insert_live_thread_effect nth_append LiveThread_new_def)
next
  fix d d' :: "'a Daemon"
  assume i: "stops_inv owner d" and st: "steady d d'"
  have "threads_inv d'" using threads_kept.steadily [OF _ st] i by (simp add: stops_inv_def)
  moreover have "t < length (d_threads d)" if "map_of (dm_live_threads (d_state d)) j = Some t" for j t
    using i that by (simp add: stops_inv_def threads_inv_def)
  ultimately show "stops_inv owner d'" using i st by (auto simp: stops_inv_def steady_def)
qed (auto simp: steady_def Let_def)

lemma await_stop_waits:
  assumes i: "stops_inv owner d" and p: "snd (bind_thread_run_pass rt now turn r d) = AwaitStop t"
  shows "t = tb_thread turn \<and> map_of (dm_live_threads (d_state d)) (tb_thread_id turn) = Some t \<and> await_stop t d = Waits"
proof -
  have "live_thread rt (tb_thread_id turn) d = Some t \<and> t = tb_thread turn \<and> tb_thread_id turn \<in> dm_stopping_threads (d_state d)"
    using p by (auto simp: bind_thread_run_pass_def Let_def split: if_splits option.splits prod.splits sum.splits)
  then show ?thesis using i live_thread_SomeD [of rt "tb_thread_id turn" d t]
    by (auto simp: stops_inv_def await_stop_def wait_for_stop_resolution_def)
qed

lemma await_stop_resolved:
  assumes i: "stops_inv owner d" and k: "map_of (dm_live_threads (d_state d)) k = Some t"
    and stopping: "k \<in> dm_stopping_threads (d_state d)"
  shows "await_stop t (complete_thread_stop k d) = Returns (Some (Inl BindStopping))"
    and "await_stop t (abort_thread_stop k d) = Returns None"
proof -
  have "t < length (d_threads d)" and "lt_lifecycle (d_threads d ! t) = LiveThreadLifecycle.Stopping"
    using i k stopping by (auto simp: stops_inv_def threads_inv_def)
  then show "await_stop t (complete_thread_stop k d) = Returns (Some (Inl BindStopping))"
    and "await_stop t (abort_thread_stop k d) = Returns None"
    using k by (auto simp: await_stop_def wait_for_stop_resolution_def stop_effects)
qed

end
