(* ===== verification/Daemon_Properties.thy ===== *)
theory Daemon_Properties
  imports Daemon_Threads
begin

text \<open>
  The properties of the shared runtime along every interleaving of its operations: run admission,
  shutdown, thread stops, and two findings about operations that cross workspaces.
\<close>

section \<open>Shutdown\<close>

text \<open>The daemon after a shutdown was accepted for a workspace.\<close>

definition shut_down :: "rstr \<Rightarrow> 'v Daemon \<Rightarrow> bool" where
  "shut_down ws d \<longleftrightarrow> runs_inv d \<and> threads_inv d \<and> dm_shutdown_accepted (d_state d) \<and>
     dm_pending_thread_spawns (d_state d) = [] \<and> \<not> dm_issue_prep_active (d_state d) \<and>
     (\<forall>k r. map_of (dm_runs (d_state d)) k = Some r \<longrightarrow> \<not> active_run d r) \<and>
     (\<forall>k t. map_of (dm_live_threads (d_state d)) k = Some t \<longrightarrow> lt_workspace_id (d_threads d ! t) = ws \<longrightarrow>
        lt_current_turn (d_threads d ! t) = None)"

lemma shutdown_accepts:
  assumes "runs_inv d" and "threads_inv d" and "shutdown_if_idle rt d = (d', Shutdown)"
  shows "shut_down (dr_workspace_id rt) d'"
proof -
  have d': "d' = on_state (\<lambda>st. st\<lparr>dm_shutdown_accepted := True\<rparr>) d"
    and idle: "\<not> dm_issue_prep_active (d_state d)" "dm_pending_thread_spawns (d_state d) = []"
      "\<not> list_ex (\<lambda>(_, t). lt_workspace_id (d_threads d ! t) = dr_workspace_id rt \<and>
            current_turn_id (d_threads d ! t) \<noteq> None) (dm_live_threads (d_state d))"
      "\<not> list_ex (\<lambda>(_, r). active_run d r) (dm_runs (d_state d))"
    using assms(3) by (auto simp: shutdown_if_idle_def Let_def split: if_splits)
  have "runs_inv d'" unfolding d' by (rule quiet_runs_inv [OF quiet_on_state assms(1)]) simp_all
  moreover have "threads_inv d'" unfolding d' by (rule calm_threads_inv [OF calm_on_state assms(2)]) simp_all
  moreover have "\<not> active_run d r" if "map_of (dm_runs (d_state d)) k = Some r" for k r
    using map_of_SomeD [OF that] idle(4) by (auto simp: list_ex_iff)
  moreover have "lt_current_turn (d_threads d ! t) = None"
    if "map_of (dm_live_threads (d_state d)) k = Some t" "lt_workspace_id (d_threads d ! t) = dr_workspace_id rt" for k t
    using map_of_SomeD [OF that(1)] that(2) idle(3) by (fastforce simp: list_ex_iff current_turn_id_def)
  ultimately show ?thesis using idle by (simp add: shut_down_def d')
qed

lemma state_frames [simp]:
  "d_state (publish_turn now turn event d) = d_state d"
  "d_state (push_event now r event d) = d_state d"
  "d_state (fst (snd (request_cancel_after now before r store d))) = d_state d"
  "d_state (complete_record r status d) = d_state d"
  "d_state (abort_thread_turn turn d) = d_state d"
  "d_state (on_live_thread k f d) = d_state d"
  by (auto simp: publish_turn_def push_event_def request_cancel_after_def complete_record_def abort_thread_turn_def
      on_live_thread_def Let_def split: option.split RunStateName.split prod.split sum.split)

text \<open>After an accepted shutdown no operation admits work of any kind again.\<close>

lemma keeps_shutdown_flags:
  assumes "dm_shutdown_accepted (d_state d)" and "dm_pending_thread_spawns (d_state d) = []"
    and "\<not> dm_issue_prep_active (d_state d)"
  shows "dm_shutdown_accepted (d_state (daemon_op op d)) \<and> dm_pending_thread_spawns (d_state (daemon_op op d)) = [] \<and>
    \<not> dm_issue_prep_active (d_state (daemon_op op d))"
proof (cases op)
  case (LoadThread rt now k)
  then show ?thesis using assms
    by (auto simp: load_thread_def insert_live_thread_def new_thread_def split: option.split)
next
  case (BindRun rt now turn r)
  then show ?thesis using assms
    by (auto simp: bind_thread_run_pass_def Let_def split: option.split prod.split sum.split)
next
  case (BeginStop rt k)
  then show ?thesis using assms by (auto simp: begin_thread_stop_def Let_def split: option.split prod.split)
next
  case (NextMessage turn)
  then show ?thesis using assms by (auto simp: next_thread_message_def split: Blocking.split prod.split)
qed (use assms in \<open>auto simp: new_record_def reserve_run_with_profile_def release_run_reservation_def complete_state_def
      set_approval_profile_def claim_home_reservation_decision_def release_home_reservation_decision_def
      reserve_issue_prep_def drop_issue_prep_def shutdown_if_idle_def reserve_thread_spawn_def claim_thread_spawn_def
      release_thread_spawn_claim_def set_decision_in_progress_def complete_thread_spawn_def
      complete_thread_spawn_without_authority_def send_thread_def complete_thread_stop_def abort_thread_stop_def
      Let_def case_prod_unfold\<close>)

lemma keeps_no_active:
  assumes i: "runs_inv d" and sd: "dm_shutdown_accepted (d_state d)" and a: "admissible op d"
    and none: "\<And>k r. map_of (dm_runs (d_state d)) k = Some r \<Longrightarrow> \<not> active_run d r"
    and k: "map_of (dm_runs (d_state (daemon_op op d))) k = Some r"
  shows "\<not> active_run (daemon_op op d) r"
proof -
  have "map_of (dm_runs (d_state d)) k = Some r"
  proof (cases op rule: run_op.cases)
    case (1 run_id session_id path turn profile)
    then show ?thesis using k sd by (simp add: new_record_def reserve_run_with_profile_def)
  next
    case (2 x)
    then show ?thesis using k by (auto simp: release_run_reservation_def Let_def delete_conv' split: if_splits)
  next
    case (3 x)
    then show ?thesis using k
      by (auto simp: complete_state_def evict_terminal_eq Let_def map_of_fold_delete split: if_splits)
  qed (use k quiet_other [OF _ a] in \<open>simp_all add: quiet_def\<close>)
  then show ?thesis using step_active_before [OF a] none runs_invD(1) [OF i] by blast
qed

lemma keeps_no_turn:
  assumes i: "threads_inv d" and sd: "dm_shutdown_accepted (d_state d)" and p: "dm_pending_thread_spawns (d_state d) = []"
    and none: "\<And>k t. \<lbrakk> map_of (dm_live_threads (d_state d)) k = Some t; lt_workspace_id (d_threads d ! t) = ws \<rbrakk> \<Longrightarrow>
      lt_current_turn (d_threads d ! t) = None"
    and k: "map_of (dm_live_threads (d_state (daemon_op op d))) k = Some t"
    and w: "lt_workspace_id (d_threads (daemon_op op d) ! t) = ws"
  shows "lt_current_turn (d_threads (daemon_op op d) ! t) = None"
proof -
  have lt: "t < length (d_threads d)" if "map_of (dm_live_threads (d_state d)) k = Some t" for k t
    using i that by (simp add: threads_inv_def)
  show ?thesis
  proof (cases "thread_op op")
    case False
    then show ?thesis using calm_other [OF False, of d] k w none lt by (auto simp: calm_def)
  next
    case True
    then show ?thesis
    proof (cases op rule: thread_op.cases)
      case (2 rt now j)
      then show ?thesis using k w none lt
        by (auto simp: load_thread_def insert_live_thread_effect nth_append LiveThread_new_def
            split: option.splits if_splits)
    next
      case (4 rt j)
      then show ?thesis using k w none lt
        by (auto simp: begin_thread_stop_def Let_def begin_stop_def on_thread_at case_prod_unfold
            split: option.splits if_splits)
    next
      case (5 j)
      then show ?thesis using k w none lt
        by (auto simp: complete_thread_stop_def on_live_thread_def delete_conv' complete_stop_def on_thread_at
            split: option.splits if_splits)
    next
      case (6 j)
      then show ?thesis using k w none lt
        by (auto simp: abort_thread_stop_def on_live_thread_def abort_stop_def on_thread_at
            split: option.splits if_splits)
    qed (use True sd p k w none in \<open>auto simp: complete_thread_spawn_def send_thread_def\<close>)
  qed
qed

interpretation shutdown_kept: daemon_invariant admissible "shut_down ws" for ws
proof
  fix d :: "'a Daemon" and op
  assume i: "shut_down ws d" and a: "admissible op d"
  have p: "runs_inv d" "threads_inv d" "dm_shutdown_accepted (d_state d)" "dm_pending_thread_spawns (d_state d) = []"
      "\<not> dm_issue_prep_active (d_state d)"
    using i by (simp_all add: shut_down_def)
  have "\<not> active_run (daemon_op op d) r" if "map_of (dm_runs (d_state (daemon_op op d))) k = Some r" for k r
    using keeps_no_active [OF p(1,3) a _ that] i by (auto simp: shut_down_def)
  moreover have "lt_current_turn (d_threads (daemon_op op d) ! t) = None"
    if "map_of (dm_live_threads (d_state (daemon_op op d))) k = Some t"
      "lt_workspace_id (d_threads (daemon_op op d) ! t) = ws" for k t
    using keeps_no_turn [OF p(2-4) _ that] i by (auto simp: shut_down_def)
  ultimately show "shut_down ws (daemon_op op d)"
    unfolding shut_down_def
    using runs_kept.keeps [OF p(1) a] threads_kept.keeps [OF p(2) a] keeps_shutdown_flags [OF p(3-5), of op] by blast
qed

section \<open>Properties\<close>

text \<open>
  C7. No session ever has two active runs: in every state the daemon reaches, two runs of one session that
  are both running or being canceled are the same run.
\<close>

theorem one_active_run_per_session:
  assumes "daemon_trace admissible (Daemon_new epoch) ops d"
    and "map_of (dm_runs (d_state d)) j = Some a" and "map_of (dm_runs (d_state d)) k = Some b"
    and "rc_session_id (d_records d ! a) = rc_session_id (d_records d ! b)"
    and "active_run d a" and "active_run d b"
  shows "j = k \<and> a = b"
proof -
  have i: "runs_inv d" using runs_kept.along_trace [OF assms(1) runs_inv_new] .
  then have "a = b" using runs_invD(6) assms(2-) by blast
  then show ?thesis using runs_invD(2) [OF i] assms(2,3) by metis
qed

text \<open>
  C10. A reserved run stays findable under its identifier as long as it is active and its reservation is not
  released: the retention of terminal runs never evicts it, and keeps at most its bound of runs.
\<close>

theorem active_run_never_evicted:
  assumes "daemon_trace admissible (Daemon_new epoch) ops d"
    and "map_of (dm_runs (d_state d)) k = Some r"
    and "daemon_trace admissible d later d'" and "ReleaseRun r \<notin> set later" and "active_run d' r"
  shows "map_of (dm_runs (d_state d')) k = Some r \<and> length (dm_terminal_runs (d_state d')) \<le> MAX_TERMINAL_RUNS"
proof -
  have i: "runs_inv d" using runs_kept.along_trace [OF assms(1) runs_inv_new] .
  then show ?thesis
    using trace_keeps_active [OF assms(3) i assms(2,4)] assms(5) runs_invD(5) [OF runs_kept.along_trace [OF assms(3) i]]
    by blast
qed


text \<open>
  C8. A completed stop is final for the thread: whatever happens later, its identifier accepts no message, no
  observer, no run and no second stop, and the bindings that still refer to the thread object get no
  further message and publish nothing.
\<close>

theorem thread_stop_is_final:
  assumes "daemon_trace admissible (Daemon_new epoch) ops d"
    and "map_of (dm_live_threads (d_state d)) k = Some t"
    and "daemon_trace admissible (complete_thread_stop k d) later d'"
  shows "snd (send_thread rt now k c e m n d') \<in> {ThreadSendAdmission.ShuttingDown, AdmissionStopped} \<and>
    load_thread rt now k d' = (d', Inl EventsStopped) \<and>
    begin_thread_stop rt k d' = (d', Inl AlreadyStopped) \<and>
    bind_thread_run_pass rt now \<lparr>tb_thread_id = k, tb_turn_id = turn, tb_thread = t\<rparr> r d' = (d', Bound (Inl BindStopping)) \<and>
    next_thread_message \<lparr>tb_thread_id = k, tb_turn_id = turn, tb_thread = t\<rparr> d' = Returns (d', None) \<and>
    publish_turn now \<lparr>tb_thread_id = k, tb_turn_id = turn, tb_thread = t\<rparr> event d' = d'"
proof -
  have "stopped_for_good k t (complete_thread_stop k d)"
    using complete_stop_final threads_kept.along_trace [OF assms(1) threads_inv_new] assms(2) by blast
  then have "stopped_for_good k t d'" using stop_kept.along_trace [OF assms(3)] by blast
  from stopped_refuses [OF this] show ?thesis by simp
qed


section \<open>Concrete traces\<close>

fun guarded :: "('v DaemonOp \<Rightarrow> 'v Daemon \<Rightarrow> bool) \<Rightarrow> 'v DaemonOp list \<Rightarrow> 'v Daemon \<Rightarrow> bool" where
  "guarded guard [] d \<longleftrightarrow> True"
| "guarded guard (op # ops) d \<longleftrightarrow> guard op d \<and> guarded guard ops (daemon_op op d)"

lemma guarded_append: "guarded guard (ops @ ops') d \<longleftrightarrow> guarded guard ops d \<and> guarded guard ops' (fold daemon_op ops d)"
  by (induction ops arbitrary: d) auto

lemma guarded_trace: "guarded guard ops d \<Longrightarrow> daemon_trace guard d ops (fold daemon_op ops d)"
  by (induction ops rule: rev_induct) (auto simp: guarded_append intro: daemon_trace.intros)

definition runtime_for :: "rstr \<Rightarrow> DaemonRuntime" where
  "runtime_for ws = \<lparr>dr_workspace_id = ws, dr_max_spawn_depth = 1, dr_require_confinement = False,
     dr_confinement_support = NoSupport\<rparr>"

definition finished_status :: RunStatus where
  "finished_status = \<lparr>ru_state = RunStateName.Finished, ru_final_answer = Some [], ru_error = None,
     ru_completion_claim = None\<rparr>"

text \<open>Three runs of one session: the second is refused, the third is admitted after the first completed.\<close>

definition session_ops :: "int DaemonOp list" where
  "session_ops = [ReserveRun [21] [5] [] None None, ReserveRun [22] [5] [] None None,
     CompleteRecord 0 finished_status, CompleteState 0, ReserveRun [23] [5] [] None None]"

text \<open>A turn started on a thread of workspace ten, its run, and a message steered into it.\<close>

definition turn_ops :: "int DaemonOp list" where
  "turn_ops = [SendThread (runtime_for [10]) 1 [7] [3] None [40] [8],
     ReserveRun [21] [5] [] (Some \<lparr>tb_thread_id = [7], tb_turn_id = [8], tb_thread = 0\<rparr>) None,
     SendThread (runtime_for [10]) 2 [7] [3] (Some [8]) [41] [9]]"

lemmas sample_defs = session_ops_def turn_ops_def runtime_for_def finished_status_def Daemon_new_def RuntimeState_default_def

lemma session_sample:
  "guarded admissible session_ops (Daemon_new [1])"
  "let d = fold daemon_op session_ops (Daemon_new [1]) in
   map_of (dm_runs (d_state d)) [23] = Some 2 \<and> active_run d 2 \<and> map_of (dm_runs (d_state d)) [22] = None \<and>
   map_of (dm_runs (d_state d)) [21] = Some 0"
  by code_simp+

theorem one_active_run_per_session_witness:
  "let d = fold daemon_op session_ops (Daemon_new [1]) in
   map_of (dm_runs (d_state d)) [23] = Some 2 \<and> active_run d 2 \<and> ([23] :: rstr) = [23] \<and> (2 :: nat) = 2"
  using one_active_run_per_session [OF guarded_trace [OF session_sample(1)], of "[23]" 2 "[23]" 2] session_sample(2)
  by (simp add: Let_def)

lemma eviction_sample:
  "guarded admissible [ReserveRun [21] [5] [] None None] (Daemon_new [1] :: int Daemon)"
  "let d = fold daemon_op [ReserveRun [21] [5] [] None None] (Daemon_new [1] :: int Daemon);
     later = [ReserveRun [22] [6] [] None None, RequestCancel 3 0 (Inr ()), CompleteRecord 1 finished_status, CompleteState 1]
   in map_of (dm_runs (d_state d)) [21] = Some 0 \<and> guarded admissible later d \<and>
      list_all (\<lambda>op. case op of ReleaseRun x \<Rightarrow> x \<noteq> 0 | _ \<Rightarrow> True) later \<and>
      active_run (fold daemon_op later d) 0"
  by code_simp+

theorem active_run_never_evicted_witness:
  "let d = fold daemon_op [ReserveRun [21] [5] [] None None] (Daemon_new [1] :: int Daemon);
     later = [ReserveRun [22] [6] [] None None, RequestCancel 3 0 (Inr ()), CompleteRecord 1 finished_status, CompleteState 1]
   in map_of (dm_runs (d_state (fold daemon_op later d))) [21] = Some 0"
  using active_run_never_evicted [OF guarded_trace [OF eviction_sample(1)] _ guarded_trace, of "[21]" 0
      "[ReserveRun [22] [6] [] None None, RequestCancel 3 0 (Inr ()), CompleteRecord 1 finished_status, CompleteState 1]"]
    eviction_sample(2)
  by (simp add: Let_def del: fold_simps)

text \<open>An idle daemon shuts down; a thread is then loaded and a message refused.\<close>

definition after_shutdown :: "int DaemonOp list" where
  "after_shutdown = [LoadThread (runtime_for [10]) 1 [7], SendThread (runtime_for [10]) 1 [7] [3] None [40] [8]]"

lemma shutdown_sample:
  "shutdown_if_idle (runtime_for [10]) (Daemon_new [1] :: int Daemon) =
     (on_state (\<lambda>st. st\<lparr>dm_shutdown_accepted := True\<rparr>) (Daemon_new [1]), Shutdown)"
  "guarded admissible after_shutdown (on_state (\<lambda>st. st\<lparr>dm_shutdown_accepted := True\<rparr>) (Daemon_new [1]))"
  by (simp_all add: shutdown_if_idle_def sample_defs after_shutdown_def)


lemma turn_sample:
  "guarded admissible turn_ops (Daemon_new [1])"
  "map_of (dm_live_threads (d_state (fold daemon_op turn_ops (Daemon_new [1])))) [7] = Some 0"
  "guarded admissible [SendThread (runtime_for [10]) 3 [7] [3] None [42] [11]]
     (complete_thread_stop [7] (fold daemon_op turn_ops (Daemon_new [1])))"
  by code_simp+

theorem thread_stop_is_final_witness:
  "let d' = daemon_op (SendThread (runtime_for [10]) 3 [7] [3] None [42] [11])
       (complete_thread_stop [7] (fold daemon_op turn_ops (Daemon_new [1]))) in
   load_thread (runtime_for [10]) 4 [7] d' = (d', Inl EventsStopped) \<and>
   next_thread_message \<lparr>tb_thread_id = [7], tb_turn_id = [8], tb_thread = 0\<rparr> d' = Returns (d', None)"
  using thread_stop_is_final [OF guarded_trace [OF turn_sample(1)] turn_sample(2) guarded_trace [OF turn_sample(3)]]
  by (simp add: Let_def)

lemma bind_sample:
  "guarded (disciplined (\<lambda>_. [10])) (turn_ops @ [BeginStop (runtime_for [10]) [7]]) (Daemon_new [1])"
  "snd (bind_thread_run_pass (runtime_for [10]) 4 \<lparr>tb_thread_id = [7], tb_turn_id = [8], tb_thread = 0\<rparr> 0
     (fold daemon_op (turn_ops @ [BeginStop (runtime_for [10]) [7]]) (Daemon_new [1]))) = AwaitStop 0"
  by code_simp+


section \<open>Operations across workspaces\<close>

lemma await_pass_unchanged:
  "snd (bind_thread_run_pass rt now turn r d) = AwaitStop t \<Longrightarrow> fst (bind_thread_run_pass rt now turn r d) = d"
  by (auto simp: bind_thread_run_pass_def Let_def split: if_splits option.splits prod.splits sum.splits)

lemma foreign_stop_sample:
  "guarded admissible (turn_ops @ [BeginStop (runtime_for [20]) [7]]) (Daemon_new [1])"
  "snd (bind_thread_run_pass (runtime_for [10]) 4 \<lparr>tb_thread_id = [7], tb_turn_id = [8], tb_thread = 0\<rparr> 0
     (fold daemon_op (turn_ops @ [BeginStop (runtime_for [20]) [7]]) (Daemon_new [1]))) = AwaitStop 0"
  "await_stop 0 (fold daemon_op (turn_ops @ [BeginStop (runtime_for [20]) [7]]) (Daemon_new [1])) = Returns None"
  by code_simp+

text \<open>
  A stop requested through another workspace's runtime is entered in the shared table but does not reach
  the thread, whose lock the bind waits on: the bind's pass changes nothing, its wait returns at once
  and asks for another pass, so it polls until the stop is resolved.
\<close>

theorem foreign_stop_makes_bind_poll:
  "let turn = \<lparr>tb_thread_id = [7], tb_turn_id = [8], tb_thread = 0\<rparr>;
       ops = turn_ops @ [BeginStop (runtime_for [20]) [7]]; d = fold daemon_op ops (Daemon_new [1]) in
   daemon_trace admissible (Daemon_new [1]) ops d \<and>
   bind_thread_run_pass (runtime_for [10]) 4 turn 0 d = (d, AwaitStop 0) \<and> await_stop 0 d = Returns None"
  unfolding Let_def
  using guarded_trace [OF foreign_stop_sample(1)] foreign_stop_sample(2,3) await_pass_unchanged [OF foreign_stop_sample(2)]
  by (simp add: prod_eq_iff)

text \<open>
  Shutdown asked through one workspace's runtime looks at that workspace's turns only. Between two runs
  of another workspace's turn it is accepted although a message is queued; the driver then takes the
  message and its run is refused, so the message is lost. Asked through the turn's own workspace the same
  state refuses the shutdown.
\<close>

definition between_runs :: "int Daemon" where
  "between_runs = fold daemon_op (turn_ops @ [CompleteRecord 0 finished_status, CompleteState 0]) (Daemon_new [1])"

lemma between_runs_trace:
  "guarded admissible (turn_ops @ [CompleteRecord 0 finished_status, CompleteState 0]) (Daemon_new [1])"
  by code_simp

theorem shutdown_loses_foreign_message:
  "daemon_trace admissible (Daemon_new [1]) (turn_ops @ [CompleteRecord 0 finished_status, CompleteState 0]) between_runs \<and>
   snd (shutdown_if_idle (runtime_for [10]) between_runs) = RefusedActive \<and>
   snd (shutdown_if_idle (runtime_for [20]) between_runs) = Shutdown \<and>
   (case next_thread_message \<lparr>tb_thread_id = [7], tb_turn_id = [8], tb_thread = 0\<rparr>
       (fst (shutdown_if_idle (runtime_for [20]) between_runs)) of
      Waits \<Rightarrow> False
    | Returns (d, message) \<Rightarrow> message = Some [41] \<and> snd (reserve_run_with_profile 0 None d) = Inl AdmissionShuttingDown)"
proof -
  have "snd (shutdown_if_idle (runtime_for [10]) between_runs) = RefusedActive \<and>
   snd (shutdown_if_idle (runtime_for [20]) between_runs) = Shutdown \<and>
   (case next_thread_message \<lparr>tb_thread_id = [7], tb_turn_id = [8], tb_thread = 0\<rparr>
       (fst (shutdown_if_idle (runtime_for [20]) between_runs)) of
      Waits \<Rightarrow> False
    | Returns (d, message) \<Rightarrow> message = Some [41] \<and> snd (reserve_run_with_profile 0 None d) = Inl AdmissionShuttingDown)"
    by code_simp
  then show ?thesis using guarded_trace [OF between_runs_trace] unfolding between_runs_def by blast
qed

end
