(* ===== verification/Daemon_Approvals.thy ===== *)
theory Daemon_Approvals
  imports Daemon_Properties Session_Store
begin

text \<open>
  Approvals of the daemon: the handler a paused run waits in (\<open>approval_handler\<close> of
  \<open>daemon/runtime/run.rs\<close>), the decision request that answers it (\<open>handle_approval_decide\<close> of
  \<open>daemon/handlers/runs.rs\<close>), run cancellation, and the server store's tables both write
  (\<open>server_store/queries.rs\<close>, \<open>schema.rs\<close>). What the store's file and SQLite answer to one call is an
  argument of the call.
\<close>

section \<open>The server store's tables\<close>

record ToolCallApprovalDecision =
  tq_granted :: bool
  tq_actor :: rstr
  tq_reason :: "rstr option"
  tq_decided_at_ms :: u64

record ToolCallApprovalRecord =
  tp_run_id :: rstr
  tp_call_id :: rstr
  tp_session_id :: rstr
  tp_tool_name :: rstr
  tp_effect :: EffectClass
  tp_reason :: rstr
  tp_input_preview :: "rstr option"
  tp_approval_preview :: "rstr option"
  tp_diff_preview :: "rstr option"
  tp_requested_at_ms :: u64
  tp_decision :: "ToolCallApprovalDecision option"

record RunCancellationRecord =
  rx_run_id :: rstr
  rx_actor :: rstr
  rx_requested_at_ms :: u64

record ServerStore =
  tb_approvals :: "ToolCallApprovalRecord list"
  tb_cancellations :: "RunCancellationRecord list"

type_synonym store_io = "(AppError, unit) result"

text \<open>The primary key is run and call; a second insert of a key does nothing.\<close>

definition same_call :: "rstr \<Rightarrow> rstr \<Rightarrow> ToolCallApprovalRecord \<Rightarrow> bool" where
  "same_call run_id call_id row \<longleftrightarrow> tp_run_id row = run_id \<and> tp_call_id row = call_id"

definition persist_tool_call_approval :: "store_io \<Rightarrow> ToolCallApprovalRecord \<Rightarrow> ServerStore \<Rightarrow> ServerStore \<times> (AppError, unit) result" where
  "persist_tool_call_approval io rec store =
     (case io of Inl e \<Rightarrow> (store, Inl e)
      | Inr _ \<Rightarrow>
          case sqlite_i64 (tp_requested_at_ms rec) ''approval requested_at_ms'' of Inl e \<Rightarrow> (store, Inl e)
          | Inr _ \<Rightarrow>
              if list_ex (same_call (tp_run_id rec) (tp_call_id rec)) (tb_approvals store) then (store, Inr ())
              else (store\<lparr>tb_approvals := tb_approvals store @ [rec\<lparr>tp_decision := None\<rparr>]\<rparr>, Inr ()))"

definition undecided_call :: "rstr \<Rightarrow> rstr \<Rightarrow> ToolCallApprovalRecord \<Rightarrow> bool" where
  "undecided_call run_id call_id row \<longleftrightarrow> same_call run_id call_id row \<and> tp_decision row = None"

definition resolve_tool_call_approval :: "store_io \<Rightarrow> rstr \<Rightarrow> rstr \<Rightarrow> ToolCallApprovalDecision \<Rightarrow> ServerStore \<Rightarrow>
    ServerStore \<times> (AppError, bool) result" where
  "resolve_tool_call_approval io run_id call_id decision store =
     (case io of Inl e \<Rightarrow> (store, Inl e)
      | Inr _ \<Rightarrow>
          case sqlite_i64 (tq_decided_at_ms decision) ''approval decided_at_ms'' of Inl e \<Rightarrow> (store, Inl e)
          | Inr _ \<Rightarrow>
              (store\<lparr>tb_approvals := map (\<lambda>row. if undecided_call run_id call_id row
                       then row\<lparr>tp_decision := Some decision\<rparr> else row) (tb_approvals store)\<rparr>,
               Inr (length (filter (undecided_call run_id call_id) (tb_approvals store)) = 1)))"

definition persist_run_cancellation :: "store_io \<Rightarrow> RunCancellationRecord \<Rightarrow> ServerStore \<Rightarrow>
    ServerStore \<times> (AppError, RunCancellationRecord \<times> bool) result" where
  "persist_run_cancellation io cancellation store =
     (case io of Inl e \<Rightarrow> (store, Inl e)
      | Inr _ \<Rightarrow>
          (case find (\<lambda>row. rx_run_id row = rx_run_id cancellation) (tb_cancellations store) of
             Some existing \<Rightarrow> (store, Inr (existing, False))
           | None \<Rightarrow>
               case sqlite_i64 (rx_requested_at_ms cancellation) ''run cancellation requested_at_ms'' of Inl e \<Rightarrow> (store, Inl e)
               | Inr _ \<Rightarrow> (store\<lparr>tb_cancellations := tb_cancellations store @ [cancellation]\<rparr>, Inr (cancellation, True))))"

section \<open>The handler of a paused run\<close>

definition persist_approval_request :: "store_io \<Rightarrow> u64 \<Rightarrow> 'v RunRecord \<Rightarrow> ApprovalRequest \<Rightarrow> ServerStore \<Rightarrow>
    ServerStore \<times> (AppError, unit) result" where
  "persist_approval_request io now rec request store =
     persist_tool_call_approval io
       \<lparr>tp_run_id = run_id_str (aq_run_id request), tp_call_id = tool_call_id_str (aq_call_id request),
        tp_session_id = rc_session_id rec, tp_tool_name = aq_tool_name request, tp_effect = aq_effect request,
        tp_reason = aq_reason request, tp_input_preview = aq_input_preview request,
        tp_approval_preview = aq_approval_preview request, tp_diff_preview = aq_diff_preview request,
        tp_requested_at_ms = now, tp_decision = None\<rparr> store"

definition record_daemon_denial :: "store_io \<Rightarrow> u64 \<Rightarrow> ApprovalRequest \<Rightarrow> rstr \<Rightarrow> ServerStore \<Rightarrow> ServerStore" where
  "record_daemon_denial io now request reason store =
     fst (resolve_tool_call_approval io (run_id_str (aq_run_id request)) (tool_call_id_str (aq_call_id request))
       \<lparr>tq_granted = False, tq_actor = lit ''daemon'', tq_reason = Some reason, tq_decided_at_ms = now\<rparr> store)"

definition approval_requested_event :: "ApprovalRequest \<Rightarrow> 'v StreamEvent" where
  "approval_requested_event q =
     StreamEvent.ApprovalRequested (run_id_str (aq_run_id q)) (tool_call_id_str (aq_call_id q)) (aq_tool_name q)
       (aq_effect q) (aq_reason q) (aq_diff_preview q) (aq_approval_preview q) (aq_yolo_eligible q)"

text \<open>
  The handler up to its wait: an answer, or the registration of the request. \<open>display\<close> renders errors.
\<close>

datatype ApprovalPass = Answers "(AppError, ExternalApprovalOutcome) result" | Registered

definition denied_by_daemon :: "rstr \<Rightarrow> ExternalApprovalOutcome" where
  "denied_by_daemon reason = ExternalDenied (lit ''daemon'') reason"

definition approval_ask :: "(AppError \<Rightarrow> rstr) \<Rightarrow> store_io \<Rightarrow> u64 \<Rightarrow> (rstr \<times> rstr) set \<Rightarrow> bool \<Rightarrow> ApprovalRequest \<Rightarrow> nat \<Rightarrow>
    'v Daemon \<Rightarrow> ServerStore \<Rightarrow> 'v Daemon \<times> ServerStore \<times> ApprovalPass" where
  "approval_ask display io now grants thread_yolo request r d store = (let rec = d_records d ! r in
     if run_id_str (aq_run_id request) \<noteq> rc_run_id rec
     then (d, store, Answers (Inl (RunFailedError (lit ''approval request does not match daemon run''))))
     else if rc_cancel rec then (d, store, Answers (Inr (denied_by_daemon (lit ''run canceled''))))
     else if run_state d r \<noteq> RunStateName.Running
     then (d, store, Answers (Inr (denied_by_daemon (lit ''run is no longer active''))))
     else if aq_yolo_eligible request \<and> thread_yolo
     then (d, store, Answers (Inr (ExternalGranted (lit ''yolo''))))
     else if aq_yolo_eligible request \<and> session_yolo_enabled_for_decision (rc_session_id rec) d
     then (d, store, Answers (Inr (ExternalGranted (lit ''tui_yolo''))))
     else if aq_tool_name request = SHELL_EXEC \<and> aq_effect request = ExternalSideEffect \<and>
         has_shell_session_grant grants (rc_session_id rec)
     then (d, store, Answers (Inr (ExternalGranted (lit ''session_grant''))))
     else case persist_approval_request io now rec request store of
       (store, Inl e) \<Rightarrow>
         (d, store, Answers (Inr (denied_by_daemon (lit ''approval could not be recorded: '' @ display e))))
     | (store, Inr _) \<Rightarrow>
         (push_event now r (approval_requested_event request)
            (on_record r (\<lambda>rec. rec\<lparr>rc_approvals := AList.update (tool_call_id_str (aq_call_id request))
               (PendingApproval_new (rc_session_id rec) request) (rc_approvals rec)\<rparr>) d), store, Registered))"

definition remove_approval :: "ApprovalRequest \<Rightarrow> nat \<Rightarrow> 'v Daemon \<Rightarrow> 'v Daemon" where
  "remove_approval request r d =
     on_record r (\<lambda>rec. rec\<lparr>rc_approvals := AList.delete (tool_call_id_str (aq_call_id request)) (rc_approvals rec)\<rparr>) d"

text \<open>One pass of its loop, each time it holds the approvals lock again.\<close>

definition approval_wake :: "store_io \<Rightarrow> u64 \<Rightarrow> ApprovalRequest \<Rightarrow> nat \<Rightarrow> 'v Daemon \<Rightarrow> ServerStore \<Rightarrow>
    ('v Daemon \<times> ServerStore \<times> ExternalApprovalOutcome) Blocking" where
  "approval_wake io now request r d store = (let rec = d_records d ! r in
     case map_option pa_decision (map_of (rc_approvals rec) (tool_call_id_str (aq_call_id request))) of
       Some (Some decision) \<Rightarrow> Returns (d, store, pd_outcome decision)
     | _ \<Rightarrow>
         if rc_cancel rec
         then Returns (remove_approval request r d, record_daemon_denial io now request (lit ''run canceled'') store,
                denied_by_daemon (lit ''run canceled''))
         else if run_state d r \<noteq> RunStateName.Running
         then Returns (remove_approval request r d,
                record_daemon_denial io now request (lit ''run is no longer active'') store,
                denied_by_daemon (lit ''run is no longer active''))
         else Waits)"

section \<open>Decisions and cancellation\<close>

datatype ErrorCode = MalformedRequest | NotFoundCode | InternalCode | OverloadCode | LaggedCode

datatype CommandReply = CommandAccepted rstr RunStateName | CommandError ErrorCode rstr

record ApprovalDecideParams =
  dp_run_id :: rstr
  dp_tool_call_id :: rstr
  dp_decision :: ApprovalDecision
  dp_reason :: "rstr option"
  dp_actor :: "rstr option"

definition find_run :: "rstr \<Rightarrow> 'v Daemon \<Rightarrow> (rstr, nat) result" where
  "find_run run_id d =
     (case map_of (dm_runs (d_state d)) run_id of
        Some r \<Rightarrow> Inr r | None \<Rightarrow> Inl (lit ''run not found: '' @ run_id))"

definition outcome_decision :: "u64 \<Rightarrow> ExternalApprovalOutcome \<Rightarrow> ToolCallApprovalDecision" where
  "outcome_decision now outcome =
     (case outcome of
        ExternalGranted actor \<Rightarrow> \<lparr>tq_granted = True, tq_actor = actor, tq_reason = None, tq_decided_at_ms = now\<rparr>
      | ExternalDenied actor reason \<Rightarrow>
          \<lparr>tq_granted = False, tq_actor = actor, tq_reason = Some reason, tq_decided_at_ms = now\<rparr>)"

definition record_approval_decision :: "store_io \<Rightarrow> u64 \<Rightarrow> rstr \<Rightarrow> rstr \<Rightarrow> ExternalApprovalOutcome \<Rightarrow> ServerStore \<Rightarrow>
    ServerStore \<times> (AppError, unit) result" where
  "record_approval_decision io now run_id call_id outcome store =
     (case resolve_tool_call_approval io run_id call_id (outcome_decision now outcome) store of
        (store, Inl e) \<Rightarrow> (store, Inl e) | (store, Inr _) \<Rightarrow> (store, Inr ()))"

definition outcome_actor :: "ExternalApprovalOutcome \<Rightarrow> rstr" where
  "outcome_actor outcome = (case outcome of ExternalGranted actor \<Rightarrow> actor | ExternalDenied actor _ \<Rightarrow> actor)"

definition deciding_actor :: "ApprovalDecision \<Rightarrow> rstr option \<Rightarrow> rstr" where
  "deciding_actor decision attributed =
     (case decision of GrantSession \<Rightarrow> lit ''tui_session_grant''
      | _ \<Rightarrow> (case attributed of Some actor \<Rightarrow> actor | None \<Rightarrow> lit ''daemon''))"

definition attributed_actor :: "(Error \<Rightarrow> rstr) \<Rightarrow> rstr option \<Rightarrow> (rstr, rstr option) result" where
  "attributed_actor display_core actor =
     (case actor of None \<Rightarrow> Inr None
      | Some a \<Rightarrow> (case ActorId_new a of Inl e \<Rightarrow> Inl (display_core e) | Inr aid \<Rightarrow> Inr (Some (actor_id_str aid))))"

definition not_pending :: "ApprovalDecideParams \<Rightarrow> CommandReply" where
  "not_pending params = CommandError NotFoundCode (lit ''pending approval not found: '' @ dp_tool_call_id params)"

text \<open>The decision's outcome, with the session grant it installs; \<open>None\<close> where a session grant is not allowed.\<close>

definition decided_outcome :: "ApprovalDecideParams \<Rightarrow> rstr \<Rightarrow> rstr \<Rightarrow> ApprovalRequest \<Rightarrow> (rstr \<times> rstr) set \<Rightarrow>
    ((rstr \<times> rstr) set \<times> ExternalApprovalOutcome) option" where
  "decided_outcome params actor session_id request grants =
     (case dp_decision params of
        Grant \<Rightarrow> Some (grants, ExternalGranted actor)
      | GrantSession \<Rightarrow>
          if aq_tool_name request \<noteq> SHELL_EXEC \<or> aq_effect request \<noteq> ExternalSideEffect then None
          else Some (fst (install_shell_session_grant grants session_id), ExternalGranted (lit ''tui_session_grant''))
      | DenyDecision \<Rightarrow> Some (grants, ExternalDenied actor
          (case dp_reason params of Some reason \<Rightarrow> reason | None \<Rightarrow> lit ''approval denied by daemon client'')))"

definition handle_approval_decide :: "(AppError \<Rightarrow> rstr) \<Rightarrow> (Error \<Rightarrow> rstr) \<Rightarrow> store_io \<Rightarrow> u64 \<Rightarrow> ApprovalDecideParams \<Rightarrow>
    (rstr \<times> rstr) set \<Rightarrow> 'v Daemon \<Rightarrow> ServerStore \<Rightarrow> (rstr \<times> rstr) set \<times> 'v Daemon \<times> ServerStore \<times> CommandReply" where
  "handle_approval_decide display display_core io now params grants d store =
     (case attributed_actor display_core (dp_actor params) of
        Inl message \<Rightarrow> (grants, d, store, CommandError MalformedRequest message)
      | Inr attributed \<Rightarrow>
     (case find_run (dp_run_id params) d of
        Inl message \<Rightarrow> (grants, d, store, CommandError NotFoundCode message)
      | Inr r \<Rightarrow> (let rec = d_records d ! r; actor = deciding_actor (dp_decision params) attributed in
          if rc_cancel rec \<or> run_state d r \<noteq> RunStateName.Running then (grants, d, store, not_pending params)
          else case map_of (rc_approvals rec) (dp_tool_call_id params) of
            None \<Rightarrow> (grants, d, store, not_pending params)
          | Some pending \<Rightarrow>
              if run_id_str (aq_run_id (pa_request pending)) \<noteq> rc_run_id rec \<or> pa_session_id pending \<noteq> rc_session_id rec \<or>
                 tool_call_id_str (aq_call_id (pa_request pending)) \<noteq> dp_tool_call_id params
              then (grants, d, store, not_pending params)
              else (case pa_decision pending of
                Some existing \<Rightarrow>
                  (grants, d, store,
                   if pd_decision existing = dp_decision params \<and> outcome_actor (pd_outcome existing) = actor
                   then CommandAccepted (rc_run_id rec) (run_state d r) else not_pending params)
              | None \<Rightarrow>
                  (case decided_outcome params actor (rc_session_id rec) (pa_request pending) grants of
                     None \<Rightarrow> (grants, d, store, not_pending params)
                   | Some (grants, outcome) \<Rightarrow>
                       (case record_approval_decision io now (rc_run_id rec) (dp_tool_call_id params) outcome store of
                          (store, Inl e) \<Rightarrow> (grants, d, store, CommandError InternalCode
                             (lit ''approval decision could not be recorded: '' @ display e))
                        | (store, Inr _) \<Rightarrow>
                            (let d = on_record r (\<lambda>rec. rec\<lparr>rc_approvals := AList.update (dp_tool_call_id params)
                                (pending\<lparr>pa_decision := Some \<lparr>pd_decision = dp_decision params, pd_outcome = outcome\<rparr>\<rparr>)
                                (rc_approvals rec)\<rparr>) d
                             in (grants, d, store, CommandAccepted (rc_run_id rec) (run_state d r)))))))))"

definition handle_run_cancel :: "(AppError \<Rightarrow> rstr) \<Rightarrow> (Error \<Rightarrow> rstr) \<Rightarrow> store_io \<Rightarrow> u64 \<Rightarrow> rstr \<Rightarrow> rstr option \<Rightarrow>
    'v Daemon \<Rightarrow> ServerStore \<Rightarrow> 'v Daemon \<times> ServerStore \<times> CommandReply" where
  "handle_run_cancel display display_core io now run_id actor d store =
     (case attributed_actor display_core actor of
        Inl message \<Rightarrow> (d, store, CommandError MalformedRequest (lit ''invalid cancellation actor: '' @ message))
      | Inr attributed \<Rightarrow>
     (case find_run run_id d of
        Inl message \<Rightarrow> (d, store, CommandError NotFoundCode message)
      | Inr r \<Rightarrow> (let run_id = rc_run_id (d_records d ! r);
          cancellation = \<lparr>rx_run_id = run_id, rx_actor = (case attributed of Some a \<Rightarrow> a | None \<Rightarrow> lit ''daemon''),
            rx_requested_at_ms = now\<rparr> in
          case request_cancel_after now (\<lambda>store. case persist_run_cancellation io cancellation store of
                 (store, Inl e) \<Rightarrow> (store, Inl e) | (store, Inr _) \<Rightarrow> (store, Inr ())) r store d of
            (store, d, Inl e) \<Rightarrow> (d, store, CommandError InternalCode (display e))
          | (store, d, Inr None) \<Rightarrow> (d, store, CommandError NotFoundCode (lit ''run is not active: '' @ run_id))
          | (store, d, Inr (Some status)) \<Rightarrow> (d, store, CommandAccepted run_id status))))"

section \<open>Approvals and the store\<close>

text \<open>
  The steps of one runtime: asking, waking and deciding as above, and every other operation of the
  daemon. A request is the run's own, and is asked once: the run loop proposes each call once and a
  run's identifier is minted for it.
\<close>

datatype 'v DeskOp =
    Ask store_io u64 bool ApprovalRequest nat
  | Wake store_io u64 ApprovalRequest nat
  | Decide store_io u64 ApprovalDecideParams
  | Other "'v DaemonOp"

type_synonym 'v desk = "(rstr \<times> rstr) set \<times> 'v Daemon \<times> ServerStore"

fun desk_op :: "(AppError \<Rightarrow> rstr) \<Rightarrow> (Error \<Rightarrow> rstr) \<Rightarrow> 'v DeskOp \<Rightarrow> 'v desk \<Rightarrow> 'v desk" where
  "desk_op display display_core (Ask io now thread_yolo request r) (grants, d, store) =
     (case approval_ask display io now grants thread_yolo request r d store of (d, store, _) \<Rightarrow> (grants, d, store))"
| "desk_op display display_core (Wake io now request r) (grants, d, store) =
     (case approval_wake io now request r d store of
        Waits \<Rightarrow> (grants, d, store) | Returns (d, store, _) \<Rightarrow> (grants, d, store))"
| "desk_op display display_core (Decide io now params) (grants, d, store) =
     (case handle_approval_decide display display_core io now params grants d store of
        (grants, d, store, _) \<Rightarrow> (grants, d, store))"
| "desk_op display display_core (Other op) (grants, d, store) = (grants, daemon_op op d, store)"

fun desk_guard :: "'v DeskOp \<Rightarrow> 'v desk \<Rightarrow> bool" where
  "desk_guard (Ask io now thread_yolo request r) (grants, d, store) \<longleftrightarrow>
     r < length (d_records d) \<and>
     \<not> list_ex (same_call (run_id_str (aq_run_id request)) (tool_call_id_str (aq_call_id request))) (tb_approvals store)"
| "desk_guard (Wake io now request r) (grants, d, store) \<longleftrightarrow>
     r < length (d_records d) \<and> run_id_str (aq_run_id request) = rc_run_id (d_records d ! r)"
| "desk_guard (Decide io now params) s \<longleftrightarrow> True"
| "desk_guard (Other op) (grants, d, store) \<longleftrightarrow> admissible op d \<and> (case op of EditApprovals _ _ \<Rightarrow> False | _ \<Rightarrow> True)"

inductive desk_trace :: "(AppError \<Rightarrow> rstr) \<Rightarrow> (Error \<Rightarrow> rstr) \<Rightarrow> 'v desk \<Rightarrow> 'v DeskOp list \<Rightarrow> 'v desk \<Rightarrow> bool"
  for display display_core s where
  start: "desk_trace display display_core s [] s"
| step: "\<lbrakk> desk_trace display display_core s ops s'; desk_guard op s' \<rbrakk> \<Longrightarrow>
    desk_trace display display_core s (ops @ [op]) (desk_op display display_core op s')"

text \<open>An approval in memory has its row: undecided as long as it is, then with the same outcome.\<close>

definition row_for :: "rstr \<Rightarrow> rstr \<Rightarrow> PendingApproval \<Rightarrow> ToolCallApprovalRecord \<Rightarrow> bool" where
  "row_for run_id call_id p row \<longleftrightarrow> same_call run_id call_id row \<and>
     (case pa_decision p of
        None \<Rightarrow> tp_decision row = None
      | Some decision \<Rightarrow> \<exists>now. tp_decision row = Some (outcome_decision now (pd_outcome decision)))"

definition entry_ok :: "ServerStore \<Rightarrow> rstr \<Rightarrow> rstr \<times> PendingApproval \<Rightarrow> bool" where
  "entry_ok store run_id = (\<lambda>(call_id, p). \<exists>row \<in> set (tb_approvals store). row_for run_id call_id p row)"

definition desk_inv :: "'v desk \<Rightarrow> bool" where
  "desk_inv = (\<lambda>(grants, d, store). runs_inv d \<and>
     (\<forall>r < length (d_records d). distinct (map fst (rc_approvals (d_records d ! r))) \<and>
        (\<forall>e \<in> set (rc_approvals (d_records d ! r)). entry_ok store (rc_run_id (d_records d ! r)) e)))"

lemma desk_invD:
  assumes "desk_inv (grants, d, store)"
  shows "runs_inv d"
    and "r < length (d_records d) \<Longrightarrow> distinct (map fst (rc_approvals (d_records d ! r)))"
    and "r < length (d_records d) \<Longrightarrow> e \<in> set (rc_approvals (d_records d ! r)) \<Longrightarrow>
      entry_ok store (rc_run_id (d_records d ! r)) e"
  using assms by (auto simp: desk_inv_def)

lemma desk_invI:
  assumes "runs_inv d" and "\<And>r. r < length (d_records d) \<Longrightarrow> distinct (map fst (rc_approvals (d_records d ! r)))"
    and "\<And>r e. r < length (d_records d) \<Longrightarrow> e \<in> set (rc_approvals (d_records d ! r)) \<Longrightarrow>
      entry_ok store (rc_run_id (d_records d ! r)) e"
  shows "desk_inv (grants, d, store)"
  using assms by (auto simp: desk_inv_def)

lemma entry_ok_more: "entry_ok store run_id e \<Longrightarrow> set (tb_approvals store) \<subseteq> set (tb_approvals store') \<Longrightarrow> entry_ok store' run_id e"
  by (auto simp: entry_ok_def)

lemma resolve_other:
  assumes "entry_ok store run' e" and "(run', fst e) \<noteq> (run_id, call_id)"
  shows "entry_ok (fst (resolve_tool_call_approval io run_id call_id decision store)) run' e"
proof -
  obtain c p where e: "e = (c, p)" by (cases e)
  from assms(1) obtain row where r: "row \<in> set (tb_approvals store)" "row_for run' c p row" by (auto simp: entry_ok_def e)
  then have "\<not> undecided_call run_id call_id row" using assms(2) by (auto simp: undecided_call_def same_call_def row_for_def e)
  then have "row \<in> set (tb_approvals (fst (resolve_tool_call_approval io run_id call_id decision store)))"
    using r(1) by (force simp: resolve_tool_call_approval_def split: sum.split)
  then show ?thesis using r(2) by (auto simp: entry_ok_def e)
qed

lemma resolve_decides:
  assumes "entry_ok store run_id (call_id, p)" and "pa_decision p = None"
    and "snd (resolve_tool_call_approval io run_id call_id (outcome_decision now outcome) store) = Inr b"
  shows "entry_ok (fst (resolve_tool_call_approval io run_id call_id (outcome_decision now outcome) store)) run_id
    (call_id, p\<lparr>pa_decision := Some \<lparr>pd_decision = dec, pd_outcome = outcome\<rparr>\<rparr>)"
proof -
  from assms(1,2) obtain row where r: "row \<in> set (tb_approvals store)" "undecided_call run_id call_id row"
    by (auto simp: entry_ok_def row_for_def undecided_call_def)
  then have in_set: "row\<lparr>tp_decision := Some (outcome_decision now outcome)\<rparr> \<in>
      set (tb_approvals (fst (resolve_tool_call_approval io run_id call_id (outcome_decision now outcome) store)))"
    using assms(3) by (force simp: resolve_tool_call_approval_def split: sum.splits)
  show ?thesis unfolding entry_ok_def case_prod_conv
    by (rule bexI [OF _ in_set]) (use r(2) in \<open>auto simp: row_for_def undecided_call_def same_call_def\<close>)
qed

lemma set_update_subset: "set (AList.update k v al) \<subseteq> insert (k, v) {e \<in> set al. fst e \<noteq> k}" if "distinct (map fst al)"
  using that by (induction al) (auto simp: image_iff)

lemma set_delete_subset: "set (AList.delete k al) \<subseteq> {e \<in> set al. fst e \<noteq> k}"
  by (auto simp: AList.delete_eq)

text \<open>
  The daemon's own operations only drop approvals of a record and create records without any.
\<close>

definition drops_approvals :: "'v Daemon \<Rightarrow> 'v Daemon \<Rightarrow> bool" where
  "drops_approvals d d' \<longleftrightarrow> length (d_records d) \<le> length (d_records d') \<and>
     (\<forall>r < length (d_records d).
        rc_run_id (d_records d' ! r) = rc_run_id (d_records d ! r) \<and>
        set (rc_approvals (d_records d' ! r)) \<subseteq> set (rc_approvals (d_records d ! r)) \<and>
        (distinct (map fst (rc_approvals (d_records d ! r))) \<longrightarrow> distinct (map fst (rc_approvals (d_records d' ! r))))) \<and>
     (\<forall>r < length (d_records d'). length (d_records d) \<le> r \<longrightarrow> rc_approvals (d_records d' ! r) = [])"

lemma drops_same_records: "d_records d' = d_records d \<Longrightarrow> drops_approvals d d'"
  by (simp add: drops_approvals_def)

lemma drops_trans: "drops_approvals d d' \<Longrightarrow> drops_approvals d' d'' \<Longrightarrow> drops_approvals d d''"
proof -
  assume a: "drops_approvals d d'" and b: "drops_approvals d' d''"
  have len: "length (d_records d) \<le> length (d_records d')" "length (d_records d') \<le> length (d_records d'')"
    using a b by (simp_all add: drops_approvals_def)
  have "rc_approvals (d_records d'' ! r) = []" if r: "r < length (d_records d'')" "length (d_records d) \<le> r" for r
  proof (cases "r < length (d_records d')")
    case True
    then have "rc_approvals (d_records d' ! r) = []" using a r by (simp add: drops_approvals_def)
    then show ?thesis using b True by (auto simp: drops_approvals_def)
  qed (use b r in \<open>simp add: drops_approvals_def\<close>)
  moreover have "rc_run_id (d_records d'' ! r) = rc_run_id (d_records d ! r) \<and>
      set (rc_approvals (d_records d'' ! r)) \<subseteq> set (rc_approvals (d_records d ! r)) \<and>
      (distinct (map fst (rc_approvals (d_records d ! r))) \<longrightarrow> distinct (map fst (rc_approvals (d_records d'' ! r))))"
    if r: "r < length (d_records d)" for r
  proof -
    have r': "r < length (d_records d')" using r len(1) by simp
    from a r have "rc_run_id (d_records d' ! r) = rc_run_id (d_records d ! r) \<and>
        set (rc_approvals (d_records d' ! r)) \<subseteq> set (rc_approvals (d_records d ! r)) \<and>
        (distinct (map fst (rc_approvals (d_records d ! r))) \<longrightarrow> distinct (map fst (rc_approvals (d_records d' ! r))))"
      unfolding drops_approvals_def by blast
    moreover from b r' have "rc_run_id (d_records d'' ! r) = rc_run_id (d_records d' ! r) \<and>
        set (rc_approvals (d_records d'' ! r)) \<subseteq> set (rc_approvals (d_records d' ! r)) \<and>
        (distinct (map fst (rc_approvals (d_records d' ! r))) \<longrightarrow> distinct (map fst (rc_approvals (d_records d'' ! r))))"
      unfolding drops_approvals_def by blast
    ultimately show ?thesis by auto
  qed
  ultimately show ?thesis using len unfolding drops_approvals_def by (meson order_trans)
qed

lemma drops_on_record:
  assumes "\<And>rec. rc_run_id (f rec) = rc_run_id rec"
    and "\<And>rec. rc_approvals (f rec) = rc_approvals rec \<or> rc_approvals (f rec) = filter P (rc_approvals rec)"
  shows "drops_approvals d (on_record r f d)"
proof -
  have "set (rc_approvals (f rec)) \<subseteq> set (rc_approvals rec)"
    "distinct (map fst (rc_approvals rec)) \<Longrightarrow> distinct (map fst (rc_approvals (f rec)))" for rec
    using assms(2) [of rec] by (auto simp: distinct_map_filter)
  then show ?thesis using assms(1) by (auto simp: drops_approvals_def on_record_at)
qed

lemma records_push_event: "drops_approvals d (push_event now r event d)"
proof -
  have "d_records (push_event now r event d) = d_records (on_record r (push_buffer event) d)"
    by (auto simp: push_event_def Let_def publish_turn_def split: option.split)
  moreover have "drops_approvals d (on_record r (push_buffer event) d)"
    by (rule drops_on_record) (auto simp: push_buffer_def Let_def)
  ultimately show ?thesis by (simp add: drops_approvals_def)
qed

lemma drops_keep_decided: "drops_approvals d (on_record r keep_decided d)"
  by (rule drops_on_record [where P = "\<lambda>(_, p). pa_decision p \<noteq> None"]) (auto simp: keep_decided_def)

lemma drops_request_cancel_after: "drops_approvals d (fst (snd (request_cancel_after now before r store d)))"
proof -
  let ?c = "\<lambda>rec. rec\<lparr>rc_status := (rc_status rec)\<lparr>ru_state := RunStateName.CancelRequested\<rparr>, rc_cancel := True\<rparr>"
  have "drops_approvals d (on_record r ?c d)" by (rule drops_on_record) auto
  from drops_trans [OF drops_trans [OF this records_push_event] drops_keep_decided]
  have "drops_approvals d (on_record r keep_decided (push_event now r event (on_record r ?c d)))" for event .
  then show ?thesis
    by (auto simp: request_cancel_after_def Let_def drops_same_records split: RunStateName.split prod.split sum.split)
qed

lemma drops_daemon_op:
  assumes "case op of EditApprovals _ _ \<Rightarrow> False | _ \<Rightarrow> True"
  shows "drops_approvals d (daemon_op op d)"
proof (cases op)
  case (ReserveRun run_id session_id path turn profile)
  show ?thesis unfolding ReserveRun
    by (simp only: drops_approvals_def reserve_op_effect(1)) (auto simp: nth_append RunRecord_new_inner_def)
next
  case (CompleteRecord r status)
  have "drops_approvals d (on_record r (\<lambda>rec. keep_decided (rec\<lparr>rc_status := status\<rparr>)) d)"
    by (rule drops_on_record [where P = "\<lambda>(_, p). pa_decision p \<noteq> None"]) (auto simp: keep_decided_def)
  then show ?thesis by (simp add: CompleteRecord complete_record_def)
next
  case (PushBuffer r event)
  have "drops_approvals d (on_record r (push_buffer event) d)"
    by (rule drops_on_record) (auto simp: push_buffer_def Let_def)
  then show ?thesis by (simp add: PushBuffer)
qed (use assms in \<open>auto simp: drops_request_cancel_after intro!: drops_same_records
      simp: release_run_reservation_def complete_state_def publish_turn_def quiet_defs abort_thread_turn_def
        complete_thread_spawn_def insert_live_thread_def new_thread_def send_thread_def bind_thread_run_pass_def
        begin_thread_stop_def complete_thread_stop_def abort_thread_stop_def on_live_thread_def Let_def case_prod_unfold
      split: option.splits sum.splits Blocking.splits\<close>)

lemma desk_inv_drops:
  assumes i: "desk_inv (grants, d, store)" and dr: "drops_approvals d d'" and "runs_inv d'"
  shows "desk_inv (grants', d', store)"
proof (rule desk_invI [OF assms(3)])
  note D = desk_invD [OF i]
  fix r
  assume r: "r < length (d_records d')"
  have old: "rc_run_id (d_records d' ! r) = rc_run_id (d_records d ! r)"
      "set (rc_approvals (d_records d' ! r)) \<subseteq> set (rc_approvals (d_records d ! r))"
      "distinct (map fst (rc_approvals (d_records d ! r))) \<Longrightarrow> distinct (map fst (rc_approvals (d_records d' ! r)))"
    if "r < length (d_records d)" using dr that by (simp_all add: drops_approvals_def)
  have new: "rc_approvals (d_records d' ! r) = []" if "\<not> r < length (d_records d)"
    using dr r that by (simp add: drops_approvals_def)
  show "distinct (map fst (rc_approvals (d_records d' ! r)))"
    using D(2) [of r] old(3) new by (cases "r < length (d_records d)") auto
  show "entry_ok store (rc_run_id (d_records d' ! r)) e" if "e \<in> set (rc_approvals (d_records d' ! r))" for e
    using D(3) [of r e] old(1,2) new that by (cases "r < length (d_records d)") auto
qed

text \<open>An edit of one record's approvals together with the store.\<close>

lemma desk_inv_edit:
  assumes i: "desk_inv (grants, d, store)" and r: "r < length (d_records d)"
    and f: "\<And>rec. f rec = rec\<lparr>rc_approvals := g rec\<rparr>"
    and dist: "distinct (map fst (g (d_records d ! r)))"
    and own: "\<And>e. e \<in> set (g (d_records d ! r)) \<Longrightarrow> entry_ok store' (rc_run_id (d_records d ! r)) e"
    and others: "\<And>run e. \<lbrakk> run \<noteq> rc_run_id (d_records d ! r); entry_ok store run e \<rbrakk> \<Longrightarrow> entry_ok store' run e"
  shows "desk_inv (grants', on_record r f d, store')"
proof -
  note D = desk_invD [OF i]
  have new: "d_records (on_record r f d) ! x = (if x = r then (d_records d ! r)\<lparr>rc_approvals := g (d_records d ! r)\<rparr> else d_records d ! x)"
    if "x < length (d_records d)" for x
    using that by (simp add: on_record_at f)
  show ?thesis
  proof (rule desk_invI)
    show "runs_inv (on_record r f d)" by (rule quiet_runs_inv [OF quiet_on_record D(1)]) (auto simp: f)
    fix x
    assume "x < length (d_records (on_record r f d))"
    then have x: "x < length (d_records d)" by simp
    show "distinct (map fst (rc_approvals (d_records (on_record r f d) ! x)))"
      using D(2) [OF x] dist by (simp add: new [OF x])
    fix e
    assume e: "e \<in> set (rc_approvals (d_records (on_record r f d) ! x))"
    show "entry_ok store' (rc_run_id (d_records (on_record r f d) ! x)) e"
    proof (cases "x = r")
      case True
      then show ?thesis using own e by (simp add: new [OF r])
    next
      case False
      then have "rc_run_id (d_records d ! x) \<noteq> rc_run_id (d_records d ! r)" using run_ids_distinct [OF D(1) x r] by blast
      then show ?thesis using others D(3) [OF x, of e] e False by (simp add: new [OF x])
    qed
  qed
qed

lemma desk_inv_ask:
  assumes i: "desk_inv (grants, d, store)" and g: "desk_guard (Ask io now thread_yolo request r) (grants, d, store)"
  shows "desk_inv (desk_op display display_core (Ask io now thread_yolo request r) (grants, d, store))"
proof -
  define c where "c = tool_call_id_str (aq_call_id request)"
  define rec where "rec = d_records d ! r"
  define p where "p = PendingApproval_new (rc_session_id rec) request"
  let ?edit = "\<lambda>rec. rec\<lparr>rc_approvals := AList.update c (PendingApproval_new (rc_session_id rec) request) (rc_approvals rec)\<rparr>"
  have r: "r < length (d_records d)" using g by simp
  have reg: "desk_inv (grants, push_event now r event (on_record r ?edit d), store')"
    if run: "run_id_str (aq_run_id request) = rc_run_id rec"
      and ps: "persist_approval_request io now rec request store = (store', Inr u)" for event store' u
  proof -
    have st: "\<exists>row. tb_approvals store' = tb_approvals store @ [row] \<and> row_for (rc_run_id rec) c p row"
      using ps g run by (auto simp: persist_approval_request_def persist_tool_call_approval_def same_call_def row_for_def
          c_def p_def PendingApproval_new_def rec_def split: sum.splits if_splits)
    have edited: "desk_inv (grants, on_record r ?edit d, store')"
    proof (rule desk_inv_edit [OF i r refl])
      have dist: "distinct (map fst (rc_approvals rec))" using i r by (simp add: desk_inv_def rec_def)
      then show "distinct (map fst (AList.update c (PendingApproval_new (rc_session_id (d_records d ! r)) request)
          (rc_approvals (d_records d ! r))))" by (simp add: distinct_update rec_def)
      show "entry_ok store' (rc_run_id (d_records d ! r)) e"
        if "e \<in> set (AList.update c (PendingApproval_new (rc_session_id (d_records d ! r)) request)
          (rc_approvals (d_records d ! r)))" for e
      proof -
        have "e = (c, p) \<or> e \<in> set (rc_approvals rec)"
          using set_update_subset [OF dist, of c p] that by (auto simp: rec_def p_def)
        moreover have "entry_ok store' (rc_run_id rec) (c, p)" using st by (auto simp: entry_ok_def)
        moreover have "entry_ok store' (rc_run_id rec) e" if "e \<in> set (rc_approvals rec)"
          using entry_ok_more [OF desk_invD(3) [OF i r], of e store'] st that by (auto simp: rec_def subset_insertI)
        ultimately show ?thesis by (auto simp: rec_def)
      qed
      show "entry_ok store' run e" if "entry_ok store run e" for run e
        using entry_ok_more [OF that, of store'] st by (auto simp: subset_insertI)
    qed
    show ?thesis
      by (rule desk_inv_drops [OF edited records_push_event quiet_runs_inv [OF quiet_push_event desk_invD(1) [OF edited]]])
  qed
  have fail: "desk_inv (grants, d, store')"
    if "persist_approval_request io now rec request store = (store', Inl e)" for store' e
    using that i by (auto simp: persist_approval_request_def persist_tool_call_approval_def split: sum.splits if_splits)
  show ?thesis
    using i reg fail
    by (auto simp: approval_ask_def Let_def c_def [symmetric] rec_def [symmetric] split: prod.split sum.split)
qed

lemma desk_inv_wake:
  assumes i: "desk_inv (grants, d, store)" and g: "desk_guard (Wake io now request r) (grants, d, store)"
  shows "desk_inv (desk_op display display_core (Wake io now request r) (grants, d, store))"
proof -
  define c where "c = tool_call_id_str (aq_call_id request)"
  have r: "r < length (d_records d)" and run: "run_id_str (aq_run_id request) = rc_run_id (d_records d ! r)" using g by simp_all
  have removed: "desk_inv (grants, remove_approval request r d, record_daemon_denial io now request reason store)" for reason
    unfolding remove_approval_def c_def [symmetric]
  proof (rule desk_inv_edit [OF i r refl])
    show "distinct (map fst (AList.delete c (rc_approvals (d_records d ! r))))"
      using desk_invD(2) [OF i r] by (rule distinct_delete)
    show "entry_ok (record_daemon_denial io now request reason store) (rc_run_id (d_records d ! r)) e"
      if "e \<in> set (AList.delete c (rc_approvals (d_records d ! r)))" for e
    proof -
      have "e \<in> set (rc_approvals (d_records d ! r))" and "fst e \<noteq> c"
        using that set_delete_subset [of c "rc_approvals (d_records d ! r)"] by auto
      then show ?thesis using resolve_other [OF desk_invD(3) [OF i r]]
        by (simp add: record_daemon_denial_def run c_def)
    qed
    show "entry_ok (record_daemon_denial io now request reason store) run' e"
      if "run' \<noteq> rc_run_id (d_records d ! r)" "entry_ok store run' e" for run' e
      using resolve_other [OF that(2)] that(1) by (simp add: record_daemon_denial_def run)
  qed
  show ?thesis using i removed
    by (auto simp: approval_wake_def Let_def split: option.split Blocking.split)
qed

lemma desk_inv_decide:
  assumes i: "desk_inv (grants, d, store)"
  shows "desk_inv (desk_op display display_core (Decide io now params) (grants, d, store))"
proof -
  define c where "c = dp_tool_call_id params"
  have same: "desk_inv (grants', d, store)" for grants' using i by (simp add: desk_inv_def)
  have written: "desk_inv (grants', on_record r (\<lambda>rec. rec\<lparr>rc_approvals := AList.update c
        (p\<lparr>pa_decision := Some \<lparr>pd_decision = dec, pd_outcome = outcome\<rparr>\<rparr>) (rc_approvals rec)\<rparr>) d, store')"
    if r: "r < length (d_records d)" and p: "map_of (rc_approvals (d_records d ! r)) c = Some p" "pa_decision p = None"
      and w: "record_approval_decision io now (rc_run_id (d_records d ! r)) c outcome store = (store', Inr u)"
    for grants' r p dec outcome store' u
  proof -
    let ?p = "p\<lparr>pa_decision := Some \<lparr>pd_decision = dec, pd_outcome = outcome\<rparr>\<rparr>"
    let ?run = "rc_run_id (d_records d ! r)"
    obtain b where b: "resolve_tool_call_approval io ?run c (outcome_decision now outcome) store = (store', Inr b)"
      using w by (auto simp: record_approval_decision_def split: prod.splits sum.splits)
    note D = desk_invD [OF i]
    have own: "entry_ok store' ?run (c, ?p)"
      using resolve_decides [OF D(3) [OF r map_of_SomeD [OF p(1)]] p(2), of io now outcome b dec] by (simp add: b)
    have rest: "entry_ok store' run' e" if "entry_ok store run' e" "(run', fst e) \<noteq> (?run, c)" for run' e
      using resolve_other [OF that, of io "outcome_decision now outcome"] by (simp add: b)
    show ?thesis
    proof (rule desk_inv_edit [OF i r refl])
      show "distinct (map fst (AList.update c ?p (rc_approvals (d_records d ! r))))"
        using D(2) [OF r] by (rule distinct_update)
      show "entry_ok store' ?run e" if "e \<in> set (AList.update c ?p (rc_approvals (d_records d ! r)))" for e
      proof -
        have "e = (c, ?p) \<or> e \<in> set (rc_approvals (d_records d ! r)) \<and> fst e \<noteq> c"
          using set_update_subset [OF D(2) [OF r], of c ?p] that by blast
        then show ?thesis using own rest [OF D(3) [OF r]] by blast
      qed
      show "entry_ok store' run' e" if "run' \<noteq> ?run" "entry_ok store run' e" for run' e
        using rest [OF that(2)] that(1) by simp
    qed
  qed
  have failed: "desk_inv (grants', d, store')"
    if "record_approval_decision io now run c outcome store = (store', Inl e)" for grants' run outcome store' e
    using that same by (auto simp: record_approval_decision_def resolve_tool_call_approval_def split: sum.splits prod.splits)
  have ref: "r < length (d_records d)" if "find_run run d = Inr r" for run r
    using that runs_invD(1) [OF desk_invD(1) [OF i]] by (auto simp: find_run_def split: option.splits)
  show ?thesis
    using same written ref failed
    by (auto simp: handle_approval_decide_def Let_def c_def [symmetric]
        split: prod.splits sum.splits option.splits)
qed

lemma desk_inv_step:
  assumes "desk_inv s" and "desk_guard op s"
  shows "desk_inv (desk_op display display_core op s)"
proof -
  obtain grants d store where s: "s = (grants, d, store)" by (cases s)
  show ?thesis
  proof (cases op)
    case (Other op')
    have i: "desk_inv (grants, d, store)" and g: "admissible op' d" "case op' of EditApprovals _ _ \<Rightarrow> False | _ \<Rightarrow> True"
      using assms by (simp_all add: s Other)
    show ?thesis unfolding s Other desk_op.simps
      by (rule desk_inv_drops [OF i drops_daemon_op [OF g(2)] runs_kept.keeps [OF desk_invD(1) [OF i] g(1)]])
  qed (use assms in \<open>simp_all only: s desk_inv_ask desk_inv_wake desk_inv_decide\<close>)
qed

definition ServerStore_empty :: ServerStore where
  "ServerStore_empty = \<lparr>tb_approvals = [], tb_cancellations = []\<rparr>"

lemma desk_inv_trace:
  assumes "desk_trace display display_core ({}, Daemon_new epoch, ServerStore_empty) ops s"
  shows "desk_inv s"
  using assms
proof (induction rule: desk_trace.induct)
  case start
  show ?case by (rule desk_invI) (simp_all add: runs_inv_new, simp_all add: Daemon_new_def)
qed (rule desk_inv_step)

section \<open>Properties\<close>


text \<open>A shell call asked and granted for its session.\<close>

definition shell_request :: ApprovalRequest where
  "shell_request = \<lparr>aq_run_id = RunId [21], aq_call_id = ToolCallId [31], aq_tool_name = SHELL_EXEC,
     aq_effect = ExternalSideEffect, aq_reason = [], aq_input_preview = None, aq_approval_preview = None,
     aq_diff_preview = None, aq_yolo_eligible = False\<rparr>"

definition session_grant_params :: ApprovalDecideParams where
  "session_grant_params = \<lparr>dp_run_id = [21], dp_tool_call_id = [31], dp_decision = GrantSession, dp_reason = None,
     dp_actor = None\<rparr>"

definition desk_ops :: "store_io \<Rightarrow> int DeskOp list" where
  "desk_ops io = [Other (ReserveRun [21] [5] [] None None), Ask (Inr ()) 1 False shell_request 0,
     Decide io 2 session_grant_params]"

definition desk_after :: "store_io \<Rightarrow> int desk" where
  "desk_after io = fold (desk_op (\<lambda>_. []) (\<lambda>_. [])) (desk_ops io) ({}, Daemon_new [1], ServerStore_empty)"

fun desk_guarded :: "'v DeskOp list \<Rightarrow> 'v desk \<Rightarrow> bool" where
  "desk_guarded [] s \<longleftrightarrow> True"
| "desk_guarded (op # ops) s \<longleftrightarrow> desk_guard op s \<and> desk_guarded ops (desk_op (\<lambda>_. []) (\<lambda>_. []) op s)"

lemma desk_guarded_append:
  "desk_guarded (ops @ ops') s \<longleftrightarrow> desk_guarded ops s \<and> desk_guarded ops' (fold (desk_op (\<lambda>_. []) (\<lambda>_. [])) ops s)"
  by (induction ops arbitrary: s) auto

lemma desk_guarded_trace:
  "desk_guarded ops s \<Longrightarrow> desk_trace (\<lambda>_. []) (\<lambda>_. []) s ops (fold (desk_op (\<lambda>_. []) (\<lambda>_. [])) ops s)"
  by (induction ops rule: rev_induct) (auto simp: desk_guarded_append intro: desk_trace.intros)

lemmas desk_sample_defs = desk_after_def desk_ops_def shell_request_def session_grant_params_def ServerStore_empty_def
  Daemon_new_def RuntimeState_default_def new_record_def RunRecord_new_inner_def reserve_run_with_profile_def on_state_def
  approval_ask_def persist_approval_request_def persist_tool_call_approval_def session_yolo_enabled_for_decision_def
  approval_profile_def has_shell_session_grant_def run_state_def on_record_def push_event_def push_buffer_def
  PendingApproval_new_def approval_requested_event_def handle_approval_decide_def attributed_actor_def find_run_def
  decided_outcome_def install_shell_session_grant_def record_approval_decision_def resolve_tool_call_approval_def
  sqlite_i64_def same_call_def undecided_call_def approval_wake_def not_pending_def outcome_decision_def Let_def

lemma desk_sample_guarded: "desk_guarded (desk_ops io) ({}, Daemon_new [1], ServerStore_empty)"
  by (simp add: desk_sample_defs)

lemma desk_sample:
  "\<exists>grants d store. desk_after (Inr ()) = (grants, d, store) \<and> length (d_records d) = 1 \<and>
     approval_wake (Inr ()) 3 shell_request 0 d store = Returns (d, store, ExternalGranted (lit ''tui_session_grant'')) \<and>
     \<not> rc_cancel (d_records d ! 0) \<and> run_state d 0 = RunStateName.Running"
  by (simp add: desk_sample_defs MAX_EVENT_BUFFER_def)


text \<open>
  A session grant takes effect although its decision could not be recorded. When the store refuses the
  write, the client is told that the decision could not be recorded and the call stays undecided in
  memory and in the store, but the session's shell grant is installed: the next shell call of the
  session is granted without a question.
\<close>

definition next_shell_request :: ApprovalRequest where
  "next_shell_request = shell_request\<lparr>aq_call_id := ToolCallId [32]\<rparr>"

theorem unrecorded_session_grant_stays:
  "case fold (desk_op (\<lambda>_. []) (\<lambda>_. [])) (take 2 (desk_ops (Inr ()))) ({}, Daemon_new [1], ServerStore_empty) of
     (grants, d, store) \<Rightarrow>
       (case handle_approval_decide (\<lambda>_. []) (\<lambda>_. []) (Inl Sqlite) 2 session_grant_params grants d store of
          (grants', d', store', reply) \<Rightarrow>
            grants = {} \<and> d' = d \<and> store' = store \<and>
            map (map_option pa_decision \<circ> Some \<circ> snd) (rc_approvals (d_records d ! 0)) = [Some None] \<and>
            reply = CommandError InternalCode (lit ''approval decision could not be recorded: '') \<and>
            snd (snd (approval_ask (\<lambda>_. []) (Inr ()) 3 grants' False next_shell_request 0 d' store')) =
              Answers (Inr (ExternalGranted (lit ''session_grant''))))"
  by (simp add: desk_sample_defs next_shell_request_def SHELL_EXEC_def)

end
