(* ===== verification/Run_Events.thy ===== *)
theory Run_Events
  imports Daemon_Approvals
begin

text \<open>
  Reading a run's events (\<open>handle_events_stream\<close> and \<open>durable_events_stream\<close> of
  \<open>daemon/handlers/runs.rs\<close>): from the record's buffer while the daemon keeps the run, from the ledger's
  records of the run afterwards. What reading the ledger answers is an argument.
\<close>

definition DEFAULT_EVENT_LIMIT :: nat where "DEFAULT_EVENT_LIMIT = 64"

definition MAX_EVENT_LIMIT :: nat where "MAX_EVENT_LIMIT = 128"

record 'v EventsStreamResult =
  er_run_id :: rstr
  er_from_offset :: u64
  er_next_offset :: u64
  er_status :: RunStateName
  er_events :: "'v BufferedStreamEvent list"

datatype 'v StreamReply = StreamPage "'v EventsStreamResult" | StreamError ErrorCode rstr

definition durable_events_stream :: "u64 option \<Rightarrow> nat \<Rightarrow> 'v SessionRunRecords \<Rightarrow> 'v EventsStreamResult" where
  "durable_events_stream from_offset limit run = (let
       from = (case from_offset of None \<Rightarrow> of_nat (length (srr_records run)) | Some o' \<Rightarrow> o');
       evs = map (\<lambda>(i, rec). \<lparr>bs_offset = from + of_nat i, bs_event = StreamEvent.Ledger rec\<rparr>)
               (enumerate 0 (take limit (drop (unat from) (srr_records run))))
     in \<lparr>er_run_id = srr_run_id run, er_from_offset = from, er_next_offset = from + of_nat (length evs),
         er_status = srr_status run, er_events = evs\<rparr>)"

definition live_events_stream :: "u64 option \<Rightarrow> nat \<Rightarrow> 'v RunRecord \<Rightarrow> 'v StreamReply" where
  "live_events_stream from_offset limit rec = (let
       buffer = rc_events rec;
       from = (case from_offset of None \<Rightarrow> eb_next_offset buffer | Some o' \<Rightarrow> o')
     in if from < eb_first_offset buffer
        then StreamError LaggedCode (lit ''requested offset '' @ decimal (unat from) @
               lit '' is no longer buffered; first available is '' @ decimal (unat (eb_first_offset buffer)))
        else let evs = take limit (drop (unat (from - eb_first_offset buffer)) (eb_events buffer))
          in StreamPage \<lparr>er_run_id = rc_run_id rec, er_from_offset = from, er_next_offset = from + of_nat (length evs),
               er_status = ru_state (rc_status rec), er_events = evs\<rparr>)"

definition handle_events_stream :: "(AppError \<Rightarrow> rstr) \<Rightarrow> (rstr \<Rightarrow> (AppError, 'v SessionRunRecords) result) \<Rightarrow>
    rstr \<Rightarrow> u64 option \<Rightarrow> nat option \<Rightarrow> 'v Daemon \<Rightarrow> 'v StreamReply" where
  "handle_events_stream display read run_id from_offset limit d = (let
       limit = (case limit of None \<Rightarrow> DEFAULT_EVENT_LIMIT | Some n \<Rightarrow> n)
     in if MAX_EVENT_LIMIT < limit
        then StreamError OverloadCode (lit ''event stream limit exceeds maximum 128: '' @ decimal limit)
        else case find_run run_id d of
          Inr r \<Rightarrow> live_events_stream from_offset limit (d_records d ! r)
        | Inl _ \<Rightarrow> (case read run_id of
             Inr run \<Rightarrow> StreamPage (durable_events_stream from_offset limit run)
           | Inl (RunNotFound _) \<Rightarrow> StreamError NotFoundCode (lit ''run not found: '' @ run_id)
           | Inl e \<Rightarrow> StreamError InternalCode (display e)))"

interpretation rw: event_window MAX_EVENT_BUFFER "eb_first_offset \<circ> rc_events" "eb_next_offset \<circ> rc_events"
    "eb_events \<circ> rc_events" "\<lambda>offset event. \<lparr>bs_offset = offset, bs_event = event\<rparr>" "\<lambda>_. True" push_buffer
  by unfold_locales (auto simp: push_buffer_def MAX_EVENT_BUFFER_def Let_def)

text \<open>The events a run pushed, as its readers see them.\<close>

definition numbered_stream :: "'v StreamEvent list \<Rightarrow> 'v BufferedStreamEvent list" where
  "numbered_stream h = map (\<lambda>(i, event). \<lparr>bs_offset = of_nat i, bs_event = event\<rparr>) (enumerate 0 h)"

lemma rw_numbered: "rw.numbered h = numbered_stream h"
  by (simp add: rw.numbered_def numbered_stream_def)

lemma push_all_stores: "rw.stores h rec \<Longrightarrow> rw.stores (h @ k) (fold push_buffer k rec)"
proof (induction k arbitrary: h rec)
  case (Cons x k)
  show ?case using Cons.IH [OF rw.stores_push [OF Cons.prems], of x] by simp
qed simp

lemma new_record_stores: "rw.stores [] (RunRecord_new_inner run_id session_id path turn)"
  by (simp add: rw.stores_def RunRecord_new_inner_def rw.numbered_def)

section \<open>Properties\<close>

text \<open>
  A read of a run's buffer returns exactly the run's events from the requested offset on, up to the
  limit, under their offsets, and the offset of the first event it did not return; it reports a lag
  exactly when the bound of the buffer has already dropped the requested offset.
\<close>

theorem run_page_exact:
  assumes "length h < 2 ^ 64"
  shows "live_events_stream (Some from) limit (fold push_buffer h (RunRecord_new_inner run_id session_id path turn)) =
    (if unat from < length h - MAX_EVENT_BUFFER
     then StreamError LaggedCode (lit ''requested offset '' @ decimal (unat from) @
            lit '' is no longer buffered; first available is '' @ decimal (length h - MAX_EVENT_BUFFER))
     else let page = take limit (drop (unat from) (numbered_stream h)) in
       StreamPage \<lparr>er_run_id = run_id, er_from_offset = from, er_next_offset = from + of_nat (length page),
         er_status = RunStateName.Running, er_events = page\<rparr>)"
proof -
  let ?rec = "fold push_buffer h (RunRecord_new_inner run_id session_id path turn)"
  have st: "rw.stores h ?rec" using push_all_stores [OF new_record_stores, of h] by simp
  have first: "unat (eb_first_offset (rc_events ?rec)) = length h - MAX_EVENT_BUFFER"
    using st assms by (simp add: rw.stores_def unat_of_nat take_bit_nat_eq_self_iff)
  have kept: "rc_run_id (fold push_buffer h rec) = rc_run_id rec" "rc_status (fold push_buffer h rec) = rc_status rec"
    for rec :: "'a RunRecord"
    by (induction h arbitrary: rec) (simp_all add: push_buffer_def Let_def)
  show ?thesis
    using rw.retained_iff [OF st assms, of "from"] rw.page_exact [OF st assms, of "from" limit] first
    by (auto simp: live_events_stream_def Let_def kept rw_numbered RunRecord_new_inner_def)
qed

theorem run_page_exact_witness:
  "live_events_stream (Some 1) 5 (fold push_buffer [UnknownEvent 10, UnknownEvent 20 :: int StreamEvent]
      (RunRecord_new_inner [21] [5] [] None)) =
   StreamPage \<lparr>er_run_id = [21], er_from_offset = 1, er_next_offset = 2, er_status = RunStateName.Running,
     er_events = [\<lparr>bs_offset = 1, bs_event = UnknownEvent 20\<rparr>]\<rparr>"
proof -
  have "length [UnknownEvent 10, UnknownEvent 20 :: int StreamEvent] < 2 ^ 64" by simp
  from run_page_exact [OF this, of 1 5 "[21]" "[5]" "[]" None] show ?thesis
    by (simp add: MAX_EVENT_BUFFER_def numbered_stream_def Let_def)
qed

text \<open>
  A cursor of the live stream does not carry over to the ledger. The live offsets count transient events
  too, the ledger's only its records; a reader that took the first of a delta and a record from the buffer
  and goes on after the daemon dropped the run gets an empty page and never sees the record.
\<close>

theorem live_cursor_skips_durable_records:
  "(case live_events_stream (Some 0) 1 (fold push_buffer [AssistantDelta [21] [8] 0 0 [65], StreamEvent.Ledger e]
       (RunRecord_new_inner [21] [5] [] None)) of
      StreamError _ _ \<Rightarrow> False
    | StreamPage page \<Rightarrow>
        map bs_event (er_events page) = [AssistantDelta [21] [8] 0 0 [65]] \<and>
        (let rest = durable_events_stream (Some (er_next_offset page)) 64 (run\<lparr>srr_records := [e]\<rparr>) in
         er_events rest = [] \<and> er_next_offset rest = er_next_offset page))"
  by (simp add: live_events_stream_def durable_events_stream_def push_buffer_def RunRecord_new_inner_def
      MAX_EVENT_BUFFER_def Let_def)

end
