(* ===== verification/Thread_Messages.thy ===== *)
theory Thread_Messages
  imports Thread_Authority Session_Store Utf8_Codec "HOL-Library.List_Lexorder"
begin

text \<open>
  The durable messages between a thread and its children (\<open>server_store/queries.rs\<close>, tables
  \<open>thread_run_admissions\<close>, \<open>child_returns\<close> and \<open>parent_answers\<close> of \<open>schema.rs\<close>): child returns go to
  the parent, parent answers to the child, and a run that is admitted for a thread reserves messages,
  which are consumed or released when the run is settled. Both message tables share their delivery
  columns and the statements on them. The other tables of the store are read only; a table is a list of
  rows in the order of its sequence, and what SQLite answers to a call is an argument.
\<close>

section \<open>Rows\<close>

definition MAX_CHILD_RETURN_PAYLOAD_BYTES :: nat where "MAX_CHILD_RETURN_PAYLOAD_BYTES = 64 * 1024"

definition MAX_UNCONSUMED_NONTERMINAL_RETURNS :: nat where "MAX_UNCONSUMED_NONTERMINAL_RETURNS = 128"

datatype ChildReturnKind = ProgressReturn | QuestionReturn | ResultReturn | FailedReturn

fun is_terminal_kind :: "ChildReturnKind \<Rightarrow> bool" where
  "is_terminal_kind ResultReturn = True"
| "is_terminal_kind FailedReturn = True"
| "is_terminal_kind _ = False"

datatype ParentAnswerKind = AnswerKind | FollowUpKind

datatype DeliveryState = Available | Reserved | Consumed

record MessageRow =
  mr_message_id :: rstr
  mr_sequence :: u64
  mr_spawn_id :: rstr
  mr_profile_id :: ProfileId
  mr_parent_thread_id :: rstr
  mr_child_thread_id :: rstr
  mr_payload :: rstr
  mr_created_at_ms :: u64
  mr_profile_revision :: u64
  mr_state :: DeliveryState
  mr_reserved_by_run_id :: "rstr option"
  mr_reserved_by_turn_id :: "rstr option"
  mr_consumed_by_run_id :: "rstr option"
  mr_consumed_by_turn_id :: "rstr option"
  mr_consumed_at_ms :: "u64 option"

record ChildReturnRecord = MessageRow +
  cr_source_run_id :: "rstr option"
  cr_source_turn_id :: "rstr option"
  cr_kind :: ChildReturnKind
  cr_artifact_refs :: "rstr list"
  cr_truncated :: bool

record ParentAnswerRecord = MessageRow +
  pw_source_run_id :: rstr
  pw_source_turn_id :: rstr
  pw_kind :: ParentAnswerKind

record ThreadRunAdmission =
  ad_run_id :: rstr
  ad_workspace_id :: rstr
  ad_profile_id :: ProfileId
  ad_thread_id :: rstr
  ad_thread_turn_id :: rstr
  ad_profile_revision :: u64
  ad_created_at_ms :: u64

record ChildReturnDraft =
  cd_message_id :: rstr
  cd_workspace_id :: rstr
  cd_child_thread_id :: rstr
  cd_source_run_id :: "rstr option"
  cd_source_turn_id :: "rstr option"
  cd_kind :: ChildReturnKind
  cd_payload :: rstr
  cd_artifact_refs :: "rstr list"
  cd_created_at_ms :: u64

record ParentAnswerDraft =
  pd_message_id :: rstr
  pd_workspace_id :: rstr
  pd_parent_thread_id :: rstr
  pd_child_thread_id :: rstr
  pd_source_run_id :: rstr
  pd_source_turn_id :: rstr
  pd_kind :: ParentAnswerKind
  pd_payload :: rstr
  pd_created_at_ms :: u64

datatype 'r Persisted = Stored 'r | Replayed 'r | Rejected rstr rstr

text \<open>An authority row has its workspace beside the record; a profile its current revision.\<close>

record MessageStore =
  ms_authorities :: "(rstr option \<times> ThreadAuthorityRecord) list"
  ms_spawns :: "ThreadSpawnApprovalRecord list"
  ms_stops :: "ThreadStopRecord list"
  ms_profiles :: "(ProfileId \<times> u64) list"
  ms_profile_revisions :: "(ProfileId \<times> u64) list"
  ms_admissions :: "ThreadRunAdmission list"
  ms_returns :: "ChildReturnRecord list"
  ms_answers :: "ParentAnswerRecord list"

type_synonym msg_io = "(AppError, unit) result"

section \<open>Queries\<close>

record SpawnEdge =
  se_spawn_id :: rstr
  se_profile_id :: ProfileId
  se_profile_revision :: u64
  se_parent_thread_id :: rstr

definition authority_row :: "MessageStore \<Rightarrow> rstr \<Rightarrow> (rstr option \<times> ThreadAuthorityRecord) option" where
  "authority_row s thread_id = find (\<lambda>(_, a). ta_thread_id a = thread_id) (ms_authorities s)"

definition granted_spawns :: "MessageStore \<Rightarrow> rstr \<Rightarrow> ThreadSpawnApprovalRecord list" where
  "granted_spawns s thread_id = sort_key sa_occurred_at_ms (sort_key sa_spawn_id
     (filter (\<lambda>sp. sa_thread_id sp = thread_id \<and> sa_decision sp = Granted) (ms_spawns s)))"

text \<open>A \<open>NULL\<close> in a column that is read as a value is an error of the driver.\<close>

definition edge_row :: "rstr \<Rightarrow> ThreadAuthorityRecord \<Rightarrow> rstr option \<Rightarrow> (AppError, SpawnEdge option) result" where
  "edge_row spawn_id a parent =
     (case (ta_profile_id a, ta_profile_revision a, parent) of
        (Some profile, Some revision, Some parent) \<Rightarrow>
          Inr (Some \<lparr>se_spawn_id = spawn_id, se_profile_id = profile, se_profile_revision = revision,
                     se_parent_thread_id = parent\<rparr>)
      | _ \<Rightarrow> Inl Sqlite)"

definition child_edge_from :: "MessageStore \<Rightarrow> rstr \<Rightarrow> rstr \<Rightarrow> (AppError, SpawnEdge option) result" where
  "child_edge_from s workspace_id child_thread_id =
     (case authority_row s child_thread_id of
        Some (Some workspace, a) \<Rightarrow>
          (if workspace = workspace_id \<and> ta_thread_kind a = Child
           then case granted_spawns s child_thread_id of
                  [] \<Rightarrow> Inr None
                | spawn # _ \<Rightarrow> edge_row (sa_spawn_id spawn) a (ta_parent_thread_id a)
           else Inr None)
      | _ \<Rightarrow> Inr None)"

definition parent_answer_edge_from :: "MessageStore \<Rightarrow> rstr \<Rightarrow> rstr \<Rightarrow> rstr \<Rightarrow> (AppError, SpawnEdge option) result" where
  "parent_answer_edge_from s workspace_id parent_thread_id child_thread_id =
     (case (authority_row s parent_thread_id, authority_row s child_thread_id) of
        (Some (Some parent_workspace, parent), Some (Some child_workspace, child)) \<Rightarrow>
          (if ta_parent_thread_id child = Some parent_thread_id \<and> child_workspace = parent_workspace \<and>
              ta_profile_id child \<noteq> None \<and> ta_profile_id child = ta_profile_id parent \<and>
              parent_workspace = workspace_id \<and> ta_thread_kind parent \<in> {Home, Child} \<and>
              ta_thread_kind child = Child
           then case granted_spawns s child_thread_id of
                  [] \<Rightarrow> Inr None
                | spawn # _ \<Rightarrow> edge_row (sa_spawn_id spawn) parent (ta_parent_thread_id child)
           else Inr None)
      | _ \<Rightarrow> Inr None)"

definition thread_run_admission_by_id :: "MessageStore \<Rightarrow> rstr \<Rightarrow> ThreadRunAdmission option" where
  "thread_run_admission_by_id s run_id = find (\<lambda>a. ad_run_id a = run_id) (ms_admissions s)"

definition matching_thread_run ::
  "MessageStore \<Rightarrow> rstr \<Rightarrow> rstr \<Rightarrow> ProfileId \<Rightarrow> rstr \<Rightarrow> rstr option \<Rightarrow> ThreadRunAdmission option" where
  "matching_thread_run s run_id workspace_id profile_id thread_id turn_id =
     (case thread_run_admission_by_id s run_id of
        None \<Rightarrow> None
      | Some a \<Rightarrow>
          if ad_workspace_id a = workspace_id \<and> ad_profile_id a = profile_id \<and> ad_thread_id a = thread_id \<and>
             (case turn_id of None \<Rightarrow> True | Some turn \<Rightarrow> ad_thread_turn_id a = turn)
          then Some a else None)"

definition message_by_id :: "'m MessageRow_scheme list \<Rightarrow> rstr \<Rightarrow> 'm MessageRow_scheme option" where
  "message_by_id rows message_id = find (\<lambda>r. mr_message_id r = message_id) rows"

definition terminal_child_return :: "MessageStore \<Rightarrow> rstr \<Rightarrow> ChildReturnRecord option" where
  "terminal_child_return s spawn_id =
     find (\<lambda>r. mr_spawn_id r = spawn_id \<and> is_terminal_kind (cr_kind r)) (ms_returns s)"

definition truncate_utf8_bytes :: "rstr \<Rightarrow> nat \<Rightarrow> rstr \<times> bool" where
  "truncate_utf8_bytes value max_bytes =
     (if str_len value \<le> max_bytes then (value, False) else (fitting max_bytes value, True))"

section \<open>Persisting messages\<close>

definition child_return_matches ::
  "ChildReturnRecord \<Rightarrow> ChildReturnDraft \<Rightarrow> SpawnEdge \<Rightarrow> u64 \<Rightarrow> rstr \<Rightarrow> bool \<Rightarrow> bool" where
  "child_return_matches r d edge revision payload truncated \<longleftrightarrow>
     mr_spawn_id r = se_spawn_id edge \<and> mr_profile_id r = se_profile_id edge \<and>
     mr_parent_thread_id r = se_parent_thread_id edge \<and> mr_child_thread_id r = cd_child_thread_id d \<and>
     cr_source_run_id r = cd_source_run_id d \<and> cr_source_turn_id r = cd_source_turn_id d \<and>
     cr_kind r = cd_kind d \<and> mr_payload r = payload \<and> cr_artifact_refs r = cd_artifact_refs d \<and>
     cr_truncated r = truncated \<and> mr_profile_revision r = revision"

definition parent_answer_matches :: "ParentAnswerRecord \<Rightarrow> ParentAnswerDraft \<Rightarrow> SpawnEdge \<Rightarrow> u64 \<Rightarrow> bool" where
  "parent_answer_matches r d edge revision \<longleftrightarrow>
     mr_spawn_id r = se_spawn_id edge \<and> mr_profile_id r = se_profile_id edge \<and>
     mr_parent_thread_id r = pd_parent_thread_id d \<and> mr_child_thread_id r = pd_child_thread_id d \<and>
     pw_source_run_id r = pd_source_run_id d \<and> pw_source_turn_id r = pd_source_turn_id d \<and>
     pw_kind r = pd_kind d \<and> mr_payload r = pd_payload d \<and> mr_profile_revision r = revision"

definition unconsumed_nonterminal :: "rstr \<Rightarrow> ChildReturnRecord \<Rightarrow> bool" where
  "unconsumed_nonterminal parent r \<longleftrightarrow>
     mr_parent_thread_id r = parent \<and> \<not> is_terminal_kind (cr_kind r) \<and> mr_state r \<noteq> Consumed"

text \<open>
  The columns of an insert: integers that fit, the \<open>CHECK\<close> on the revision, and the foreign keys the
  transaction has not read already.
\<close>

definition insert_columns :: "MessageStore \<Rightarrow> u64 \<Rightarrow> u64 \<Rightarrow> string \<Rightarrow> string \<Rightarrow> SpawnEdge \<Rightarrow> (AppError, unit) result" where
  "insert_columns s created revision created_label revision_label edge =
     and_then (sqlite_i64 created created_label) (\<lambda>_.
     and_then (sqlite_i64 revision revision_label) (\<lambda>_.
       if 0 < revision \<and> se_profile_id edge \<in> fst ` set (ms_profiles s) \<and>
          authority_row s (se_parent_thread_id edge) \<noteq> None
       then Inr () else Inl Sqlite))"

definition next_sequence :: "'m list \<Rightarrow> u64" where
  "next_sequence rows = of_nat (Suc (length rows))"

definition child_return_row :: "ChildReturnDraft \<Rightarrow> SpawnEdge \<Rightarrow> u64 \<Rightarrow> rstr \<Rightarrow> bool \<Rightarrow> u64 \<Rightarrow> ChildReturnRecord" where
  "child_return_row d edge revision payload truncated sequence =
     \<lparr>mr_message_id = cd_message_id d, mr_sequence = sequence, mr_spawn_id = se_spawn_id edge,
      mr_profile_id = se_profile_id edge, mr_parent_thread_id = se_parent_thread_id edge,
      mr_child_thread_id = cd_child_thread_id d, mr_payload = payload, mr_created_at_ms = cd_created_at_ms d,
      mr_profile_revision = revision, mr_state = Available, mr_reserved_by_run_id = None,
      mr_reserved_by_turn_id = None, mr_consumed_by_run_id = None, mr_consumed_by_turn_id = None,
      mr_consumed_at_ms = None, cr_source_run_id = cd_source_run_id d, cr_source_turn_id = cd_source_turn_id d,
      cr_kind = cd_kind d, cr_artifact_refs = cd_artifact_refs d, cr_truncated = truncated\<rparr>"

definition source_revision :: "MessageStore \<Rightarrow> ChildReturnDraft \<Rightarrow> SpawnEdge \<Rightarrow> u64 option" where
  "source_revision s d edge =
     (case cd_source_run_id d of
        None \<Rightarrow> Some (se_profile_revision edge)
      | Some run_id \<Rightarrow>
          map_option ad_profile_revision
            (matching_thread_run s run_id (cd_workspace_id d) (se_profile_id edge) (cd_child_thread_id d) (cd_source_turn_id d)))"

text \<open>What the transaction answers; \<open>Stored\<close> has the row it inserts.\<close>

definition child_return_decision :: "MessageStore \<Rightarrow> ChildReturnDraft \<Rightarrow> (AppError, ChildReturnRecord Persisted) result" where
  "child_return_decision s d =
     (let terminal = is_terminal_kind (cd_kind d);
          (payload, truncated) = (if terminal then truncate_utf8_bytes (cd_payload d) MAX_CHILD_RETURN_PAYLOAD_BYTES
                                  else (cd_payload d, False))
      in and_then (child_edge_from s (cd_workspace_id d) (cd_child_thread_id d)) (\<lambda>found.
         case found of
           None \<Rightarrow> Inr (Rejected (lit ''source_denied'') (lit ''child return source is not an admitted child thread''))
         | Some edge \<Rightarrow>
         (case source_revision s d edge of
            None \<Rightarrow> Inr (Rejected (lit ''source_denied'') (lit ''child return source run is not admitted for this child''))
          | Some revision \<Rightarrow>
         (case (if terminal then terminal_child_return s (se_spawn_id edge) else None) of
            Some existing \<Rightarrow> Inr (Replayed existing)
          | None \<Rightarrow>
         (case message_by_id (ms_returns s) (cd_message_id d) of
            Some existing \<Rightarrow>
              Inr (if child_return_matches existing d edge revision payload truncated then Replayed existing
                   else Rejected (lit ''idempotency_conflict'')
                          (lit ''child return message id was already used for different content''))
          | None \<Rightarrow>
              if terminal_child_return s (se_spawn_id edge) \<noteq> None
              then Inr (Rejected (lit ''child_terminal'') (lit ''child already has a terminal return''))
              else if \<not> terminal \<and>
                length (filter (unconsumed_nonterminal (se_parent_thread_id edge)) (ms_returns s))
                  \<ge> MAX_UNCONSUMED_NONTERMINAL_RETURNS
              then Inr (Rejected (lit ''rate_limited'') (lit ''parent has '' @ decimal MAX_UNCONSUMED_NONTERMINAL_RETURNS @
                     lit '' unconsumed nonterminal returns''))
              else and_then (insert_columns s (cd_created_at_ms d) revision ''child return created_at_ms''
                       ''child return profile_revision'' edge) (\<lambda>_.
                Inr (Stored (child_return_row d edge revision payload truncated (next_sequence (ms_returns s))))))))))"

definition persist_child_return :: "msg_io \<Rightarrow> ChildReturnDraft \<Rightarrow> MessageStore \<Rightarrow>
    MessageStore \<times> (AppError, ChildReturnRecord Persisted) result" where
  "persist_child_return io d s =
     (if cd_message_id d = []
      then (s, Inr (Rejected (lit ''invalid_message_id'') (lit ''child return message id must not be empty'')))
      else if \<not> is_terminal_kind (cd_kind d) \<and> str_len (cd_payload d) > MAX_CHILD_RETURN_PAYLOAD_BYTES
      then (s, Inr (Rejected (lit ''payload_too_large'') (lit ''child return payload exceeds '' @
             decimal MAX_CHILD_RETURN_PAYLOAD_BYTES @ lit '' bytes'')))
      else case and_then io (\<lambda>_. child_return_decision s d) of
        Inr (Stored row) \<Rightarrow> (s\<lparr>ms_returns := ms_returns s @ [row]\<rparr>, Inr (Stored row))
      | answer \<Rightarrow> (s, answer))"

definition parent_answer_row :: "ParentAnswerDraft \<Rightarrow> SpawnEdge \<Rightarrow> u64 \<Rightarrow> u64 \<Rightarrow> ParentAnswerRecord" where
  "parent_answer_row d edge revision sequence =
     \<lparr>mr_message_id = pd_message_id d, mr_sequence = sequence, mr_spawn_id = se_spawn_id edge,
      mr_profile_id = se_profile_id edge, mr_parent_thread_id = pd_parent_thread_id d,
      mr_child_thread_id = pd_child_thread_id d, mr_payload = pd_payload d, mr_created_at_ms = pd_created_at_ms d,
      mr_profile_revision = revision, mr_state = Available, mr_reserved_by_run_id = None,
      mr_reserved_by_turn_id = None, mr_consumed_by_run_id = None, mr_consumed_by_turn_id = None,
      mr_consumed_at_ms = None, pw_source_run_id = pd_source_run_id d, pw_source_turn_id = pd_source_turn_id d,
      pw_kind = pd_kind d\<rparr>"

definition parent_answer_decision :: "MessageStore \<Rightarrow> ParentAnswerDraft \<Rightarrow> (AppError, ParentAnswerRecord Persisted) result" where
  "parent_answer_decision s d =
     and_then (parent_answer_edge_from s (pd_workspace_id d) (pd_parent_thread_id d) (pd_child_thread_id d)) (\<lambda>found.
       case found of
         None \<Rightarrow> Inr (Rejected (lit ''target_denied'') (lit ''target is not an immediate same-profile child''))
       | Some edge \<Rightarrow>
       (case matching_thread_run s (pd_source_run_id d) (pd_workspace_id d) (se_profile_id edge)
              (pd_parent_thread_id d) (Some (pd_source_turn_id d)) of
          None \<Rightarrow> Inr (Rejected (lit ''source_denied'') (lit ''parent answer source run is not admitted for this parent''))
        | Some admission \<Rightarrow>
       (case message_by_id (ms_answers s) (pd_message_id d) of
          Some existing \<Rightarrow>
            Inr (if parent_answer_matches existing d edge (ad_profile_revision admission) then Replayed existing
                 else Rejected (lit ''idempotency_conflict'')
                        (lit ''parent answer message id was already used for different content''))
        | None \<Rightarrow>
            if list_ex (\<lambda>stop. ts_thread_id stop = pd_child_thread_id d) (ms_stops s)
            then Inr (Rejected (lit ''child_stopped'') (lit ''immediate child is stopped''))
            else if terminal_child_return s (se_spawn_id edge) \<noteq> None
            then Inr (Rejected (lit ''child_terminal'') (lit ''immediate child already has a terminal return''))
            else and_then (insert_columns s (pd_created_at_ms d) (ad_profile_revision admission)
                     ''parent answer created_at_ms'' ''parent answer profile_revision'' edge) (\<lambda>_.
              Inr (Stored (parent_answer_row d edge (ad_profile_revision admission) (next_sequence (ms_answers s))))))))"

definition persist_parent_answer :: "msg_io \<Rightarrow> ParentAnswerDraft \<Rightarrow> MessageStore \<Rightarrow>
    MessageStore \<times> (AppError, ParentAnswerRecord Persisted) result" where
  "persist_parent_answer io d s =
     (if str_len (pd_payload d) > MAX_CHILD_RETURN_PAYLOAD_BYTES
      then (s, Inr (Rejected (lit ''payload_too_large'') (lit ''parent answer payload exceeds '' @
             decimal MAX_CHILD_RETURN_PAYLOAD_BYTES @ lit '' bytes'')))
      else case and_then io (\<lambda>_. parent_answer_decision s d) of
        Inr (Stored row) \<Rightarrow> (s\<lparr>ms_answers := ms_answers s @ [row]\<rparr>, Inr (Stored row))
      | answer \<Rightarrow> (s, answer))"

section \<open>Delivery\<close>

definition available_rows :: "('m MessageRow_scheme \<Rightarrow> rstr) \<Rightarrow> MessageStore \<Rightarrow> rstr \<Rightarrow> rstr \<Rightarrow>
    'm MessageRow_scheme list \<Rightarrow> 'm MessageRow_scheme list" where
  "available_rows address s thread_id run_id rows =
     filter (\<lambda>r. address r = thread_id \<and>
       ((mr_state r = Available \<and> thread_run_admission_by_id s run_id = None) \<or>
        mr_reserved_by_run_id r = Some run_id \<or> mr_consumed_by_run_id r = Some run_id)) rows"

definition available_child_returns :: "msg_io \<Rightarrow> MessageStore \<Rightarrow> rstr \<Rightarrow> rstr \<Rightarrow> (AppError, ChildReturnRecord list) result" where
  "available_child_returns io s parent_thread_id run_id =
     and_then io (\<lambda>_. Inr (available_rows mr_parent_thread_id s parent_thread_id run_id (ms_returns s)))"

definition available_parent_answers :: "msg_io \<Rightarrow> MessageStore \<Rightarrow> rstr \<Rightarrow> rstr \<Rightarrow> (AppError, ParentAnswerRecord list) result" where
  "available_parent_answers io s child_thread_id run_id =
     and_then io (\<lambda>_. Inr (available_rows mr_child_thread_id s child_thread_id run_id (ms_answers s)))"

definition thread_return_availability :: "msg_io \<Rightarrow> MessageStore \<Rightarrow> rstr \<Rightarrow> (AppError, u64 \<times> u64) result" where
  "thread_return_availability io s thread_id = and_then io (\<lambda>_. Inr
     (of_nat (length (filter (\<lambda>r. mr_parent_thread_id r = thread_id \<and> mr_state r = Available) (ms_returns s))),
      of_nat (length (filter (\<lambda>r. mr_child_thread_id r = thread_id \<and> mr_state r = Available) (ms_answers s)))))"

definition addressed :: "('m MessageRow_scheme \<Rightarrow> rstr) \<Rightarrow> rstr \<Rightarrow> ThreadRunAdmission \<Rightarrow> 'm MessageRow_scheme \<Rightarrow> bool" where
  "addressed address message_id a r \<longleftrightarrow>
     mr_message_id r = message_id \<and> mr_profile_id r = ad_profile_id a \<and> address r = ad_thread_id a"

definition reserve_row :: "ThreadRunAdmission \<Rightarrow> 'm MessageRow_scheme \<Rightarrow> 'm MessageRow_scheme" where
  "reserve_row a r = r\<lparr>mr_state := Reserved, mr_reserved_by_run_id := Some (ad_run_id a),
     mr_reserved_by_turn_id := Some (ad_thread_turn_id a)\<rparr>"

definition held_by :: "ThreadRunAdmission \<Rightarrow> 'm MessageRow_scheme \<Rightarrow> bool" where
  "held_by a r \<longleftrightarrow>
     (mr_state r = Reserved \<and> mr_reserved_by_run_id r = Some (ad_run_id a) \<and>
        mr_reserved_by_turn_id r = Some (ad_thread_turn_id a)) \<or>
     (mr_state r = Consumed \<and> mr_consumed_by_run_id r = Some (ad_run_id a) \<and>
        mr_consumed_by_turn_id r = Some (ad_thread_turn_id a))"

definition reserve_delivery :: "('m MessageRow_scheme \<Rightarrow> rstr) \<Rightarrow> rstr \<Rightarrow> ThreadRunAdmission \<Rightarrow> bool \<Rightarrow>
    'm MessageRow_scheme list \<Rightarrow> (AppError, 'm MessageRow_scheme list) result" where
  "reserve_delivery address message_id a new_admission rows =
     (let hit = (\<lambda>r. new_admission \<and> addressed address message_id a r \<and> mr_state r = Available);
          rows' = map (\<lambda>r. if hit r then reserve_row a r else r) rows
      in if length (filter hit rows) = 1 \<or> list_ex (\<lambda>r. addressed address message_id a r \<and> held_by a r) rows'
         then Inr rows'
         else Inl (Config (lit ''delivery reservation CAS failed for message '' @ message_id)))"

fun reserve_deliveries :: "('m MessageRow_scheme \<Rightarrow> rstr) \<Rightarrow> rstr list \<Rightarrow> ThreadRunAdmission \<Rightarrow> bool \<Rightarrow>
    'm MessageRow_scheme list \<Rightarrow> (AppError, 'm MessageRow_scheme list) result" where
  "reserve_deliveries address [] a new_admission rows = Inr rows"
| "reserve_deliveries address (m # ms) a new_admission rows =
     and_then (reserve_delivery address m a new_admission rows) (reserve_deliveries address ms a new_admission)"

definition authority_matches :: "MessageStore \<Rightarrow> ThreadRunAdmission \<Rightarrow> bool" where
  "authority_matches s a \<longleftrightarrow>
     (case authority_row s (ad_thread_id a) of
        Some (Some workspace, t) \<Rightarrow>
          workspace = ad_workspace_id a \<and> ta_profile_id t = Some (ad_profile_id a) \<and> ta_thread_kind t \<in> {Home, Child} \<and>
          list_ex (\<lambda>(p, current). p = ad_profile_id a \<and> ad_profile_revision a \<le> current) (ms_profiles s) \<and>
          (ad_profile_id a, ad_profile_revision a) \<in> set (ms_profile_revisions s)
      | _ \<Rightarrow> False)"

definition same_admission :: "ThreadRunAdmission \<Rightarrow> ThreadRunAdmission \<Rightarrow> bool" where
  "same_admission a b \<longleftrightarrow> a\<lparr>ad_created_at_ms := 0\<rparr> = b\<lparr>ad_created_at_ms := 0\<rparr>"

definition admit_thread_run_and_reserve :: "msg_io \<Rightarrow> ThreadRunAdmission \<Rightarrow> rstr list \<Rightarrow> rstr list \<Rightarrow> MessageStore \<Rightarrow>
    MessageStore \<times> (AppError, unit) result" where
  "admit_thread_run_and_reserve io a child_return_ids parent_answer_ids s =
     (case (and_then io (\<lambda>_.
        and_then (sqlite_i64 (ad_profile_revision a) ''thread run profile_revision'') (\<lambda>_.
        if \<not> authority_matches s a then Inl (Config (lit ''thread run admission does not match durable authority''))
        else and_then (sqlite_i64 (ad_created_at_ms a) ''thread run created_at_ms'') (\<lambda>_.
        if ad_profile_revision a = 0 then Inl Sqlite
        else let existing = thread_run_admission_by_id s (ad_run_id a);
                 inserted = existing = None;
                 s = (if inserted then s\<lparr>ms_admissions := ms_admissions s @ [a]\<rparr> else s)
             in if \<not> same_admission (case existing of None \<Rightarrow> a | Some stored \<Rightarrow> stored) a
                then Inl (Config (lit ''thread run admission conflicts with durable run '' @ ad_run_id a))
                else and_then (reserve_deliveries mr_parent_thread_id child_return_ids a inserted (ms_returns s)) (\<lambda>returns.
                     and_then (reserve_deliveries mr_child_thread_id parent_answer_ids a inserted (ms_answers s)) (\<lambda>answers.
                       Inr (s\<lparr>ms_returns := returns, ms_answers := answers\<rparr>))))))) of
        Inl e \<Rightarrow> (s, Inl e)
      | Inr s' \<Rightarrow> (s', Inr ()))"

definition reserved_by :: "ThreadRunAdmission \<Rightarrow> 'm MessageRow_scheme \<Rightarrow> bool" where
  "reserved_by a r \<longleftrightarrow> mr_state r = Reserved \<and> mr_reserved_by_run_id r = Some (ad_run_id a) \<and>
     mr_reserved_by_turn_id r = Some (ad_thread_turn_id a)"

definition consume_row :: "u64 \<Rightarrow> 'm MessageRow_scheme \<Rightarrow> 'm MessageRow_scheme" where
  "consume_row at_ms r = r\<lparr>mr_state := Consumed, mr_consumed_by_run_id := mr_reserved_by_run_id r,
     mr_consumed_by_turn_id := mr_reserved_by_turn_id r, mr_consumed_at_ms := Some at_ms\<rparr>"

definition release_row :: "'m MessageRow_scheme \<Rightarrow> 'm MessageRow_scheme" where
  "release_row r = r\<lparr>mr_state := Available, mr_reserved_by_run_id := None, mr_reserved_by_turn_id := None\<rparr>"

definition update_reserved :: "ThreadRunAdmission \<Rightarrow> ('m MessageRow_scheme \<Rightarrow> 'm MessageRow_scheme) \<Rightarrow>
    'm MessageRow_scheme list \<Rightarrow> 'm MessageRow_scheme list" where
  "update_reserved a f rows = map (\<lambda>r. if reserved_by a r then f r else r) rows"

definition settle_thread_run_deliveries :: "msg_io \<Rightarrow> rstr \<Rightarrow> bool \<Rightarrow> u64 \<Rightarrow> MessageStore \<Rightarrow>
    MessageStore \<times> (AppError, unit) result" where
  "settle_thread_run_deliveries io run_id consumed at_ms s =
     (case io of Inl e \<Rightarrow> (s, Inl e) | Inr _ \<Rightarrow>
        (case thread_run_admission_by_id s run_id of
           None \<Rightarrow> (s, Inr ())
         | Some a \<Rightarrow>
             if consumed then
               (case sqlite_i64 at_ms ''delivery consumed_at_ms'' of
                  Inl e \<Rightarrow> (s, Inl e)
                | Inr _ \<Rightarrow> (s\<lparr>ms_returns := update_reserved a (consume_row at_ms) (ms_returns s),
                             ms_answers := update_reserved a (consume_row at_ms) (ms_answers s)\<rparr>, Inr ()))
             else (s\<lparr>ms_returns := update_reserved a release_row (ms_returns s),
                     ms_answers := update_reserved a release_row (ms_answers s)\<rparr>, Inr ())))"

definition discard_thread_run_admission :: "msg_io \<Rightarrow> rstr \<Rightarrow> MessageStore \<Rightarrow> MessageStore \<times> (AppError, unit) result" where
  "discard_thread_run_admission io run_id s =
     (case io of Inl e \<Rightarrow> (s, Inl e) | Inr _ \<Rightarrow>
        (case thread_run_admission_by_id s run_id of
           None \<Rightarrow> (s, Inr ())
         | Some a \<Rightarrow> (s\<lparr>ms_returns := update_reserved a release_row (ms_returns s),
                       ms_answers := update_reserved a release_row (ms_answers s),
                       ms_admissions := filter (\<lambda>b. ad_run_id b \<noteq> run_id) (ms_admissions s)\<rparr>, Inr ())))"

definition thread_run_admissions :: "msg_io \<Rightarrow> MessageStore \<Rightarrow> rstr \<Rightarrow> (AppError, ThreadRunAdmission list) result" where
  "thread_run_admissions io s workspace_id = and_then io (\<lambda>_. Inr
     (sort_key ad_created_at_ms (sort_key ad_run_id (filter (\<lambda>a. ad_workspace_id a = workspace_id) (ms_admissions s)))))"

definition stopped_children_without_terminal :: "msg_io \<Rightarrow> MessageStore \<Rightarrow> rstr \<Rightarrow>
    (AppError, (rstr \<times> rstr option \<times> u64) list) result" where
  "stopped_children_without_terminal io s workspace_id = and_then io (\<lambda>_. Inr
     (map (\<lambda>(a, stop, _). (ta_thread_id a, ts_stopped_turn_id stop, ts_occurred_at_ms stop))
       (sort_key (\<lambda>(_, stop, _). ts_occurred_at_ms stop) (sort_key (\<lambda>(a, _, _). ta_thread_id a)
         (filter (\<lambda>(_, _, spawn). terminal_child_return s (sa_spawn_id spawn) = None)
           [(a, stop, spawn).
              (workspace, a) \<leftarrow> ms_authorities s, workspace = Some workspace_id \<and> ta_thread_kind a = Child,
              stop \<leftarrow> ms_stops s, ts_thread_id stop = ta_thread_id a,
              spawn \<leftarrow> ms_spawns s, sa_thread_id spawn = ta_thread_id a \<and> sa_decision spawn = Granted])))))"

end
