(* ===== verification/Message_Delivery.thy ===== *)
theory Message_Delivery
  imports Thread_Messages "HOL-Library.Code_Target_Nat"
begin

text \<open>
  Delivery of thread messages under any sequence of the store's transactions: rows are only appended,
  their content never changes, a consumed row never changes at all, and a reserved row is held by a run
  admitted for the thread the row is addressed to. The locale \<open>message_table\<close> is what a message table
  offers to the transactions; both tables interpret it.
\<close>

section \<open>How a row may change\<close>

definition content :: "'m MessageRow_scheme \<Rightarrow> 'm MessageRow_scheme" where
  "content r = r\<lparr>mr_state := Available, mr_reserved_by_run_id := None, mr_reserved_by_turn_id := None,
     mr_consumed_by_run_id := None, mr_consumed_by_turn_id := None, mr_consumed_at_ms := None\<rparr>"

definition later :: "'m MessageRow_scheme \<Rightarrow> 'm MessageRow_scheme \<Rightarrow> bool" where
  "later r r' \<longleftrightarrow> content r' = content r \<and> (mr_state r = Consumed \<longrightarrow> r' = r)"

definition evolves :: "'m MessageRow_scheme list \<Rightarrow> 'm MessageRow_scheme list \<Rightarrow> bool" where
  "evolves rows rows' \<longleftrightarrow> list_all2 later rows (take (length rows) rows')"

lemma content_columns [simp]:
  "mr_message_id (content r) = mr_message_id r" "mr_sequence (content r) = mr_sequence r"
  "mr_spawn_id (content r) = mr_spawn_id r" "mr_profile_id (content r) = mr_profile_id r"
  "mr_parent_thread_id (content r) = mr_parent_thread_id r" "mr_child_thread_id (content r) = mr_child_thread_id r"
  "mr_payload (content r) = mr_payload r" "content (content r) = content r"
  by (simp_all add: content_def)

lemma content_kind [simp]: "cr_kind (content r) = cr_kind r"
  by (simp add: content_def)

lemma content_updates [simp]:
  "content (reserve_row a r) = content r" "content (release_row r) = content r" "content (consume_row at_ms r) = content r"
  by (simp_all add: content_def reserve_row_def release_row_def consume_row_def)

lemma content_fresh:
  "r = content r \<Longrightarrow> mr_state r = Available \<and> mr_reserved_by_run_id r = None \<and> mr_reserved_by_turn_id r = None
     \<and> mr_consumed_by_run_id r = None \<and> mr_consumed_by_turn_id r = None \<and> mr_consumed_at_ms r = None"
  by (cases r) (simp add: content_def)

lemma row_updates [simp]:
  "mr_state (reserve_row a r) = Reserved" "mr_state (release_row r) = Available" "mr_state (consume_row t r) = Consumed"
  "reserved_by a (reserve_row a r)" "mr_profile_id (reserve_row a r) = mr_profile_id r"
  "mr_consumed_by_run_id (reserve_row a r) = mr_consumed_by_run_id r"
  "mr_consumed_by_turn_id (reserve_row a r) = mr_consumed_by_turn_id r"
  "mr_consumed_at_ms (reserve_row a r) = mr_consumed_at_ms r"
  by (simp_all add: reserve_row_def release_row_def consume_row_def reserved_by_def)

lemma later_refl [simp]: "later r r"
  by (simp add: later_def)

lemma later_trans: "later r r' \<Longrightarrow> later r' r'' \<Longrightarrow> later r r''"
  by (auto simp: later_def)

lemma list_all2_later_refl [simp]: "list_all2 later rows rows"
  by (simp add: list_all2_refl)

lemma evolves_refl [simp]: "evolves rows rows"
  by (simp add: evolves_def)

lemma evolves_append [simp]: "evolves rows (rows @ new)"
  by (simp add: evolves_def)

lemma evolves_length: "evolves rows rows' \<Longrightarrow> length rows \<le> length rows'"
  by (auto simp: evolves_def dest: list_all2_lengthD)

lemma evolves_later: "list_all2 later rows rows' \<Longrightarrow> evolves rows rows'"
  using list_all2_lengthD [of later rows rows'] by (simp add: evolves_def)

lemma list_all2_later_trans: "list_all2 later xs ys \<Longrightarrow> list_all2 later ys zs \<Longrightarrow> list_all2 later xs zs"
  by (erule (1) list_all2_trans [rotated]) (rule later_trans)

lemma evolves_trans:
  assumes "evolves rows rows'" and "evolves rows' rows''"
  shows "evolves rows rows''"
proof -
  have "list_all2 later (take (length rows) rows') (take (length rows) (take (length rows') rows''))"
    using assms(2) by (auto simp: evolves_def simp del: take_take intro: list_all2_takeI)
  then have "list_all2 later (take (length rows) rows') (take (length rows) rows'')"
    using evolves_length [OF assms(1)] by (simp add: min_absorb1)
  then show ?thesis using assms(1) list_all2_later_trans unfolding evolves_def by blast
qed

lemma evolves_nth: "evolves rows rows' \<Longrightarrow> i < length rows \<Longrightarrow> later (rows ! i) (rows' ! i)"
  by (auto simp: evolves_def dest: list_all2_nthD)

lemma later_map: "(\<And>r. r \<in> set rows \<Longrightarrow> later r (f r)) \<Longrightarrow> list_all2 later rows (map f rows)"
  by (simp add: list_all2_map2 list_all2_same)

lemma later_contents: "list_all2 later rows rows' \<Longrightarrow> map content rows' = map content rows"
  by (induction rule: list_all2_induct) (auto simp: later_def)

lemma later_columns:
  assumes "list_all2 later rows rows'" and "\<And>r. f (content r) = f r"
  shows "map f rows' = map f rows"
proof -
  have "map (f \<circ> content) rows' = map (f \<circ> content) rows"
    using later_contents [OF assms(1)] by (metis map_map)
  then show ?thesis by (simp add: comp_def assms(2))
qed

section \<open>The tables\<close>

text \<open>The \<open>CHECK\<close> on the delivery columns, and who may hold a reservation.\<close>

definition delivery_ok :: "('m MessageRow_scheme \<Rightarrow> rstr) \<Rightarrow> ThreadRunAdmission list \<Rightarrow> 'm MessageRow_scheme \<Rightarrow> bool" where
  "delivery_ok address A r \<longleftrightarrow>
     (case mr_state r of
        Available \<Rightarrow> r = content r
      | Reserved \<Rightarrow> mr_consumed_by_run_id r = None \<and> mr_consumed_by_turn_id r = None \<and> mr_consumed_at_ms r = None \<and>
          (\<exists>a \<in> set A. reserved_by a r \<and> ad_thread_id a = address r \<and> ad_profile_id a = mr_profile_id r)
      | Consumed \<Rightarrow> mr_reserved_by_run_id r \<noteq> None \<and> mr_reserved_by_turn_id r \<noteq> None \<and>
          mr_consumed_by_run_id r = mr_reserved_by_run_id r \<and> mr_consumed_by_turn_id r = mr_reserved_by_turn_id r \<and>
          mr_consumed_at_ms r \<noteq> None)"

lemma delivery_ok_content [simp]: "delivery_ok address A (content r)"
  by (simp add: delivery_ok_def content_def)

lemma delivery_ok_mono: "delivery_ok address A r \<Longrightarrow> set A \<subseteq> set B \<Longrightarrow> delivery_ok address B r"
  by (auto simp: delivery_ok_def split: DeliveryState.splits)

locale message_table =
  fixes address :: "'m MessageRow_scheme \<Rightarrow> rstr"
  assumes address_content: "address (content r) = address r"
begin

lemma address_updates [simp]:
  "address (reserve_row a r) = address r" "address (release_row r) = address r" "address (consume_row at_ms r) = address r"
  by (metis address_content content_updates)+

lemma reserve_row_ok:
  "a \<in> set A \<Longrightarrow> ad_thread_id a = address r \<Longrightarrow> ad_profile_id a = mr_profile_id r \<Longrightarrow> mr_state r = Available \<Longrightarrow>
     delivery_ok address A r \<Longrightarrow> delivery_ok address A (reserve_row a r) \<and> later r (reserve_row a r)"
  using content_fresh [of r] by (auto simp: delivery_ok_def later_def intro!: bexI [of _ a])

lemma reserve_delivery_ok:
  assumes "reserve_delivery address m a new rows = Inr rows'" and "a \<in> set A"
    and "list_all (delivery_ok address A) rows"
  shows "list_all2 later rows rows' \<and> list_all (delivery_ok address A) rows'"
proof -
  have rows': "rows' = map (\<lambda>r. if new \<and> addressed address m a r \<and> mr_state r = Available then reserve_row a r else r) rows"
    using assms(1) by (auto simp: reserve_delivery_def Let_def split: if_splits)
  show ?thesis
    unfolding rows' using assms(2,3) reserve_row_ok [OF assms(2)]
    by (auto simp: list_all_iff addressed_def intro!: later_map)
qed

lemma reserve_deliveries_ok:
  "reserve_deliveries address ms a new rows = Inr rows' \<Longrightarrow> a \<in> set A \<Longrightarrow> list_all (delivery_ok address A) rows \<Longrightarrow>
     list_all2 later rows rows' \<and> list_all (delivery_ok address A) rows'"
proof (induction ms arbitrary: rows)
  case (Cons m ms)
  then obtain mid where mid: "reserve_delivery address m a new rows = Inr mid" "reserve_deliveries address ms a new mid = Inr rows'"
    by (auto simp: result_simps)
  have "list_all2 later rows mid" "list_all2 later mid rows'" "list_all (delivery_ok address A) rows'"
    using reserve_delivery_ok [OF mid(1) Cons.prems(2,3)] Cons.IH [OF mid(2) Cons.prems(2)] by auto
  then show ?case using list_all2_later_trans by blast
qed auto

lemma update_reserved_ok:
  assumes "list_all (delivery_ok address A) rows"
    and "\<And>r. reserved_by a r \<Longrightarrow> delivery_ok address A r \<Longrightarrow> later r (f r) \<and> delivery_ok address B (f r)"
    and "\<And>r. \<not> reserved_by a r \<Longrightarrow> delivery_ok address A r \<Longrightarrow> delivery_ok address B r"
  shows "list_all2 later rows (update_reserved a f rows) \<and> list_all (delivery_ok address B) (update_reserved a f rows)"
  using assms by (auto simp: update_reserved_def list_all_iff intro!: later_map)

lemma release_row_ok: "reserved_by a r \<Longrightarrow> delivery_ok address A r \<Longrightarrow> later r (release_row r) \<and> delivery_ok address B (release_row r)"
  by (cases r) (auto simp: reserved_by_def delivery_ok_def later_def release_row_def content_def)

lemma consume_row_ok: "reserved_by a r \<Longrightarrow> delivery_ok address A r \<Longrightarrow> later r (consume_row t r) \<and> delivery_ok address B (consume_row t r)"
  by (cases r) (auto simp: reserved_by_def delivery_ok_def later_def consume_row_def content_def)

text \<open>When a run's admission goes, so do its reservations.\<close>

lemma discarded_ok:
  "delivery_ok address A r \<Longrightarrow> a \<in> set A \<Longrightarrow> distinct (map ad_run_id A) \<Longrightarrow> \<not> reserved_by a r \<Longrightarrow>
     delivery_ok address (filter (\<lambda>b. ad_run_id b \<noteq> ad_run_id a) A) r"
  by (auto simp: delivery_ok_def reserved_by_def distinct_map dest: inj_onD split: DeliveryState.splits)

end

interpretation ret: message_table "mr_parent_thread_id :: ChildReturnRecord \<Rightarrow> rstr"
  by unfold_locales simp

interpretation ans: message_table "mr_child_thread_id :: ParentAnswerRecord \<Rightarrow> rstr"
  by unfold_locales simp

section \<open>The invariant of the store\<close>

text \<open>
  A child's terminal return is its last: no row of its spawn follows. Sequences are the positions.
\<close>

definition final_return :: "ChildReturnRecord \<Rightarrow> ChildReturnRecord \<Rightarrow> bool" where
  "final_return r r' \<longleftrightarrow> (mr_spawn_id r = mr_spawn_id r' \<longrightarrow> \<not> is_terminal_kind (cr_kind r))"

definition messages_wf :: "MessageStore \<Rightarrow> bool" where
  "messages_wf s \<longleftrightarrow>
     distinct (map ad_run_id (ms_admissions s)) \<and>
     distinct (map mr_message_id (ms_returns s)) \<and> distinct (map mr_message_id (ms_answers s)) \<and>
     map mr_sequence (ms_returns s) = map of_nat [1..<Suc (length (ms_returns s))] \<and>
     map mr_sequence (ms_answers s) = map of_nat [1..<Suc (length (ms_answers s))] \<and>
     list_all (delivery_ok mr_parent_thread_id (ms_admissions s)) (ms_returns s) \<and>
     list_all (delivery_ok mr_child_thread_id (ms_admissions s)) (ms_answers s) \<and>
     sorted_wrt final_return (ms_returns s) \<and>
     list_all (\<lambda>r. str_len (mr_payload r) \<le> MAX_CHILD_RETURN_PAYLOAD_BYTES) (ms_returns s) \<and>
     list_all (\<lambda>r. str_len (mr_payload r) \<le> MAX_CHILD_RETURN_PAYLOAD_BYTES) (ms_answers s) \<and>
     (\<forall>parent. length (filter (unconsumed_nonterminal parent) (ms_returns s)) \<le> MAX_UNCONSUMED_NONTERMINAL_RETURNS)"


lemma final_return_content: "sorted_wrt final_return (map content rows) \<longleftrightarrow> sorted_wrt final_return rows"
  by (simp add: sorted_wrt_map final_return_def [abs_def])

lemma count_later:
  "list_all2 later rows rows' \<Longrightarrow>
     length (filter (unconsumed_nonterminal p) rows') \<le> length (filter (unconsumed_nonterminal p) rows)"
proof (induction rule: list_all2_induct)
  case (Cons r rows r' rows')
  have "unconsumed_nonterminal p r' \<Longrightarrow> unconsumed_nonterminal p r"
    using Cons.hyps(1) content_kind [of r] content_kind [of r'] content_columns(5) [of r] content_columns(5) [of r']
    by (auto simp: later_def unconsumed_nonterminal_def)
  then show ?case using Cons.IH by auto
qed simp

lemma wf_later:
  assumes "messages_wf s" and returns: "list_all2 later (ms_returns s) R" and answers: "list_all2 later (ms_answers s) N"
    and "distinct (map ad_run_id A)" and "list_all (delivery_ok mr_parent_thread_id A) R"
    and "list_all (delivery_ok mr_child_thread_id A) N"
  shows "messages_wf (s\<lparr>ms_returns := R, ms_answers := N, ms_admissions := A\<rparr>)"
proof -
  have len: "length R = length (ms_returns s)" "length N = length (ms_answers s)"
    using returns answers by (auto dest: list_all2_lengthD)
  have "sorted_wrt final_return R"
    using assms(1) later_contents [OF returns] final_return_content unfolding messages_wf_def by metis
  moreover have "list_all ((\<lambda>p. str_len p \<le> MAX_CHILD_RETURN_PAYLOAD_BYTES) \<circ> mr_payload) R"
    "list_all ((\<lambda>p. str_len p \<le> MAX_CHILD_RETURN_PAYLOAD_BYTES) \<circ> mr_payload) N"
    using assms(1) later_columns [OF returns, of mr_payload] later_columns [OF answers, of mr_payload]
    unfolding messages_wf_def list_all_iff by (auto simp: comp_def) (metis image_eqI image_iff list.set_map)+
  moreover have "length (filter (unconsumed_nonterminal p) R) \<le> MAX_UNCONSUMED_NONTERMINAL_RETURNS" for p
    using assms(1) count_later [OF returns, of p] le_trans unfolding messages_wf_def by blast
  ultimately show ?thesis
    using assms(1,4-6) len later_columns [OF returns, of mr_message_id] later_columns [OF answers, of mr_message_id]
      later_columns [OF returns, of mr_sequence] later_columns [OF answers, of mr_sequence]
    by (simp add: messages_wf_def comp_def)
qed

lemma message_by_id_None: "message_by_id rows m = None \<longleftrightarrow> m \<notin> mr_message_id ` set rows"
  by (auto simp: message_by_id_def find_None_iff)

lemma terminal_child_return_None:
  "terminal_child_return s sp = None \<longleftrightarrow> (\<forall>r \<in> set (ms_returns s). mr_spawn_id r = sp \<longrightarrow> \<not> is_terminal_kind (cr_kind r))"
  by (auto simp: terminal_child_return_def find_None_iff)

lemma stored_return_row:
  assumes "child_return_decision s d = Inr (Stored row)"
  obtains edge revision truncated where
    "row = child_return_row d edge revision
       (if is_terminal_kind (cd_kind d) then fst (truncate_utf8_bytes (cd_payload d) MAX_CHILD_RETURN_PAYLOAD_BYTES) else cd_payload d)
       truncated (next_sequence (ms_returns s))"
    "message_by_id (ms_returns s) (cd_message_id d) = None" "terminal_child_return s (se_spawn_id edge) = None"
    "is_terminal_kind (cd_kind d) \<or>
       length (filter (unconsumed_nonterminal (se_parent_thread_id edge)) (ms_returns s)) < MAX_UNCONSUMED_NONTERMINAL_RETURNS"
    "child_edge_from s (cd_workspace_id d) (cd_child_thread_id d) = Inr (Some edge)" "source_revision s d edge = Some revision"
  using assms
  by (auto simp: child_return_decision_def result_simps Let_def not_le split: if_splits option.splits prod.splits)

lemma wf_append_return:
  assumes "messages_wf s" and "row = content row" and "mr_message_id row \<notin> mr_message_id ` set (ms_returns s)"
    and "mr_sequence row = next_sequence (ms_returns s)"
    and "\<forall>r \<in> set (ms_returns s). mr_spawn_id r = mr_spawn_id row \<longrightarrow> \<not> is_terminal_kind (cr_kind r)"
    and "str_len (mr_payload row) \<le> MAX_CHILD_RETURN_PAYLOAD_BYTES"
    and "is_terminal_kind (cr_kind row) \<or>
      length (filter (unconsumed_nonterminal (mr_parent_thread_id row)) (ms_returns s)) < MAX_UNCONSUMED_NONTERMINAL_RETURNS"
  shows "messages_wf (s\<lparr>ms_returns := ms_returns s @ [row]\<rparr>)"
proof -
  have "delivery_ok mr_parent_thread_id (ms_admissions s) row" using assms(2) delivery_ok_content by metis
  moreover have "length (filter (unconsumed_nonterminal p) (ms_returns s @ [row])) \<le> MAX_UNCONSUMED_NONTERMINAL_RETURNS" for p
    using assms(1,7) by (auto simp: messages_wf_def unconsumed_nonterminal_def Suc_le_eq)
  ultimately show ?thesis
    using assms by (auto simp: messages_wf_def sorted_wrt_append final_return_def next_sequence_def)
qed


lemma return_row_columns [simp]:
  "content (child_return_row d edge revision payload truncated n) = child_return_row d edge revision payload truncated n"
  "mr_message_id (child_return_row d edge revision payload truncated n) = cd_message_id d"
  "mr_sequence (child_return_row d edge revision payload truncated n) = n"
  "mr_spawn_id (child_return_row d edge revision payload truncated n) = se_spawn_id edge"
  "mr_parent_thread_id (child_return_row d edge revision payload truncated n) = se_parent_thread_id edge"
  "mr_payload (child_return_row d edge revision payload truncated n) = payload"
  "cr_kind (child_return_row d edge revision payload truncated n) = cd_kind d"
  by (simp_all add: child_return_row_def content_def)

lemma answer_row_columns [simp]:
  "content (parent_answer_row d edge revision n) = parent_answer_row d edge revision n"
  "mr_message_id (parent_answer_row d edge revision n) = pd_message_id d"
  "mr_sequence (parent_answer_row d edge revision n) = n"
  "mr_payload (parent_answer_row d edge revision n) = pd_payload d"
  by (simp_all add: parent_answer_row_def content_def)

section \<open>Transactions\<close>

text \<open>What each transaction does to the tables: nothing, one more row, or an update of reservations.\<close>

lemma persist_child_return_cases:
  assumes "persist_child_return io d s = (s', answer)"
  obtains "s' = s" "\<nexists>row. answer = Inr (Stored row)"
  | row where "s' = s\<lparr>ms_returns := ms_returns s @ [row]\<rparr>" "answer = Inr (Stored row)" "io = Inr ()"
      "child_return_decision s d = Inr (Stored row)"
      "is_terminal_kind (cd_kind d) \<or> str_len (cd_payload d) \<le> MAX_CHILD_RETURN_PAYLOAD_BYTES"
proof (cases "\<exists>row. answer = Inr (Stored row)")
  case True
  then have "is_terminal_kind (cd_kind d) \<or> str_len (cd_payload d) \<le> MAX_CHILD_RETURN_PAYLOAD_BYTES"
    using assms by (auto simp: persist_child_return_def split: if_splits)
  then show ?thesis
    using assms True that(2)
    by (auto simp: persist_child_return_def result_simps split: if_splits sum.splits Persisted.splits)
next
  case False
  then show ?thesis
    using assms that(1)
    by (auto simp: persist_child_return_def split: if_splits sum.splits Persisted.splits dest!: sym [of "Inr _"])
qed

lemma persist_parent_answer_cases:
  assumes "persist_parent_answer io d s = (s', answer)"
  obtains "s' = s" "\<nexists>row. answer = Inr (Stored row)"
  | edge revision where "s' = s\<lparr>ms_answers := ms_answers s @ [parent_answer_row d edge revision (next_sequence (ms_answers s))]\<rparr>"
      "answer = Inr (Stored (parent_answer_row d edge revision (next_sequence (ms_answers s))))"
      "message_by_id (ms_answers s) (pd_message_id d) = None" "str_len (pd_payload d) \<le> MAX_CHILD_RETURN_PAYLOAD_BYTES"
proof (cases "\<exists>row. answer = Inr (Stored row)")
  case True
  then show ?thesis
    using assms that(2) by (auto simp: persist_parent_answer_def parent_answer_decision_def result_simps not_less
        split: if_splits sum.splits Persisted.splits option.splits)
next
  case False
  then show ?thesis
    using assms that(1)
    by (auto simp: persist_parent_answer_def split: if_splits sum.splits Persisted.splits dest!: sym [of "Inr _"])
qed

lemma truncated_bound: "str_len (fst (truncate_utf8_bytes v n)) \<le> n"
  by (simp add: truncate_utf8_bytes_def fitting_bound)

interpretation return_tx: atomic_operation messages_wf "persist_child_return io d" for io d
proof
  show "s' = s" if "persist_child_return io d s = (s', Inl e)" for s s' e
    using that by (rule persist_child_return_cases) auto
  show "messages_wf s'" if wf: "messages_wf s" and ok: "persist_child_return io d s = (s', Inr x)" for s s' x
    using ok
  proof (cases rule: persist_child_return_cases)
    case (2 row)
    from 2(4) show ?thesis
    proof (cases rule: stored_return_row)
      case (1 edge revision truncated)
      then show ?thesis
        unfolding 2(1) using wf 2(5) truncated_bound
        by (intro wf_append_return) (auto simp: message_by_id_None terminal_child_return_None)
    qed
  qed (simp add: wf)
qed

interpretation answer_tx: atomic_operation messages_wf "persist_parent_answer io d" for io d
proof
  show "s' = s" if "persist_parent_answer io d s = (s', Inl e)" for s s' e
    using that by (rule persist_parent_answer_cases) auto
  show "messages_wf s'" if wf: "messages_wf s" and ok: "persist_parent_answer io d s = (s', Inr x)" for s s' x
    using ok
  proof (cases rule: persist_parent_answer_cases)
    case (2 edge revision)
    have "delivery_ok mr_child_thread_id (ms_admissions s) (parent_answer_row d edge revision n)" for n
      by (metis answer_row_columns(1) delivery_ok_content)
    then show ?thesis
      unfolding 2(1) using wf 2(3,4) by (auto simp: messages_wf_def message_by_id_None next_sequence_def)
  qed (simp add: wf)
qed


lemma admission_found: "thread_run_admission_by_id s run = Some a \<Longrightarrow> a \<in> set (ms_admissions s) \<and> ad_run_id a = run"
  by (auto simp: thread_run_admission_by_id_def find_Some_iff in_set_conv_nth)

lemma admission_not_found: "thread_run_admission_by_id s run = None \<longleftrightarrow> run \<notin> ad_run_id ` set (ms_admissions s)"
  by (auto simp: thread_run_admission_by_id_def find_None_iff)

text \<open>An admission that is found again reserves nothing new.\<close>

lemma no_new_reservation: "reserve_deliveries address ms a False rows = Inr rows' \<Longrightarrow> rows' = rows"
proof (induction ms)
  case (Cons m ms)
  then show ?case by (auto simp: reserve_delivery_def result_simps split: if_splits)
qed simp

lemma admit_cases:
  assumes "admit_thread_run_and_reserve io a rids aids s = (s', answer)"
  obtains (failed) e where "s' = s" "answer = Inl e"
  | (again) "s' = s" "answer = Inr ()" "thread_run_admission_by_id s (ad_run_id a) \<noteq> None"
  | (fresh) R N where "s' = s\<lparr>ms_returns := R, ms_answers := N, ms_admissions := ms_admissions s @ [a]\<rparr>" "answer = Inr ()"
      "thread_run_admission_by_id s (ad_run_id a) = None"
      "reserve_deliveries mr_parent_thread_id rids a True (ms_returns s) = Inr R"
      "reserve_deliveries mr_child_thread_id aids a True (ms_answers s) = Inr N"
proof (cases answer)
  case (Inl e)
  then show ?thesis
    using assms failed by (auto simp: admit_thread_run_and_reserve_def split: sum.splits)
next
  case (Inr u)
  then show ?thesis
    using assms again fresh
    by (auto simp: admit_thread_run_and_reserve_def Let_def result_simps dest!: no_new_reservation
        split: sum.splits if_splits option.splits)
qed

lemma admit_wf:
  assumes wf: "messages_wf s" and ok: "admit_thread_run_and_reserve io a rids aids s = (s', answer)"
  shows "messages_wf s' \<and> evolves (ms_returns s) (ms_returns s') \<and> evolves (ms_answers s) (ms_answers s')"
  using ok
proof (cases rule: admit_cases)
  case (fresh R N)
  let ?A = "ms_admissions s @ [a]"
  have old: "list_all (delivery_ok mr_parent_thread_id ?A) (ms_returns s)" "list_all (delivery_ok mr_child_thread_id ?A) (ms_answers s)"
    using wf by (auto simp: messages_wf_def list_all_iff intro: delivery_ok_mono)
  have R: "list_all2 later (ms_returns s) R \<and> list_all (delivery_ok mr_parent_thread_id ?A) R"
    using ret.reserve_deliveries_ok [OF fresh(4) _ old(1)] by simp
  have N: "list_all2 later (ms_answers s) N \<and> list_all (delivery_ok mr_child_thread_id ?A) N"
    using ans.reserve_deliveries_ok [OF fresh(5) _ old(2)] by simp
  have "distinct (map ad_run_id ?A)"
    using wf fresh(3) by (simp add: messages_wf_def admission_not_found)
  then show ?thesis
    unfolding fresh(1) using R N by (auto intro!: wf_later [OF wf] simp: evolves_later)
qed (use wf in auto)

lemma settle_wf:
  assumes wf: "messages_wf s" and ok: "settle_thread_run_deliveries io run c t s = (s', answer)"
  shows "messages_wf s' \<and> evolves (ms_returns s) (ms_returns s') \<and> evolves (ms_answers s) (ms_answers s')"
proof (cases "s' = s")
  case False
  then obtain a where a: "thread_run_admission_by_id s run = Some a"
    using ok by (auto simp: settle_thread_run_deliveries_def split: sum.splits option.splits)
  let ?A = "ms_admissions s"
  have s': "s' = s\<lparr>ms_returns := update_reserved a (if c then consume_row t else release_row) (ms_returns s),
        ms_answers := update_reserved a (if c then consume_row t else release_row) (ms_answers s), ms_admissions := ?A\<rparr>"
    using ok False a by (auto simp: settle_thread_run_deliveries_def split: sum.splits if_splits)
  have ok: "list_all (delivery_ok mr_parent_thread_id ?A) (ms_returns s)" "list_all (delivery_ok mr_child_thread_id ?A) (ms_answers s)"
      "distinct (map ad_run_id ?A)" using wf by (auto simp: messages_wf_def)
  have "list_all2 later (ms_returns s) (ms_returns s') \<and> list_all (delivery_ok mr_parent_thread_id ?A) (ms_returns s')"
    unfolding s' using ret.update_reserved_ok [OF ok(1)] ret.release_row_ok ret.consume_row_ok by simp
  moreover have "list_all2 later (ms_answers s) (ms_answers s') \<and> list_all (delivery_ok mr_child_thread_id ?A) (ms_answers s')"
    unfolding s' using ans.update_reserved_ok [OF ok(2)] ans.release_row_ok ans.consume_row_ok by simp
  ultimately show ?thesis
    using wf_later [OF wf _ _ ok(3)] by (auto simp: s' evolves_later)
qed (use wf in auto)

lemma discard_wf:
  assumes wf: "messages_wf s" and ok: "discard_thread_run_admission io run s = (s', answer)"
  shows "messages_wf s' \<and> evolves (ms_returns s) (ms_returns s') \<and> evolves (ms_answers s) (ms_answers s')"
proof (cases "s' = s")
  case False
  then obtain a where a: "thread_run_admission_by_id s run = Some a" and s': "s' = s\<lparr>ms_returns := update_reserved a release_row (ms_returns s),
        ms_answers := update_reserved a release_row (ms_answers s), ms_admissions := filter (\<lambda>b. ad_run_id b \<noteq> run) (ms_admissions s)\<rparr>"
    using ok by (auto simp: discard_thread_run_admission_def split: sum.splits option.splits)
  let ?A = "ms_admissions s" and ?B = "filter (\<lambda>b. ad_run_id b \<noteq> run) (ms_admissions s)"
  have ok: "list_all (delivery_ok mr_parent_thread_id ?A) (ms_returns s)" "list_all (delivery_ok mr_child_thread_id ?A) (ms_answers s)"
      "distinct (map ad_run_id ?A)" and "a \<in> set ?A" "ad_run_id a = run"
    using wf admission_found [OF a] by (auto simp: messages_wf_def)
  then have "list_all2 later (ms_returns s) (ms_returns s') \<and> list_all (delivery_ok mr_parent_thread_id ?B) (ms_returns s')"
      "list_all2 later (ms_answers s) (ms_answers s') \<and> list_all (delivery_ok mr_child_thread_id ?B) (ms_answers s')"
    unfolding s' using ret.update_reserved_ok [OF ok(1), of a release_row ?B] ret.release_row_ok [of a _ ?A ?B] ret.discarded_ok [of ?A _ a]
      ans.update_reserved_ok [OF ok(2), of a release_row ?B] ans.release_row_ok [of a _ ?A ?B] ans.discarded_ok [of ?A _ a] by auto
  then show ?thesis
    using wf_later [OF wf, of "ms_returns s'" "ms_answers s'" ?B] ok(3) by (auto simp: s' distinct_map_filter evolves_later)
qed (use wf in auto)


section \<open>Any sequence of transactions\<close>

text \<open>
  The callers of the store in any order, each with SQLite's answer; \<open>Directory\<close> is any change of the other
  tables.
\<close>

datatype MessageTx =
    PersistReturn msg_io ChildReturnDraft
  | PersistAnswer msg_io ParentAnswerDraft
  | AdmitRun msg_io ThreadRunAdmission "rstr list" "rstr list"
  | SettleRun msg_io rstr bool u64
  | DiscardRun msg_io rstr
  | Directory MessageStore

fun message_tx :: "MessageTx \<Rightarrow> MessageStore \<Rightarrow> MessageStore" where
  "message_tx (PersistReturn io d) s = fst (persist_child_return io d s)"
| "message_tx (PersistAnswer io d) s = fst (persist_parent_answer io d s)"
| "message_tx (AdmitRun io a rids aids) s = fst (admit_thread_run_and_reserve io a rids aids s)"
| "message_tx (SettleRun io run c t) s = fst (settle_thread_run_deliveries io run c t s)"
| "message_tx (DiscardRun io run) s = fst (discard_thread_run_admission io run s)"
| "message_tx (Directory s') s =
     s'\<lparr>ms_admissions := ms_admissions s, ms_returns := ms_returns s, ms_answers := ms_answers s\<rparr>"

definition message_txs :: "MessageTx list \<Rightarrow> MessageStore \<Rightarrow> MessageStore" where
  "message_txs ts s = fold message_tx ts s"

abbreviation messages_keep :: "MessageStore \<Rightarrow> MessageStore \<Rightarrow> bool" where
  "messages_keep s s' \<equiv> messages_wf s' \<and> evolves (ms_returns s) (ms_returns s') \<and> evolves (ms_answers s) (ms_answers s')"

lemma persist_child_return_keep: "messages_wf s \<Longrightarrow> messages_keep s (fst (persist_child_return io d s))"
  using return_tx.keeps_inv [of s io d]
  by (cases "persist_child_return io d s") (auto elim!: persist_child_return_cases)

lemma persist_parent_answer_keep: "messages_wf s \<Longrightarrow> messages_keep s (fst (persist_parent_answer io d s))"
  using answer_tx.keeps_inv [of s io d]
  by (cases "persist_parent_answer io d s") (auto elim!: persist_parent_answer_cases)

lemma message_tx_keep: "messages_wf s \<Longrightarrow> messages_keep s (message_tx t s)"
proof (cases t)
  case (Directory s')
  then show "messages_wf s \<Longrightarrow> messages_keep s (message_tx t s)" by (simp add: messages_wf_def)
qed (auto simp: persist_child_return_keep persist_parent_answer_keep
    dest: admit_wf [OF _ prod.collapse [symmetric]] settle_wf [OF _ prod.collapse [symmetric]] discard_wf [OF _ prod.collapse [symmetric]])

lemma message_txs_keep: "messages_wf s \<Longrightarrow> messages_keep s (message_txs ts s)"
proof (induction ts arbitrary: s)
  case (Cons t ts)
  have step: "messages_keep s (message_tx t s)" using Cons.prems by (rule message_tx_keep)
  moreover have "messages_keep (message_tx t s) (message_txs ts (message_tx t s))" using step Cons.IH by blast
  moreover have "message_txs (t # ts) s = message_txs ts (message_tx t s)" by (simp add: message_txs_def)
  ultimately show ?case using evolves_trans by (metis (no_types, lifting))
qed (simp add: message_txs_def)

lemma reserved_holder:
  "delivery_ok address A r \<Longrightarrow> mr_state r = Reserved \<Longrightarrow> \<exists>a \<in> set A. reserved_by a r \<and> ad_thread_id a = address r"
  by (auto simp: delivery_ok_def)

text \<open>
  C12. Messages between threads are durable and delivered at most once. Whatever the order of the
  transactions and whichever of them fail, a stored message keeps its place and its content, and once a run
  has consumed it it never changes again; a reserved message is held by an admitted run of the thread it is
  addressed to; no identifier is used twice; a child's terminal return is its last message; and a parent has
  at most 128 unconsumed nonterminal returns.
\<close>

theorem thread_messages_safe:
  assumes "ms_admissions s = [] \<and> ms_returns s = [] \<and> ms_answers s = []"
    and "s1 = message_txs before s" and "s2 = message_txs after s1"
  shows "(\<forall>i < length (ms_returns s1). i < length (ms_returns s2) \<and> content (ms_returns s2 ! i) = content (ms_returns s1 ! i) \<and>
      (mr_state (ms_returns s1 ! i) = Consumed \<longrightarrow> ms_returns s2 ! i = ms_returns s1 ! i)) \<and>
    (\<forall>i < length (ms_answers s1). i < length (ms_answers s2) \<and> content (ms_answers s2 ! i) = content (ms_answers s1 ! i) \<and>
      (mr_state (ms_answers s1 ! i) = Consumed \<longrightarrow> ms_answers s2 ! i = ms_answers s1 ! i)) \<and>
    (\<forall>r \<in> set (ms_returns s2). mr_state r = Reserved \<longrightarrow>
      (\<exists>a \<in> set (ms_admissions s2). reserved_by a r \<and> ad_thread_id a = mr_parent_thread_id r)) \<and>
    (\<forall>r \<in> set (ms_answers s2). mr_state r = Reserved \<longrightarrow>
      (\<exists>a \<in> set (ms_admissions s2). reserved_by a r \<and> ad_thread_id a = mr_child_thread_id r)) \<and>
    distinct (map ad_run_id (ms_admissions s2)) \<and> distinct (map mr_message_id (ms_returns s2)) \<and>
    distinct (map mr_message_id (ms_answers s2)) \<and>
    (\<forall>i j. i < j \<and> j < length (ms_returns s2) \<and> mr_spawn_id (ms_returns s2 ! i) = mr_spawn_id (ms_returns s2 ! j) \<longrightarrow>
      \<not> is_terminal_kind (cr_kind (ms_returns s2 ! i))) \<and>
    (\<forall>parent. length (filter (unconsumed_nonterminal parent) (ms_returns s2)) \<le> 128)"
proof -
  have "messages_wf s" using assms(1) by (simp add: messages_wf_def)
  then have "messages_wf s1" using message_txs_keep assms(2) by blast
  then have keep: "messages_keep s1 s2" using message_txs_keep assms(3) by blast
  have later: "i < length (ms_returns s1) \<Longrightarrow> i < length (ms_returns s2) \<and> later (ms_returns s1 ! i) (ms_returns s2 ! i)"
    "i < length (ms_answers s1) \<Longrightarrow> i < length (ms_answers s2) \<and> later (ms_answers s1 ! i) (ms_answers s2 ! i)" for i
    using keep evolves_nth evolves_length by (meson less_le_trans)+
  have "\<forall>i j. i < j \<and> j < length (ms_returns s2) \<and> mr_spawn_id (ms_returns s2 ! i) = mr_spawn_id (ms_returns s2 ! j) \<longrightarrow>
      \<not> is_terminal_kind (cr_kind (ms_returns s2 ! i))"
    using keep by (auto simp: messages_wf_def sorted_wrt_iff_nth_less final_return_def)
  moreover have "\<forall>r \<in> set (ms_returns s2). mr_state r = Reserved \<longrightarrow>
      (\<exists>a \<in> set (ms_admissions s2). reserved_by a r \<and> ad_thread_id a = mr_parent_thread_id r)"
    "\<forall>r \<in> set (ms_answers s2). mr_state r = Reserved \<longrightarrow>
      (\<exists>a \<in> set (ms_admissions s2). reserved_by a r \<and> ad_thread_id a = mr_child_thread_id r)"
    using keep reserved_holder unfolding messages_wf_def list_all_iff by blast+
  moreover have "distinct (map ad_run_id (ms_admissions s2)) \<and> distinct (map mr_message_id (ms_returns s2)) \<and>
      distinct (map mr_message_id (ms_answers s2)) \<and>
      (\<forall>parent. length (filter (unconsumed_nonterminal parent) (ms_returns s2)) \<le> 128)"
    using keep unfolding messages_wf_def MAX_UNCONSUMED_NONTERMINAL_RETURNS_def by blast
  ultimately show ?thesis using later unfolding later_def by blast
qed

text \<open>A home thread with one child, and the messages of two runs.\<close>

definition example_thread :: "string \<Rightarrow> rstr option \<Rightarrow> ThreadKind \<Rightarrow> rstr option \<times> ThreadAuthorityRecord" where
  "example_thread name parent kind = (Some (lit ''w''),
     \<lparr>ta_thread_id = lit name, ta_parent_thread_id = parent, ta_spawning_actor = lit ''user'', ta_cwd = None,
      ta_agent_id = None, ta_profile_id = Some (ProfileId (lit ''p'')), ta_profile_revision = Some 1, ta_thread_kind = kind,
      ta_model = lit ''m'', ta_reasoning_effort = Low, ta_approval_policy = Prompt, ta_toolset = [], ta_worktrees = [],
      ta_granted_paths = [], ta_network = False, ta_created_at_ms = 1\<rparr>)"

definition example_store :: MessageStore where
  "example_store =
     \<lparr>ms_authorities = [example_thread ''home'' None Home, example_thread ''child'' (Some (lit ''home'')) Child],
      ms_spawns = [\<lparr>sa_spawn_id = lit ''spawn'', sa_thread_id = lit ''child'', sa_decision = Granted,
        sa_actor = lit ''user'', sa_reason = None, sa_occurred_at_ms = 1\<rparr>],
      ms_stops = [], ms_profiles = [(ProfileId (lit ''p''), 1)], ms_profile_revisions = [(ProfileId (lit ''p''), 1)],
      ms_admissions = [], ms_returns = [], ms_answers = []\<rparr>"

definition example_admission :: "string \<Rightarrow> string \<Rightarrow> ThreadRunAdmission" where
  "example_admission run thread =
     \<lparr>ad_run_id = lit run, ad_workspace_id = lit ''w'', ad_profile_id = ProfileId (lit ''p''), ad_thread_id = lit thread,
      ad_thread_turn_id = lit ''turn'', ad_profile_revision = 1, ad_created_at_ms = 2\<rparr>"

definition example_draft :: ChildReturnDraft where
  "example_draft =
     \<lparr>cd_message_id = lit ''msg'', cd_workspace_id = lit ''w'', cd_child_thread_id = lit ''child'',
      cd_source_run_id = Some (lit ''r1''), cd_source_turn_id = Some (lit ''turn''), cd_kind = QuestionReturn,
      cd_payload = lit ''where?'', cd_artifact_refs = [], cd_created_at_ms = 3\<rparr>"

definition example_txs :: "MessageTx list" where
  "example_txs = [AdmitRun (Inr ()) (example_admission ''r1'' ''child'') [] [], PersistReturn (Inr ()) example_draft,
     AdmitRun (Inr ()) (example_admission ''r2'' ''home'') [lit ''msg''] [], SettleRun (Inr ()) (lit ''r2'') True 7]"

theorem thread_messages_safe_witness:
  "map mr_state (ms_returns (message_txs example_txs example_store)) = [Consumed] \<and>
   ms_returns (message_txs [PersistReturn (Inr ()) example_draft, DiscardRun (Inr ()) (lit ''r2'')] (message_txs example_txs example_store)) ! 0
     = ms_returns (message_txs example_txs example_store) ! 0"
proof -
  have "map mr_state (ms_returns (message_txs example_txs example_store)) = [Consumed]" by code_simp
  moreover from this have "0 < length (ms_returns (message_txs example_txs example_store))"
    "mr_state (ms_returns (message_txs example_txs example_store) ! 0) = Consumed"
    by (auto simp: map_eq_Cons_conv)
  moreover have "ms_admissions example_store = [] \<and> ms_returns example_store = [] \<and> ms_answers example_store = []"
    by (simp add: example_store_def)
  ultimately show ?thesis
    using thread_messages_safe [of example_store, OF _ refl refl, of example_txs, THEN conjunct1, rule_format, of 0
        "[PersistReturn (Inr ()) example_draft, DiscardRun (Inr ()) (lit ''r2'')]"]
    by simp
qed

end
