(* ===== verification/Thread_Returns.thy ===== *)
theory Thread_Returns
  imports Context_Hydration Message_Delivery "HOL-Library.AList" "HOL-Library.Code_Target_Nat"
begin

text \<open>
  Returns and answers between threads (\<open>daemon/returns.rs\<close>): the tool calls that persist them, the
  context a run of a thread is given of the messages that wait for it, and the reconciliation of a
  run's ledger with the store after the run ended or the daemon restarted. SHA-256, the JSON codecs and
  what the ledger and SQLite answer to each call are arguments. Waking the readers of a live thread
  changes no state.
\<close>

section \<open>Sequences of store calls\<close>

text \<open>\<open>and_then_in\<close> is \<open>?\<close> between calls that change the store.\<close>

fun and_then_in :: "'s \<times> ('e, 'a) result \<Rightarrow> ('a \<Rightarrow> 's \<Rightarrow> 's \<times> ('e, 'b) result) \<Rightarrow> 's \<times> ('e, 'b) result" where
  "and_then_in (s, Inl e) k = (s, Inl e)"
| "and_then_in (s, Inr x) k = k x s"

lemma and_then_in_Inr [result_simps]:
  "and_then_in p k = (s', Inr y) \<longleftrightarrow> (\<exists>s x. p = (s, Inr x) \<and> k x s = (s', Inr y))"
  by (cases "(p, k)" rule: and_then_in.cases) auto

lemma and_then_in_keeps:
  "P (fst p) \<Longrightarrow> (\<And>x s. p = (s, Inr x) \<Longrightarrow> P s \<Longrightarrow> P (fst (k x s))) \<Longrightarrow> P (fst (and_then_in p k))"
  by (cases "(p, k)" rule: and_then_in.cases) auto

section \<open>Persisting messages of tool calls\<close>

definition THREAD_RETURN :: rstr where "THREAD_RETURN = lit ''thread.return''"

definition THREAD_ANSWER :: rstr where "THREAD_ANSWER = lit ''thread.answer''"

datatype ThreadReturnToolKind = ProgressInput | QuestionInput

record ThreadReturnToolInput =
  ri_kind :: ThreadReturnToolKind
  ri_payload :: rstr
  ri_artifact_refs :: "rstr list"

datatype ParentAnswerToolKind = AnswerInput | FollowUpInput

record ParentAnswerToolInput =
  ai_child_thread_id :: rstr
  ai_kind :: ParentAnswerToolKind
  ai_payload :: rstr

datatype MessageToolOutput = Delivered rstr bool | RejectedOutput rstr rstr

record ChildReturnInvocation =
  iv_child_thread_id :: rstr
  iv_source_turn_id :: rstr
  iv_source_run_id :: rstr
  iv_call_id :: ToolCallId
  iv_created_at_ms :: u64

definition hex_digit :: "nat \<Rightarrow> rchar" where
  "hex_digit n = (if n < 10 then 48 + n else 87 + n)"

definition hex_byte :: "nat \<Rightarrow> rstr" where
  "hex_byte b = [hex_digit (b div 16), hex_digit (b mod 16)]"

type_synonym sha256 = "nat list \<Rightarrow> nat list"

definition stable_message_id :: "sha256 \<Rightarrow> rstr \<Rightarrow> rstr \<Rightarrow> rstr \<Rightarrow> rstr" where
  "stable_message_id sha pre first second =
     pre @ lit ''-'' @ concat (map hex_byte (take 12
       (sha (as_bytes pre @ [0] @ as_bytes first @ [0] @ as_bytes second))))"

definition delivered_output :: "'m MessageRow_scheme Persisted \<Rightarrow> MessageToolOutput" where
  "delivered_output p =
     (case p of Stored r \<Rightarrow> Delivered (mr_message_id r) False
      | Replayed r \<Rightarrow> Delivered (mr_message_id r) True
      | Rejected code reason \<Rightarrow> RejectedOutput code reason)"

definition run_artifacts :: "'v RecordedEvent list \<Rightarrow> rstr set" where
  "run_artifacts records = set (concat (map (\<lambda>rec.
     case re_event rec of HarnessEvent.ToolFinished _ result \<Rightarrow> map artifact_id_str (tr_artifacts result) | _ \<Rightarrow> []) records))"

definition return_draft :: "sha256 \<Rightarrow> rstr \<Rightarrow> ChildReturnInvocation \<Rightarrow> ThreadReturnToolInput \<Rightarrow> ChildReturnDraft" where
  "return_draft sha workspace_id call input =
     \<lparr>cd_message_id = stable_message_id sha (lit ''return'') (iv_source_run_id call) (tool_call_id_str (iv_call_id call)),
      cd_workspace_id = workspace_id, cd_child_thread_id = iv_child_thread_id call,
      cd_source_run_id = Some (iv_source_run_id call), cd_source_turn_id = Some (iv_source_turn_id call),
      cd_kind = (case ri_kind input of ProgressInput \<Rightarrow> ProgressReturn | QuestionInput \<Rightarrow> QuestionReturn),
      cd_payload = ri_payload input, cd_artifact_refs = ri_artifact_refs input, cd_created_at_ms = iv_created_at_ms call\<rparr>"

text \<open>\<open>read_run\<close> is what opening and reading the ledger answers where the artifacts are not known.\<close>

definition persist_child_tool_return :: "sha256 \<Rightarrow> rstr \<Rightarrow> msg_io \<Rightarrow> (AppError, 'v RecordedEvent list) result \<Rightarrow>
    ChildReturnInvocation \<Rightarrow> ThreadReturnToolInput \<Rightarrow> rstr set option \<Rightarrow> MessageStore \<Rightarrow>
    MessageStore \<times> (AppError, MessageToolOutput) result" where
  "persist_child_tool_return sha workspace_id io read_run call input known s =
     (case (case known of Some artifacts \<Rightarrow> Inr artifacts
            | None \<Rightarrow> and_then read_run (\<lambda>records. Inr (run_artifacts records))) of
        Inl e \<Rightarrow> (s, Inl e)
      | Inr artifacts \<Rightarrow>
          (case find (\<lambda>artifact. \<not> is_ok (ArtifactId_new artifact) \<or> artifact \<notin> artifacts) (ri_artifact_refs input) of
             Some bad \<Rightarrow> (s, Inr (RejectedOutput (lit ''artifact_denied'')
               (lit ''artifact is not owned by the source run: '' @ bad)))
           | None \<Rightarrow>
               (case persist_child_return io (return_draft sha workspace_id call input) s of
                  (s, Inl e) \<Rightarrow> (s, Inl e)
                | (s, Inr p) \<Rightarrow> (s, Inr (delivered_output p)))))"

definition answer_draft :: "sha256 \<Rightarrow> rstr \<Rightarrow> rstr \<Rightarrow> rstr \<Rightarrow> rstr \<Rightarrow> ToolCallId \<Rightarrow> ParentAnswerToolInput \<Rightarrow> u64 \<Rightarrow> ParentAnswerDraft" where
  "answer_draft sha workspace_id parent_thread_id source_turn_id source_run_id call_id input created_at_ms =
     \<lparr>pd_message_id = stable_message_id sha (lit ''answer'') source_run_id (tool_call_id_str call_id),
      pd_workspace_id = workspace_id, pd_parent_thread_id = parent_thread_id,
      pd_child_thread_id = ai_child_thread_id input, pd_source_run_id = source_run_id, pd_source_turn_id = source_turn_id,
      pd_kind = (case ai_kind input of AnswerInput \<Rightarrow> AnswerKind | FollowUpInput \<Rightarrow> FollowUpKind),
      pd_payload = ai_payload input, pd_created_at_ms = created_at_ms\<rparr>"

definition persist_parent_tool_answer :: "sha256 \<Rightarrow> rstr \<Rightarrow> msg_io \<Rightarrow> rstr \<Rightarrow> rstr \<Rightarrow> rstr \<Rightarrow> ToolCallId \<Rightarrow>
    ParentAnswerToolInput \<Rightarrow> u64 \<Rightarrow> MessageStore \<Rightarrow> MessageStore \<times> (AppError, MessageToolOutput) result" where
  "persist_parent_tool_answer sha workspace_id io parent_thread_id source_turn_id source_run_id call_id input created_at_ms s =
     (case persist_parent_answer io
         (answer_draft sha workspace_id parent_thread_id source_turn_id source_run_id call_id input created_at_ms) s of
        (s, Inl e) \<Rightarrow> (s, Inl e)
      | (s, Inr p) \<Rightarrow> (s, Inr (delivered_output p)))"

definition persist_required_child_return :: "msg_io \<Rightarrow> ChildReturnDraft \<Rightarrow> MessageStore \<Rightarrow> MessageStore \<times> (AppError, unit) result" where
  "persist_required_child_return io d s =
     (case persist_child_return io d s of
        (s, Inl e) \<Rightarrow> (s, Inl e)
      | (s, Inr (Rejected code reason)) \<Rightarrow>
          (s, Inl (ToolError (lit ''child terminal return rejected ('' @ code @ lit ''): '' @ reason)))
      | (s, Inr _) \<Rightarrow> (s, Inr ()))"

definition terminal_draft :: "sha256 \<Rightarrow> ThreadRunAdmission \<Rightarrow> ChildReturnKind \<Rightarrow> rstr \<Rightarrow> u64 \<Rightarrow> ChildReturnDraft" where
  "terminal_draft sha a kind payload created_at_ms =
     \<lparr>cd_message_id = stable_message_id sha (lit ''terminal'') (ad_thread_id a) (lit ''terminal''),
      cd_workspace_id = ad_workspace_id a, cd_child_thread_id = ad_thread_id a,
      cd_source_run_id = Some (ad_run_id a), cd_source_turn_id = Some (ad_thread_turn_id a), cd_kind = kind,
      cd_payload = payload, cd_artifact_refs = [], cd_created_at_ms = created_at_ms\<rparr>"

definition persist_terminal_return :: "sha256 \<Rightarrow> msg_io \<Rightarrow> ThreadRunAdmission \<Rightarrow> ChildReturnKind \<Rightarrow> rstr \<Rightarrow> u64 \<Rightarrow>
    MessageStore \<Rightarrow> MessageStore \<times> (AppError, unit) result" where
  "persist_terminal_return sha io a kind payload created_at_ms s =
     persist_required_child_return io (terminal_draft sha a kind payload created_at_ms) s"

definition persist_stopped_child :: "sha256 \<Rightarrow> rstr \<Rightarrow> msg_io \<Rightarrow> rstr \<Rightarrow> rstr option \<Rightarrow> u64 \<Rightarrow>
    MessageStore \<Rightarrow> MessageStore \<times> (AppError, unit) result" where
  "persist_stopped_child sha workspace_id io child_thread_id source_turn_id stopped_at_ms s =
     persist_required_child_return io
       \<lparr>cd_message_id = stable_message_id sha (lit ''terminal'') child_thread_id (lit ''stopped''),
        cd_workspace_id = workspace_id, cd_child_thread_id = child_thread_id, cd_source_run_id = None,
        cd_source_turn_id = source_turn_id, cd_kind = FailedReturn, cd_payload = lit ''child thread stopped'',
        cd_artifact_refs = [], cd_created_at_ms = stopped_at_ms\<rparr> s"

section \<open>Reconciling a run\<close>

record 'v return_json =
  parse_return :: "'v \<Rightarrow> ThreadReturnToolInput option"
  parse_answer :: "'v \<Rightarrow> ParentAnswerToolInput option"
  status_delivered :: "'v \<Rightarrow> bool"

record 'v ReconcileScan =
  sc_proposals :: "(rstr \<times> rstr \<times> 'v) list"
  sc_started :: "(rstr \<times> u64 \<times> rstr set) list"
  sc_completed :: "(rstr \<times> bool) list"
  sc_owned_artifacts :: "rstr set"
  sc_context_built_at :: "u64 option"
  sc_terminal :: "(ChildReturnKind \<times> u64 \<times> rstr) option"

definition scan_empty :: "'v ReconcileScan" where
  "scan_empty = \<lparr>sc_proposals = [], sc_started = [], sc_completed = [], sc_owned_artifacts = {},
     sc_context_built_at = None, sc_terminal = None\<rparr>"

definition scan_record :: "'v return_json \<Rightarrow> 'v ReconcileScan \<Rightarrow> 'v RecordedEvent \<Rightarrow> 'v ReconcileScan" where
  "scan_record js sc rec =
     (case re_event rec of
        HarnessEvent.ToolCallProposed _ _ call \<Rightarrow>
          (if tool_name_str (tc_tool call) \<in> {THREAD_RETURN, THREAD_ANSWER}
           then sc\<lparr>sc_proposals := AList.update (tool_call_id_str (tc_id call)) (tool_name_str (tc_tool call), tc_input call)
                  (sc_proposals sc)\<rparr>
           else sc)
      | HarnessEvent.ToolStarted _ call_id \<Rightarrow>
          sc\<lparr>sc_started := sc_started sc @ [(tool_call_id_str call_id, re_occurred_at_ms rec, sc_owned_artifacts sc)]\<rparr>
      | HarnessEvent.ToolFinished _ result \<Rightarrow>
          sc\<lparr>sc_completed := AList.update (tool_call_id_str (tr_call_id result)) (status_delivered js (tr_data result)) (sc_completed sc),
             sc_owned_artifacts := sc_owned_artifacts sc \<union> set (map artifact_id_str (tr_artifacts result))\<rparr>
      | HarnessEvent.ToolFailed _ call_id _ \<Rightarrow> sc\<lparr>sc_completed := AList.update (tool_call_id_str call_id) False (sc_completed sc)\<rparr>
      | HarnessEvent.ContextBuilt _ _ _ \<Rightarrow>
          (if sc_context_built_at sc = None then sc\<lparr>sc_context_built_at := Some (re_occurred_at_ms rec)\<rparr> else sc)
      | HarnessEvent.RunFinished _ \<Rightarrow> sc\<lparr>sc_terminal := Some (ResultReturn, re_occurred_at_ms rec, [])\<rparr>
      | HarnessEvent.RunFailed _ reason \<Rightarrow> sc\<lparr>sc_terminal := Some (FailedReturn, re_occurred_at_ms rec, reason)\<rparr>
      | _ \<Rightarrow> sc)"

definition scan_run :: "'v return_json \<Rightarrow> 'v RecordedEvent list \<Rightarrow> 'v ReconcileScan" where
  "scan_run js records = foldl (scan_record js) scan_empty records"

text \<open>The places of \<open>reconcile_run\<close> where it calls the store.\<close>

datatype ReconcileCall = AtAdmission | AtAuthority | AtMissing | AtCall nat | AtTerminal | AtSettle | AtDiscard

text \<open>One started call; the result is whether it delivered a question.\<close>

definition reconcile_call :: "sha256 \<Rightarrow> 'v return_json \<Rightarrow> rstr \<Rightarrow> msg_io \<Rightarrow> ThreadRunAdmission \<Rightarrow> 'v ReconcileScan \<Rightarrow>
    rstr \<times> u64 \<times> rstr set \<Rightarrow> MessageStore \<Rightarrow> MessageStore \<times> (AppError, bool) result" where
  "reconcile_call sha js workspace_id io a sc started s = (case started of (call_id, started_at_ms, allowed) \<Rightarrow>
     (case map_of (sc_proposals sc) call_id of
        None \<Rightarrow> (s, Inr False)
      | Some (tool, input) \<Rightarrow>
          if tool = THREAD_RETURN then
            (case parse_return js input of
               None \<Rightarrow> (s, Inr False)
             | Some input \<Rightarrow>
                 (case map_of (sc_completed sc) call_id of
                    Some delivered \<Rightarrow> (s, Inr (ri_kind input = QuestionInput \<and> delivered))
                  | None \<Rightarrow>
                      (case ToolCallId_new call_id of
                         Inl e \<Rightarrow> (s, Inl (Core e))
                       | Inr call_id \<Rightarrow>
                           (case persist_child_tool_return sha workspace_id io (Inr ([] :: 'v RecordedEvent list))
                               \<lparr>iv_child_thread_id = ad_thread_id a, iv_source_turn_id = ad_thread_turn_id a,
                                iv_source_run_id = ad_run_id a, iv_call_id = call_id, iv_created_at_ms = started_at_ms\<rparr>
                               input (Some allowed) s of
                              (s, Inl e) \<Rightarrow> (s, Inl e)
                            | (s, Inr output) \<Rightarrow>
                                (s, Inr (ri_kind input = QuestionInput \<and>
                                   (case output of Delivered _ _ \<Rightarrow> True | RejectedOutput _ _ \<Rightarrow> False)))))))
          else if tool = THREAD_ANSWER then
            (if map_of (sc_completed sc) call_id \<noteq> None then (s, Inr False)
             else case parse_answer js input of
               None \<Rightarrow> (s, Inr False)
             | Some input \<Rightarrow>
                 (case ToolCallId_new call_id of
                    Inl e \<Rightarrow> (s, Inl (Core e))
                  | Inr call_id \<Rightarrow>
                      (case persist_parent_tool_answer sha workspace_id io (ad_thread_id a) (ad_thread_turn_id a) (ad_run_id a)
                          call_id input started_at_ms s of
                         (s, Inl e) \<Rightarrow> (s, Inl e)
                       | (s, Inr _) \<Rightarrow> (s, Inr False))))
          else (s, Inr False)))"

fun reconcile_calls :: "sha256 \<Rightarrow> 'v return_json \<Rightarrow> rstr \<Rightarrow> (nat \<Rightarrow> msg_io) \<Rightarrow> ThreadRunAdmission \<Rightarrow> 'v ReconcileScan \<Rightarrow>
    (rstr \<times> u64 \<times> rstr set) list \<Rightarrow> bool \<Rightarrow> MessageStore \<Rightarrow> MessageStore \<times> (AppError, bool) result" where
  "reconcile_calls sha js workspace_id io a sc [] delivered_question s = (s, Inr delivered_question)"
| "reconcile_calls sha js workspace_id io a sc (c # cs) delivered_question s =
     and_then_in (reconcile_call sha js workspace_id (io 0) a sc c s) (\<lambda>question.
       reconcile_calls sha js workspace_id (io \<circ> Suc) a sc cs (delivered_question \<or> question))"

definition reconcile_terminal :: "sha256 \<Rightarrow> msg_io \<Rightarrow> bool \<Rightarrow> ThreadRunAdmission \<Rightarrow> 'v SessionRunRecords \<Rightarrow>
    'v ReconcileScan \<Rightarrow> bool \<Rightarrow> MessageStore \<Rightarrow> MessageStore \<times> (AppError, unit) result" where
  "reconcile_terminal sha io is_child a run sc delivered_question s =
     (case sc_terminal sc of
        Some (kind, at, payload) \<Rightarrow>
          (if is_child \<and> srr_status run \<noteq> RunStateName.Interrupted \<and> \<not> (kind = ResultReturn \<and> delivered_question)
           then persist_terminal_return sha io a kind
                  (if kind = ResultReturn then (case srr_final_answer run of None \<Rightarrow> [] | Some answer \<Rightarrow> answer) else payload) at s
           else (s, Inr ()))
      | None \<Rightarrow> (s, Inr ()))"

definition reconcile_run :: "sha256 \<Rightarrow> 'v return_json \<Rightarrow> rstr \<Rightarrow> (ReconcileCall \<Rightarrow> msg_io) \<Rightarrow>
    (AppError, 'v SessionRunRecords) result \<Rightarrow> rstr \<Rightarrow> MessageStore \<Rightarrow> MessageStore \<times> (AppError, unit) result" where
  "reconcile_run sha js workspace_id io read_session_run run_id s =
     guard_ok (io AtAdmission) s
     (case thread_run_admission_by_id s run_id of
        None \<Rightarrow> (s, Inr ())
      | Some a \<Rightarrow>
          guard_ok (io AtAuthority) s
          (let is_child = (case authority_row s (ad_thread_id a) of None \<Rightarrow> False | Some (_, t) \<Rightarrow> ta_thread_kind t = Child)
           in case read_session_run of
             Inl (RunNotFound _) \<Rightarrow> discard_thread_run_admission (io AtMissing) run_id s
           | Inl e \<Rightarrow> (s, Inl e)
           | Inr run \<Rightarrow>
               let sc = scan_run js (srr_records run)
               in and_then_in (reconcile_calls sha js workspace_id (io \<circ> AtCall) a sc (sc_started sc) False s) (\<lambda>delivered_question s.
                  and_then_in (reconcile_terminal sha (io AtTerminal) is_child a run sc delivered_question s) (\<lambda>_ s.
                  and_then_in (settle_thread_run_deliveries (io AtSettle) run_id
                      (sc_context_built_at sc \<noteq> None \<and> srr_status run \<noteq> RunStateName.Interrupted)
                      (case sc_context_built_at sc of None \<Rightarrow> 0 | Some at \<Rightarrow> at) s) (\<lambda>_ s.
                    if sc_terminal sc \<noteq> None then discard_thread_run_admission (io AtDiscard) run_id s
                    else (s, Inr ()))))))"

fun each_in_turn :: "('a \<Rightarrow> 's \<Rightarrow> 's \<times> ('e, unit) result) \<Rightarrow> 'a list \<Rightarrow> 's \<Rightarrow> 's \<times> ('e, unit) result" where
  "each_in_turn f [] s = (s, Inr ())"
| "each_in_turn f (x # xs) s = and_then_in (f x s) (\<lambda>_. each_in_turn f xs)"

definition reconcile_workspace :: "sha256 \<Rightarrow> 'v return_json \<Rightarrow> rstr \<Rightarrow> msg_io \<Rightarrow> (rstr \<Rightarrow> ReconcileCall \<Rightarrow> msg_io) \<Rightarrow>
    (rstr \<Rightarrow> (AppError, 'v SessionRunRecords) result) \<Rightarrow> msg_io \<Rightarrow> (rstr \<Rightarrow> msg_io) \<Rightarrow>
    MessageStore \<Rightarrow> MessageStore \<times> (AppError, unit) result" where
  "reconcile_workspace sha js workspace_id list_io run_io read_session_run stopped_io child_io s =
     (case thread_run_admissions list_io s workspace_id of
        Inl e \<Rightarrow> (s, Inl e)
      | Inr admissions \<Rightarrow>
          and_then_in (each_in_turn (\<lambda>a. reconcile_run sha js workspace_id (run_io (ad_run_id a)) (read_session_run (ad_run_id a)) (ad_run_id a))
              admissions s) (\<lambda>_ s.
               (case stopped_children_without_terminal stopped_io s workspace_id of
                  Inl e \<Rightarrow> (s, Inl e)
                | Inr stopped \<Rightarrow>
                    each_in_turn (\<lambda>(thread_id, turn_id, at). persist_stopped_child sha workspace_id (child_io thread_id) thread_id turn_id at)
                      stopped s)))"

section \<open>What reconciliation does to the tables\<close>

definition appends :: "MessageStore \<Rightarrow> MessageStore \<Rightarrow> bool" where
  "appends s s' \<longleftrightarrow> (\<exists>R N. s' = s\<lparr>ms_returns := ms_returns s @ R, ms_answers := ms_answers s @ N\<rparr> \<and>
     (\<forall>r \<in> set R. mr_state r = Available) \<and> (\<forall>r \<in> set N. mr_state r = Available))"

lemma appends_refl [simp]: "appends s s"
  unfolding appends_def by (intro exI [of _ "[]"]) simp

lemma appends_trans: "appends s s' \<Longrightarrow> appends s' s'' \<Longrightarrow> appends s s''"
  unfolding appends_def by (elim exE conjE, hypsubst) (auto intro!: exI)

lemma appends_return: "mr_state r = Available \<Longrightarrow> appends s (s\<lparr>ms_returns := ms_returns s @ [r]\<rparr>)"
  unfolding appends_def by (intro exI [of _ "[r]"] exI [of _ "[]"]) simp

lemma appends_answer: "mr_state r = Available \<Longrightarrow> appends s (s\<lparr>ms_answers := ms_answers s @ [r]\<rparr>)"
  unfolding appends_def by (intro exI [of _ "[]"] exI [of _ "[r]"]) simp

lemma persist_child_return_appends:
  assumes "persist_child_return io d s = (s', answer)"
  shows "appends s s'"
  using assms
proof (cases rule: persist_child_return_cases)
  case (2 row)
  from 2(4) have "mr_state row = Available"
    by (rule stored_return_row) (simp add: child_return_row_def)
  then show ?thesis unfolding 2(1) by (rule appends_return)
qed simp

lemma persist_parent_answer_appends:
  assumes "persist_parent_answer io d s = (s', answer)"
  shows "appends s s'"
  using assms
proof (cases rule: persist_parent_answer_cases)
  case (2 edge revision)
  then show ?thesis by (simp add: appends_answer parent_answer_row_def)
qed simp

text \<open>Each step keeps the invariant, whether it succeeds or fails, and only appends rows.\<close>

abbreviation appends_safely :: "MessageStore \<Rightarrow> MessageStore \<Rightarrow> bool" where
  "appends_safely s s' \<equiv> appends s s' \<and> (messages_wf s \<longrightarrow> messages_keep s s')"

lemma appends_safely_trans: "appends_safely s s' \<Longrightarrow> appends_safely s' s'' \<Longrightarrow> appends_safely s s''"
  using appends_trans evolves_trans by (metis (no_types, lifting))

lemma persist_child_return_safely: "persist_child_return io d s = (s', answer) \<Longrightarrow> appends_safely s s'"
  using persist_child_return_appends persist_child_return_keep by (metis fst_conv)

lemma persist_parent_answer_safely: "persist_parent_answer io d s = (s', answer) \<Longrightarrow> appends_safely s s'"
  using persist_parent_answer_appends persist_parent_answer_keep by (metis fst_conv)

lemma persist_tool_safely:
  "persist_child_tool_return sha ws io read_run call input known s = (s', answer) \<Longrightarrow> appends_safely s s'"
  "persist_parent_tool_answer sha ws io parent turn run call_id answer_input at s = (s', answer) \<Longrightarrow> appends_safely s s'"
  "persist_required_child_return io d s = (s', outcome) \<Longrightarrow> appends_safely s s'"
  by (auto simp: persist_child_tool_return_def persist_parent_tool_answer_def persist_required_child_return_def
      split: sum.splits option.splits prod.splits Persisted.splits
      dest!: persist_child_return_safely persist_parent_answer_safely)

lemma reconcile_call_safely: "reconcile_call sha js ws io a sc c s = (s', answer) \<Longrightarrow> appends_safely s s'"
  by (auto simp: reconcile_call_def split: prod.splits option.splits if_splits sum.splits dest!: persist_tool_safely)

lemma reconcile_calls_safely: "appends_safely s (fst (reconcile_calls sha js ws io a sc cs dq s))"
proof (induction cs arbitrary: io dq s)
  case (Cons c cs)
  have "appends_safely s (fst (reconcile_call sha js ws (io 0) a sc c s))"
    by (rule reconcile_call_safely [OF prod.collapse [symmetric]])
  then show ?case
    unfolding reconcile_calls.simps
    by (rule and_then_in_keeps [where P = "appends_safely s"]) (rule appends_safely_trans [OF _ Cons.IH])
qed simp

lemma reconcile_terminal_safely: "reconcile_terminal sha io is_child a run sc dq s = (s', answer) \<Longrightarrow> appends_safely s s'"
  by (auto simp: reconcile_terminal_def persist_terminal_return_def split: option.splits prod.splits if_splits dest!: persist_tool_safely)

lemma keep_trans: "messages_keep s s' \<Longrightarrow> (messages_wf s' \<Longrightarrow> messages_keep s' s'') \<Longrightarrow> messages_keep s s''"
  using evolves_trans by (metis (no_types, lifting))

text \<open>The parts of a reconciliation whose ledger could be read.\<close>

lemma reconcile_run_parts:
  assumes "reconcile_run sha js ws io (Inr run) run_id s = (s', Inr ())"
    and "thread_run_admission_by_id s run_id = Some a"
  defines "sc \<equiv> scan_run js (srr_records run)"
  obtains s1 s2 s3 dq where
    "reconcile_calls sha js ws (io \<circ> AtCall) a sc (sc_started sc) False s = (s1, Inr dq)"
    "reconcile_terminal sha (io AtTerminal) (case authority_row s (ad_thread_id a) of None \<Rightarrow> False | Some (_, t) \<Rightarrow> ta_thread_kind t = Child)
       a run sc dq s1 = (s2, Inr ())"
    "settle_thread_run_deliveries (io AtSettle) run_id (sc_context_built_at sc \<noteq> None \<and> srr_status run \<noteq> RunStateName.Interrupted)
       (case sc_context_built_at sc of None \<Rightarrow> 0 | Some at \<Rightarrow> at) s2 = (s3, Inr ())"
    "if sc_terminal sc = None then s' = s3 else discard_thread_run_admission (io AtDiscard) run_id s3 = (s', Inr ())"
  using assms unfolding reconcile_run_def sc_def
  by (auto simp: result_simps Let_def split: prod.splits sum.splits if_splits)

lemma reconcile_run_keep:
  assumes "messages_wf s"
  shows "messages_keep s (fst (reconcile_run sha js ws io read_run run_id s))"
proof -
  have settle: "messages_wf s \<Longrightarrow> messages_keep s (fst (settle_thread_run_deliveries io' run_id c t s))"
    and discard: "messages_wf s \<Longrightarrow> messages_keep s (fst (discard_thread_run_admission io' run_id s))" for s io' c t
    using settle_wf [OF _ prod.collapse [symmetric]] discard_wf [OF _ prod.collapse [symmetric]] by blast+
  have calls: "messages_wf s \<Longrightarrow> messages_keep s (fst (reconcile_calls sha js ws io' a sc cs dq s))"
    and terminal: "messages_wf s \<Longrightarrow> messages_keep s (fst (reconcile_terminal sha io'' child a run sc dq s))" for s io' io'' a sc cs dq child run
    using reconcile_calls_safely reconcile_terminal_safely [OF prod.collapse [symmetric]] by blast+
  have rest: "messages_keep s (fst (and_then_in (reconcile_calls sha js ws (io \<circ> AtCall) a sc (sc_started sc) False s) (\<lambda>dq s.
      and_then_in (reconcile_terminal sha (io AtTerminal) child a run sc dq s) (\<lambda>_ s.
      and_then_in (settle_thread_run_deliveries (io AtSettle) run_id c t s) (\<lambda>_ s.
        if ends then discard_thread_run_admission (io AtDiscard) run_id s else (s, Inr ()))))))" for a sc child run c t ends
    by (intro and_then_in_keeps [where P = "messages_keep s"])
      (auto intro!: keep_trans [OF _ terminal] keep_trans [OF _ settle] keep_trans [OF _ discard] simp: calls [OF assms])
  have guarded: "messages_keep s (fst k) \<Longrightarrow> messages_keep s (fst (guard_ok r s k))" for r and k :: "MessageStore \<times> (AppError, unit) result"
    using assms by (cases r) auto
  show ?thesis
  proof (cases "thread_run_admission_by_id s run_id")
    case (Some a)
    then show ?thesis
      unfolding reconcile_run_def Let_def
      by (cases read_run; (cases "projl read_run")?) (intro guarded, simp add: assms rest discard [OF assms])+
  qed (unfold reconcile_run_def, intro guarded, simp add: assms)
qed

lemma update_reserved_again:
  assumes "\<And>r. mr_state (f r) \<noteq> Reserved"
  shows "update_reserved a g (update_reserved a f rows) = update_reserved a f rows"
  using assms by (auto simp: update_reserved_def reserved_by_def)

lemma update_reserved_append: "update_reserved a f (rows @ new) = update_reserved a f rows @ update_reserved a f new"
  by (simp add: update_reserved_def)

lemma update_reserved_available: "\<forall>r \<in> set rows. mr_state r = Available \<Longrightarrow> update_reserved a f rows = rows"
  by (induction rows) (auto simp: update_reserved_def reserved_by_def)

definition settled_row :: "bool \<Rightarrow> u64 \<Rightarrow> 'm MessageRow_scheme \<Rightarrow> 'm MessageRow_scheme" where
  "settled_row consumed at_ms = (if consumed then consume_row at_ms else release_row)"

lemma settle_ok:
  assumes "settle_thread_run_deliveries io run_id c t s = (s', Inr ())" and "thread_run_admission_by_id s run_id = Some a"
  shows "s' = s\<lparr>ms_returns := update_reserved a (settled_row c t) (ms_returns s),
    ms_answers := update_reserved a (settled_row c t) (ms_answers s)\<rparr>"
  using assms by (auto simp: settle_thread_run_deliveries_def settled_row_def split: sum.splits if_splits)

lemma settled_not_reserved: "mr_state (settled_row c t r) \<noteq> Reserved"
  by (simp add: settled_row_def)

lemma directory_tables [simp]:
  "granted_spawns (s\<lparr>ms_returns := R\<rparr>) = granted_spawns s" "granted_spawns (s\<lparr>ms_answers := N\<rparr>) = granted_spawns s"
  "authority_row (s\<lparr>ms_returns := R\<rparr>) = authority_row s" "authority_row (s\<lparr>ms_answers := N\<rparr>) = authority_row s"
  "thread_run_admission_by_id (s\<lparr>ms_returns := R\<rparr>) = thread_run_admission_by_id s"
  "thread_run_admission_by_id (s\<lparr>ms_answers := N\<rparr>) = thread_run_admission_by_id s"
  by (simp_all add: granted_spawns_def [abs_def] authority_row_def [abs_def] thread_run_admission_by_id_def [abs_def])

lemma child_edge_tables [simp]:
  "child_edge_from (s\<lparr>ms_returns := R\<rparr>) w c = child_edge_from s w c"
  "child_edge_from (s\<lparr>ms_answers := N\<rparr>) w c = child_edge_from s w c"
  by (simp_all only: child_edge_from_def directory_tables)

lemma message_by_id_Some: "message_by_id rows m = Some r \<Longrightarrow> r \<in> set rows"
  by (auto simp: message_by_id_def find_Some_iff)

lemma terminal_decision:
  assumes "is_terminal_kind (cd_kind d)" and "child_return_decision s d = Inr (Replayed r)"
  shows "\<exists>edge. child_edge_from s (cd_workspace_id d) (cd_child_thread_id d) = Inr (Some edge) \<and>
    terminal_child_return s (se_spawn_id edge) \<noteq> None"
proof -
  obtain edge where edge: "child_edge_from s (cd_workspace_id d) (cd_child_thread_id d) = Inr (Some edge)"
  proof (cases "child_edge_from s (cd_workspace_id d) (cd_child_thread_id d)")
    case (Inr found)
    then show ?thesis
      using assms that by (cases found) (simp_all add: child_return_decision_def split: prod.splits)
  qed (use assms in \<open>simp add: child_return_decision_def split: prod.splits\<close>)
  have "terminal_child_return s (se_spawn_id edge) \<noteq> None"
  proof
    assume none: "terminal_child_return s (se_spawn_id edge) = None"
    then obtain revision payload truncated where "r \<in> set (ms_returns s)" "child_return_matches r d edge revision payload truncated"
      using assms edge
      by (auto simp: child_return_decision_def result_simps Let_def dest!: message_by_id_Some split: option.splits prod.splits if_splits)
    then show False using none assms(1) by (auto simp: child_return_matches_def terminal_child_return_None)
  qed
  then show ?thesis using edge by blast
qed

lemma required_return_terminal:
  assumes "persist_required_child_return io d s = (s', Inr ())" and "is_terminal_kind (cd_kind d)"
  shows "\<exists>edge. child_edge_from s (cd_workspace_id d) (cd_child_thread_id d) = Inr (Some edge) \<and>
    terminal_child_return s' (se_spawn_id edge) \<noteq> None"
proof -
  obtain p where p: "persist_child_return io d s = (s', Inr p)" "\<nexists>code reason. p = Rejected code reason"
    using assms(1) by (auto simp: persist_required_child_return_def split: prod.splits sum.splits Persisted.splits)
  show ?thesis
    using p(1)
  proof (cases rule: persist_child_return_cases)
    case 1
    then have "child_return_decision s d = Inr p"
      using p by (auto simp: persist_child_return_def result_simps split: if_splits sum.splits Persisted.splits)
    then show ?thesis
      using p(2) 1 terminal_decision [OF assms(2)] by (cases p) auto
  next
    case (2 row)
    from 2(4) show ?thesis
    proof (cases rule: stored_return_row)
      case (1 edge revision truncated)
      then have "mr_spawn_id row = se_spawn_id edge" "is_terminal_kind (cr_kind row)" using assms(2) by auto
      then show ?thesis using 1(5) 2(1) by (auto simp: terminal_child_return_None)
    qed
  qed
qed

lemma evolves_terminal:
  assumes "evolves (ms_returns s) (ms_returns s')" and "terminal_child_return s spawn \<noteq> None"
  shows "terminal_child_return s' spawn \<noteq> None"
proof -
  obtain i where i: "i < length (ms_returns s)" "mr_spawn_id (ms_returns s ! i) = spawn" "is_terminal_kind (cr_kind (ms_returns s ! i))"
    using assms(2) by (auto simp: terminal_child_return_None in_set_conv_nth)
  have "later (ms_returns s ! i) (ms_returns s' ! i)" "i < length (ms_returns s')"
    using evolves_nth [OF assms(1) i(1)] evolves_length [OF assms(1)] i(1) by auto
  then show ?thesis
    using i(2,3) content_columns(3) content_kind unfolding terminal_child_return_None later_def by (metis nth_mem)
qed

lemma scan_terminal: "sc_terminal (scan_run js records) = Some (kind, at, payload) \<Longrightarrow> is_terminal_kind kind"
proof (induction records rule: rev_induct)
  case (snoc rec records)
  then show ?case by (auto simp: scan_run_def scan_record_def split: HarnessEvent.splits if_splits)
qed (simp add: scan_run_def scan_empty_def)

lemma reconcile_call_no_question:
  assumes "\<forall>x \<in> set (sc_proposals sc). fst (snd x) \<noteq> THREAD_RETURN" and "reconcile_call sha js ws io a sc c s = (s', Inr q)"
  shows "\<not> q"
  using assms
  by (auto simp: reconcile_call_def split: prod.splits option.splits if_splits sum.splits dest!: map_of_SomeD)

lemma reconcile_calls_no_question:
  "\<forall>x \<in> set (sc_proposals sc). fst (snd x) \<noteq> THREAD_RETURN \<Longrightarrow> reconcile_calls sha js ws io a sc cs dq s = (s', Inr q) \<Longrightarrow> q = dq"
proof (induction cs arbitrary: io dq s)
  case (Cons c cs)
  then obtain s1 q1 where "reconcile_call sha js ws (io 0) a sc c s = (s1, Inr q1)"
      "reconcile_calls sha js ws (io \<circ> Suc) a sc cs (dq \<or> q1) s1 = (s', Inr q)"
    by (auto simp: result_simps)
  then show ?case using Cons.IH Cons.prems(1) reconcile_call_no_question by blast
qed simp

abbreviation settled_by :: "'v return_json \<Rightarrow> 'v SessionRunRecords \<Rightarrow> 'm MessageRow_scheme \<Rightarrow> 'm MessageRow_scheme" where
  "settled_by js run \<equiv> settled_row
     (sc_context_built_at (scan_run js (srr_records run)) \<noteq> None \<and> srr_status run \<noteq> RunStateName.Interrupted)
     (case sc_context_built_at (scan_run js (srr_records run)) of None \<Rightarrow> 0 | Some at \<Rightarrow> at)"

lemma reconcile_run_tables:
  assumes "thread_run_admission_by_id s run_id = Some a" and "reconcile_run sha js ws io (Inr run) run_id s = (s', Inr ())"
  obtains s1 dq R N where
    "reconcile_calls sha js ws (io \<circ> AtCall) a (scan_run js (srr_records run)) (sc_started (scan_run js (srr_records run))) False s = (s1, Inr dq)"
    "reconcile_terminal sha (io AtTerminal) (case authority_row s (ad_thread_id a) of None \<Rightarrow> False | Some (_, t) \<Rightarrow> ta_thread_kind t = Child)
       a run (scan_run js (srr_records run)) dq s1 = (s\<lparr>ms_returns := ms_returns s @ R, ms_answers := ms_answers s @ N\<rparr>, Inr ())"
    "\<forall>r \<in> set R. mr_state r = Available" "\<forall>r \<in> set N. mr_state r = Available"
    "s' = s\<lparr>ms_returns := update_reserved a (settled_by js run) (ms_returns s) @ R,
       ms_answers := update_reserved a (settled_by js run) (ms_answers s) @ N,
       ms_admissions := if sc_terminal (scan_run js (srr_records run)) = None then ms_admissions s
         else filter (\<lambda>b. ad_run_id b \<noteq> run_id) (ms_admissions s)\<rparr>"
proof -
  let ?sc = "scan_run js (srr_records run)"
  obtain s1 s2 s3 dq where parts:
    "reconcile_calls sha js ws (io \<circ> AtCall) a ?sc (sc_started ?sc) False s = (s1, Inr dq)"
    "reconcile_terminal sha (io AtTerminal) (case authority_row s (ad_thread_id a) of None \<Rightarrow> False | Some (_, t) \<Rightarrow> ta_thread_kind t = Child)
       a run ?sc dq s1 = (s2, Inr ())"
    "settle_thread_run_deliveries (io AtSettle) run_id (sc_context_built_at ?sc \<noteq> None \<and> srr_status run \<noteq> RunStateName.Interrupted)
       (case sc_context_built_at ?sc of None \<Rightarrow> 0 | Some at \<Rightarrow> at) s2 = (s3, Inr ())"
    "if sc_terminal ?sc = None then s' = s3 else discard_thread_run_admission (io AtDiscard) run_id s3 = (s', Inr ())"
    by (rule reconcile_run_parts [OF assms(2,1)])
  have "appends s s2"
    using reconcile_calls_safely [of s sha js ws "io \<circ> AtCall" a ?sc "sc_started ?sc" False] reconcile_terminal_safely [OF parts(2)]
    by (auto simp: parts(1) intro: appends_trans)
  then obtain R N where s2: "s2 = s\<lparr>ms_returns := ms_returns s @ R, ms_answers := ms_answers s @ N\<rparr>"
      "\<forall>r \<in> set R. mr_state r = Available" "\<forall>r \<in> set N. mr_state r = Available"
    by (auto simp: appends_def)
  have s3: "s3 = s\<lparr>ms_returns := update_reserved a (settled_by js run) (ms_returns s) @ R,
      ms_answers := update_reserved a (settled_by js run) (ms_answers s) @ N\<rparr>"
    using settle_ok [OF parts(3), of a] assms(1) by (simp add: s2 update_reserved_append update_reserved_available)
  have "s' = s3\<lparr>ms_admissions := if sc_terminal ?sc = None then ms_admissions s
      else filter (\<lambda>b. ad_run_id b \<noteq> run_id) (ms_admissions s)\<rparr>"
    using parts(4) assms(1) admission_found [OF assms(1)]
    by (auto simp: discard_thread_run_admission_def s3 update_reserved_append update_reserved_available s2(2,3)
        update_reserved_again settled_not_reserved split: if_splits sum.splits)
  then show thesis using that parts(1,2) s2 s3 by simp
qed

text \<open>Whether a child's run owes its parent a terminal return.\<close>

definition owes_terminal :: "'v return_json \<Rightarrow> 'v SessionRunRecords \<Rightarrow> bool" where
  "owes_terminal js run \<longleftrightarrow> srr_status run \<noteq> RunStateName.Interrupted \<and>
     (case sc_terminal (scan_run js (srr_records run)) of
        None \<Rightarrow> False
      | Some (kind, _, _) \<Rightarrow> kind = FailedReturn \<or>
          (\<forall>x \<in> set (sc_proposals (scan_run js (srr_records run))). fst (snd x) \<noteq> THREAD_RETURN))"

lemma reconciled_terminal:
  assumes calls: "reconcile_calls sha js ws io a (scan_run js (srr_records run)) cs False s = (s1, Inr dq)"
    and ter: "reconcile_terminal sha io' True a run (scan_run js (srr_records run)) dq s1 = (s2, Inr ())"
    and owes: "owes_terminal js run"
  shows "\<exists>edge. child_edge_from s (ad_workspace_id a) (ad_thread_id a) = Inr (Some edge) \<and>
    terminal_child_return s2 (se_spawn_id edge) \<noteq> None"
proof -
  obtain kind at payload where t: "sc_terminal (scan_run js (srr_records run)) = Some (kind, at, payload)"
      "srr_status run \<noteq> RunStateName.Interrupted"
      "kind = FailedReturn \<or> (\<forall>x \<in> set (sc_proposals (scan_run js (srr_records run))). fst (snd x) \<noteq> THREAD_RETURN)"
    using owes by (auto simp: owes_terminal_def split: option.splits)
  have "\<not> (kind = ResultReturn \<and> dq)" using t(3) reconcile_calls_no_question [OF _ calls] by auto
  then obtain final where "persist_required_child_return io' (terminal_draft sha a kind final at) s1 = (s2, Inr ())"
    using ter t by (auto simp: reconcile_terminal_def persist_terminal_return_def)
  then have "\<exists>edge. child_edge_from s1 (ad_workspace_id a) (ad_thread_id a) = Inr (Some edge) \<and>
      terminal_child_return s2 (se_spawn_id edge) \<noteq> None"
    using required_return_terminal scan_terminal [OF t(1)] by (fastforce simp: terminal_draft_def)
  moreover have "child_edge_from s1 = child_edge_from s"
    using reconcile_calls_safely [of s sha js ws io a "scan_run js (srr_records run)" cs False]
    by (auto simp: calls appends_def fun_eq_iff)
  ultimately show ?thesis by simp
qed


text \<open>The child's run was given an answer, built its context and failed before the daemon stopped.\<close>

definition failed_child_run :: "unit SessionRunRecords" where
  "failed_child_run =
     \<lparr>srr_run_id = lit ''r1'', srr_session_index = 0, srr_question = [], srr_status = RunStateName.Failed, srr_final_answer = None,
      srr_records =
        [\<lparr>re_seq = 1, re_occurred_at_ms = 5, re_event = ContextBuilt (RunId (lit ''r1'')) (TurnId (lit ''t''))
           \<lparr>cp_token_budget = 0, cp_fragments = []\<rparr>\<rparr>,
         \<lparr>re_seq = 2, re_occurred_at_ms = 6, re_event = RunFailed (RunId (lit ''r1'')) (lit ''crash'')\<rparr>]\<rparr>"

definition waiting_store :: MessageStore where
  "waiting_store = example_store\<lparr>ms_admissions := [example_admission ''r1'' ''child''],
     ms_answers := [reserve_row (example_admission ''r1'' ''child'')
       (parent_answer_row \<lparr>pd_message_id = lit ''a'', pd_workspace_id = lit ''w'', pd_parent_thread_id = lit ''home'',
          pd_child_thread_id = lit ''child'', pd_source_run_id = lit ''r0'', pd_source_turn_id = lit ''turn'', pd_kind = AnswerKind,
          pd_payload = lit ''there'', pd_created_at_ms = 2\<rparr>
          \<lparr>se_spawn_id = lit ''spawn'', se_profile_id = ProfileId (lit ''p''), se_profile_revision = 1, se_parent_thread_id = lit ''home''\<rparr>
          1 1)]\<rparr>"

definition example_json :: "unit return_json" where
  "example_json = \<lparr>parse_return = (\<lambda>_. None), parse_answer = (\<lambda>_. None), status_delivered = (\<lambda>_. False)\<rparr>"

lemma waiting_store_wf: "messages_wf waiting_store"
  by (simp add: messages_wf_def waiting_store_def example_store_def delivery_ok_def reserve_row_def parent_answer_row_def
      example_admission_def reserved_by_def MAX_CHILD_RETURN_PAYLOAD_BYTES_def) code_simp


end
