(* ===== verification/Edge_Context.thy ===== *)
theory Edge_Context
  imports Thread_Returns
begin

text \<open>
  The context a run is given of the messages that wait for its thread (\<open>admit_spawn_edge_context\<close> and
  \<open>select_context\<close> of \<open>daemon/returns.rs\<close>): as many of the oldest messages as the token lane holds, the
  first one cut if it alone is too long, rendered inside one tagged wrapper, and reserved for the run. The
  JSON text of the selection is an argument.
\<close>

section \<open>Rendering\<close>

definition SPAWN_EDGE_CONTEXT_OPEN :: rstr where
  "SPAWN_EDGE_CONTEXT_OPEN = lit ''<platonic_spawn_edge_context trust='' @ 34 # lit ''untrusted'' @ [34, 62, 10]"

definition SPAWN_EDGE_CONTEXT_CLOSE :: rstr where
  "SPAWN_EDGE_CONTEXT_CLOSE = 10 # lit ''</platonic_spawn_edge_context>''"

definition EDGE_CLOSE_PREFIX :: rstr where
  "EDGE_CLOSE_PREFIX = lit ''</platonic_spawn_edge_context''"

definition neutralize_context_closers :: "rstr \<Rightarrow> rstr" where
  "neutralize_context_closers body = neutralize_closers EDGE_CLOSE_PREFIX body"

interpretation edge_tag: closing_tag EDGE_CLOSE_PREFIX "lit ''platonic_spawn_edge_context''"
  by unfold_locales (code_simp, code_simp, code_simp)

record 'r EdgeValue =
  ev_record :: 'r
  ev_payload :: rstr
  ev_context_truncated :: bool
  ev_reserved_by_run_id :: rstr
  ev_reserved_by_turn_id :: rstr

definition context_value :: "'r \<Rightarrow> ThreadRunAdmission \<Rightarrow> rstr \<Rightarrow> bool \<Rightarrow> 'r EdgeValue" where
  "context_value row a payload context_truncated =
     \<lparr>ev_record = row, ev_payload = payload, ev_context_truncated = context_truncated,
      ev_reserved_by_run_id = ad_run_id a, ev_reserved_by_turn_id = ad_thread_turn_id a\<rparr>"

type_synonym edge_json = "rstr \<Rightarrow> rstr \<Rightarrow> ChildReturnRecord EdgeValue list \<Rightarrow> ParentAnswerRecord EdgeValue list \<Rightarrow>
  (AppError, rstr) result"

definition render_context :: "edge_json \<Rightarrow> ThreadRunAdmission \<Rightarrow> ChildReturnRecord EdgeValue list \<Rightarrow>
    ParentAnswerRecord EdgeValue list \<Rightarrow> ChildReturnRecord EdgeValue option \<Rightarrow> ParentAnswerRecord EdgeValue option \<Rightarrow>
    (AppError, rstr) result" where
  "render_context ej a returns answers next_return next_answer =
     and_then (ej (ad_run_id a) (ad_thread_turn_id a)
         (returns @ (case next_return of None \<Rightarrow> [] | Some v \<Rightarrow> [v])) (answers @ (case next_answer of None \<Rightarrow> [] | Some v \<Rightarrow> [v])))
       (\<lambda>body. Inr (SPAWN_EDGE_CONTEXT_OPEN @ neutralize_context_closers body @ SPAWN_EDGE_CONTEXT_CLOSE))"

definition context_fits :: "'v context_json \<Rightarrow> 'v ModelMessage list \<times> u32 \<Rightarrow> rstr \<Rightarrow> bool" where
  "context_fits js prepared rendered = is_ok (snd (add_spawn_edge_context js (fst prepared) (snd prepared) rendered))"

section \<open>Cutting a payload\<close>

text \<open>The boundaries of a text are its prefixes of \<open>0\<close> to all characters.\<close>

function truncate_loop :: "(rstr \<Rightarrow> (AppError, 'b \<times> bool) result) \<Rightarrow> rstr \<Rightarrow> nat \<Rightarrow> nat \<Rightarrow> 'b option \<Rightarrow> (AppError, 'b option) result" where
  "truncate_loop candidate payload low high best =
     (if low \<le> high then
        let middle = low + (high - low) div 2
        in and_then (candidate (take middle payload)) (\<lambda>(value, fits).
             if fits then truncate_loop candidate payload (middle + 1) high (Some value)
             else if middle = 0 then Inr best
             else truncate_loop candidate payload low (middle - 1) best)
      else Inr best)"
  by pat_completeness auto
termination
  by (relation "measure (\<lambda>(_, _, low, high, _). Suc high - low)") auto

declare truncate_loop.simps [simp del]

definition truncate_context_payload :: "rstr \<Rightarrow> (rstr \<Rightarrow> (AppError, 'b \<times> bool) result) \<Rightarrow> (AppError, 'b) result" where
  "truncate_context_payload payload candidate =
     and_then (truncate_loop candidate payload 0 (length payload) None) (\<lambda>best.
       case best of
         Some value \<Rightarrow> Inr value
       | None \<Rightarrow> Inl (Config (lit ''spawn-edge provenance exceeds its '' @ decimal SPAWN_EDGE_CONTEXT_TOKEN_BUDGET @ lit ''-token lane'')))"

definition truncated_return_value :: "'v context_json \<Rightarrow> edge_json \<Rightarrow> 'v ModelMessage list \<times> u32 \<Rightarrow> ThreadRunAdmission \<Rightarrow>
    ChildReturnRecord \<Rightarrow> (AppError, ChildReturnRecord EdgeValue) result" where
  "truncated_return_value js ej prepared a row =
     truncate_context_payload (mr_payload row) (\<lambda>payload.
       let value = context_value row a payload True
       in and_then (render_context ej a [] [] (Some value) None) (\<lambda>rendered. Inr (value, context_fits js prepared rendered)))"

definition truncated_answer_value :: "'v context_json \<Rightarrow> edge_json \<Rightarrow> 'v ModelMessage list \<times> u32 \<Rightarrow> ThreadRunAdmission \<Rightarrow>
    ParentAnswerRecord \<Rightarrow> (AppError, ParentAnswerRecord EdgeValue) result" where
  "truncated_answer_value js ej prepared a row =
     truncate_context_payload (mr_payload row) (\<lambda>payload.
       let value = context_value row a payload True
       in and_then (render_context ej a [] [] None (Some value)) (\<lambda>rendered. Inr (value, context_fits js prepared rendered)))"

section \<open>Selecting messages\<close>

record SelectedContext =
  sel_child_return_ids :: "rstr list"
  sel_parent_answer_ids :: "rstr list"
  sel_rendered :: "rstr option"

text \<open>The loop over the returns; the flag says that the lane is full.\<close>

fun select_returns :: "'v context_json \<Rightarrow> edge_json \<Rightarrow> 'v ModelMessage list \<times> u32 \<Rightarrow> ThreadRunAdmission \<Rightarrow>
    ChildReturnRecord list \<Rightarrow> ChildReturnRecord EdgeValue list \<Rightarrow> rstr list \<Rightarrow>
    (AppError, ChildReturnRecord EdgeValue list \<times> rstr list \<times> bool) result" where
  "select_returns js ej prepared a [] values ids = Inr (values, ids, False)"
| "select_returns js ej prepared a (row # rows) values ids =
     (let value = context_value row a (mr_payload row) False
      in and_then (render_context ej a values [] (Some value) None) (\<lambda>rendered.
         if context_fits js prepared rendered
         then select_returns js ej prepared a rows (values @ [value]) (ids @ [mr_message_id row])
         else if values = []
         then and_then (truncated_return_value js ej prepared a row) (\<lambda>value.
                Inr (values @ [value], ids @ [mr_message_id row], True))
         else Inr (values, ids, True)))"

fun select_answers :: "'v context_json \<Rightarrow> edge_json \<Rightarrow> 'v ModelMessage list \<times> u32 \<Rightarrow> ThreadRunAdmission \<Rightarrow>
    ChildReturnRecord EdgeValue list \<Rightarrow> ParentAnswerRecord list \<Rightarrow> ParentAnswerRecord EdgeValue list \<Rightarrow> rstr list \<Rightarrow>
    (AppError, ParentAnswerRecord EdgeValue list \<times> rstr list) result" where
  "select_answers js ej prepared a returns [] values ids = Inr (values, ids)"
| "select_answers js ej prepared a returns (row # rows) values ids =
     (let value = context_value row a (mr_payload row) False
      in and_then (render_context ej a returns values None (Some value)) (\<lambda>rendered.
         if context_fits js prepared rendered
         then select_answers js ej prepared a returns rows (values @ [value]) (ids @ [mr_message_id row])
         else if returns = [] \<and> values = []
         then and_then (truncated_answer_value js ej prepared a row) (\<lambda>value.
                Inr (values @ [value], ids @ [mr_message_id row]))
         else Inr (values, ids)))"

definition select_context :: "'v context_json \<Rightarrow> edge_json \<Rightarrow> 'v ModelMessage list \<times> u32 \<Rightarrow> ThreadRunAdmission \<Rightarrow>
    ChildReturnRecord list \<Rightarrow> ParentAnswerRecord list \<Rightarrow> (AppError, SelectedContext) result" where
  "select_context js ej prepared a returns answers =
     and_then (select_returns js ej prepared a returns [] []) (\<lambda>(return_values, return_ids, full).
     and_then (if full then Inr ([], []) else select_answers js ej prepared a return_values answers [] []) (\<lambda>(answer_values, answer_ids).
     and_then (if return_values = [] \<and> answer_values = [] then Inr None
               else and_then (render_context ej a return_values answer_values None None) (\<lambda>shown. Inr (Some shown))) (\<lambda>rendered.
       Inr \<lparr>sel_child_return_ids = return_ids, sel_parent_answer_ids = answer_ids, sel_rendered = rendered\<rparr>)))"

section \<open>Admission\<close>

datatype EdgeCall = AtStore | AtReturns | AtAnswers | AtAdmit

definition admit_spawn_edge_context :: "'v context_json \<Rightarrow> edge_json \<Rightarrow> rstr \<Rightarrow> (EdgeCall \<Rightarrow> msg_io) \<Rightarrow> u64 \<Rightarrow> RunIdentity \<Rightarrow>
    rstr \<Rightarrow> rstr \<Rightarrow> rstr \<Rightarrow> 'v ModelMessage list \<times> u32 \<Rightarrow> MessageStore \<Rightarrow>
    (('v ModelMessage list \<times> u32) \<times> MessageStore) \<times> (AppError, unit) result" where
  "admit_spawn_edge_context js ej workspace_id io now identity thread_id thread_turn_id run_id prepared s =
     (case identity of
        LegacyAgent _ \<Rightarrow> ((prepared, s), Inr ())
      | Profile profile_id profile_revision \<Rightarrow>
          let a = \<lparr>ad_run_id = run_id, ad_workspace_id = workspace_id, ad_profile_id = profile_id, ad_thread_id = thread_id,
                   ad_thread_turn_id = thread_turn_id, ad_profile_revision = profile_revision, ad_created_at_ms = now\<rparr>
          in case and_then (io AtStore) (\<lambda>_.
               and_then (available_child_returns (io AtReturns) s thread_id run_id) (\<lambda>returns.
               and_then (available_parent_answers (io AtAnswers) s thread_id run_id) (\<lambda>answers.
                 select_context js ej prepared a returns answers))) of
               Inl e \<Rightarrow> ((prepared, s), Inl e)
             | Inr selected \<Rightarrow>
                 (case admit_thread_run_and_reserve (io AtAdmit) a (sel_child_return_ids selected) (sel_parent_answer_ids selected) s of
                    (s, Inl e) \<Rightarrow> ((prepared, s), Inl e)
                  | (s, Inr _) \<Rightarrow>
                      (case sel_rendered selected of
                         None \<Rightarrow> ((prepared, s), Inr ())
                       | Some rendered \<Rightarrow>
                           (case add_spawn_edge_context js (fst prepared) (snd prepared) rendered of
                              (prepared, outcome) \<Rightarrow> ((prepared, s), outcome)))))"

section \<open>The search finds the longest prefix\<close>

lemma truncate_loop_step:
  assumes "low \<le> high" and "candidate (take (low + (high - low) div 2) payload) = Inr (value, fits)"
  shows "truncate_loop candidate payload low high best =
    (let middle = low + (high - low) div 2
     in if fits then truncate_loop candidate payload (middle + 1) high (Some value)
        else if middle = 0 then Inr best else truncate_loop candidate payload low (middle - 1) best)"
  by (subst truncate_loop.simps) (simp add: assms Let_def)

lemma truncate_loop_fits:
  "truncate_loop candidate payload low high best = Inr (Some v) \<Longrightarrow>
     best = Some v \<or> (\<exists>k. candidate (take k payload) = Inr (v, True))"
proof (induction "Suc high - low" arbitrary: low high best rule: less_induct)
  case less
  let ?m = "low + (high - low) div 2"
  show ?case
  proof (cases "low \<le> high")
    case True
    obtain x fits where c: "candidate (take ?m payload) = Inr (x, fits)"
      using less.prems True by (subst (asm) truncate_loop.simps) (auto simp: Let_def result_simps)
    note step = truncate_loop_step [of low high candidate payload x fits best, OF True c, unfolded less.prems Let_def]
    have "Suc high - (?m + 1) < Suc high - low" "?m \<noteq> 0 \<Longrightarrow> Suc (?m - 1) - low < Suc high - low" using True by linarith+
    then show ?thesis using step c less.hyps [of high "?m + 1" "Some x"] less.hyps [of "?m - 1" low best] by (auto split: if_splits)
  next
    case False
    then show ?thesis using less.prems by (subst (asm) truncate_loop.simps) simp
  qed
qed

lemma truncated_payload_fits:
  "truncate_context_payload payload candidate = Inr v \<Longrightarrow> \<exists>k. candidate (take k payload) = Inr (v, True)"
  by (auto simp: truncate_context_payload_def result_simps split: option.splits dest!: truncate_loop_fits)

text \<open>
  Where a shorter payload fits whenever a longer one does, the search returns the longest prefix that
  fits, and fails only if not even the empty payload does.
\<close>

lemma truncate_loop_longest:
  assumes "\<And>k. k \<le> length payload \<Longrightarrow> candidate (take k payload) = Inr (val k, ok k)"
    and "\<And>j k. j \<le> k \<Longrightarrow> k \<le> length payload \<Longrightarrow> ok k \<Longrightarrow> ok j"
  shows "high \<le> length payload \<Longrightarrow> (\<forall>j. high < j \<and> j \<le> length payload \<longrightarrow> \<not> ok j) \<Longrightarrow>
    (if low = 0 then best = None else ok (low - 1) \<and> low - 1 \<le> length payload \<and> best = Some (val (low - 1))) \<Longrightarrow>
    (\<exists>k \<le> length payload. ok k \<and> (\<forall>j. k < j \<and> j \<le> length payload \<longrightarrow> \<not> ok j) \<and>
       truncate_loop candidate payload low high best = Inr (Some (val k))) \<or>
    (\<not> ok 0 \<and> truncate_loop candidate payload low high best = Inr None)"
proof (induction "Suc high - low" arbitrary: low high best rule: less_induct)
  case less
  let ?m = "low + (high - low) div 2"
  show ?case
  proof (cases "low \<le> high")
    case True
    then have m: "low \<le> ?m" "?m \<le> high" "?m \<le> length payload" using less.prems(1) by auto
    show ?thesis
    proof (cases "ok ?m")
      case fits: True
      have "truncate_loop candidate payload low high best = truncate_loop candidate payload (?m + 1) high (Some (val ?m))"
        using truncate_loop_step [of low high candidate payload _ _ best, OF True assms(1) [OF m(3)]] fits by (simp add: Let_def)
      moreover have "Suc high - (?m + 1) < Suc high - low" using True m by linarith
      ultimately show ?thesis using less.hyps [of high "?m + 1" "Some (val ?m)"] less.prems m(3) fits by simp
    next
      case too_long: False
      have none: "\<forall>j. ?m - 1 < j \<and> j \<le> length payload \<longrightarrow> \<not> ok j"
      proof (intro allI impI notI)
        fix j assume j: "?m - 1 < j \<and> j \<le> length payload" and "ok j"
        moreover have "?m \<le> j" using j by linarith
        ultimately show False using assms(2) [of ?m j] too_long by simp
      qed
      show ?thesis
      proof (cases "?m = 0")
        case zero: True
        have "truncate_loop candidate payload low high best = Inr best"
          using truncate_loop_step [of low high candidate payload _ _ best, OF True assms(1) [OF m(3)]] zero too_long
          by (simp only: Let_def if_True if_False simp_thms)
        then show ?thesis using zero too_long less.prems(3) by auto
      next
        case False
        have "truncate_loop candidate payload low high best = truncate_loop candidate payload low (?m - 1) best"
          using truncate_loop_step [of low high candidate payload _ _ best, OF True assms(1) [OF m(3)]] False too_long
          by (simp only: Let_def if_False)
        moreover have "Suc (?m - 1) - low < Suc high - low" using True m False by linarith
        moreover have "?m - 1 \<le> length payload" using m(3) by linarith
        ultimately show ?thesis using less.hyps [of "?m - 1" low best, OF _ _ none less.prems(3)] by simp
      qed
    qed
  next
    case False
    then have "truncate_loop candidate payload low high best = Inr best" by (subst truncate_loop.simps) simp
    moreover have "0 < low" using False by simp
    ultimately show ?thesis
      using less.prems False by (intro disjI1 exI [of _ "low - 1"]) auto
  qed
qed

lemma truncation_longest:
  assumes "\<And>k. k \<le> length payload \<Longrightarrow> candidate (take k payload) = Inr (val k, ok k)"
    and "\<And>j k. j \<le> k \<Longrightarrow> k \<le> length payload \<Longrightarrow> ok k \<Longrightarrow> ok j" and "ok 0"
  shows "\<exists>k \<le> length payload. ok k \<and> (\<forall>j. k < j \<and> j \<le> length payload \<longrightarrow> \<not> ok j) \<and>
    truncate_context_payload payload candidate = Inr (val k)"
  using truncate_loop_longest [of payload candidate val ok "length payload" 0 None, OF assms(1,2)] assms(3)
  unfolding truncate_context_payload_def by fastforce

section \<open>What is selected\<close>

definition values_fit :: "'v context_json \<Rightarrow> edge_json \<Rightarrow> 'v ModelMessage list \<times> u32 \<Rightarrow> ThreadRunAdmission \<Rightarrow>
    ChildReturnRecord EdgeValue list \<Rightarrow> ParentAnswerRecord EdgeValue list \<Rightarrow> bool" where
  "values_fit js ej prepared a returns answers \<longleftrightarrow>
     (\<exists>shown. render_context ej a returns answers None None = Inr shown \<and> context_fits js prepared shown)"

lemma render_next:
  "render_context ej a returns answers (Some v) None = render_context ej a (returns @ [v]) answers None None"
  "render_context ej a returns answers None (Some w) = render_context ej a returns (answers @ [w]) None None"
  by (simp_all add: render_context_def)

lemma truncated_values_fit:
  "truncated_return_value js ej prepared a row = Inr v \<Longrightarrow> values_fit js ej prepared a [v] []"
  "truncated_answer_value js ej prepared a row' = Inr w \<Longrightarrow> values_fit js ej prepared a [] [w]"
  unfolding truncated_return_value_def truncated_answer_value_def
  by (auto simp: Let_def result_simps values_fit_def render_next dest!: truncated_payload_fits)

lemma select_returns_exact:
  "select_returns js ej prepared a rows vs ids = Inr (vs', ids', full) \<Longrightarrow> vs = [] \<or> values_fit js ej prepared a vs [] \<Longrightarrow>
     \<exists>n \<le> length rows. ids' = ids @ map mr_message_id (take n rows) \<and> length vs' = length vs + n \<and>
       (\<not> full \<longrightarrow> n = length rows) \<and> (vs = [] \<and> rows \<noteq> [] \<longrightarrow> 0 < n) \<and> (vs' = [] \<or> values_fit js ej prepared a vs' [])"
proof (induction rows arbitrary: vs ids)
  case (Cons row rows)
  let ?v = "context_value row a (mr_payload row) False"
  obtain shown where shown: "render_context ej a (vs @ [?v]) [] None None = Inr shown"
    using Cons.prems(1) by (auto simp: Let_def result_simps render_next)
  show ?case
  proof (cases "context_fits js prepared shown")
    case True
    then have "select_returns js ej prepared a rows (vs @ [?v]) (ids @ [mr_message_id row]) = Inr (vs', ids', full)"
      "values_fit js ej prepared a (vs @ [?v]) []"
      using Cons.prems(1) shown by (auto simp: Let_def render_next values_fit_def)
    from Cons.IH [OF this(1)] this(2) obtain n where "n \<le> length rows" "ids' = (ids @ [mr_message_id row]) @ map mr_message_id (take n rows)"
      "length vs' = Suc (length vs) + n" "\<not> full \<longrightarrow> n = length rows" "vs' = [] \<or> values_fit js ej prepared a vs' []" by auto
    then show ?thesis by (intro exI [of _ "Suc n"]) auto
  next
    case False
    then show ?thesis
      using Cons.prems shown
      by (cases "vs = []") (auto simp: Let_def render_next result_simps intro: exI [of _ "Suc 0"] exI [of _ 0] dest: truncated_values_fit)
  qed
qed auto

lemma select_answers_exact:
  "select_answers js ej prepared a rs rows vs ids = Inr (vs', ids') \<Longrightarrow> rs = [] \<and> vs = [] \<or> values_fit js ej prepared a rs vs \<Longrightarrow>
     \<exists>n \<le> length rows. ids' = ids @ map mr_message_id (take n rows) \<and> length vs' = length vs + n \<and>
       (rs = [] \<and> vs = [] \<and> rows \<noteq> [] \<longrightarrow> 0 < n) \<and> (rs = [] \<and> vs' = [] \<or> values_fit js ej prepared a rs vs')"
proof (induction rows arbitrary: vs ids)
  case (Cons row rows)
  let ?v = "context_value row a (mr_payload row) False"
  obtain shown where shown: "render_context ej a rs (vs @ [?v]) None None = Inr shown"
    using Cons.prems(1) by (auto simp: Let_def result_simps render_next)
  show ?case
  proof (cases "context_fits js prepared shown")
    case True
    then have "select_answers js ej prepared a rs rows (vs @ [?v]) (ids @ [mr_message_id row]) = Inr (vs', ids')"
      "values_fit js ej prepared a rs (vs @ [?v])"
      using Cons.prems(1) shown by (auto simp: Let_def render_next values_fit_def)
    from Cons.IH [OF this(1)] this(2) obtain n where "n \<le> length rows" "ids' = (ids @ [mr_message_id row]) @ map mr_message_id (take n rows)"
      "length vs' = Suc (length vs) + n" "rs = [] \<and> vs' = [] \<or> values_fit js ej prepared a rs vs'" by auto
    then show ?thesis by (intro exI [of _ "Suc n"]) auto
  next
    case False
    then show ?thesis
      using Cons.prems shown
      by (cases "rs = [] \<and> vs = []") (auto simp: Let_def render_next result_simps intro: exI [of _ "Suc 0"] exI [of _ 0] dest: truncated_values_fit)
  qed
qed auto

text \<open>
  The selection is the oldest messages, answers only after all returns; it is empty only where nothing
  waits, and what it renders fits the lane.
\<close>

lemma select_context_exact:
  assumes "select_context js ej prepared a returns answers = Inr sel"
  obtains n m where "n \<le> length returns" "m \<le> length answers"
    "sel_child_return_ids sel = map mr_message_id (take n returns)" "sel_parent_answer_ids sel = map mr_message_id (take m answers)"
    "0 < m \<longrightarrow> n = length returns" "n = 0 \<and> m = 0 \<longleftrightarrow> returns = [] \<and> answers = []"
    "case sel_rendered sel of None \<Rightarrow> n = 0 \<and> m = 0
     | Some shown \<Rightarrow> 0 < n + m \<and> context_fits js prepared shown \<and>
         (\<exists>body. shown = SPAWN_EDGE_CONTEXT_OPEN @ neutralize_context_closers body @ SPAWN_EDGE_CONTEXT_CLOSE)"
proof -
  obtain rv rids full av aids where r: "select_returns js ej prepared a returns [] [] = Inr (rv, rids, full)"
    and w: "(if full then Inr ([], []) else select_answers js ej prepared a rv answers [] []) = Inr (av, aids)"
    and out: "(if rv = [] \<and> av = [] then Inr None else and_then (render_context ej a rv av None None) (\<lambda>shown. Inr (Some shown)))
        = Inr (sel_rendered sel)" "sel_child_return_ids sel = rids" "sel_parent_answer_ids sel = aids"
    using assms by (auto simp: select_context_def result_simps split: prod.splits)
  obtain n where n: "n \<le> length returns" "rids = map mr_message_id (take n returns)" "length rv = n"
      "\<not> full \<longrightarrow> n = length returns" "returns \<noteq> [] \<longrightarrow> 0 < n" "rv = [] \<or> values_fit js ej prepared a rv []"
    using select_returns_exact [OF r] by auto
  have "\<exists>m \<le> length answers. aids = map mr_message_id (take m answers) \<and> length av = m \<and> (full \<longrightarrow> m = 0) \<and>
      (\<not> full \<and> rv = [] \<and> answers \<noteq> [] \<longrightarrow> 0 < m) \<and> (rv = [] \<and> av = [] \<or> values_fit js ej prepared a rv av)"
  proof (cases full)
    case False
    then show ?thesis using w n(6) select_answers_exact [of js ej prepared a rv answers "[]" "[]" av aids] by auto
  qed (use w n(6) in auto)
  then obtain m where m: "m \<le> length answers" "aids = map mr_message_id (take m answers)" "length av = m" "full \<longrightarrow> m = 0"
      "\<not> full \<and> rv = [] \<and> answers \<noteq> [] \<longrightarrow> 0 < m" "rv = [] \<and> av = [] \<or> values_fit js ej prepared a rv av"
    by blast
  have full_rv: "full \<Longrightarrow> rv \<noteq> []" using n(3,5) r by (cases returns) auto
  have rendered: "case sel_rendered sel of None \<Rightarrow> n = 0 \<and> m = 0
     | Some shown \<Rightarrow> 0 < n + m \<and> context_fits js prepared shown \<and>
         (\<exists>body. shown = SPAWN_EDGE_CONTEXT_OPEN @ neutralize_context_closers body @ SPAWN_EDGE_CONTEXT_CLOSE)"
    using out(1) m(3,6) n(3) by (auto simp: values_fit_def render_context_def result_simps split: if_splits option.splits)
  have "n = 0 \<and> m = 0 \<longleftrightarrow> returns = [] \<and> answers = []"
    using n(1,3,5) m(1,5) full_rv by auto
  then show thesis using that [of n m] n(1,2,4) m(1,2,4) out(2,3) rendered by auto
qed

section \<open>What is reserved\<close>

lemma held_by_reserve [simp]: "held_by a (reserve_row a r)"
  by (simp add: held_by_def reserve_row_def)

lemma addressed_reserve [simp]: "(\<And>r. address (reserve_row a r) = address r) \<Longrightarrow> addressed address m a (reserve_row a r) = addressed address m a r"
  by (simp add: addressed_def reserve_row_def)

context message_table
begin

lemma reserve_delivery_holds:
  assumes "reserve_delivery address m a new rows = Inr rows'"
  shows "(\<exists>r \<in> set rows'. addressed address m a r \<and> held_by a r) \<and>
    (\<forall>m' r. r \<in> set rows \<and> addressed address m' a r \<and> held_by a r \<longrightarrow> r \<in> set rows')"
proof -
  let ?hit = "\<lambda>r. new \<and> addressed address m a r \<and> mr_state r = Available"
  have rows': "rows' = map (\<lambda>r. if ?hit r then reserve_row a r else r) rows"
    and hit: "length (filter ?hit rows) = 1 \<or> list_ex (\<lambda>r. addressed address m a r \<and> held_by a r) rows'"
    using assms by (auto simp: reserve_delivery_def Let_def split: if_splits)
  have "\<exists>r \<in> set rows'. addressed address m a r \<and> held_by a r"
  proof (cases "list_ex (\<lambda>r. addressed address m a r \<and> held_by a r) rows'")
    case False
    then have "filter ?hit rows \<noteq> []" using hit by auto
    then obtain r where "r \<in> set rows" "?hit r" by (auto simp: filter_empty_conv)
    then have "reserve_row a r \<in> set rows'" "addressed address m a (reserve_row a r)" by (auto simp: rows')
    then show ?thesis using held_by_reserve by blast
  qed (auto simp: list_ex_iff)
  moreover have "r \<in> set rows'" if "r \<in> set rows" "held_by a r" for r
    using that by (auto simp: rows' held_by_def image_iff intro!: bexI [of _ r])
  ultimately show ?thesis by blast
qed

lemma reserve_deliveries_hold:
  "reserve_deliveries address ms a new rows = Inr rows' \<Longrightarrow>
     (\<forall>m \<in> set ms. \<exists>r \<in> set rows'. addressed address m a r \<and> held_by a r) \<and>
     (\<forall>m' r. r \<in> set rows \<and> addressed address m' a r \<and> held_by a r \<longrightarrow> r \<in> set rows')"
proof (induction ms arbitrary: rows)
  case (Cons m ms)
  then obtain mid where mid: "reserve_delivery address m a new rows = Inr mid" "reserve_deliveries address ms a new mid = Inr rows'"
    by (auto simp: result_simps)
  show ?case using reserve_delivery_holds [OF mid(1)] Cons.IH [OF mid(2)] by (metis set_ConsD)
qed simp

end

lemma admitted_holds:
  assumes "admit_thread_run_and_reserve io a rids aids s = (s', Inr ())"
  shows "(\<forall>m \<in> set rids. \<exists>r \<in> set (ms_returns s'). addressed mr_parent_thread_id m a r \<and> held_by a r) \<and>
    (\<forall>m \<in> set aids. \<exists>r \<in> set (ms_answers s'). addressed mr_child_thread_id m a r \<and> held_by a r)"
proof -
  have "\<exists>new. reserve_deliveries mr_parent_thread_id rids a new (ms_returns s) = Inr (ms_returns s') \<and>
      reserve_deliveries mr_child_thread_id aids a new (ms_answers s) = Inr (ms_answers s')"
    using assms by (auto simp: admit_thread_run_and_reserve_def Let_def result_simps split: sum.splits if_splits)
  then show ?thesis using ret.reserve_deliveries_hold ans.reserve_deliveries_hold by blast
qed

section \<open>The context of a run\<close>

lemma edge_close: "SPAWN_EDGE_CONTEXT_CLOSE = 10 # EDGE_CLOSE_PREFIX @ [62]" "Suc (length EDGE_CLOSE_PREFIX) = 30"
    "map to_ascii_lowercase (lit ''platonic_spawn_edge_context'') = lit ''platonic_spawn_edge_context''"
  by (code_simp, code_simp, code_simp)

lemma edge_open: "\<exists>start. SPAWN_EDGE_CONTEXT_OPEN = start @ [10] \<and> no_closer EDGE_CLOSE_PREFIX start"
proof -
  define rest where "rest = lit ''latonic_spawn_edge_context trust='' @ 34 # lit ''untrusted'' @ [34, 62]"
  have "SPAWN_EDGE_CONTEXT_OPEN = (60 # 112 # rest) @ [10]" unfolding rest_def by code_simp
  moreover have "60 \<notin> set rest" unfolding rest_def by code_simp
  then have "no_closer EDGE_CLOSE_PREFIX (112 # rest)" by (intro edge_tag.no_bracket_no_closer) simp
  moreover have "\<not> eq_closer EDGE_CLOSE_PREFIX (60 # 112 # rest)"
    by (rule edge_tag.not_closer) (simp add: to_ascii_lowercase_def)
  ultimately show ?thesis by (intro exI [of _ "60 # 112 # rest"]) (simp add: no_closer_Cons)
qed

lemma edge_context_closes_once:
  "eq_closer EDGE_CLOSE_PREFIX (drop i (SPAWN_EDGE_CONTEXT_OPEN @ neutralize_context_closers body @ SPAWN_EDGE_CONTEXT_CLOSE)) \<longleftrightarrow>
     i + 30 = length (SPAWN_EDGE_CONTEXT_OPEN @ neutralize_context_closers body @ SPAWN_EDGE_CONTEXT_CLOSE)"
proof -
  obtain start where start: "SPAWN_EDGE_CONTEXT_OPEN = start @ [10]" "no_closer EDGE_CLOSE_PREFIX start" using edge_open by blast
  show ?thesis
    using edge_tag.wrapped_closer [OF start(2) edge_tag.neutralized [of body] edge_close(3), of i]
    by (simp add: start(1) edge_close(1) neutralize_context_closers_def flip: edge_close(2))
qed

lemma edge_admission_cases:
  assumes "admit_spawn_edge_context js ej ws io now (Profile profile revision) thread_id turn_id run_id prepared s
      = ((prepared', s'), answer)"
    and "a = \<lparr>ad_run_id = run_id, ad_workspace_id = ws, ad_profile_id = profile, ad_thread_id = thread_id,
      ad_thread_turn_id = turn_id, ad_profile_revision = revision, ad_created_at_ms = now\<rparr>"
  obtains (failed) e where "s' = s" "prepared' = prepared" "answer = Inl e"
  | (admitted) sel where
      "select_context js ej prepared a (available_rows mr_parent_thread_id s thread_id run_id (ms_returns s))
         (available_rows mr_child_thread_id s thread_id run_id (ms_answers s)) = Inr sel"
      "admit_thread_run_and_reserve (io AtAdmit) a (sel_child_return_ids sel) (sel_parent_answer_ids sel) s = (s', Inr ())"
      "case sel_rendered sel of None \<Rightarrow> prepared' = prepared \<and> answer = Inr ()
       | Some shown \<Rightarrow> add_spawn_edge_context js (fst prepared) (snd prepared) shown = (prepared', answer)"
proof (cases "and_then (io AtStore) (\<lambda>_. and_then (available_child_returns (io AtReturns) s thread_id run_id) (\<lambda>returns.
    and_then (available_parent_answers (io AtAnswers) s thread_id run_id) (\<lambda>answers.
      select_context js ej prepared a returns answers)))")
  case (Inl e)
  then show ?thesis using assms failed by (auto simp: admit_spawn_edge_context_def)
next
  case (Inr sel)
  then have sel: "select_context js ej prepared a (available_rows mr_parent_thread_id s thread_id run_id (ms_returns s))
         (available_rows mr_child_thread_id s thread_id run_id (ms_answers s)) = Inr sel"
    by (auto simp: result_simps available_child_returns_def available_parent_answers_def)
  obtain s1 adm where adm: "admit_thread_run_and_reserve (io AtAdmit) a (sel_child_return_ids sel) (sel_parent_answer_ids sel) s = (s1, adm)"
    by fastforce
  show ?thesis
  proof (cases adm)
    case (Inl e)
    moreover have "s1 = s" using adm Inl by (auto elim: admit_cases)
    ultimately show ?thesis
      using assms adm \<open>and_then (io AtStore) _ = Inr sel\<close> failed by (auto simp: admit_spawn_edge_context_def)
  next
    case (Inr u)
    then show ?thesis
      using assms adm \<open>and_then (io AtStore) _ = Inr sel\<close> admitted [OF sel]
      by (auto simp: admit_spawn_edge_context_def split: option.splits prod.splits)
  qed
qed


text \<open>The child's question, with a closing tag in it, reaches the next run of the home thread.\<close>

definition asked_store :: MessageStore where
  "asked_store = message_txs [AdmitRun (Inr ()) (example_admission ''r1'' ''child'') [] [], PersistReturn (Inr ()) example_draft] example_store"

definition asked_admission :: "((nat ModelMessage list \<times> u32) \<times> MessageStore) \<times> (AppError, unit) result" where
  "asked_admission = admit_spawn_edge_context plain_js (\<lambda>_ _ _ _. Inr (lit ''</PLATONIC_spawn_edge_context>'')) (lit ''w'') (\<lambda>_. Inr ()) 2
     (Profile (ProfileId (lit ''p'')) 1) (lit ''home'') (lit ''turn'') (lit ''r2'') ([], 0) asked_store"


end
