(* ===== verification/Spec2Isabelle.thy ===== *)
theory Spec2Isabelle
  imports Run_End_To_End Context_Hydration File_Listing Wire_Enums Readback Session_Status Ledger_Recovery Thread_Authority Sentence_Cutter Prefetch_Window Interruption_Latch Neural_Vad Idempotency Provider_Stream Run_Events Edge_Context
begin

text \<open>
  A verification development of Platonic, a self-hosted agent server with a terminal client and a
  voice front end. Paths below are relative to \<open>src/crates\<close>.

  \<^bold>\<open>The program.\<close> A run answers one question. The driver (\<open>platonic-server/src/app\<close>) builds a
  context from the session's history, asks a model provider for a response, and, where the response
  proposes a tool call, evaluates a policy, obtains an approval if the policy requires one, executes
  the tool and feeds the output back, for a bounded number of turns. Everything the driver does is an
  event. A pure state machine (\<open>platonic-core/src/run.rs\<close>) accepts or rejects each event; a recorder
  (\<open>platonic-server/src/ledger\<close>) numbers the accepted events and stores them, in an SQLite database
  or in a JSON-lines log per run; readback, status and recovery replay the stored ledger. Runs belong
  to sessions, kept in the same database, and to threads, whose authority limits what the threads
  they spawn may do (\<open>thread_authority.rs\<close>). The daemon (\<open>platonic-server/src/daemon\<close>) serves many
  clients at once: its shared runtime admits, cancels and completes runs, steers messages into live
  threads, stops threads, answers approvals and pages out events. A gateway offers the daemon over HTTP
  with idempotent mutations. The voice front end (\<open>plato-audio/src/core\<close>) cuts the streamed answer into sentences,
  keeps a bounded window of synthesised sentences, reports what was spoken when the user interrupts,
  and endpoints the microphone.

  \<^bold>\<open>Shared vocabulary.\<close> \<open>Rust_Prelude\<close> has the fixed-width integers (\<open>u8\<close> to \<open>u64\<close> as words, with
  checked and saturating arithmetic), strings as lists of Unicode scalar values with the library
  functions the sources call, \<open>Result\<close> as a sum with the \<open>?\<close> operator \<open>and_then\<close>, and lists.
  \<open>Utf8_Codec\<close> is \<open>str::from_utf8\<close> and the bytes of a string, \<open>Unix_Path\<close> the components of
  \<open>std::path::Path\<close>, \<open>File_System\<close> a Unix file tree with symbolic links and the kernel's path walk
  under \<open>std::fs\<close>. A Rust panic is the value \<open>None\<close>, or \<open>Panic\<close> in the driver. JSON text
  (\<open>serde_json\<close>), clocks, disk and database failures, the provider, tools, approvers and the speech
  detector are parameters of the definitions that use them, so that each theorem holds for all of
  their behaviours that meet its hypotheses.

  \<^bold>\<open>The run state machine.\<close> \<open>Core_Types\<close> has the identifiers, policies, context packs, tools and
  events of \<open>platonic-core\<close>; the locale \<open>id_newtype\<close> is the contract of the identifier types.
  \<open>Event_Ledger\<close> is the theory of event-sourced machines, with the locale \<open>ledger_machine\<close> as the
  interface between a machine and whoever replays its ledgers. \<open>Run_Machine\<close> is \<open>RunState\<close>: \<open>transition\<close>
  has one clause per event, \<open>compaction_gate\<close> the pending-compaction check, \<open>run_apply\<close> is
  \<open>RunState::apply\<close> and \<open>pending_command\<close> what the host is to do next. \<open>Run_Spec\<close> specifies it by an
  inductive step relation and proves that \<open>run_apply\<close> implements exactly that relation, interprets
  \<open>ledger_machine\<close> and proves the well-formedness invariant; \<open>Run_History\<close> relates a state to the
  events before it, with an automaton for the life of one tool call; \<open>Run_Properties\<close> concludes that a
  recorded tool start is preceded by a proposal of the model and an allowing policy or a grant, that a
  finished run has settled its calls, that commands and accepted events agree and that no
  reachable state is stuck. \<open>Readback\<close> and \<open>Session_Status\<close> are the projections of
  \<open>platonic-core/src/projection.rs\<close> and of the server's session status.

  \<^bold>\<open>The ledgers.\<close> \<open>Voice_Stream\<close> has the server's errors and the validation of voice events, with the
  grammar it accepts. \<open>Ledger_Records\<close> has the versions, the identity check and the numbering of
  records. \<open>Session_Store\<close> is the SQLite ledger as lists of rows, one definition per transaction; the
  locale \<open>atomic_operation\<close> states what a transaction promises and is interpreted on each of them and on
  their sequence. \<open>Sqlite_Recorder\<close> and \<open>Jsonl_Ledger\<close> are the two recorders; their durability theorems
  range over any sequence of calls with failures anywhere, and say that what was acknowledged is what
  is read back. \<open>Ledger_Recovery\<close> closes the runs a dead daemon left open.

  \<^bold>\<open>The driver.\<close> \<open>Run_Loop\<close> is \<open>run_prepared_question\<close> with its helpers, as programs over a state of
  three parts: the world of the host, the recorder and the list of effects (acknowledged records and
  executed tool calls). A program returns a value, an error or a panic. \<open>Tool_Output\<close> is the wrapper
  around what the model sees of a tool, \<open>Context_Hydration\<close> the context a run sends and the budget it
  has to meet. \<open>Driver_Logic\<close> has the proof rules for driver programs, the definition of a licensed
  execution and the hypothesis \<open>host_ok\<close>: tools answer for the call they were given, the provider
  parser names only known tools, and the host reports no error of the core crate of its own.
  \<open>Run_Conformance\<close> states in the locale \<open>run_recorder\<close> what the driver relies on from a recorder and
  follows the driver through a turn, \<open>Run_Turns\<close> through the run. \<open>Run_Frame\<close> is the frame property of
  the driver: it reaches the recorder through three calls only. \<open>Run_Recorders\<close> is \<open>EventRecorder\<close>, both
  recorders behind one interface, and discharges the laws of both locales for it.
  \<open>Run_End_To_End\<close> draws the conclusions: executions are licensed and happen at most once, the driver
  never makes a move the machine forbids and never panics, an answer is the recorded answer of a
  finished run, and what is stored is what was acknowledged.

  \<^bold>\<open>Tools, threads, provider and gateway.\<close> \<open>Tool_Catalog\<close> is the catalogue, \<open>File_Tools\<close> and
  \<open>File_Listing\<close> the file tools and the guard of the workspace memory file over \<open>File_System\<close>: writes
  and reads stay inside the workspace, reading returns what was written, a listing does not depend on
  the enumeration order, and the guard is complete without symbolic links and bypassed with one.
  \<open>Thread_Authority\<close> has the authority records, the checks of a spawn and the absence of amplification
  along any lineage; \<open>Wire_Enums\<close> the protocol's string enumerations. \<open>Provider_Stream\<close> assembles a
  streamed response; \<open>Idempotency\<close> is the gateway's request store.

  \<^bold>\<open>The daemon.\<close> \<open>Event_Window\<close> is the locale of bounded event buffers with offsets, interpreted on a
  live thread's buffer and on a run's. \<open>Live_Thread\<close> is \<open>LiveThread\<close>: steered messages are delivered or
  discarded in the order they were accepted, and an observer that follows its cursor reads the published
  events without a gap. \<open>Daemon_Runtime\<close> has the operations of \<open>daemon/runtime\<close>. Run records and threads
  that the code shares through \<open>Arc\<close>s are indices into a heap, a \<open>HashMap\<close> is an association list, an
  operation is one function per critical section, and a wait on a condition variable is the result
  \<open>Waits\<close>. \<open>Daemon_Steps\<close> gives each critical section a label and considers every sequence of admissible
  labels; its locale \<open>daemon_invariant\<close> carries an invariant along such traces, and \<open>Daemon_Threads\<close>
  extends it with \<open>thread_invariant\<close> for the lifecycle of threads. \<open>Daemon_Properties\<close> concludes that a
  session has one active run, that the retention of terminal runs is bounded and evicts no active run,
  that a stop and a shutdown are final, and that a run binding to a stopping thread waits for the stop;
  two further theorems show what crossing workspaces does to a stopping thread and to a queued
  message. \<open>Daemon_Approvals\<close> has the approval and cancellation tables of the server store, the handler
  a paused run waits in and the requests that answer it: a run never sees a decision that the store
  does not hold, while a session-wide grant outlives a failed write of its record. \<open>Run_Events\<close> pages a
  run's events out of the buffer or the ledger.

  \<^bold>\<open>Messages between threads.\<close> \<open>Thread_Messages\<close> has the server store's tables of run admissions, child
  returns and parent answers, one definition per transaction; the two message tables share their
  delivery columns as a record scheme. \<open>Message_Delivery\<close> states in the locale \<open>message_table\<close> what a
  table offers to the transactions, interprets it on both and proves, for any sequence of transactions
  and failures, that messages are immutable, consumed at most once and reserved only by admitted runs of
  their thread. \<open>Thread_Returns\<close> is \<open>daemon/returns.rs\<close>: the tool calls and the reconciliation of a run
  with its ledger, which settles exactly the messages the run was given. \<open>Edge_Context\<close> selects the
  oldest waiting messages a run's token lane holds, by a binary search for the longest prefix where one
  message is too long, and shows that the run is given exactly what it reserves. \<open>Closing_Tags\<close> has the
  locale of the tagged wrappers around untrusted text, shared with \<open>Tool_Output\<close>.

  \<^bold>\<open>Voice.\<close> \<open>Sentence_Cutter\<close>, \<open>Prefetch_Window\<close> (with the locale \<open>ticket_queue\<close>),
  \<open>Interruption_Latch\<close> and \<open>Neural_Vad\<close> are the pure cores of \<open>plato-audio\<close>.

  \<^bold>\<open>Loops and bounds.\<close> No definition uses fuel. Loops are structural recursions or functions with a
  termination proof; the walk of a path decreases the kernel's limit of forty links, the driver's turns
  are the list from zero to the configured maximum, its retry wait is the number of polls the host
  grants, a wait in the daemon is a value of its own rather than a loop, and the sentence cutter's loop,
  whose end is not evident, is a partial function that is proved to return. Integers keep their width where the code relies on it (sequence numbers, token
  estimates, timestamps, sample counts, authority revisions); lengths of texts and lists are natural
  numbers, since they are bounded by the memory of the machine.

  \<^bold>\<open>Not modelled.\<close> The daemon's sockets and connection loop, its handlers other than those for approval,
  cancellation and event pages, the remaining queries of the server store, process supervision, the
  terminal interface, configuration files, device and inference workers, signal processing in floating
  point, the desktop and shell tools and the Discord gateway are effects on the host or glue around the parts above. Hard links, mounts, permissions and
  changes of the file tree by others during a call are outside \<open>File_System\<close>. Streamed deltas and
  output on standard error are not effects of the model. The descriptions and JSON schemas of tools
  are text sent to the provider.
\<close>

end
